(* ===== verification/Prelude.thy ===== *)
theory Prelude
  imports Main "HOL-Library.Word"
begin

unbundle bit_operations_syntax

text \<open>
  Shared vocabulary of the development: the named collections the component proofs
  draw on, the machine types of the C program (on an LP64 platform), the contract of an
  AVL comparison callback, and generic list lemmas.
\<close>

named_theorems node_bits
  \<open>laws of the packed word that holds a node's rank and balance factor\<close>
named_theorems zipper
  \<open>equations that push observations through a node's path to the root\<close>
named_theorems cstr
  \<open>facts about the C string functions\<close>

type_synonym u8 = "8 word"
type_synonym u32 = "32 word"
type_synonym u64 = "64 word"

text \<open>
  Comparison callbacks (\<open>avl_key_compare_fun_type\<close>) return a negative, zero or positive
  \<open>int\<close>. The tree code relies on them being a total preorder.
\<close>

locale key_compare =
  fixes cmp :: "'k \<Rightarrow> 'k \<Rightarrow> int"
  assumes cmp_self: "cmp x x = 0"
    and cmp_swap: "cmp x y < 0 \<longleftrightarrow> 0 < cmp y x"
    and cmp_trans: "cmp x y \<le> 0 \<Longrightarrow> cmp y z \<le> 0 \<Longrightarrow> cmp x z \<le> 0"
begin

lemma cmp_zero_swap: "cmp x y = 0 \<longleftrightarrow> cmp y x = 0"
  using cmp_swap [of x y] cmp_swap [of y x] by linarith

lemma cmp_le_swap: "cmp x y \<le> 0 \<longleftrightarrow> 0 \<le> cmp y x"
  using cmp_swap [of y x] by linarith

lemma cmp_less_trans1: "cmp x y < 0 \<Longrightarrow> cmp y z \<le> 0 \<Longrightarrow> cmp x z < 0"
  by (meson cmp_le_swap cmp_trans linorder_not_le)

lemma cmp_less_trans2: "cmp x y \<le> 0 \<Longrightarrow> cmp y z < 0 \<Longrightarrow> cmp x z < 0"
  by (meson cmp_le_swap cmp_trans linorder_not_le)

lemma cmp_zero_left: "cmp x y = 0 \<Longrightarrow> cmp x z < 0 \<longleftrightarrow> cmp y z < 0"
  by (metis cmp_less_trans2 cmp_zero_swap order_refl)

lemma cmp_zero_left_eq: "cmp x y = 0 \<Longrightarrow> cmp x z = 0 \<longleftrightarrow> cmp y z = 0"
  using cmp_trans [of x y z] cmp_trans [of y x z] cmp_zero_left [of x y z] cmp_zero_swap [of x y]
  by linarith

end

text \<open>Options and lists.\<close>

lemma option_eqI: "(\<And>x. a = Some x \<longleftrightarrow> b = Some x) \<Longrightarrow> a = b"
  by (cases a; cases b) auto

lemma takeWhile_split:
  assumes "\<And>x. x \<in> set xs \<Longrightarrow> P x" and "\<And>y. y \<in> set ys \<Longrightarrow> \<not> P y"
  shows "takeWhile P (xs @ ys) = xs" and "dropWhile P (xs @ ys) = ys"
  using assms by (cases ys; auto simp: takeWhile_append dropWhile_append3)+

lemma sorted_wrt_mid:
  "sorted_wrt R (xs @ x # ys) \<longleftrightarrow>
     sorted_wrt R xs \<and> sorted_wrt R ys \<and> (\<forall>a\<in>set xs. R a x \<and> (\<forall>b\<in>set ys. R a b)) \<and> (\<forall>b\<in>set ys. R x b)"
  by (auto simp: sorted_wrt_append)

end
