(* ===== verification/Avl_Node.thy ===== *)
theory Avl_Node
  imports Prelude
begin

text \<open>
  The nodes of \<open>avl/avl.c\<close>: the packed word \<open>rank_and_balance\<close> with its four access macros,
  the node structure, and the path from a node to the root. A child pointer is a subtree
  (\<open>Null\<close> is the null pointer); a parent pointer is the list of frames above a subtree,
  nearest parent first, whose end is the key-less header node \<open>tree->root\<close>.
  The theory ends with the two structural invariants of the tree, balance and rank,
  for subtrees and for paths.
\<close>

section \<open>The packed word\<close>

definition AVL_GET_BALANCE :: "u32 \<Rightarrow> int" where
  "AVL_GET_BALANCE w = sint ((w AND 3) - 1)"

definition AVL_GET_RANK :: "u32 \<Rightarrow> u32" where
  "AVL_GET_RANK w = drop_bit 2 w"

definition AVL_SET_BALANCE :: "u32 \<Rightarrow> int \<Rightarrow> u32" where
  "AVL_SET_BALANCE w b = (w AND NOT 3) OR word_of_int (b + 1)"

definition AVL_SET_RANK :: "u32 \<Rightarrow> u32 \<Rightarrow> u32" where
  "AVL_SET_RANK w r = (w AND 3) OR push_bit 2 r"

text \<open>The rank field has 30 bits, so rank arithmetic is arithmetic modulo \<open>2 ^ 30\<close>.\<close>

definition rank30 :: "u32 \<Rightarrow> 30 word" where
  "rank30 w = ucast (AVL_GET_RANK w)"

lemma three_mask: "(3 :: u32) = mask 2"
  by (simp add: mask_eq_exp_minus_1)

lemma get_balance_set_balance [node_bits]:
  "b \<in> {-1, 0, 1} \<Longrightarrow> AVL_GET_BALANCE (AVL_SET_BALANCE w b) = b"
  by (auto simp: AVL_GET_BALANCE_def AVL_SET_BALANCE_def bit.conj_disj_distrib2 word_bw_assocs)

lemma get_balance_set_rank [node_bits]:
  "AVL_GET_BALANCE (AVL_SET_RANK w r) = AVL_GET_BALANCE w"
proof -
  have "(w AND mask 2 OR push_bit 2 r) AND mask 2 = w AND mask 2"
    by (rule bit_word_eqI) (auto simp: bit_simps)
  then show ?thesis by (simp add: AVL_GET_BALANCE_def AVL_SET_RANK_def three_mask)
qed

lemma get_rank_set_balance [node_bits]:
  assumes "b \<in> {-1, 0, 1}"
  shows "AVL_GET_RANK (AVL_SET_BALANCE w b) = AVL_GET_RANK w"
proof -
  from assms have small: "(word_of_int (b + 1) :: u32) = take_bit 2 (word_of_int (b + 1))"
    by (auto simp: take_bit_eq_mod)
  have "drop_bit 2 ((w AND NOT (mask 2)) OR take_bit 2 v) = drop_bit 2 w" for v :: u32
    by (rule bit_word_eqI) (auto simp: bit_simps dest: bit_imp_le_length)
  then show ?thesis
    unfolding AVL_GET_RANK_def AVL_SET_BALANCE_def three_mask by (subst small) simp
qed

lemma rank30_set_balance [node_bits]:
  "b \<in> {-1, 0, 1} \<Longrightarrow> rank30 (AVL_SET_BALANCE w b) = rank30 w"
  by (simp add: rank30_def get_rank_set_balance)

lemma rank30_set_rank [node_bits]: "rank30 (AVL_SET_RANK w r) = ucast r"
proof -
  have "drop_bit 2 (w AND mask 2 OR push_bit 2 r) = take_bit 30 r"
    by (rule bit_word_eqI) (auto simp: bit_simps)
  then have "AVL_GET_RANK (AVL_SET_RANK w r) = take_bit 30 r"
    by (simp add: AVL_GET_RANK_def AVL_SET_RANK_def three_mask)
  then show ?thesis
    unfolding rank30_def by simp (rule bit_word_eqI, auto simp: bit_simps)
qed

lemma ucast30_word_of_int:
  "(word_of_int (uint (word_of_int i :: u32)) :: 30 word) = word_of_int i"
  by (rule word_of_int_eq_iff [THEN iffD2]) (simp add: uint_word_of_int_eq take_bit_take_bit)

lemma ucast30_add [node_bits]: "(ucast (a + b :: u32) :: 30 word) = ucast a + ucast b"
proof -
  have "a + b = word_of_int (uint a + uint b)" by simp
  then have "(word_of_int (uint (a + b)) :: 30 word) = word_of_int (uint a + uint b)"
    by (metis ucast30_word_of_int)
  then show ?thesis by (simp only: ucast_eq of_int_add)
qed

lemma ucast30_diff [node_bits]: "(ucast (a - b :: u32) :: 30 word) = ucast a - ucast b"
proof -
  have "a - b = word_of_int (uint a - uint b)" by simp
  then have "(word_of_int (uint (a - b)) :: 30 word) = word_of_int (uint a - uint b)"
    by (metis ucast30_word_of_int)
  then show ?thesis by (simp only: ucast_eq of_int_diff)
qed

lemma ucast30_get_rank [node_bits]: "ucast (AVL_GET_RANK w) = rank30 w"
  by (simp add: rank30_def)

lemma get_rank_rank30: "unat (AVL_GET_RANK w) = unat (rank30 w)"
proof -
  have "unat (drop_bit 2 w) = unat w div 2 ^ 2"
    by (simp only: unat_drop_bit_eq) (simp only: drop_bit_eq_div)
  moreover have "unat w < 2 ^ 32"
    using unsigned_less [of w, where 'a = nat] by simp
  ultimately have "unat (AVL_GET_RANK w) < 2 ^ 30"
    by (simp add: AVL_GET_RANK_def)
  then show ?thesis by (simp add: rank30_def unsigned_ucast_eq take_bit_eq_mod)
qed

section \<open>Nodes and paths\<close>

datatype 'k avl_node =
  Null
| Node (left: "'k avl_node") (key: 'k) (rank_and_balance: u32) (right: "'k avl_node")

text \<open>\<open>HoleL k w r\<close> is the parent of a left child, \<open>HoleR l k w\<close> that of a right child.\<close>

datatype 'k frame = HoleL 'k u32 "'k avl_node" | HoleR "'k avl_node" 'k u32

type_synonym 'k path = "'k frame list"

definition avl_node_new :: "'k \<Rightarrow> 'k avl_node" where
  "avl_node_new k = Node Null k (AVL_SET_RANK (AVL_SET_BALANCE 0 0) 1) Null"

text \<open>Walking from a subtree up to the header node and reading the whole tree off.\<close>

fun plug :: "'k path \<Rightarrow> 'k avl_node \<Rightarrow> 'k avl_node" where
  "plug [] t = t"
| "plug (HoleL k w r # c) t = plug c (Node t k w r)"
| "plug (HoleR l k w # c) t = plug c (Node l k w t)"

fun inorder :: "'k avl_node \<Rightarrow> 'k list" where
  "inorder Null = []"
| "inorder (Node l k w r) = inorder l @ k # inorder r"

fun height :: "'k avl_node \<Rightarrow> nat" where
  "height Null = 0"
| "height (Node l k w r) = Suc (max (height l) (height r))"

fun node_count :: "'k avl_node \<Rightarrow> nat" where
  "node_count Null = 0"
| "node_count (Node l k w r) = Suc (node_count l + node_count r)"

text \<open>The keys to the left and to the right of a hole, in order.\<close>

fun before :: "'k path \<Rightarrow> 'k list" where
  "before [] = []"
| "before (HoleL k w r # c) = before c"
| "before (HoleR l k w # c) = before c @ inorder l @ [k]"

fun after :: "'k path \<Rightarrow> 'k list" where
  "after [] = []"
| "after (HoleL k w r # c) = k # inorder r @ after c"
| "after (HoleR l k w # c) = after c"

lemma inorder_plug [zipper]: "inorder (plug c t) = before c @ inorder t @ after c"
  by (induction c t rule: plug.induct) auto

lemma before_append [zipper]: "before (c @ d) = before d @ before c"
  by (induction c rule: before.induct) auto

lemma after_append [zipper]: "after (c @ d) = after c @ after d"
  by (induction c rule: after.induct) auto

lemma plug_append [zipper]: "plug (c @ d) t = plug d (plug c t)"
  by (induction c t rule: plug.induct) auto

lemma length_inorder: "length (inorder t) = node_count t"
  by (induction t) auto

lemma inorder_Nil [simp]: "inorder t = [] \<longleftrightarrow> t = Null"
  by (cases t) auto

lemma height_0 [simp]: "height t = 0 \<longleftrightarrow> t = Null"
  by (cases t) auto

section \<open>Balance\<close>

fun balanced :: "'k avl_node \<Rightarrow> bool" where
  "balanced Null = True"
| "balanced (Node l k w r) =
     (AVL_GET_BALANCE w = int (height r) - int (height l) \<and> AVL_GET_BALANCE w \<in> {-1, 0, 1} \<and>
      balanced l \<and> balanced r)"

text \<open>\<open>path_balanced c h\<close>: putting a balanced subtree of height \<open>h\<close> in the hole gives a balanced tree.\<close>

fun path_balanced :: "'k path \<Rightarrow> nat \<Rightarrow> bool" where
  "path_balanced [] h = True"
| "path_balanced (HoleL k w r # c) h =
     (AVL_GET_BALANCE w = int (height r) - int h \<and> AVL_GET_BALANCE w \<in> {-1, 0, 1} \<and>
      balanced r \<and> path_balanced c (Suc (max h (height r))))"
| "path_balanced (HoleR l k w # c) h =
     (AVL_GET_BALANCE w = int h - int (height l) \<and> AVL_GET_BALANCE w \<in> {-1, 0, 1} \<and>
      balanced l \<and> path_balanced c (Suc (max (height l) h)))"

lemma balanced_plug [zipper]:
  "balanced (plug c t) \<longleftrightarrow> balanced t \<and> path_balanced c (height t)"
  by (induction c t rule: plug.induct) auto

section \<open>Ranks\<close>

text \<open>A node's rank is one more than the number of nodes in its left subtree.\<close>

fun ranked :: "'k avl_node \<Rightarrow> bool" where
  "ranked Null = True"
| "ranked (Node l k w r) = (rank30 w = of_nat (Suc (node_count l)) \<and> ranked l \<and> ranked r)"

fun path_ranked :: "'k path \<Rightarrow> nat \<Rightarrow> bool" where
  "path_ranked [] n = True"
| "path_ranked (HoleL k w r # c) n =
     (rank30 w = of_nat (Suc n) \<and> ranked r \<and> path_ranked c (Suc (n + node_count r)))"
| "path_ranked (HoleR l k w # c) n =
     (rank30 w = of_nat (Suc (node_count l)) \<and> ranked l \<and> path_ranked c (Suc (node_count l + n)))"

lemma ranked_plug [zipper]:
  "ranked (plug c t) \<longleftrightarrow> ranked t \<and> path_ranked c (node_count t)"
  by (induction c t rule: plug.induct) auto

lemma ranked_rank_value:
  assumes "ranked (Node l k w r)" and "node_count l < 2 ^ 30 - 1"
  shows "unat (AVL_GET_RANK w) = Suc (node_count l)"
proof -
  from assms(1) have "unat (rank30 w) = Suc (node_count l) mod 2 ^ 30"
    by (simp add: unat_of_nat del: of_nat_Suc)
  with assms(2) show ?thesis by (simp add: get_rank_rank30)
qed

lemma avl_node_new_ok:
  "balanced (avl_node_new k)" "ranked (avl_node_new k)" "inorder (avl_node_new k) = [k]"
  "height (avl_node_new k) = 1" "node_count (avl_node_new k) = 1"
  by (simp_all add: avl_node_new_def node_bits)

end
