(* ===== verification/Avl_Insert.thy ===== *)
theory Avl_Insert
  imports Avl_Node
begin

text \<open>
  \<open>avl_insert\<close> of \<open>avl/avl.c\<close>: the descent that raises ranks and remembers the lowest
  unbalanced node \<open>s\<close>, the adjustment of the balance factors below \<open>s\<close>, and the balancing
  act with its single and double rotations. The last section proves that insertion keeps
  order, balance and ranks and puts the new key in front of its equals.
\<close>

section \<open>The tree and its rotations\<close>

text \<open>
  \<open>root\<close> is the right child of the header node \<open>tree->root\<close>, which carries no key; the other
  fields are those of \<open>struct _avl_tree\<close>. The comparison function already has its
  \<open>compare_arg\<close>, which no caller in the program uses.
\<close>

record 'k avl_tree =
  root :: "'k avl_node"
  tree_height :: u32
  tree_length :: u32
  compare_fun :: "'k \<Rightarrow> 'k \<Rightarrow> int"

definition avl_tree_new :: "('k \<Rightarrow> 'k \<Rightarrow> int) \<Rightarrow> 'k avl_tree" where
  "avl_tree_new compare =
     \<lparr>root = Null, tree_height = 0, tree_length = 0, compare_fun = compare\<rparr>"

fun balance_of :: "'k avl_node \<Rightarrow> int" where
  "balance_of Null = 0"
| "balance_of (Node l k w r) = AVL_GET_BALANCE w"

fun set_bal :: "int \<Rightarrow> 'k avl_node \<Rightarrow> 'k avl_node" where
  "set_bal b Null = Null"
| "set_bal b (Node l k w r) = Node l k (AVL_SET_BALANCE w b) r"

fun set_bal_left :: "int \<Rightarrow> 'k avl_node \<Rightarrow> 'k avl_node" where
  "set_bal_left b Null = Null"
| "set_bal_left b (Node l k w r) = Node (set_bal b l) k w r"

fun set_bal_right :: "int \<Rightarrow> 'k avl_node \<Rightarrow> 'k avl_node" where
  "set_bal_right b Null = Null"
| "set_bal_right b (Node l k w r) = Node l k w (set_bal b r)"

text \<open>
  Pointer moves and rank updates of the rotations, balance factors apart. The last
  equation of each stands for the dereference of a null child, which no balanced tree
  reaches.
\<close>

fun rotate_right :: "'k avl_node \<Rightarrow> 'k avl_node" where
  "rotate_right (Node (Node rl rk rw rr) sk sw sr) =
     Node rl rk rw (Node rr sk (AVL_SET_RANK sw (AVL_GET_RANK sw - AVL_GET_RANK rw)) sr)"
| "rotate_right t = t"

fun rotate_left :: "'k avl_node \<Rightarrow> 'k avl_node" where
  "rotate_left (Node sl sk sw (Node rl rk rw rr)) =
     Node (Node sl sk sw rl) rk (AVL_SET_RANK rw (AVL_GET_RANK rw + AVL_GET_RANK sw)) rr"
| "rotate_left t = t"

fun double_rotate_right :: "'k avl_node \<Rightarrow> 'k avl_node" where
  "double_rotate_right (Node (Node rl rk rw (Node pl pk pw pr)) sk sw sr) =
     (let pw' = AVL_SET_RANK pw (AVL_GET_RANK pw + AVL_GET_RANK rw);
          sw' = AVL_SET_RANK sw (AVL_GET_RANK sw - AVL_GET_RANK pw')
      in Node (Node rl rk rw pl) pk pw' (Node pr sk sw' sr))"
| "double_rotate_right t = t"

fun double_rotate_left :: "'k avl_node \<Rightarrow> 'k avl_node" where
  "double_rotate_left (Node sl sk sw (Node (Node pl pk pw pr) rk rw rr)) =
     (let rw' = AVL_SET_RANK rw (AVL_GET_RANK rw - AVL_GET_RANK pw);
          pw' = AVL_SET_RANK pw (AVL_GET_RANK pw + AVL_GET_RANK sw)
      in Node (Node sl sk sw pl) pk pw' (Node pr rk rw' rr))"
| "double_rotate_left t = t"

section \<open>Insertion\<close>

text \<open>
  The descent. \<open>p\<close> is the current node, \<open>c\<close> its path, and the pointer \<open>s\<close> is given by its
  depth, the length of its own path. A step to the left raises the rank of \<open>p\<close>. The result
  is the path of the new leaf and \<open>s\<close>.
\<close>

fun insert_descend ::
  "('k \<Rightarrow> 'k \<Rightarrow> int) \<Rightarrow> 'k \<Rightarrow> 'k avl_node \<Rightarrow> 'k path \<Rightarrow> nat \<Rightarrow> 'k path \<times> nat" where
  "insert_descend cmp k Null c s = (c, s)"
| "insert_descend cmp k (Node l x w r) c s =
     (if cmp k x < 1 then
        let c' = HoleL x (AVL_SET_RANK w (AVL_GET_RANK w + 1)) r # c
        in insert_descend cmp k l c' (if balance_of l \<noteq> 0 then length c' else s)
      else
        let c' = HoleR l x w # c
        in insert_descend cmp k r c' (if balance_of r \<noteq> 0 then length c' else s))"

text \<open>The loop \<open>while (p != q)\<close> sets the balance factor of each node strictly between \<open>s\<close> and the leaf.\<close>

fun adjust_frame :: "('k \<Rightarrow> 'k \<Rightarrow> int) \<Rightarrow> 'k \<Rightarrow> 'k frame \<Rightarrow> 'k frame" where
  "adjust_frame cmp k (HoleL x w r) =
     HoleL x (AVL_SET_BALANCE w (if cmp k x < 1 then -1 else 1)) r"
| "adjust_frame cmp k (HoleR l x w) =
     HoleR l x (AVL_SET_BALANCE w (if cmp k x < 1 then -1 else 1))"

text \<open>
  The balancing act at \<open>s\<close>, whose frame is given with its child \<open>r\<close> on the search path;
  \<open>q\<close> is the new leaf. The result is the new subtree (\<open>p\<close> after the rotation) and
  whether the tree grew.
\<close>

fun frame_key :: "'k frame \<Rightarrow> 'k" where
  "frame_key (HoleL x w r) = x"
| "frame_key (HoleR l x w) = x"

definition double_balances :: "int \<Rightarrow> int \<Rightarrow> int \<times> int" where
  "double_balances a b = (if b = a then (- a, 0) else if b = - a then (0, a) else (0, 0))"

definition balancing_act ::
  "('k \<Rightarrow> 'k \<Rightarrow> int) \<Rightarrow> 'k \<Rightarrow> 'k frame \<Rightarrow> 'k avl_node \<Rightarrow> 'k avl_node \<Rightarrow> 'k avl_node \<times> bool" where
  "balancing_act cmp k sf q r =
     (let s = plug [sf] r;
          a = (if cmp k (frame_key sf) < 1 then -1 else 1)
      in if balance_of s = 0 then (set_bal a s, True)
         else if balance_of s = - a then (set_bal 0 s, False)
         else if balance_of s = a then
           (if balance_of r = a then
              (if a = -1 then set_bal 0 (set_bal_right 0 (rotate_right s))
               else set_bal 0 (set_bal_left 0 (rotate_left s)), False)
            else if balance_of r = - a then
              (if a = -1 then
                 let p = double_rotate_right s; (bs, br) = double_balances a (balance_of p)
                 in set_bal 0 (set_bal_left br (set_bal_right bs p))
               else
                 let p = double_rotate_left s; (bs, br) = double_balances a (balance_of p)
                 in set_bal 0 (set_bal_left bs (set_bal_right br p)), False)
            else (q, False))
         else (s, False))"

text \<open>
  \<open>mem\<close> tells whether \<open>malloc\<close> delivers the new node. Without memory the code returns -1
  after it has already raised the ranks on the way down.
\<close>

definition avl_insert :: "bool \<Rightarrow> 'k avl_tree \<Rightarrow> 'k \<Rightarrow> int \<times> 'k avl_tree" where
  "avl_insert mem ob k =
     (case root ob of
        Null \<Rightarrow>
          if mem then (0, ob\<lparr>root := avl_node_new k, tree_length := tree_length ob + 1\<rparr>)
          else (-1, ob)
      | Node _ _ _ _ \<Rightarrow>
          let (c, s) = insert_descend (compare_fun ob) k (root ob) [] 0
          in if \<not> mem then (-1, ob\<lparr>root := plug c Null\<rparr>)
             else
               let n = length c - Suc s;
                   r = plug (map (adjust_frame (compare_fun ob) k) (take n c)) (avl_node_new k);
                   (p, grew) = balancing_act (compare_fun ob) k (c ! n) (avl_node_new k) r
               in (0, ob\<lparr>root := plug (drop (Suc n) c) p,
                         tree_length := tree_length ob + 1,
                         tree_height := (if grew then tree_height ob + 1 else tree_height ob)\<rparr>))"

section \<open>Shape of the search path\<close>

fun frame_balance :: "'k frame \<Rightarrow> int" where
  "frame_balance (HoleL x w r) = AVL_GET_BALANCE w"
| "frame_balance (HoleR l x w) = AVL_GET_BALANCE w"

text \<open>A frame of the search path for \<open>k\<close> leads to the side the comparison chose.\<close>

fun on_search_path :: "('k \<Rightarrow> 'k \<Rightarrow> int) \<Rightarrow> 'k \<Rightarrow> 'k frame \<Rightarrow> bool" where
  "on_search_path cmp k (HoleL x w r) \<longleftrightarrow> cmp k x < 1"
| "on_search_path cmp k (HoleR l x w) \<longleftrightarrow> \<not> cmp k x < 1"

lemma insert_descend_inorder:
  "insert_descend cmp k p c s = (c', s') \<Longrightarrow> before c' @ after c' = before c @ inorder p @ after c"
  by (induction cmp k p c s arbitrary: c' s' rule: insert_descend.induct)
    (auto simp: Let_def split: if_splits)

lemma insert_descend_on_path:
  "insert_descend cmp k p c s = (c', s') \<Longrightarrow> \<forall>f\<in>set c. on_search_path cmp k f
    \<Longrightarrow> \<forall>f\<in>set c'. on_search_path cmp k f"
  by (induction cmp k p c s arbitrary: c' s' rule: insert_descend.induct)
    (auto simp: Let_def split: if_splits)

lemma insert_descend_balanced:
  "insert_descend cmp k p c s = (c', s') \<Longrightarrow> balanced p \<Longrightarrow> path_balanced c (height p)
    \<Longrightarrow> path_balanced c' 0"
  by (induction cmp k p c s arbitrary: c' s' rule: insert_descend.induct)
    (auto simp: Let_def node_bits split: if_splits)

lemma insert_descend_ranked:
  "insert_descend cmp k p c s = (c', s') \<Longrightarrow> ranked p \<Longrightarrow> path_ranked c (Suc (node_count p))
    \<Longrightarrow> path_ranked c' 1"
  by (induction cmp k p c s arbitrary: c' s' rule: insert_descend.induct)
    (auto simp: Let_def node_bits add_ac split: if_splits)

text \<open>What the descent establishes about \<open>s\<close>: it lies on the path, everything below it is in
  perfect balance, and it is itself out of balance unless it is the root.\<close>

definition lowest_unbalanced :: "'k path \<Rightarrow> nat \<Rightarrow> bool" where
  "lowest_unbalanced c s \<longleftrightarrow>
     s < length c \<and> (\<forall>f\<in>set (take (length c - Suc s) c). frame_balance f = 0) \<and>
     (s \<noteq> 0 \<longrightarrow> frame_balance (c ! (length c - Suc s)) \<noteq> 0)"

lemma lowest_unbalanced_Cons:
  assumes "lowest_unbalanced c s" and "frame_balance f = 0"
  shows "lowest_unbalanced (f # c) s"
proof -
  from assms(1) have "length (f # c) - Suc s = Suc (length c - Suc s)"
    by (simp add: lowest_unbalanced_def Suc_diff_Suc)
  with assms show ?thesis by (auto simp: lowest_unbalanced_def)
qed

lemma lowest_unbalanced_new:
  "(length c \<noteq> 0 \<longrightarrow> frame_balance f \<noteq> 0) \<Longrightarrow> lowest_unbalanced (f # c) (length c)"
  by (simp add: lowest_unbalanced_def)

lemma insert_descend_lowest:
  assumes "insert_descend cmp k p c s = (c', s')" and "p \<noteq> Null \<or> c \<noteq> []"
    and "(s = length c \<and> (c \<noteq> [] \<longrightarrow> balance_of p \<noteq> 0)) \<or> (lowest_unbalanced c s \<and> balance_of p = 0)"
  shows "lowest_unbalanced c' s'"
  using assms
proof (induction cmp k p c s arbitrary: c' s' rule: insert_descend.induct)
  case (1 cmp k c s)
  then show ?case by auto
next
  case (2 cmp k l x w r c s)
  have step: "lowest_unbalanced (f # c) s" if "frame_balance f = AVL_GET_BALANCE w" for f
    using "2.prems"(3) that by (auto intro: lowest_unbalanced_Cons lowest_unbalanced_new)
  show ?case
  proof (cases "cmp k x < 1")
    case True
    show ?thesis
      using "2.prems"(1) True step
      by (intro "2.IH"(1) [OF True refl, of c' s']) (auto simp: Let_def node_bits)
  next
    case False
    show ?thesis
      using "2.prems"(1) False step
      by (intro "2.IH"(2) [OF False refl, of c' s']) (auto simp: Let_def)
  qed
qed

section \<open>Below the lowest unbalanced node\<close>

lemma adjust_path [zipper]:
  "before (map (adjust_frame cmp k) c) = before c"
  "after (map (adjust_frame cmp k) c) = after c"
  "path_ranked (map (adjust_frame cmp k) c @ d) n = path_ranked (c @ d) n"
  by (induction c n rule: path_ranked.induct) (auto simp: node_bits)

text \<open>
  Below \<open>s\<close> every factor was zero, so the new leaf makes every node there lean to its side
  and the subtree one higher.
\<close>

lemma adjusted_subtree:
  assumes "\<forall>f\<in>set c. frame_balance f = 0 \<and> on_search_path cmp k f"
    and "path_balanced (c @ d) h" and "balanced t" and "height t = Suc h"
  shows "balanced (plug (map (adjust_frame cmp k) c) t) \<and>
         height (plug (map (adjust_frame cmp k) c) t) = Suc (h + length c) \<and>
         path_balanced d (h + length c) \<and>
         (c \<noteq> [] \<longrightarrow> balance_of (plug (map (adjust_frame cmp k) c) t) \<in> {-1, 1})"
  using assms
proof (induction c arbitrary: h t)
  case Nil
  then show ?case by simp
next
  case (Cons f c)
  let ?t = "plug [adjust_frame cmp k f] t"
  have "path_balanced (c @ d) (Suc h)" "balanced ?t" "height ?t = Suc (Suc h)" "balance_of ?t \<in> {-1, 1}"
    using Cons.prems by (cases f; auto simp: node_bits max_def)+
  moreover have "plug (map (adjust_frame cmp k) (f # c)) t = plug (map (adjust_frame cmp k) c) ?t"
    by (cases f) auto
  ultimately show ?case
    using Cons.IH [of "Suc h" ?t] Cons.prems(1) by (cases c) auto
qed

section \<open>The balancing act\<close>

lemma set_bal_keeps [simp]:
  "inorder (set_bal b t) = inorder t" "inorder (set_bal_left b t) = inorder t"
  "inorder (set_bal_right b t) = inorder t" "node_count (set_bal b t) = node_count t"
  "node_count (set_bal_left b t) = node_count t" "node_count (set_bal_right b t) = node_count t"
  "height (set_bal b t) = height t"
proof -
  show node: "inorder (set_bal b t) = inorder t" "node_count (set_bal b t) = node_count t"
    "height (set_bal b t) = height t" for t :: "'a avl_node"
    by (cases t; simp)+
  show "inorder (set_bal_left b t) = inorder t" "inorder (set_bal_right b t) = inorder t"
    "node_count (set_bal_left b t) = node_count t" "node_count (set_bal_right b t) = node_count t"
    by (cases t; simp add: node)+
qed

lemma set_bal_ranked:
  assumes "b \<in> {-1, 0, 1}"
  shows "ranked (set_bal b t) = ranked t" "ranked (set_bal_left b t) = ranked t"
    "ranked (set_bal_right b t) = ranked t"
proof -
  show node: "ranked (set_bal b t) = ranked t" for t :: "'a avl_node"
    using assms by (cases t) (simp_all only: set_bal.simps ranked.simps rank30_set_balance)
  show "ranked (set_bal_left b t) = ranked t" "ranked (set_bal_right b t) = ranked t"
    by (cases t; simp add: node)+
qed

lemma rotations_inorder [simp]:
  "inorder (rotate_right t) = inorder t" "inorder (rotate_left t) = inorder t"
  "inorder (double_rotate_right t) = inorder t" "inorder (double_rotate_left t) = inorder t"
proof -
  show "inorder (rotate_right t) = inorder t" by (cases t rule: rotate_right.cases) simp_all
  show "inorder (rotate_left t) = inorder t" by (cases t rule: rotate_left.cases) simp_all
  show "inorder (double_rotate_right t) = inorder t"
    by (cases t rule: double_rotate_right.cases) (simp_all add: Let_def)
  show "inorder (double_rotate_left t) = inorder t"
    by (cases t rule: double_rotate_left.cases) (simp_all add: Let_def)
qed

lemma rotations_count [simp]:
  "node_count (rotate_right t) = node_count t" "node_count (rotate_left t) = node_count t"
  "node_count (double_rotate_right t) = node_count t" "node_count (double_rotate_left t) = node_count t"
  by (simp_all flip: length_inorder)

lemma rotations_ranked:
  assumes "ranked t"
  shows "ranked (rotate_right t)" "ranked (rotate_left t)"
    "ranked (double_rotate_right t)" "ranked (double_rotate_left t)"
proof -
  show "ranked (rotate_right t)"
    using assms by (cases t rule: rotate_right.cases) (simp_all add: node_bits)
  show "ranked (rotate_left t)"
    using assms by (cases t rule: rotate_left.cases) (simp_all add: node_bits)
  show "ranked (double_rotate_right t)"
    using assms by (cases t rule: double_rotate_right.cases) (simp_all add: Let_def node_bits)
  show "ranked (double_rotate_left t)"
    using assms by (cases t rule: double_rotate_left.cases) (simp_all add: Let_def node_bits)
qed

text \<open>The new subtree holds the same keys, and its ranks are right if those of \<open>s\<close> were.\<close>

lemma balancing_act_keeps:
  assumes "balancing_act cmp k sf q r = (p, grew)"
    and "balance_of (plug [sf] r) = 0 \<or> balance_of r \<in> {-1, 1} \<or>
         balance_of (plug [sf] r) = (if cmp k (frame_key sf) < 1 then 1 else -1)"
  shows "inorder p = inorder (plug [sf] r)" and "ranked (plug [sf] r) \<Longrightarrow> ranked p"
  using assms
  by (auto simp: balancing_act_def Let_def set_bal_ranked rotations_ranked double_balances_def
      split: if_splits)

text \<open>A subtree two higher than its sibling is repaired by a rotation; \<open>w\<close> is the stale balance word.\<close>

lemma single_right_balanced:
  assumes "balanced l" "balanced r" "height l = height r + 2" "balance_of l = -1"
    and "t = set_bal 0 (set_bal_right 0 (rotate_right (Node l k w r)))"
  shows "balanced t \<and> height t = height r + 2"
  using assms by (cases l) (auto simp: node_bits)

lemma single_left_balanced:
  assumes "balanced l" "balanced r" "height r = height l + 2" "balance_of r = 1"
    and "t = set_bal 0 (set_bal_left 0 (rotate_left (Node l k w r)))"
  shows "balanced t \<and> height t = height l + 2"
  using assms by (cases r) (auto simp: node_bits)

lemma double_right_balanced:
  assumes "balanced l" "balanced r" "height l = height r + 2" "balance_of l = 1"
    and "p = double_rotate_right (Node l k w r)" "double_balances (-1) (balance_of p) = (bs, br)"
    and "t = set_bal 0 (set_bal_left br (set_bal_right bs p))"
  shows "balanced t \<and> height t = height r + 2"
proof -
  from assms obtain ll lk lw pl pk pw pr where l: "l = Node ll lk lw (Node pl pk pw pr)"
    by (cases l; cases "right l") auto
  show ?thesis using assms(1-4) assms(5-7) [unfolded l]
    by (auto simp: l Let_def node_bits double_balances_def split: if_splits)
qed

lemma double_left_balanced:
  assumes "balanced l" "balanced r" "height r = height l + 2" "balance_of r = -1"
    and "p = double_rotate_left (Node l k w r)" "double_balances 1 (balance_of p) = (bs, br)"
    and "t = set_bal 0 (set_bal_left bs (set_bal_right br p))"
  shows "balanced t \<and> height t = height l + 2"
proof -
  from assms obtain rr rk rw pl pk pw pr where r: "r = Node (Node pl pk pw pr) rk rw rr"
    by (cases r; cases "left r") auto
  show ?thesis using assms(1-4) assms(5-7) [unfolded r]
    by (auto simp: r Let_def node_bits double_balances_def split: if_splits)
qed

lemma balancing_act_balanced:
  assumes act: "balancing_act cmp k sf q r = (p, grew)"
    and "on_search_path cmp k sf" and "path_balanced (sf # c) h"
    and "balanced r" and "height r = Suc h" and "h \<noteq> 0 \<longrightarrow> balance_of r \<in> {-1, 1}"
  shows "balanced p" and "grew \<longleftrightarrow> frame_balance sf = 0"
    and "\<not> grew \<Longrightarrow> path_balanced c (height p)"
proof -
  have "balanced p \<and> (grew \<longleftrightarrow> frame_balance sf = 0) \<and> (\<not> grew \<longrightarrow> path_balanced c (height p))"
  proof (cases sf)
    case (HoleL x w sr)
    note F = assms(2-6) [unfolded HoleL]
    consider (even) "AVL_GET_BALANCE w = 0" | (right) "AVL_GET_BALANCE w = 1"
      | (single) "AVL_GET_BALANCE w = -1" "balance_of r = -1"
      | (double) "AVL_GET_BALANCE w = -1" "balance_of r = 1"
      using F by fastforce
    then show ?thesis
    proof cases
      case single
      with F have "h = Suc (height sr)" by auto
      with single F act single_right_balanced [OF _ _ _ _ refl, of r sr x w] show ?thesis
        by (auto simp: HoleL balancing_act_def)
    next
      case double
      with F have "h = Suc (height sr)" by auto
      with double F act double_right_balanced [OF _ _ _ _ refl _ refl, of r sr x w] show ?thesis
        by (auto simp: HoleL balancing_act_def Let_def split: prod.splits)
    next
      case right
      with F have "height sr = Suc h" by auto
      with right F act show ?thesis by (auto simp: HoleL balancing_act_def node_bits)
    qed (use F act in \<open>auto simp: HoleL balancing_act_def node_bits\<close>)
  next
    case (HoleR sl x w)
    note F = assms(2-6) [unfolded HoleR]
    consider (even) "AVL_GET_BALANCE w = 0" | (left) "AVL_GET_BALANCE w = -1"
      | (single) "AVL_GET_BALANCE w = 1" "balance_of r = 1"
      | (double) "AVL_GET_BALANCE w = 1" "balance_of r = -1"
      using F by fastforce
    then show ?thesis
    proof cases
      case single
      with F have "h = Suc (height sl)" by auto
      with single F act single_left_balanced [OF _ _ _ _ refl, of sl r x w] show ?thesis
        by (auto simp: HoleR balancing_act_def)
    next
      case double
      with F have "h = Suc (height sl)" by auto
      with double F act double_left_balanced [OF _ _ _ _ refl _ refl, of sl r x w] show ?thesis
        by (auto simp: HoleR balancing_act_def Let_def split: prod.splits)
    next
      case left
      with F have "height sl = Suc h" by auto
      with left F act show ?thesis by (auto simp: HoleR balancing_act_def node_bits)
    qed (use F act in \<open>auto simp: HoleR balancing_act_def node_bits\<close>)
  qed
  then show "balanced p" "grew \<longleftrightarrow> frame_balance sf = 0" "\<not> grew \<Longrightarrow> path_balanced c (height p)"
    by auto
qed

section \<open>Insertion as a whole\<close>

text \<open>
  Cutting the path at \<open>s\<close> and rebuilding it around the rotated subtree.
\<close>

lemma insert_rebuild:
  assumes bal: "balanced t" and t: "t \<noteq> Null"
    and desc: "insert_descend cmp k t [] 0 = (c, s)"
    and n: "n = length c - Suc s"
    and r: "r = plug (map (adjust_frame cmp k) (take n c)) (avl_node_new k)"
    and act: "balancing_act cmp k (c ! n) (avl_node_new k) r = (p, grew)"
  shows "balanced (plug (drop (Suc n) c) p)"
    and "inorder (plug (drop (Suc n) c) p) = before c @ k # after c"
    and "ranked t \<Longrightarrow> ranked (plug (drop (Suc n) c) p)"
proof -
  have low: "lowest_unbalanced c s"
    using insert_descend_lowest [OF desc] t by simp
  then have "n < length c" using n by (auto simp: lowest_unbalanced_def)
  then obtain below sf above where c: "c = below @ sf # above" and len: "length below = n"
    using id_take_nth_drop [of n c] that [of "take n c" "c ! n" "drop (Suc n) c"] by simp
  from c len have parts: "take n c = below" "c ! n = sf" "drop (Suc n) c = above" by auto
  note r = r [unfolded parts] and act = act [unfolded parts]
    and low' = low [unfolded lowest_unbalanced_def, folded n, unfolded parts]
  have path: "\<forall>f\<in>set c. on_search_path cmp k f" and pbal: "path_balanced (below @ sf # above) 0"
    using insert_descend_on_path [OF desc] insert_descend_balanced [OF desc bal] c by auto
  have zero: "\<forall>f\<in>set below. frame_balance f = 0 \<and> on_search_path cmp k f"
    using low' path c by auto
  have on: "on_search_path cmp k sf" using path c by simp
  have sub: "balanced r \<and> height r = Suc (length below) \<and> path_balanced (sf # above) (length below) \<and>
      (below \<noteq> [] \<longrightarrow> balance_of r \<in> {-1, 1})"
    using adjusted_subtree [OF zero pbal avl_node_new_ok(1) [of k]] avl_node_new_ok(4) [of k]
    by (simp add: r)
  have keep: "balance_of (plug [sf] r) = 0 \<or> balance_of r \<in> {-1, 1} \<or>
      balance_of (plug [sf] r) = (if cmp k (frame_key sf) < 1 then 1 else -1)"
    using sub on by (cases sf; cases "below = []") auto
  have root: "frame_balance sf = 0 \<Longrightarrow> above = []"
  proof -
    assume "frame_balance sf = 0"
    with low' have "s = 0" by blast
    with n len have "length c = Suc (length below)" using \<open>n < length c\<close> by simp
    then show "above = []" by (simp add: c)
  qed
  have "balanced p" "grew \<longleftrightarrow> frame_balance sf = 0" "\<not> grew \<Longrightarrow> path_balanced above (height p)"
    using balancing_act_balanced [OF act on, of above "length below"] sub by auto
  with root show "balanced (plug (drop (Suc n) c) p)"
    unfolding parts by (cases grew) (auto simp: zipper)
  show "inorder (plug (drop (Suc n) c) p) = before c @ k # after c"
    using balancing_act_keeps(1) [OF act keep] avl_node_new_ok(3) [of k]
    unfolding parts by (cases sf) (simp_all add: zipper r c)
  assume "ranked t"
  then have "path_ranked (map (adjust_frame cmp k) below @ sf # above) 1"
    using insert_descend_ranked [OF desc] by (simp add: zipper c)
  then have "ranked (plug (map (adjust_frame cmp k) below @ [sf] @ above) (avl_node_new k))"
    using avl_node_new_ok [of k] by (simp add: ranked_plug)
  then have "ranked (plug above (plug [sf] r))" by (simp only: plug_append r)
  then show "ranked (plug (drop (Suc n) c) p)"
    using balancing_act_keeps [OF act keep] unfolding parts
    by (auto simp: zipper simp flip: length_inorder)
qed

text \<open>
  The invariant the callers rely on. Ranks are kept apart (\<open>ranked\<close>), since a deletion that
  finds nothing may spoil them.
\<close>

definition avl_invar :: "'k avl_tree \<Rightarrow> bool" where
  "avl_invar ob \<longleftrightarrow> balanced (root ob) \<and> tree_length ob = of_nat (node_count (root ob)) \<and>
     sorted_wrt (\<lambda>x y. compare_fun ob x y \<le> 0) (inorder (root ob))"

definition list_insert :: "('k \<Rightarrow> 'k \<Rightarrow> int) \<Rightarrow> 'k \<Rightarrow> 'k list \<Rightarrow> 'k list" where
  "list_insert cmp k xs = takeWhile (\<lambda>x. 0 < cmp k x) xs @ k # dropWhile (\<lambda>x. 0 < cmp k x) xs"

context key_compare
begin

lemma insert_descend_order:
  assumes "insert_descend cmp k p c s = (c', s')"
    and "sorted_wrt (\<lambda>x y. cmp x y \<le> 0) (inorder p)"
    and "\<forall>x\<in>set (before c). 0 < cmp k x" and "\<forall>x\<in>set (after c). cmp k x \<le> 0"
  shows "(\<forall>x\<in>set (before c'). 0 < cmp k x) \<and> (\<forall>x\<in>set (after c'). cmp k x \<le> 0)"
  using assms
proof (induction p arbitrary: c s c' s')
  case (Node l x w r)
  show ?case
  proof (cases "cmp k x < 1")
    case True
    have "\<forall>y\<in>set (inorder r). cmp k y \<le> 0"
      using Node.prems(2) True cmp_trans [of k x] by (auto simp: sorted_wrt_mid)
    with True Node.prems show ?thesis
      by (intro Node.IH(1) [of "HoleL x (AVL_SET_RANK w (AVL_GET_RANK w + 1)) r # c" _ c' s'])
        (auto simp: Let_def sorted_wrt_mid)
  next
    case False
    have "0 < cmp k y" if "y \<in> set (inorder l)" for y
    proof -
      have "cmp y x \<le> 0" using that Node.prems(2) by (auto simp: sorted_wrt_mid)
      with False cmp_less_trans2 [of y x k] show ?thesis by (simp add: cmp_swap)
    qed
    with False Node.prems show ?thesis
      by (intro Node.IH(2) [of "HoleR l x w # c" _ c' s'])
        (auto simp: Let_def sorted_wrt_mid)
  qed
qed simp

lemma sorted_list_insert:
  assumes "sorted_wrt (\<lambda>x y. cmp x y \<le> 0) xs"
  shows "sorted_wrt (\<lambda>x y. cmp x y \<le> 0) (list_insert cmp k xs)"
proof -
  let ?P = "\<lambda>x. 0 < cmp k x"
  have small: "cmp x k < 0" if "x \<in> set (takeWhile ?P xs)" for x
    using set_takeWhileD [OF that] by (simp add: cmp_swap)
  have large: "cmp k y \<le> 0" if "y \<in> set (dropWhile ?P xs)" for y
  proof (cases "dropWhile ?P xs")
    case (Cons z zs)
    then have "cmp k z \<le> 0" using hd_dropWhile [of ?P xs] by auto
    moreover have "sorted_wrt (\<lambda>x y. cmp x y \<le> 0) (z # zs)"
      using assms Cons by (metis sorted_wrt_append takeWhile_dropWhile_id)
    ultimately show ?thesis using that Cons cmp_trans [of k z y] by auto
  next
    case Nil
    with that show ?thesis by simp
  qed
  have "sorted_wrt (\<lambda>x y. cmp x y \<le> 0) (takeWhile ?P xs @ dropWhile ?P xs)" using assms by simp
  with less_imp_le [OF small] large show ?thesis
    unfolding list_insert_def sorted_wrt_mid by (auto simp only: sorted_wrt_append)
qed

end

text \<open>
  Insertion with memory available returns 0, keeps the invariant and the ranks, and puts the
  key in front of every key that does not compare below it.
\<close>

lemma avl_insert_correct:
  assumes "key_compare (compare_fun ob)" and inv: "avl_invar ob"
    and ins: "avl_insert True ob k = (res, ob')"
  shows "res = 0" and "avl_invar ob'" and "compare_fun ob' = compare_fun ob"
    and "inorder (root ob') = list_insert (compare_fun ob) k (inorder (root ob))"
    and "ranked (root ob) \<Longrightarrow> ranked (root ob')"
proof -
  let ?cmp = "compare_fun ob" and ?t = "root ob"
  note cmp = key_compare.insert_descend_order [OF assms(1)] key_compare.sorted_list_insert [OF assms(1)]
  from inv have bal: "balanced ?t" and len: "tree_length ob = of_nat (node_count ?t)"
    and sorted: "sorted_wrt (\<lambda>x y. ?cmp x y \<le> 0) (inorder ?t)" by (auto simp: avl_invar_def)
  have "res = 0 \<and> compare_fun ob' = ?cmp \<and> tree_length ob' = tree_length ob + 1 \<and>
      balanced (root ob') \<and> inorder (root ob') = list_insert ?cmp k (inorder ?t) \<and>
      (ranked ?t \<longrightarrow> ranked (root ob'))"
  proof (cases "?t = Null")
    case True
    with ins avl_node_new_ok [of k] show ?thesis by (auto simp: avl_insert_def list_insert_def)
  next
    case False
    obtain c s where desc: "insert_descend ?cmp k ?t [] 0 = (c, s)" by fastforce
    define n where "n = length c - Suc s"
    define r where "r = plug (map (adjust_frame ?cmp k) (take n c)) (avl_node_new k)"
    obtain p grew where act: "balancing_act ?cmp k (c ! n) (avl_node_new k) r = (p, grew)" by fastforce
    note built = insert_rebuild [OF bal False desc n_def r_def act]
    from insert_descend_inorder [OF desc] have split: "inorder ?t = before c @ after c" by simp
    have "list_insert ?cmp k (inorder ?t) = before c @ k # after c"
      unfolding list_insert_def split using cmp(1) [OF desc sorted]
        takeWhile_split [of "before c" "\<lambda>x. 0 < ?cmp k x" "after c"] by fastforce
    moreover have "ob' = ob\<lparr>root := plug (drop (Suc n) c) p, tree_length := tree_length ob + 1,
        tree_height := (if grew then tree_height ob + 1 else tree_height ob)\<rparr>" "res = 0"
      using ins False desc act by (auto simp: avl_insert_def n_def r_def Let_def split: avl_node.splits)
    ultimately show ?thesis using built by simp
  qed
  moreover from this have "node_count (root ob') = Suc (node_count ?t)"
    by (simp add: list_insert_def flip: length_inorder) (simp flip: length_append)
  ultimately show "res = 0" "avl_invar ob'" "compare_fun ob' = ?cmp"
    "inorder (root ob') = list_insert ?cmp k (inorder ?t)" "ranked ?t \<Longrightarrow> ranked (root ob')"
    using len cmp(2) [OF sorted] by (auto simp: avl_invar_def)
qed

end
