(* ===== verification/Avl_Delete.thy ===== *)
theory Avl_Delete
  imports Avl_Insert
begin

text \<open>
  \<open>avl_delete\<close> of \<open>avl/avl.c\<close>: the search that lowers ranks on the way down (and repairs them
  when the key is not there), the exchange of an inner node with its predecessor, the
  removal, and the climb that rebalances every ancestor until the height stops shrinking.
  The last section proves order, balance and ranks of the result, and shows where a failed
  deletion leaves a wrong rank behind.
\<close>

section \<open>Searching the node to delete\<close>

text \<open>
  \<open>delete_find\<close> ends at the node \<open>x\<close> with a key equal to \<open>k\<close> (\<open>True\<close>), or at the node where
  the search had to stop (\<open>False\<close>), with the path above it. On the way to the left the rank
  drops by one. A search that stops at a missing left child gives \<open>x\<close> its rank back; one that
  stops at a missing right child raises the rank of \<open>x\<close>, although it was never lowered.
\<close>

fun delete_find ::
  "('k \<Rightarrow> 'k \<Rightarrow> int) \<Rightarrow> 'k \<Rightarrow> 'k avl_node \<Rightarrow> 'k path \<Rightarrow> bool \<times> 'k avl_node \<times> 'k path" where
  "delete_find cmp k Null c = (False, Null, c)"
| "delete_find cmp k (Node l x w r) c =
     (if cmp k x < 0 then
        let w' = AVL_SET_RANK w (AVL_GET_RANK w - 1)
        in case l of
             Null \<Rightarrow> (False, Node l x (AVL_SET_RANK w' (AVL_GET_RANK w' + 1)) r, c)
           | Node _ _ _ _ \<Rightarrow> delete_find cmp k l (HoleL x w' r # c)
      else if cmp k x > 0 then
        case r of
          Null \<Rightarrow> (False, Node l x (AVL_SET_RANK w (AVL_GET_RANK w + 1)) r, c)
        | Node _ _ _ _ \<Rightarrow> delete_find cmp k r (HoleR l x w # c)
      else (True, Node l x w r, c))"

text \<open>The climb that undoes the rank changes after a failed search.\<close>

fun undo_frame :: "'k frame \<Rightarrow> 'k frame" where
  "undo_frame (HoleL x w r) = HoleL x (AVL_SET_RANK w (AVL_GET_RANK w + 1)) r"
| "undo_frame (HoleR l x w) = HoleR l x w"

text \<open>The immediate predecessor: down the right spine of the left subtree.\<close>

fun rightmost :: "'k avl_node \<Rightarrow> 'k path \<Rightarrow> 'k avl_node \<times> 'k path" where
  "rightmost (Node l x w (Node rl rx rw rr)) c = rightmost (Node rl rx rw rr) (HoleR l x w # c)"
| "rightmost t c = (t, c)"

section \<open>Rebalancing on the way up\<close>

text \<open>
  One round of \<open>while (shorter && p->parent)\<close> at node \<open>p\<close> whose side \<open>side\<close> (-1 left, +1
  right) got shorter: the subtree that takes the place of \<open>p\<close>, and \<open>shorter\<close>.
\<close>

definition shrink_step :: "int \<Rightarrow> 'k avl_node \<Rightarrow> 'k avl_node \<times> bool" where
  "shrink_step side p =
     (if balance_of p = 0 then (set_bal (if side = -1 then 1 else -1) p, False)
      else if balance_of p = side then (set_bal 0 p, True)
      else
        let q = (if side = 1 then left p else right p)
        in if balance_of q = 0 then
             (if side = -1
              then set_bal side (set_bal_left (- side) (rotate_left p))
              else set_bal side (set_bal_right (- side) (rotate_right p)), False)
           else if balance_of q = balance_of p then
             (if side = -1
              then set_bal 0 (set_bal_left 0 (rotate_left p))
              else set_bal 0 (set_bal_right 0 (rotate_right p)), True)
           else
             (if side = 1 then
                let r = double_rotate_right p;
                    (bq, bp) = (if balance_of r = side then (- side, 0)
                                else if balance_of r = - side then (0, side) else (0, 0))
                in set_bal 0 (set_bal_left bq (set_bal_right bp r))
              else
                let r = double_rotate_left p;
                    (bq, bp) = (if balance_of r = side then (- side, 0)
                                else if balance_of r = - side then (0, side) else (0, 0))
                in set_bal 0 (set_bal_left bp (set_bal_right bq r)), True))"

fun frame_side :: "'k frame \<Rightarrow> int" where
  "frame_side (HoleL x w r) = -1"
| "frame_side (HoleR l x w) = 1"

fun delete_climb :: "'k path \<Rightarrow> 'k avl_node \<Rightarrow> 'k avl_node" where
  "delete_climb [] t = t"
| "delete_climb (f # c) t =
     (let (p, shorter) = shrink_step (frame_side f) (plug [f] t)
      in if shorter then delete_climb c p else plug c p)"

section \<open>Deletion\<close>

text \<open>
  Removing the node \<open>x\<close> in focus: an inner node first trades keys with its predecessor \<open>y\<close>
  (and, losing a node on its left, one rank); then the only child of \<open>x\<close> takes its place.
  The second component is the key handed to \<open>free_key_fun\<close>.
\<close>

fun delete_node :: "'k avl_node \<Rightarrow> 'k path \<Rightarrow> 'k avl_node" where
  "delete_node (Node (Node ll lx lw lr) x w (Node rl rx rw rr)) c =
     (let (y, d) = rightmost (Node ll lx lw lr) [];
          w' = AVL_SET_RANK w (AVL_GET_RANK w - 1)
      in delete_climb (d @ HoleL (key y) w' (Node rl rx rw rr) # c) (left y))"
| "delete_node (Node l x w r) c = delete_climb c (case l of Null \<Rightarrow> r | Node _ _ _ _ \<Rightarrow> l)"
| "delete_node Null c = plug c Null"

definition avl_delete :: "'k avl_tree \<Rightarrow> 'k \<Rightarrow> int \<times> 'k option \<times> 'k avl_tree" where
  "avl_delete tree k =
     (case root tree of
        Null \<Rightarrow> (-1, None, tree)
      | Node _ _ _ _ \<Rightarrow>
          let (found, x, c) = delete_find (compare_fun tree) k (root tree) []
          in if found
             then (0, Some (key x),
                   tree\<lparr>root := delete_node x c, tree_length := tree_length tree - 1\<rparr>)
             else (-1, None, tree\<lparr>root := plug (map undo_frame c) x\<rparr>))"

section \<open>The climb is correct\<close>

lemma shrink_step_inorder: "shrink_step side p = (p', b) \<Longrightarrow> inorder p' = inorder p"
  by (auto simp: shrink_step_def Let_def split: if_splits prod.splits)

lemma shrink_step_ranked:
  "shrink_step side p = (p', b) \<Longrightarrow> side \<in> {-1, 1} \<Longrightarrow> ranked p \<Longrightarrow> ranked p'"
  by (auto simp: shrink_step_def Let_def set_bal_ranked rotations_ranked
      split: if_splits prod.splits)

lemma single_right_balanced_even:
  assumes "balanced l" "balanced r" "height l = height r + 2" "balance_of l = 0"
    and "t = set_bal 1 (set_bal_right (-1) (rotate_right (Node l k w r)))"
  shows "balanced t \<and> height t = height r + 3"
  using assms by (cases l) (auto simp: node_bits)

lemma single_left_balanced_even:
  assumes "balanced l" "balanced r" "height r = height l + 2" "balance_of r = 0"
    and "t = set_bal (-1) (set_bal_left 1 (rotate_left (Node l k w r)))"
  shows "balanced t \<and> height t = height l + 3"
  using assms by (cases r) (auto simp: node_bits)

lemma shrink_step_left:
  assumes step: "shrink_step (-1) (Node t x w r) = (p, shorter)"
    and "AVL_GET_BALANCE w = int (height r) - int (Suc (height t))" "AVL_GET_BALANCE w \<in> {-1, 0, 1}"
    and "balanced r" "balanced t"
  shows "balanced p \<and>
    height p + (if shorter then 1 else 0) = Suc (max (Suc (height t)) (height r))"
proof -
  consider (even) "AVL_GET_BALANCE w = 0" | (heavy) "AVL_GET_BALANCE w = -1"
    | (three) "AVL_GET_BALANCE w = 1" using assms by auto
  then show ?thesis
  proof cases
    case even
    with assms show ?thesis by (auto simp: shrink_step_def node_bits)
  next
    case heavy
    with assms show ?thesis by (auto simp: shrink_step_def node_bits)
  next
    case three
    then have h: "height r = height t + 2" using assms(2) by simp
    then have "r \<noteq> Null" by auto
    with \<open>balanced r\<close> consider "balance_of r = 0" | "balance_of r = 1" | "balance_of r = -1"
      by (cases r) auto
    then show ?thesis
    proof cases
      case 1
      with single_left_balanced_even [OF \<open>balanced t\<close> \<open>balanced r\<close> h 1 refl, of x w] step three h
      show ?thesis by (auto simp: shrink_step_def)
    next
      case 2
      with single_left_balanced [OF \<open>balanced t\<close> \<open>balanced r\<close> h 2 refl, of x w] step three h
      show ?thesis by (auto simp: shrink_step_def)
    next
      case 3
      obtain bs br where "double_balances 1 (balance_of (double_rotate_left (Node t x w r))) = (bs, br)"
        by fastforce
      with double_left_balanced [OF \<open>balanced t\<close> \<open>balanced r\<close> h 3 refl this refl] step three h 3
      show ?thesis by (auto simp: shrink_step_def double_balances_def Let_def split: if_splits)
    qed
  qed
qed
lemma shrink_step_right:
  assumes step: "shrink_step 1 (Node l x w t) = (p, shorter)"
    and "AVL_GET_BALANCE w = int (Suc (height t)) - int (height l)" "AVL_GET_BALANCE w \<in> {-1, 0, 1}"
    and "balanced l" "balanced t"
  shows "balanced p \<and>
    height p + (if shorter then 1 else 0) = Suc (max (height l) (Suc (height t)))"
proof -
  consider (even) "AVL_GET_BALANCE w = 0" | (heavy) "AVL_GET_BALANCE w = 1"
    | (three) "AVL_GET_BALANCE w = -1" using assms by auto
  then show ?thesis
  proof cases
    case even
    with assms show ?thesis by (auto simp: shrink_step_def node_bits)
  next
    case heavy
    with assms show ?thesis by (auto simp: shrink_step_def node_bits)
  next
    case three
    then have h: "height l = height t + 2" using assms(2) by simp
    then have "l \<noteq> Null" by auto
    with \<open>balanced l\<close> consider "balance_of l = 0" | "balance_of l = -1" | "balance_of l = 1"
      by (cases l) auto
    then show ?thesis
    proof cases
      case 1
      with single_right_balanced_even [OF \<open>balanced l\<close> \<open>balanced t\<close> h 1 refl, of x w] step three h
      show ?thesis by (auto simp: shrink_step_def)
    next
      case 2
      with single_right_balanced [OF \<open>balanced l\<close> \<open>balanced t\<close> h 2 refl, of x w] step three h
      show ?thesis by (auto simp: shrink_step_def)
    next
      case 3
      obtain bs br where "double_balances (-1) (balance_of (double_rotate_right (Node l x w t))) = (bs, br)"
        by fastforce
      with double_right_balanced [OF \<open>balanced l\<close> \<open>balanced t\<close> h 3 refl this refl] step three h 3
      show ?thesis by (auto simp: shrink_step_def double_balances_def Let_def split: if_splits)
    qed
  qed
qed

lemma frame_side_cases: "frame_side f \<in> {-1, 1}"
  by (cases f) auto

lemma delete_climb_inorder: "inorder (delete_climb c t) = before c @ inorder t @ after c"
proof (induction c arbitrary: t)
  case (Cons f c)
  obtain p b where step: "shrink_step (frame_side f) (plug [f] t) = (p, b)" by fastforce
  have "inorder p = before [f] @ inorder t @ after [f]"
    using shrink_step_inorder [OF step] by (simp add: inorder_plug)
  then show ?case
    using step Cons.IH by (cases f) (auto simp: zipper)
qed simp

lemma delete_climb_balanced:
  "balanced t \<Longrightarrow> path_balanced c (Suc (height t)) \<Longrightarrow> balanced (delete_climb c t)"
proof (induction c arbitrary: t)
  case (Cons f c)
  obtain p b where step: "shrink_step (frame_side f) (plug [f] t) = (p, b)" by fastforce
  have "balanced p \<and> path_balanced c (height p + (if b then 1 else 0))"
  proof (cases f)
    case (HoleL x w r)
    with Cons.prems shrink_step_left [of t x w r p b] step show ?thesis by auto
  next
    case (HoleR l x w)
    with Cons.prems shrink_step_right [of l x w t p b] step show ?thesis by auto
  qed
  with step Cons.IH [of p] show ?case by (auto simp: zipper)
qed simp

lemma delete_climb_ranked:
  "ranked t \<Longrightarrow> path_ranked c (node_count t) \<Longrightarrow> ranked (delete_climb c t)"
proof (induction c arbitrary: t)
  case (Cons f c)
  obtain p b where step: "shrink_step (frame_side f) (plug [f] t) = (p, b)" by fastforce
  have "ranked (plug [f] t)" "path_ranked c (node_count (plug [f] t))"
    using Cons.prems by (cases f; simp add: add_ac)+
  moreover have "node_count p = node_count (plug [f] t)"
    using shrink_step_inorder [OF step] by (metis length_inorder)
  ultimately have "ranked p" "path_ranked c (node_count p)"
    using shrink_step_ranked [OF step frame_side_cases] by auto
  with step Cons.IH [of p] show ?case by (auto simp: zipper)
qed simp

section \<open>Removing a node\<close>

lemma rightmost_spec:
  assumes "rightmost t c = (y, d)" and "t \<noteq> Null"
  shows "y = Node (left y) (key y) (rank_and_balance y) Null" and "plug d y = plug c t"
    and "before d @ inorder (left y) @ [key y] = before c @ inorder t" and "after d = after c"
  using assms
  by (induction t c arbitrary: y d rule: rightmost.induct) auto

lemma rightmost_balanced:
  assumes "rightmost t c = (y, d)" and "t \<noteq> Null" and "balanced t" and "path_balanced (c @ e) (height t)"
  shows "balanced (left y) \<and> path_balanced (d @ e) (Suc (height (left y)))"
  using assms
  by (induction t c arbitrary: y d rule: rightmost.induct) auto

lemma rightmost_ranked:
  assumes "rightmost t c = (y, d)" and "t \<noteq> Null" and "ranked t" and "path_ranked (c @ e) (node_count t - 1)"
  shows "ranked (left y) \<and> path_ranked (d @ e) (node_count (left y))"
  using assms
  by (induction t c arbitrary: y d rule: rightmost.induct) auto

text \<open>The two ways to remove a node: it has at most one child, or it trades places with \<open>y\<close>.\<close>

lemma delete_node_cases:
  obtains (one) "l = Null \<or> r = Null" and
      "delete_node (Node l x w r) c = delete_climb c (if l = Null then r else l)"
  | (two) y d where "l \<noteq> Null" and "r \<noteq> Null" and "rightmost l [] = (y, d)" and
      "delete_node (Node l x w r) c =
         delete_climb (d @ HoleL (key y) (AVL_SET_RANK w (AVL_GET_RANK w - 1)) r # c) (left y)"
proof (cases "l = Null \<or> r = Null")
  case True
  then show ?thesis by (cases l; cases r) (auto intro: one)
next
  case False
  obtain y d where "rightmost l [] = (y, d)" by fastforce
  with False show ?thesis by (cases l; cases r) (auto simp: Let_def intro: two)
qed

lemma delete_node_inorder:
  "inorder (delete_node (Node l x w r) c) = before c @ inorder l @ inorder r @ after c"
proof (cases rule: delete_node_cases [of l r x w c])
  case one
  then show ?thesis by (auto simp: delete_climb_inorder)
next
  case (two y d)
  from rightmost_spec [OF two(3,1)] two(4) show ?thesis
    by (simp add: delete_climb_inorder zipper)
qed

lemma delete_node_balanced:
  assumes "balanced (Node l x w r)" and "path_balanced c (height (Node l x w r))"
  shows "balanced (delete_node (Node l x w r) c)"
proof (cases rule: delete_node_cases [of l r x w c])
  case one
  with assms show ?thesis by (auto intro!: delete_climb_balanced split: if_splits)
next
  case (two y d)
  have "path_balanced (HoleL (key y) (AVL_SET_RANK w (AVL_GET_RANK w - 1)) r # c) (height l)"
    using assms by (auto simp: node_bits)
  moreover have "balanced l" using assms by simp
  ultimately have "balanced (left y) \<and> path_balanced (d @ HoleL (key y) (AVL_SET_RANK w (AVL_GET_RANK w - 1)) r # c)
      (Suc (height (left y)))"
    by (intro rightmost_balanced [OF two(3,1)]) (simp_all only: append_Nil)
  with two(4) show ?thesis by (simp add: delete_climb_balanced)
qed

lemma delete_node_ranked:
  assumes "ranked (Node l x w r)" and "path_ranked c (node_count l + node_count r)"
  shows "ranked (delete_node (Node l x w r) c)"
proof (cases rule: delete_node_cases [of l r x w c])
  case one
  with assms show ?thesis by (auto intro!: delete_climb_ranked split: if_splits)
next
  case (two y d)
  from two(1) obtain n where n: "node_count l = Suc n" by (cases l) auto
  with assms have "path_ranked (HoleL (key y) (AVL_SET_RANK w (AVL_GET_RANK w - 1)) r # c) (node_count l - 1)"
    by (simp add: node_bits)
  with rightmost_ranked [OF two(3,1), of "HoleL (key y) (AVL_SET_RANK w (AVL_GET_RANK w - 1)) r # c"]
    assms two(4) show ?thesis by (simp add: delete_climb_ranked)
qed

section \<open>Searching\<close>

text \<open>The branches of the search, one equation each.\<close>

lemma delete_find_branches:
  "cmp k x < 0 \<Longrightarrow> l \<noteq> Null \<Longrightarrow> delete_find cmp k (Node l x w r) c =
     delete_find cmp k l (HoleL x (AVL_SET_RANK w (AVL_GET_RANK w - 1)) r # c)"
  "cmp k x < 0 \<Longrightarrow> l = Null \<Longrightarrow> delete_find cmp k (Node l x w r) c =
     (False, Node l x (AVL_SET_RANK (AVL_SET_RANK w (AVL_GET_RANK w - 1))
                         (AVL_GET_RANK (AVL_SET_RANK w (AVL_GET_RANK w - 1)) + 1)) r, c)"
  "0 < cmp k x \<Longrightarrow> r \<noteq> Null \<Longrightarrow> delete_find cmp k (Node l x w r) c = delete_find cmp k r (HoleR l x w # c)"
  "0 < cmp k x \<Longrightarrow> r = Null \<Longrightarrow> delete_find cmp k (Node l x w r) c =
     (False, Node l x (AVL_SET_RANK w (AVL_GET_RANK w + 1)) r, c)"
  "cmp k x = 0 \<Longrightarrow> delete_find cmp k (Node l x w r) c = (True, Node l x w r, c)"
  by (cases l; simp add: Let_def; fail | cases r; simp)+

lemma delete_find_split [consumes 0, case_names left left_end right right_end here]:
  assumes "cmp k x < 0 \<Longrightarrow> l \<noteq> Null \<Longrightarrow> P" "cmp k x < 0 \<Longrightarrow> l = Null \<Longrightarrow> P"
    "0 < cmp k x \<Longrightarrow> r \<noteq> Null \<Longrightarrow> P" "0 < cmp k x \<Longrightarrow> r = Null \<Longrightarrow> P" "cmp k x = (0::int) \<Longrightarrow> P"
  shows P
  using assms by (metis linorder_neqE_linordered_idom)

lemma delete_find_inorder:
  "delete_find cmp k t c = (found, x, c') \<Longrightarrow> before c' @ inorder x @ after c' = before c @ inorder t @ after c"
proof (induction t arbitrary: c)
  case (Node l y w r)
  then show ?case
    by (cases rule: delete_find_split [of cmp k y l _ r]) (auto simp del: delete_find.simps simp: delete_find_branches)
qed simp

lemma delete_find_balanced:
  "delete_find cmp k t c = (found, x, c') \<Longrightarrow> balanced t \<Longrightarrow> path_balanced c (height t)
    \<Longrightarrow> balanced x \<and> path_balanced c' (height x)"
proof (induction t arbitrary: c)
  case (Node l y w r)
  show ?case
  proof (cases rule: delete_find_split [of cmp k y l _ r])
    case left
    with Node.prems show ?thesis
      by (intro Node.IH(1) [of "HoleL y (AVL_SET_RANK w (AVL_GET_RANK w - 1)) r # c"])
        (auto simp: delete_find_branches node_bits simp del: delete_find.simps)
  next
    case right
    with Node.prems show ?thesis
      by (intro Node.IH(2) [of "HoleR l y w # c"])
        (auto simp: delete_find_branches simp del: delete_find.simps)
  qed (use Node.prems in \<open>auto simp: delete_find_branches node_bits simp del: delete_find.simps\<close>)
qed simp

lemma delete_find_ranked:
  "delete_find cmp k t c = (True, x, c') \<Longrightarrow> ranked t \<Longrightarrow> path_ranked c (node_count t - 1)
    \<Longrightarrow> ranked x \<and> path_ranked c' (node_count x - 1)"
proof (induction t arbitrary: c)
  case (Node l y w r)
  show ?case
  proof (cases rule: delete_find_split [of cmp k y l _ r])
    case left
    then obtain n where "node_count l = Suc n" by (cases l) auto
    with left Node.prems Node.IH(1) show ?thesis by (simp add: delete_find_branches node_bits del: delete_find.simps)
  next
    case right
    then obtain n where "node_count r = Suc n" by (cases r) auto
    with right Node.prems Node.IH(2) show ?thesis by (simp add: delete_find_branches node_bits del: delete_find.simps)
  qed (use Node.prems in \<open>auto simp: delete_find_branches simp del: delete_find.simps\<close>)
qed simp

lemma delete_find_key:
  "delete_find cmp k t c = (True, x, c') \<Longrightarrow> x \<noteq> Null \<and> cmp k (key x) = 0"
proof (induction t arbitrary: c)
  case (Node l y w r)
  then show ?case
    by (cases rule: delete_find_split [of cmp k y l _ r]) (auto simp del: delete_find.simps simp: delete_find_branches)
qed simp

text \<open>In a tree in order a failed search means that no key equals \<open>k\<close>.\<close>

context key_compare
begin

lemma delete_find_none:
  assumes "delete_find cmp k t c = (False, x, c')" "sorted_wrt (\<lambda>x y. cmp x y \<le> 0) (inorder t)" "t \<noteq> Null"
  shows "\<forall>y\<in>set (inorder t). cmp k y \<noteq> 0"
  using assms
proof (induction t arbitrary: c)
  case (Node l y w r)
  have left: "cmp k z < 0" if "cmp k y < 0" "z \<in> set (inorder r)" for z
    using that Node.prems(2) cmp_less_trans1 [of k y z] by (auto simp: sorted_wrt_mid)
  have right: "0 < cmp k z" if "0 < cmp k y" "z \<in> set (inorder l)" for z
    using that Node.prems(2) cmp_less_trans2 [of z y k] cmp_swap by (auto simp: sorted_wrt_mid)
  show ?case
  proof (cases rule: delete_find_split [of cmp k y l _ r])
    case left
    with Node.prems \<open>\<And>z. cmp k y < 0 \<Longrightarrow> z \<in> set (inorder r) \<Longrightarrow> cmp k z < 0\<close>
    show ?thesis
      using Node.IH(1) [of "HoleL y (AVL_SET_RANK w (AVL_GET_RANK w - 1)) r # c"]
      by (fastforce simp: delete_find_branches sorted_wrt_mid simp del: delete_find.simps)
  next
    case right
    with Node.prems \<open>\<And>z. 0 < cmp k y \<Longrightarrow> z \<in> set (inorder l) \<Longrightarrow> 0 < cmp k z\<close>
    show ?thesis
      using Node.IH(2) [of "HoleR l y w # c"]
      by (fastforce simp: delete_find_branches sorted_wrt_mid simp del: delete_find.simps)
  next
    case left_end
    with left show ?thesis by fastforce
  next
    case right_end
    with right show ?thesis by fastforce
  next
    case here
    with Node.prems show ?thesis by (simp add: delete_find_branches del: delete_find.simps)
  qed
qed simp

end

text \<open>Undoing keeps everything but the ranks.\<close>

lemma undo_path [zipper]:
  "before (map undo_frame c) = before c" "after (map undo_frame c) = after c"
  "path_balanced (map undo_frame c) h = path_balanced c h"
  by (induction c h rule: path_balanced.induct) (auto simp: node_bits)

section \<open>Deletion as a whole\<close>

lemma avl_delete_result:
  assumes "avl_delete tree k = (res, freed, tree')" and "root tree \<noteq> Null"
    and "delete_find (compare_fun tree) k (root tree) [] = (found, x, c)"
  shows "found \<Longrightarrow> res = 0 \<and> freed = Some (key x) \<and>
           tree' = tree\<lparr>root := delete_node x c, tree_length := tree_length tree - 1\<rparr>"
    and "\<not> found \<Longrightarrow> res = -1 \<and> freed = None \<and> tree' = tree\<lparr>root := plug (map undo_frame c) x\<rparr>"
  using assms by (cases "root tree"; simp add: avl_delete_def)+

lemma avl_delete_found:
  assumes inv: "avl_invar tree" and find: "delete_find (compare_fun tree) k (root tree) [] = (True, x, c)"
    and tree': "tree' = tree\<lparr>root := delete_node x c, tree_length := tree_length tree - 1\<rparr>"
  shows "avl_invar tree'" and "compare_fun tree k (key x) = 0"
    and "\<exists>xs ys. inorder (root tree) = xs @ key x # ys \<and> inorder (root tree') = xs @ ys"
    and "ranked (root tree) \<Longrightarrow> ranked (root tree')"
proof -
  let ?cmp = "compare_fun tree" and ?t = "root tree"
  from inv have bal: "balanced ?t" and len: "tree_length tree = of_nat (node_count ?t)"
    and sorted: "sorted_wrt (\<lambda>x y. ?cmp x y \<le> 0) (inorder ?t)" by (auto simp: avl_invar_def)
  from delete_find_key [OF find] show "?cmp k (key x) = 0" by simp
  from delete_find_key [OF find] obtain l y w r where x: "x = Node l y w r" by (cases x) auto
  have keys: "inorder ?t = (before c @ inorder l) @ y # (inorder r @ after c)"
    using delete_find_inorder [OF find] x by simp
  have del_keys: "inorder (delete_node x c) = (before c @ inorder l) @ (inorder r @ after c)"
    by (simp add: x delete_node_inorder)
  show "\<exists>xs ys. inorder (root tree) = xs @ key x # ys \<and> inorder (root tree') = xs @ ys"
    using keys del_keys
    by (intro exI [of _ "before c @ inorder l"] exI [of _ "inorder r @ after c"]) (simp add: x tree')
  have "node_count ?t = Suc (node_count (delete_node x c))"
    using keys del_keys by (simp flip: length_inorder)
  moreover have "balanced (delete_node x c)"
    using delete_find_balanced [OF find bal] unfolding x by (simp only: delete_node_balanced path_balanced.simps)
  moreover have "sorted_wrt (\<lambda>x y. ?cmp x y \<le> 0) (inorder (delete_node x c))"
    using sorted unfolding keys del_keys sorted_wrt_mid by (simp only: sorted_wrt_append) blast
  ultimately show "avl_invar tree'" using len by (simp add: avl_invar_def tree')
  show "ranked ?t \<Longrightarrow> ranked (root tree')"
    using delete_find_ranked [OF find] by (simp add: x tree' delete_node_ranked)
qed

lemma avl_delete_missing:
  assumes cmp: "key_compare (compare_fun tree)" and inv: "avl_invar tree" and "root tree \<noteq> Null"
    and find: "delete_find (compare_fun tree) k (root tree) [] = (False, x, c)"
    and tree': "tree' = tree\<lparr>root := plug (map undo_frame c) x\<rparr>"
  shows "avl_invar tree'" and "inorder (root tree') = inorder (root tree)"
    and "\<forall>y\<in>set (inorder (root tree)). compare_fun tree k y \<noteq> 0"
proof -
  show keys: "inorder (root tree') = inorder (root tree)"
    using delete_find_inorder [OF find] by (simp add: tree' zipper)
  then have "node_count (root tree') = node_count (root tree)" by (metis length_inorder)
  with inv keys delete_find_balanced [OF find] show "avl_invar tree'"
    by (simp add: avl_invar_def tree' zipper)
  show "\<forall>y\<in>set (inorder (root tree)). compare_fun tree k y \<noteq> 0"
    using key_compare.delete_find_none [OF cmp find] inv assms(3) by (simp add: avl_invar_def)
qed

text \<open>
  A successful deletion takes out one key that compares equal, the one given to the free
  function; a failed one leaves the sequence of keys alone. Both keep order and balance.
\<close>

lemma avl_delete_correct:
  assumes cmp: "key_compare (compare_fun tree)" and inv: "avl_invar tree"
    and del: "avl_delete tree k = (res, freed, tree')"
  shows "avl_invar tree'" and "compare_fun tree' = compare_fun tree"
    and "res = 0 \<Longrightarrow> \<exists>xs x ys. freed = Some x \<and> compare_fun tree k x = 0 \<and>
           inorder (root tree) = xs @ x # ys \<and> inorder (root tree') = xs @ ys"
    and "res \<noteq> 0 \<Longrightarrow> res = -1 \<and> freed = None \<and> inorder (root tree') = inorder (root tree) \<and>
           (\<forall>y\<in>set (inorder (root tree)). compare_fun tree k y \<noteq> 0)"
    and "res = 0 \<Longrightarrow> ranked (root tree) \<Longrightarrow> ranked (root tree')"
proof -
  consider (empty) "root tree = Null" "res = -1" "freed = None" "tree' = tree"
    | (found) x c where "delete_find (compare_fun tree) k (root tree) [] = (True, x, c)" "res = 0"
        "freed = Some (key x)" "tree' = tree\<lparr>root := delete_node x c, tree_length := tree_length tree - 1\<rparr>"
    | (missing) x c where "root tree \<noteq> Null" "delete_find (compare_fun tree) k (root tree) [] = (False, x, c)"
        "res = -1" "freed = None" "tree' = tree\<lparr>root := plug (map undo_frame c) x\<rparr>"
  proof (cases "root tree = Null")
    case True
    with del have "res = -1" "freed = None" "tree' = tree" by (simp_all add: avl_delete_def)
    with True show thesis by (rule that(1))
  next
    case False
    obtain found x c where find: "delete_find (compare_fun tree) k (root tree) [] = (found, x, c)"
      using prod_cases3 by blast
    show thesis
    proof (cases found)
      case True
      with find have "delete_find (compare_fun tree) k (root tree) [] = (True, x, c)" by simp
      with avl_delete_result(1) [OF del False find True] show thesis by (intro that(2)) simp_all
    next
      case missing: False
      with find have "delete_find (compare_fun tree) k (root tree) [] = (False, x, c)" by simp
      with avl_delete_result(2) [OF del False find missing] False show thesis by (intro that(3)) simp_all
    qed
  qed
  then have "avl_invar tree' \<and> compare_fun tree' = compare_fun tree \<and>
    (res = 0 \<longrightarrow> (\<exists>xs x ys. freed = Some x \<and> compare_fun tree k x = 0 \<and>
      inorder (root tree) = xs @ x # ys \<and> inorder (root tree') = xs @ ys)) \<and>
    (res \<noteq> 0 \<longrightarrow> res = -1 \<and> freed = None \<and> inorder (root tree') = inorder (root tree) \<and>
      (\<forall>y\<in>set (inorder (root tree)). compare_fun tree k y \<noteq> 0)) \<and>
    (res = 0 \<longrightarrow> ranked (root tree) \<longrightarrow> ranked (root tree'))" (is ?all)
  proof cases
    case empty
    with inv show ?all by simp
  next
    case (found x c)
    from avl_delete_found [OF inv found(1,4)] found(2,3,4) show ?all by simp
  next
    case (missing x c)
    from avl_delete_missing [OF cmp inv missing(1,2,5)] missing(3,4,5) show ?all by simp
  qed
  then show "avl_invar tree'" "compare_fun tree' = compare_fun tree"
    "res = 0 \<Longrightarrow> \<exists>xs x ys. freed = Some x \<and> compare_fun tree k x = 0 \<and>
      inorder (root tree) = xs @ x # ys \<and> inorder (root tree') = xs @ ys"
    "res \<noteq> 0 \<Longrightarrow> res = -1 \<and> freed = None \<and> inorder (root tree') = inorder (root tree) \<and>
      (\<forall>y\<in>set (inorder (root tree)). compare_fun tree k y \<noteq> 0)"
    "res = 0 \<Longrightarrow> ranked (root tree) \<Longrightarrow> ranked (root tree')"
    by blast+
qed

section \<open>Ranks after a failed deletion\<close>

lemma undo_ranked:
  assumes "delete_find cmp k t c = (False, x, c')" and "t \<noteq> Null" and "ranked t"
    and "path_ranked (map undo_frame c) (node_count t)"
  shows "path_ranked (map undo_frame c') (node_count x) \<and> x \<noteq> Null \<and> (ranked x \<longleftrightarrow> cmp k (key x) < 0)"
  using assms
proof (induction t arbitrary: c)
  case (Node l y w r)
  show ?case
  proof (cases rule: delete_find_split [of cmp k y l _ r])
    case left
    with Node.prems show ?thesis
      by (intro Node.IH(1) [of "HoleL y (AVL_SET_RANK w (AVL_GET_RANK w - 1)) r # c"])
        (auto simp: delete_find_branches node_bits simp del: delete_find.simps)
  next
    case right
    with Node.prems show ?thesis
      by (intro Node.IH(2) [of "HoleR l y w # c"])
        (auto simp: delete_find_branches simp del: delete_find.simps)
  qed (use Node.prems in \<open>auto simp: delete_find_branches node_bits simp del: delete_find.simps\<close>)
qed simp

lemma avl_delete_rank_after_miss:
  assumes "root tree \<noteq> Null" and "ranked (root tree)"
    and "avl_delete tree k = (res, freed, tree')" and "res \<noteq> 0"
  shows "\<exists>y\<in>set (inorder (root tree)). ranked (root tree') \<longleftrightarrow> compare_fun tree k y < 0"
proof -
  obtain found x c where find: "delete_find (compare_fun tree) k (root tree) [] = (found, x, c)"
    using prod_cases3 by blast
  note result = avl_delete_result [OF assms(3,1) find]
  with assms(4) have miss: "\<not> found" and tree': "tree' = tree\<lparr>root := plug (map undo_frame c) x\<rparr>" by auto
  with find undo_ranked [of "compare_fun tree" k "root tree" "[]" x c] assms(1,2)
  have "path_ranked (map undo_frame c) (node_count x)" "x \<noteq> Null" "ranked x \<longleftrightarrow> compare_fun tree k (key x) < 0"
    by auto
  moreover have "inorder (root tree) = before c @ inorder x @ after c"
    using delete_find_inorder [OF find] by simp
  with \<open>x \<noteq> Null\<close> have "key x \<in> set (inorder (root tree))" by (cases x) auto
  ultimately show ?thesis by (auto simp: tree' zipper)
qed

end
