(* ===== verification/Avl_Query.thy ===== *)
theory Avl_Query
  imports Avl_Delete
begin

text \<open>
  The reading operations of \<open>avl/avl.c\<close>: lookup by key and by index, the closest key from
  below and from above, traversal with cursors and with a callback, and the tree's
  self-check. A cursor is what an \<open>avl_node\<close> pointer gives access to: the node and, through
  the parent pointers, its path.
\<close>

section \<open>Lookup\<close>

fun get_by_key_loop :: "('k \<Rightarrow> 'k \<Rightarrow> int) \<Rightarrow> 'k \<Rightarrow> 'k avl_node \<Rightarrow> 'k option" where
  "get_by_key_loop cmp k Null = None"
| "get_by_key_loop cmp k (Node l x w r) =
     (if cmp k x < 0 then get_by_key_loop cmp k l
      else if cmp k x > 0 then get_by_key_loop cmp k r
      else Some x)"

text \<open>\<open>None\<close> is the return value -1, \<open>Some x\<close> the return value 0 with \<open>*value_address = x\<close>.\<close>

definition avl_get_by_key :: "'k avl_tree \<Rightarrow> 'k \<Rightarrow> 'k option" where
  "avl_get_by_key tree k = get_by_key_loop (compare_fun tree) k (root tree)"

fun get_by_index_loop :: "u64 \<Rightarrow> 'k avl_node \<Rightarrow> 'k option" where
  "get_by_index_loop m Null = None"
| "get_by_index_loop m (Node l x w r) =
     (let rank = ucast (AVL_GET_RANK w)
      in if m < rank then get_by_index_loop m l
         else if m > rank then get_by_index_loop (m - rank) r
         else Some x)"

definition avl_get_by_index :: "'k avl_tree \<Rightarrow> u64 \<Rightarrow> 'k option" where
  "avl_get_by_index tree index = get_by_index_loop (index + 1) (root tree)"

text \<open>The largest key not above \<open>k\<close>; \<open>best\<close> is \<open>*value_address\<close> so far.\<close>

fun get_most_loop :: "('k \<Rightarrow> 'k \<Rightarrow> int) \<Rightarrow> 'k \<Rightarrow> 'k option \<Rightarrow> 'k avl_node \<Rightarrow> 'k option" where
  "get_most_loop cmp k best Null = best"
| "get_most_loop cmp k best (Node l x w r) =
     (if cmp k x = 0 then Some x
      else if cmp k x < 0 then get_most_loop cmp k best l
      else get_most_loop cmp k (Some x) r)"

definition avl_get_item_by_key_most :: "'k avl_tree \<Rightarrow> 'k \<Rightarrow> 'k option" where
  "avl_get_item_by_key_most tree k = get_most_loop (compare_fun tree) k None (root tree)"

fun get_least_loop :: "('k \<Rightarrow> 'k \<Rightarrow> int) \<Rightarrow> 'k \<Rightarrow> 'k option \<Rightarrow> 'k avl_node \<Rightarrow> 'k option" where
  "get_least_loop cmp k best Null = best"
| "get_least_loop cmp k best (Node l x w r) =
     (if cmp k x = 0 then Some x
      else if cmp k x < 0 then get_least_loop cmp k (Some x) l
      else get_least_loop cmp k best r)"

definition avl_get_item_by_key_least :: "'k avl_tree \<Rightarrow> 'k \<Rightarrow> 'k option" where
  "avl_get_item_by_key_least tree k = get_least_loop (compare_fun tree) k None (root tree)"

section \<open>Cursors\<close>

type_synonym 'k cursor = "'k avl_node \<times> 'k path"

fun leftmost :: "'k avl_node \<Rightarrow> 'k path \<Rightarrow> 'k cursor" where
  "leftmost (Node (Node ll lx lw lr) x w r) c = leftmost (Node ll lx lw lr) (HoleL x w r # c)"
| "leftmost t c = (t, c)"

definition avl_get_first :: "'k avl_tree \<Rightarrow> 'k cursor option" where
  "avl_get_first tree =
     (case root tree of Null \<Rightarrow> None | Node _ _ _ _ \<Rightarrow> Some (leftmost (root tree) []))"

text \<open>Climbing until the node was reached from the wanted side; the header node has no key and ends the climb.\<close>

fun prev_climb :: "'k avl_node \<Rightarrow> 'k path \<Rightarrow> 'k cursor option" where
  "prev_climb t [] = None"
| "prev_climb t (HoleR l x w # c) = Some (Node l x w t, c)"
| "prev_climb t (HoleL x w r # c) = prev_climb (Node t x w r) c"

fun next_climb :: "'k avl_node \<Rightarrow> 'k path \<Rightarrow> 'k cursor option" where
  "next_climb t [] = None"
| "next_climb t (HoleL x w r # c) = Some (Node t x w r, c)"
| "next_climb t (HoleR l x w # c) = next_climb (Node l x w t) c"

fun avl_get_prev :: "'k cursor \<Rightarrow> 'k cursor option" where
  "avl_get_prev (Null, c) = None"
| "avl_get_prev (Node l x w r, c) =
     (case l of
        Node _ _ _ _ \<Rightarrow> Some (rightmost l (HoleL x w r # c))
      | Null \<Rightarrow> prev_climb (Node l x w r) c)"

fun avl_get_next :: "'k cursor \<Rightarrow> 'k cursor option" where
  "avl_get_next (Null, c) = None"
| "avl_get_next (Node l x w r, c) =
     (case r of
        Node _ _ _ _ \<Rightarrow> Some (leftmost r (HoleR l x w # c))
      | Null \<Rightarrow> next_climb (Node l x w r) c)"

text \<open>
  The loop \<open>node = avl_get_first (tree); while (node) { ...; node = avl_get_next (node); }\<close>
  that runs through the whole program, reading the keys it visits.
\<close>

fun cursor_walk :: "nat \<Rightarrow> 'k cursor option \<Rightarrow> 'k list" where
  "cursor_walk 0 cur = []"
| "cursor_walk (Suc n) None = []"
| "cursor_walk (Suc n) (Some cur) = key (fst cur) # cursor_walk n (avl_get_next cur)"

section \<open>Traversal with a callback\<close>

fun iterate_inorder_helper ::
  "('k \<Rightarrow> 's \<Rightarrow> int \<times> 's) \<Rightarrow> 'k avl_node \<Rightarrow> 's \<Rightarrow> int \<times> 's" where
  "iterate_inorder_helper f Null s = (0, s)"
| "iterate_inorder_helper f (Node l x w r) s =
     (let (res, s1) = iterate_inorder_helper f l s
      in if res \<noteq> 0 then (res, s1)
         else let (res, s2) = f x s1
              in if res \<noteq> 0 then (res, s2) else iterate_inorder_helper f r s2)"

definition avl_iterate_inorder ::
  "'k avl_tree \<Rightarrow> ('k \<Rightarrow> 's \<Rightarrow> int \<times> 's) \<Rightarrow> 's \<Rightarrow> int \<times> 's" where
  "avl_iterate_inorder tree f s =
     (if tree_length tree \<noteq> 0 then iterate_inorder_helper f (root tree) s else (0, s))"

text \<open>\<open>avl_tree_free\<close> hands the keys to the free function in this order.\<close>

fun tree_free_helper :: "'k avl_node \<Rightarrow> 'k list" where
  "tree_free_helper Null = []"
| "tree_free_helper (Node l x w r) = tree_free_helper l @ [x] @ tree_free_helper r"

definition avl_tree_free :: "'k avl_tree \<Rightarrow> 'k list" where
  "avl_tree_free tree = (if tree_length tree \<noteq> 0 then tree_free_helper (root tree) else [])"

section \<open>Self-check\<close>

fun avl_verify_balance :: "'k avl_node \<Rightarrow> int" where
  "avl_verify_balance Null = 0"
| "avl_verify_balance (Node l x w r) =
     (let lh = avl_verify_balance l; rh = avl_verify_balance r
      in if rh - lh \<noteq> AVL_GET_BALANCE w then 0
         else if lh - rh > 1 \<or> lh - rh < -1 then 0
         else 1 + max lh rh)"

text \<open>\<open>None\<close> is the call of \<open>exit (1)\<close> after the message about an invalid rank.\<close>

fun avl_verify_rank :: "'k avl_node \<Rightarrow> u64 option" where
  "avl_verify_rank Null = Some 0"
| "avl_verify_rank (Node l x w r) =
     Option.bind (avl_verify_rank l) (\<lambda>num_left. Option.bind (avl_verify_rank r) (\<lambda>num_right.
       if ucast (AVL_GET_RANK w) \<noteq> num_left + 1 then None else Some (num_left + num_right + 1)))"

section \<open>Lookup is correct\<close>

context key_compare
begin

lemma get_by_key_loop_correct:
  "sorted_wrt (\<lambda>x y. cmp x y \<le> 0) (inorder t) \<Longrightarrow>
   (case get_by_key_loop cmp k t of
      None \<Rightarrow> \<forall>y\<in>set (inorder t). cmp k y \<noteq> 0
    | Some x \<Rightarrow> x \<in> set (inorder t) \<and> cmp k x = 0)"
proof (induction t)
  case (Node l x w r)
  have "cmp k y < 0" if "cmp k x < 0" "y \<in> set (inorder r)" for y
    using that Node.prems cmp_less_trans1 [of k x y] by (auto simp: sorted_wrt_mid)
  moreover have "0 < cmp k y" if "0 < cmp k x" "y \<in> set (inorder l)" for y
    using that Node.prems cmp_less_trans2 [of y x k] cmp_swap by (auto simp: sorted_wrt_mid)
  ultimately show ?case
    using Node by (fastforce simp: sorted_wrt_mid split: option.splits)
qed simp

lemma get_most_loop_bound:
  "get_most_loop cmp k best t = Some x \<Longrightarrow> best = Some x \<or> x \<in> set (inorder t) \<and> 0 \<le> cmp k x"
  by (induction t arbitrary: best) (fastforce split: if_splits)+

lemma get_most_loop_above:
  assumes "sorted_wrt (\<lambda>x y. cmp x y \<le> 0) (inorder t)" and "\<forall>y\<in>set (inorder t). cmp b y \<le> 0"
  shows "\<exists>x. get_most_loop cmp k (Some b) t = Some x \<and> cmp b x \<le> 0"
  using assms
proof (induction t arbitrary: b)
  case (Node l x w r)
  have "\<exists>z. get_most_loop cmp k (Some x) r = Some z \<and> cmp x z \<le> 0"
    using Node.prems Node.IH(2) [of x] by (simp add: sorted_wrt_mid)
  moreover have "cmp b x \<le> 0" using Node.prems by simp
  moreover have "\<exists>z. get_most_loop cmp k (Some b) l = Some z \<and> cmp b z \<le> 0"
    using Node.prems Node.IH(1) [of b] by (simp add: sorted_wrt_mid)
  ultimately show ?case using cmp_trans by auto
qed (simp add: cmp_self)

lemma get_most_loop_max:
  assumes "sorted_wrt (\<lambda>x y. cmp x y \<le> 0) (inorder t)" and "y \<in> set (inorder t)" and "0 \<le> cmp k y"
  shows "\<exists>x. get_most_loop cmp k best t = Some x \<and> cmp y x \<le> 0"
  using assms
proof (induction t arbitrary: best)
  case (Node l x w r)
  have up: "\<exists>z. get_most_loop cmp k (Some x) r = Some z \<and> cmp x z \<le> 0"
    using Node.prems get_most_loop_above [of r x] by (simp add: sorted_wrt_mid)
  consider "cmp k x = 0" | "cmp k x < 0" | "0 < cmp k x" by linarith
  then show ?case
  proof cases
    case 1
    with Node.prems(3) have "cmp y x \<le> 0" using cmp_trans [of y k x] cmp_le_swap [of y k] by simp
    with 1 show ?thesis by simp
  next
    case 2
    have "y \<notin> set (inorder r)" "y \<noteq> x"
      using 2 Node.prems cmp_less_trans1 [of k x y] by (auto simp: sorted_wrt_mid)
    with 2 Node show ?thesis by (auto simp: sorted_wrt_mid)
  next
    case 3
    have "cmp y x \<le> 0" if "y \<notin> set (inorder r)"
      using that Node.prems by (auto simp: sorted_wrt_mid cmp_self)
    with 3 up cmp_trans [of y x] Node.IH(2) [of "Some x"] Node.prems show ?thesis
      by (cases "y \<in> set (inorder r)") (auto simp: sorted_wrt_mid)
  qed
qed simp

lemma get_least_loop_bound:
  "get_least_loop cmp k best t = Some x \<Longrightarrow> best = Some x \<or> x \<in> set (inorder t) \<and> cmp k x \<le> 0"
  by (induction t arbitrary: best) (fastforce split: if_splits)+

lemma get_least_loop_below:
  assumes "sorted_wrt (\<lambda>x y. cmp x y \<le> 0) (inorder t)" and "\<forall>y\<in>set (inorder t). cmp y b \<le> 0"
  shows "\<exists>x. get_least_loop cmp k (Some b) t = Some x \<and> cmp x b \<le> 0"
  using assms
proof (induction t arbitrary: b)
  case (Node l x w r)
  have "\<exists>z. get_least_loop cmp k (Some x) l = Some z \<and> cmp z x \<le> 0"
    using Node.prems Node.IH(1) [of x] by (simp add: sorted_wrt_mid)
  moreover have "cmp x b \<le> 0" using Node.prems by simp
  moreover have "\<exists>z. get_least_loop cmp k (Some b) r = Some z \<and> cmp z b \<le> 0"
    using Node.prems Node.IH(2) [of b] by (simp add: sorted_wrt_mid)
  ultimately show ?case using cmp_trans by auto
qed (simp add: cmp_self)

lemma get_least_loop_min:
  assumes "sorted_wrt (\<lambda>x y. cmp x y \<le> 0) (inorder t)" and "y \<in> set (inorder t)" and "cmp k y \<le> 0"
  shows "\<exists>x. get_least_loop cmp k best t = Some x \<and> cmp x y \<le> 0"
  using assms
proof (induction t arbitrary: best)
  case (Node l x w r)
  have down: "\<exists>z. get_least_loop cmp k (Some x) l = Some z \<and> cmp z x \<le> 0"
    using Node.prems get_least_loop_below [of l x] by (simp add: sorted_wrt_mid)
  consider "cmp k x = 0" | "cmp k x < 0" | "0 < cmp k x" by linarith
  then show ?case
  proof cases
    case 1
    with Node.prems(3) have "cmp x y \<le> 0" using cmp_trans [of x k y] cmp_zero_swap [of k x] by simp
    with 1 show ?thesis by simp
  next
    case 2
    have "cmp x y \<le> 0" if "y \<notin> set (inorder l)"
      using that Node.prems by (auto simp: sorted_wrt_mid cmp_self)
    with 2 down cmp_trans [of _ x y] Node.IH(1) [of "Some x"] Node.prems show ?thesis
      by (cases "y \<in> set (inorder l)") (auto simp: sorted_wrt_mid)
  next
    case 3
    have "y \<notin> set (inorder l)" "y \<noteq> x"
      using 3 Node.prems cmp_less_trans2 [of y x k] cmp_swap [of y k] cmp_swap [of x k]
      by (auto simp: sorted_wrt_mid)
    with 3 Node show ?thesis by (auto simp: sorted_wrt_mid)
  qed
qed simp

end

section \<open>Index lookup\<close>

lemma get_by_index_loop_correct:
  assumes "ranked t" and "node_count t < 2 ^ 30 - 1"
  shows "get_by_index_loop m t =
    (if 1 \<le> unat m \<and> unat m \<le> node_count t then Some (inorder t ! (unat m - 1)) else None)"
  using assms
proof (induction t arbitrary: m)
  case (Node l x w r)
  let ?rank = "ucast (AVL_GET_RANK w) :: u64"
  have rank: "unat ?rank = Suc (node_count l)"
    using ranked_rank_value [OF Node.prems(1)] Node.prems(2) by (simp add: unsigned_ucast_eq take_bit_nat_eq_self)
  consider "unat m < Suc (node_count l)" | "Suc (node_count l) < unat m" | "unat m = Suc (node_count l)"
    by linarith
  then show ?case
  proof cases
    case 1
    then have "m < ?rank" using rank by (simp add: word_less_nat_alt)
    with 1 Node show ?thesis by (auto simp: Let_def nth_append length_inorder)
  next
    case 2
    then have gt: "?rank < m" "\<not> m < ?rank" using rank by (simp_all add: word_less_nat_alt)
    have sub: "unat (m - ?rank) = unat m - Suc (node_count l)"
      using gt rank by (simp add: unat_sub)
    show ?thesis
      using 2 gt Node.prems Node.IH(2) [of "m - ?rank"] sub
      by (auto simp: Let_def nth_append length_inorder)
  next
    case 3
    then have "m = ?rank" using rank by (simp add: word_unat_eq_iff)
    with 3 show ?thesis by (simp add: Let_def nth_append length_inorder)
  qed
qed simp

section \<open>Cursors visit the keys in order\<close>

definition cursor_before :: "'k cursor \<Rightarrow> 'k list" where
  "cursor_before cur = before (snd cur) @ inorder (left (fst cur))"

definition cursor_after :: "'k cursor \<Rightarrow> 'k list" where
  "cursor_after cur = inorder (right (fst cur)) @ after (snd cur)"

lemma leftmost_spec:
  "leftmost t c = (y, d) \<Longrightarrow> t \<noteq> Null \<Longrightarrow>
   y \<noteq> Null \<and> left y = Null \<and> before d = before c \<and> key y # inorder (right y) @ after d = inorder t @ after c"
  by (induction t c rule: leftmost.induct) auto

lemma rightmost_cursor:
  "rightmost t c = (y, d) \<Longrightarrow> t \<noteq> Null \<Longrightarrow>
   y \<noteq> Null \<and> right y = Null \<and> after d = after c \<and> before d @ inorder (left y) @ [key y] = before c @ inorder t"
  by (induction t c rule: rightmost.induct) auto

lemma next_climb_spec:
  "case next_climb t c of
     None \<Rightarrow> after c = []
   | Some (y, d) \<Rightarrow> y \<noteq> Null \<and> before c @ inorder t = before d @ inorder (left y) \<and>
       after c = key y # inorder (right y) @ after d"
  by (induction t c rule: next_climb.induct) (auto split: option.splits)

lemma prev_climb_spec:
  "case prev_climb t c of
     None \<Rightarrow> before c = []
   | Some (y, d) \<Rightarrow> y \<noteq> Null \<and> inorder t @ after c = inorder (right y) @ after d \<and>
       before c = before d @ inorder (left y) @ [key y]"
  by (induction t c rule: prev_climb.induct) (auto split: option.splits)

lemma avl_get_next_step:
  assumes "t \<noteq> Null"
  shows "case avl_get_next (t, c) of
     None \<Rightarrow> cursor_after (t, c) = []
   | Some cur \<Rightarrow> fst cur \<noteq> Null \<and> cursor_before cur = cursor_before (t, c) @ [key t] \<and>
       cursor_after (t, c) = key (fst cur) # cursor_after cur"
proof -
  from assms obtain l x w r where t: "t = Node l x w r" by (cases t) auto
  show ?thesis
  proof (cases "r = Null")
    case True
    with next_climb_spec [where t = t and c = c] show ?thesis
      by (auto simp: t cursor_before_def cursor_after_def split: option.splits)
  next
    case False
    obtain y d where "leftmost r (HoleR l x w # c) = (y, d)" by fastforce
    with leftmost_spec [OF this False] False show ?thesis
      by (cases r) (auto simp: t cursor_before_def cursor_after_def)
  qed
qed

lemma avl_get_prev_step:
  assumes "t \<noteq> Null"
  shows "case avl_get_prev (t, c) of
     None \<Rightarrow> cursor_before (t, c) = []
   | Some cur \<Rightarrow> fst cur \<noteq> Null \<and> cursor_after cur = key t # cursor_after (t, c) \<and>
       cursor_before (t, c) = cursor_before cur @ [key (fst cur)]"
proof -
  from assms obtain l x w r where t: "t = Node l x w r" by (cases t) auto
  show ?thesis
  proof (cases "l = Null")
    case True
    with prev_climb_spec [where t = t and c = c] show ?thesis
      by (auto simp: t cursor_before_def cursor_after_def split: option.splits)
  next
    case False
    obtain y d where "rightmost l (HoleL x w r # c) = (y, d)" by fastforce
    with rightmost_cursor [OF this False] False show ?thesis
      by (cases l) (auto simp: t cursor_before_def cursor_after_def)
  qed
qed

text \<open>Walking on from a cursor reads its key and all keys after it, given steps enough.\<close>

lemma cursor_walk_from:
  "fst cur \<noteq> Null \<Longrightarrow> length (cursor_after cur) < n \<Longrightarrow>
   cursor_walk n (Some cur) = key (fst cur) # cursor_after cur"
proof (induction n arbitrary: cur)
  case (Suc n)
  show ?case
  proof (cases "avl_get_next cur")
    case None
    with Suc.prems avl_get_next_step [of "fst cur" "snd cur"] show ?thesis
      by (cases n) auto
  next
    case (Some cur')
    with Suc avl_get_next_step [of "fst cur" "snd cur"] show ?thesis by auto
  qed
qed simp

lemma avl_get_first_spec:
  "case avl_get_first tree of
     None \<Rightarrow> root tree = Null
   | Some cur \<Rightarrow> fst cur \<noteq> Null \<and> cursor_before cur = [] \<and>
       inorder (root tree) = key (fst cur) # cursor_after cur"
proof (cases "root tree")
  case (Node l x w r)
  obtain y d where "leftmost (root tree) [] = (y, d)" by fastforce
  with leftmost_spec [OF this] Node show ?thesis
    by (auto simp: avl_get_first_def cursor_before_def cursor_after_def)
qed (simp add: avl_get_first_def)

lemma cursor_walk_first:
  assumes "node_count (root tree) \<le> n"
  shows "cursor_walk n (avl_get_first tree) = inorder (root tree)"
proof (cases "avl_get_first tree")
  case None
  with avl_get_first_spec [of tree] show ?thesis by (cases n) auto
next
  case (Some cur)
  with avl_get_first_spec [of tree] assms cursor_walk_from [of cur n] show ?thesis
    by (auto simp flip: length_inorder)
qed

section \<open>Callbacks and freeing\<close>

fun iterate_list :: "('k \<Rightarrow> 's \<Rightarrow> int \<times> 's) \<Rightarrow> 'k list \<Rightarrow> 's \<Rightarrow> int \<times> 's" where
  "iterate_list f [] s = (0, s)"
| "iterate_list f (x # xs) s = (let (res, s') = f x s in if res \<noteq> 0 then (res, s') else iterate_list f xs s')"

lemma iterate_list_append:
  "iterate_list f (xs @ ys) s =
     (let (res, s') = iterate_list f xs s in if res \<noteq> 0 then (res, s') else iterate_list f ys s')"
  by (induction xs arbitrary: s) (auto simp: Let_def split: prod.splits)

lemma iterate_inorder_helper_eq: "iterate_inorder_helper f t s = iterate_list f (inorder t) s"
  by (induction t arbitrary: s) (auto simp: iterate_list_append Let_def split: prod.splits)

lemma tree_free_helper_eq: "tree_free_helper t = inorder t"
  by (induction t) auto

lemma tree_length_zero:
  assumes "avl_invar tree" and "node_count (root tree) < 2 ^ 32"
  shows "tree_length tree = 0 \<longleftrightarrow> root tree = Null"
proof -
  have "unat (tree_length tree) = node_count (root tree)"
    using assms by (simp add: avl_invar_def unat_of_nat)
  then show ?thesis by (metis inorder_Nil length_0_conv length_inorder unat_eq_zero)
qed

lemma balanced_verify: "balanced t \<Longrightarrow> avl_verify_balance t = int (height t)"
  by (induction t) (auto simp: Let_def max_def)

end
