(* ===== verification/C_String.thy ===== *)
theory C_String
  imports Prelude
begin

text \<open>
  The part of the C string library the program uses. A C string is the list of the
  characters before its terminating NUL; a raw buffer is a character list that may hold NUL
  characters, and \<open>c_str\<close> reads the string at an offset of a buffer. A pointer into a string
  is an offset, the null pointer \<open>None\<close>. Comparison results are the signs the standard
  promises; character classes are those of the C locale.
\<close>

definition NUL :: char where
  "NUL = CHR 0x00"

definition CR :: char where
  "CR = CHR 0x0D"

definition LF :: char where
  "LF = CHR 0x0A"

abbreviation code :: "char \<Rightarrow> nat" where
  "code c \<equiv> of_char c"

definition is_cstr :: "string \<Rightarrow> bool" where
  "is_cstr s \<longleftrightarrow> NUL \<notin> set s"

definition c_str :: "string \<Rightarrow> nat \<Rightarrow> string" where
  "c_str buf off = takeWhile (\<lambda>c. c \<noteq> NUL) (drop off buf)"

section \<open>Comparison\<close>

fun strcmp :: "string \<Rightarrow> string \<Rightarrow> int" where
  "strcmp [] [] = 0"
| "strcmp [] (b # bs) = -1"
| "strcmp (a # as) [] = 1"
| "strcmp (a # as) (b # bs) =
     (if a = b then strcmp as bs else if code a < code b then -1 else 1)"

definition tolower :: "char \<Rightarrow> char" where
  "tolower c = (if code (CHR ''A'') \<le> code c \<and> code c \<le> code (CHR ''Z'') then char_of (code c + 32) else c)"

definition strcasecmp :: "string \<Rightarrow> string \<Rightarrow> int" where
  "strcasecmp a b = strcmp (map tolower a) (map tolower b)"

text \<open>\<open>strncmp\<close> stops at the end of the shorter string or after \<open>n\<close> characters.\<close>

definition strncmp :: "string \<Rightarrow> string \<Rightarrow> nat \<Rightarrow> int" where
  "strncmp a b n = strcmp (take n a) (take n b)"

definition strncasecmp :: "string \<Rightarrow> string \<Rightarrow> nat \<Rightarrow> int" where
  "strncasecmp a b n = strcasecmp (take n a) (take n b)"

section \<open>Searching\<close>

fun strchr :: "string \<Rightarrow> char \<Rightarrow> nat option" where
  "strchr [] c = None"
| "strchr (a # as) c = (if a = c then Some 0 else map_option Suc (strchr as c))"

fun strrchr :: "string \<Rightarrow> char \<Rightarrow> nat option" where
  "strrchr [] c = None"
| "strrchr (a # as) c =
     (case strrchr as c of Some i \<Rightarrow> Some (Suc i) | None \<Rightarrow> if a = c then Some 0 else None)"

definition prefix_at :: "string \<Rightarrow> string \<Rightarrow> bool" where
  "prefix_at p s \<longleftrightarrow> take (length p) s = p"

fun strstr :: "string \<Rightarrow> string \<Rightarrow> nat option" where
  "strstr [] p = (if p = [] then Some 0 else None)"
| "strstr (a # as) p = (if prefix_at p (a # as) then Some 0 else map_option Suc (strstr as p))"

section \<open>Numbers\<close>

definition is_digit :: "char \<Rightarrow> bool" where
  "is_digit c \<longleftrightarrow> code (CHR ''0'') \<le> code c \<and> code c \<le> code (CHR ''9'')"

definition is_space :: "char \<Rightarrow> bool" where
  "is_space c \<longleftrightarrow> c = CHR '' '' \<or> 9 \<le> code c \<and> code c \<le> 13"

definition digits_value :: "string \<Rightarrow> int" where
  "digits_value ds = foldl (\<lambda>v d. 10 * v + (int (code d) - 48)) 0 ds"

text \<open>\<open>atoi\<close>: blanks, an optional sign, digits. Overflow is undefined in C and not modelled.\<close>

definition atoi :: "string \<Rightarrow> int" where
  "atoi s =
     (case dropWhile is_space s of
        [] \<Rightarrow> 0
      | c # r \<Rightarrow>
          if c = CHR ''-'' then - digits_value (takeWhile is_digit r)
          else if c = CHR ''+'' then digits_value (takeWhile is_digit r)
          else digits_value (takeWhile is_digit (c # r)))"

section \<open>Facts\<close>

lemma ctrl_distinct [simp]: "CR \<noteq> LF" "LF \<noteq> CR" "NUL \<noteq> LF" "LF \<noteq> NUL" "NUL \<noteq> CR" "CR \<noteq> NUL"
  by (simp_all add: CR_def LF_def NUL_def)

lemma code_inj [simp]: "code a = code b \<longleftrightarrow> a = b"
  by (metis char_of_char)

lemma strcmp_eq_0 [simp, cstr]: "strcmp a b = 0 \<longleftrightarrow> a = b"
  by (induction a b rule: strcmp.induct) auto

lemma strcmp_swap: "strcmp a b < 0 \<longleftrightarrow> 0 < strcmp b a"
  by (induction a b rule: strcmp.induct) (auto simp: linorder_not_less le_less)

lemma strcmp_trans: "strcmp a b \<le> 0 \<Longrightarrow> strcmp b c \<le> 0 \<Longrightarrow> strcmp a c \<le> 0"
proof (induction a c arbitrary: b rule: strcmp.induct)
  case (3 a as)
  then show ?case by (cases b) (auto split: if_splits)
next
  case (4 a as c cs)
  then show ?case by (cases b) (auto split: if_splits)
qed auto

lemma strcmp_key_compare: "key_compare strcmp"
  by unfold_locales (auto simp: strcmp_swap intro: strcmp_trans)

text \<open>Entries compared by the string one of their fields holds.\<close>

lemma strcmp_field_compare: "key_compare (\<lambda>x y. strcmp (f x) (f y))"
  by unfold_locales (auto simp: strcmp_swap intro: strcmp_trans)

lemma strchr_Some [cstr]:
  "strchr s c = Some i \<longleftrightarrow> i < length s \<and> s ! i = c \<and> c \<notin> set (take i s)"
  by (induction s arbitrary: i) (auto simp: nth_Cons take_Cons split: nat.splits)

lemma strchr_None [cstr]: "strchr s c = None \<longleftrightarrow> c \<notin> set s"
  by (induction s) auto

lemma strchr_at: "c \<notin> set a \<Longrightarrow> strchr (a @ c # b) c = Some (length a)"
  by (induction a) auto

lemma strchr_take: "strchr s c = Some i \<Longrightarrow> take i s = takeWhile (\<lambda>x. x \<noteq> c) s"
  by (induction s arbitrary: i) (auto split: if_splits)

lemma strchr_drop: "strchr s c = Some i \<Longrightarrow> drop i s = dropWhile (\<lambda>x. x \<noteq> c) s"
  by (induction s arbitrary: i) (auto split: if_splits)

lemma takeWhile_all [simp]: "c \<notin> set s \<Longrightarrow> takeWhile (\<lambda>x. x \<noteq> c) s = s"
  by (induction s) auto

lemma strrchr_None [cstr]: "strrchr s c = None \<longleftrightarrow> c \<notin> set s"
  by (induction s) (auto split: option.splits)

lemma strrchr_at: "c \<notin> set b \<Longrightarrow> strrchr (a @ c # b) c = Some (length a)"
  by (induction a) (auto simp: strrchr_None split: option.splits)

lemma strrchr_split:
  "strrchr s c = Some i \<Longrightarrow> s = take i s @ c # drop (Suc i) s \<and> c \<notin> set (drop (Suc i) s)"
  by (induction s arbitrary: i) (auto simp: strrchr_None split: option.splits if_splits)

lemma strrchr_nth: "strrchr s c = Some i \<Longrightarrow> i < length s \<and> s ! i = c"
  by (induction s arbitrary: i) (auto split: option.splits if_splits)

lemma strstr_Some_prefix:
  "strstr s p = Some i \<Longrightarrow> i + length p \<le> length s \<and> take (length p) (drop i s) = p"
proof (induction s p arbitrary: i rule: strstr.induct)
  case (2 a as p)
  then show ?case
    by (auto simp: prefix_at_def split: if_splits) (metis length_take min.bounded_iff length_Cons linorder_linear)+
qed (auto split: if_splits)

lemma strncmp_eq_0 [cstr]: "strncmp a b n = 0 \<longleftrightarrow> take n a = take n b"
  by (simp add: strncmp_def)

lemma is_cstr_c_str [simp]: "is_cstr (c_str buf off)"
  by (auto simp: is_cstr_def c_str_def dest: set_takeWhileD)

lemma c_str_append:
  "length a = off \<Longrightarrow> is_cstr s \<Longrightarrow> c_str (a @ s @ NUL # b) off = s"
  by (auto simp: c_str_def is_cstr_def takeWhile_tail)

lemma is_cstr_read: "is_cstr s \<Longrightarrow> c_str (s @ [NUL]) 0 = s"
  using c_str_append [of "[]" 0 s "[]"] by simp

section \<open>Printing\<close>

text \<open>\<open>%d\<close>, and \<open>snprintf\<close> into a buffer of \<open>n\<close> bytes: what is written before the NUL, and the length returned.\<close>

fun dec :: "nat \<Rightarrow> string" where
  "dec n = (if n < 10 then [char_of (48 + n)] else dec (n div 10) @ [char_of (48 + n mod 10)])"

declare dec.simps [simp del]

definition fmt_d :: "int \<Rightarrow> string" where
  "fmt_d i = (if i < 0 then CHR ''-'' # dec (nat (- i)) else dec (nat i))"

definition snprintf :: "nat \<Rightarrow> string \<Rightarrow> string \<times> int" where
  "snprintf n text = (take (n - 1) text, int (length text))"

lemma digit_code: "n < 10 \<Longrightarrow> code (char_of (48 + n)) = 48 + n"
  by (simp add: of_char_of)

lemma dec_digits: "list_all is_digit (dec n)" "dec n \<noteq> []"
proof -
  show "list_all is_digit (dec n)"
  proof (induction n rule: dec.induct)
    case (1 n)
    have d: "is_digit (char_of (48 + m))" if "m < 10" for m :: nat
      using digit_code [OF that] that by (simp add: is_digit_def)
    show ?case
    proof (cases "n < 10")
      case True then show ?thesis using d by (subst dec.simps) simp
    next
      case False
      moreover have "n mod 10 < 10" by simp
      ultimately show ?thesis using 1 d by (subst dec.simps) simp
    qed
  qed
  show "dec n \<noteq> []" by (subst dec.simps) simp
qed

lemma digits_value_snoc: "digits_value (ds @ [d]) = 10 * digits_value ds + (int (code d) - 48)"
  by (simp add: digits_value_def)

lemma digits_value_dec: "digits_value (dec n) = int n"
proof (induction n rule: dec.induct)
  case (1 n)
  show ?case
  proof (cases "n < 10")
    case True
    then show ?thesis using digit_code [OF True] by (subst dec.simps) (simp add: digits_value_def)
  next
    case False
    have "n mod 10 < 10" by simp
    then have c: "code (char_of (48 + n mod 10)) = 48 + n mod 10" by (rule digit_code)
    have "digits_value (dec n) = 10 * int (n div 10) + int (n mod 10)"
      using 1 [OF False] False by (subst dec.simps) (simp add: digits_value_snoc c del: of_char_of)
    also have "\<dots> = int n" using mult_div_mod_eq [of 10 n] by linarith
    finally show ?thesis .
  qed
qed

lemma is_digit_facts:
  assumes "is_digit c"
  shows "\<not> is_space c" "c \<noteq> CHR ''-''" "c \<noteq> CHR ''+''" "c \<noteq> NUL" "c \<noteq> CR" "c \<noteq> LF" "c \<noteq> CHR '' ''" "c \<noteq> CHR '':''"
  using assms by (auto simp: is_digit_def is_space_def NUL_def CR_def LF_def)

lemma length_dec: "n < 10 ^ k \<Longrightarrow> 0 < k \<Longrightarrow> length (dec n) \<le> k"
proof (induction k arbitrary: n)
  case (Suc k)
  show ?case
  proof (cases "n < 10")
    case True
    then show ?thesis by (simp add: dec.simps [of n])
  next
    case False
    then have "n div 10 < 10 ^ k" "0 < k" using Suc.prems by (auto simp: less_mult_imp_div_less mult.commute intro!: gr0I)
    from Suc.IH [OF this] False show ?thesis by (simp add: dec.simps [of n])
  qed
qed simp

lemma length_fmt_d: "\<bar>i\<bar> < 10 ^ k \<Longrightarrow> 0 < k \<Longrightarrow> length (fmt_d i) \<le> Suc k"
proof -
  assume a: "\<bar>i\<bar> < 10 ^ k" "0 < k"
  then have "nat \<bar>i\<bar> < 10 ^ k" by (simp add: nat_less_iff)
  from length_dec [OF this a(2)] show ?thesis by (auto simp: fmt_d_def abs_if split: if_splits)
qed

text \<open>\<open>atoi\<close> reads back what \<open>%d\<close> prints.\<close>

lemma atoi_fmt_d: "atoi (fmt_d i) = i"
proof -
  have tw: "takeWhile is_digit (dec n) = dec n" for n
    using dec_digits(1) [of n] by (simp add: takeWhile_eq_all_conv list_all_iff)
  show ?thesis
  proof (cases "i < 0")
    case True
    then show ?thesis by (simp add: fmt_d_def atoi_def is_space_def tw digits_value_dec)
  next
    case False
    obtain c r where d: "dec (nat i) = c # r" using dec_digits(2) by (cases "dec (nat i)") auto
    with dec_digits(1) [of "nat i"] have c: "is_digit c" by simp
    then have "dropWhile is_space (dec (nat i)) = c # r" using d is_digit_facts(1) by simp
    then show ?thesis using False c tw [of "nat i", unfolded d] digits_value_dec [of "nat i", unfolded d] is_digit_facts(2,3) [OF c]
      by (simp only: fmt_d_def atoi_def list.case if_False)
  qed
qed

end
