(* ===== verification/Avl_Store.thy ===== *)
theory Avl_Store
  imports Avl_Query C_String
begin

text \<open>
  The contract under which the rest of the program uses the AVL trees: a store of entries
  that are found by a string field of theirs (the variables of an HTTP request, the
  statistics, the sources). The interface is \<open>keyed_store\<close>; \<open>avl_entries\<close> builds it from the
  tree operations and a comparison by \<open>strcmp\<close> of that field, and its sublocale proof
  discharges the contract from the lemmas on insertion, deletion and lookup.
\<close>

section \<open>Interface\<close>

locale keyed_store =
  fixes keyof :: "'e \<Rightarrow> string"
    and empty :: "'t"
    and insert :: "'t \<Rightarrow> 'e \<Rightarrow> 't"
    and delete :: "'t \<Rightarrow> 'e \<Rightarrow> 't"
    and lookup :: "'t \<Rightarrow> 'e \<Rightarrow> 'e option"
    and contents :: "'t \<Rightarrow> string \<rightharpoonup> 'e"
    and ok :: "'t \<Rightarrow> bool"
  assumes ok_empty: "ok empty"
    and contents_empty: "contents empty = Map.empty"
    and lookup_contents: "ok t \<Longrightarrow> lookup t e = contents t (keyof e)"
    and ok_insert: "ok t \<Longrightarrow> contents t (keyof e) = None \<Longrightarrow> ok (insert t e)"
    and contents_insert:
      "ok t \<Longrightarrow> contents t (keyof e) = None \<Longrightarrow> contents (insert t e) = (contents t)(keyof e \<mapsto> e)"
    and ok_delete: "ok t \<Longrightarrow> ok (delete t e)"
    and contents_delete: "ok t \<Longrightarrow> contents (delete t e) = (contents t)(keyof e := None)"
    and contents_key: "ok t \<Longrightarrow> contents t n = Some e \<Longrightarrow> keyof e = n"
begin

text \<open>The clients' idiom: insert an entry, after deleting the one it replaces.\<close>

lemma replace_ok:
  "ok t \<Longrightarrow> ok (if lookup t e = None then insert t e else insert (delete t e) e)"
  by (auto simp: lookup_contents contents_delete intro!: ok_insert ok_delete)

lemma replace_contents:
  "ok t \<Longrightarrow> contents (if lookup t e = None then insert t e else insert (delete t e) e) =
     (contents t)(keyof e \<mapsto> e)"
  by (auto simp: lookup_contents contents_delete contents_insert ok_delete)

end

section \<open>The tree operations as the interface\<close>

definition entry_compare :: "('e \<Rightarrow> string) \<Rightarrow> 'e \<Rightarrow> 'e \<Rightarrow> int" where
  "entry_compare keyof x y = strcmp (keyof x) (keyof y)"

definition tree_insert :: "'e avl_tree \<Rightarrow> 'e \<Rightarrow> 'e avl_tree" where
  "tree_insert t e = snd (avl_insert True t e)"

definition tree_delete :: "'e avl_tree \<Rightarrow> 'e \<Rightarrow> 'e avl_tree" where
  "tree_delete t e = snd (snd (avl_delete t e))"

definition tree_contents :: "('e \<Rightarrow> string) \<Rightarrow> 'e avl_tree \<Rightarrow> string \<rightharpoonup> 'e" where
  "tree_contents keyof t = map_of (map (\<lambda>e. (keyof e, e)) (inorder (root t)))"

definition store_ok :: "('e \<Rightarrow> string) \<Rightarrow> 'e avl_tree \<Rightarrow> bool" where
  "store_ok keyof t \<longleftrightarrow> avl_invar t \<and> compare_fun t = entry_compare keyof \<and>
     distinct (map keyof (inorder (root t)))"

lemma entry_compare_ok: "key_compare (entry_compare keyof)"
  using strcmp_field_compare [of keyof] by (simp add: entry_compare_def [abs_def])

lemma tree_contents_Some:
  "distinct (map keyof (inorder (root t))) \<Longrightarrow>
   tree_contents keyof t n = Some e \<longleftrightarrow> e \<in> set (inorder (root t)) \<and> keyof e = n"
  unfolding tree_contents_def by (subst map_of_eq_Some_iff) (auto simp: comp_def)

lemma tree_contents_None: "tree_contents keyof t n = None \<longleftrightarrow> n \<notin> keyof ` set (inorder (root t))"
  by (force simp: tree_contents_def map_of_eq_None_iff)

text \<open>Two trees with the same entries under distinct names have the same contents.\<close>

lemma tree_contents_eqI:
  assumes "distinct (map keyof (inorder (root t)))"
    and "\<And>n e. m n = Some e \<longleftrightarrow> e \<in> set (inorder (root t)) \<and> keyof e = n"
  shows "tree_contents keyof t = m"
  by (rule ext, rule option_eqI) (simp add: assms tree_contents_Some)

lemma list_insert_set: "set (list_insert cmp k xs) = Set.insert k (set xs)"
  by (auto simp: list_insert_def dest: set_takeWhileD set_dropWhileD)
    (metis UnE set_append takeWhile_dropWhile_id)

lemma list_insert_distinct:
  assumes "distinct (map f xs)" and "f k \<notin> f ` set xs"
  shows "distinct (map f (list_insert cmp k xs))"
proof -
  let ?P = "\<lambda>x. 0 < cmp k x"
  have "distinct (map f (takeWhile ?P xs @ dropWhile ?P xs))" using assms(1) by simp
  then show ?thesis
    using assms(2) set_takeWhileD [of _ ?P xs] set_dropWhileD [of _ ?P xs]
    by (auto simp: list_insert_def simp del: takeWhile_dropWhile_id)
qed

lemma store_insert:
  assumes ok: "store_ok keyof t" and new: "tree_contents keyof t (keyof e) = None"
  shows "store_ok keyof (tree_insert t e)"
    and "tree_contents keyof (tree_insert t e) = (tree_contents keyof t)(keyof e \<mapsto> e)"
proof -
  obtain res t' where ins: "avl_insert True t e = (res, t')" by fastforce
  then have t': "tree_insert t e = t'" by (simp add: tree_insert_def)
  have "key_compare (compare_fun t)" and inv: "avl_invar t" and dist: "distinct (map keyof (inorder (root t)))"
    using ok entry_compare_ok by (auto simp: store_ok_def)
  note insert = avl_insert_correct [OF this(1,2) ins]
  have dist': "distinct (map keyof (inorder (root t')))"
    using list_insert_distinct [OF dist] new insert(4) by (simp add: tree_contents_None)
  then show "store_ok keyof (tree_insert t e)" using insert ok by (simp add: t' store_ok_def)
  show "tree_contents keyof (tree_insert t e) = (tree_contents keyof t)(keyof e \<mapsto> e)"
    unfolding t' using dist' insert(4) new
    by (intro tree_contents_eqI)
      (auto simp: list_insert_set tree_contents_Some [OF dist] tree_contents_None image_iff)
qed

lemma store_delete:
  assumes ok: "store_ok keyof t"
  shows "store_ok keyof (tree_delete t e)"
    and "tree_contents keyof (tree_delete t e) = (tree_contents keyof t)(keyof e := None)"
proof -
  obtain res freed t' where del: "avl_delete t e = (res, freed, t')" using prod_cases3 by blast
  then have t': "tree_delete t e = t'" by (simp add: tree_delete_def)
  have "key_compare (compare_fun t)" and inv: "avl_invar t" and dist: "distinct (map keyof (inorder (root t)))"
    and cmp: "compare_fun t = entry_compare keyof"
    using ok entry_compare_ok by (auto simp: store_ok_def)
  note delete = avl_delete_correct [OF this(1,2) del]
  have rest: "distinct (map keyof (inorder (root t'))) \<and>
      set (inorder (root t')) = {x \<in> set (inorder (root t)). keyof x \<noteq> keyof e}"
  proof (cases "res = 0")
    case True
    with delete(3) obtain xs x ys where x: "keyof e = keyof x"
      and t: "inorder (root t) = xs @ x # ys" and t'': "inorder (root t') = xs @ ys"
      by (auto simp: cmp entry_compare_def)
    from dist t have "\<forall>z\<in>set xs \<union> set ys. keyof z \<noteq> keyof x" "distinct (map keyof (xs @ ys))"
      by (auto simp: image_iff)
    then show ?thesis unfolding t t'' x by auto
  next
    case False
    with delete(4) dist show ?thesis by (auto simp: cmp entry_compare_def)
  qed
  then show "store_ok keyof (tree_delete t e)" using delete(1,2) ok by (simp add: t' store_ok_def)
  show "tree_contents keyof (tree_delete t e) = (tree_contents keyof t)(keyof e := None)"
    unfolding t' by (rule tree_contents_eqI) (use rest tree_contents_Some [OF dist] in auto)
qed

lemma store_lookup:
  assumes "store_ok keyof t"
  shows "avl_get_by_key t e = tree_contents keyof t (keyof e)"
proof -
  have cmp: "key_compare (compare_fun t)" and t: "avl_invar t" "compare_fun t = entry_compare keyof"
    and dist: "distinct (map keyof (inorder (root t)))"
    using assms entry_compare_ok by (auto simp: store_ok_def)
  note found = key_compare.get_by_key_loop_correct [OF cmp, of "root t" e]
  show ?thesis
  proof (cases "avl_get_by_key t e")
    case None
    with found t have "keyof e \<notin> keyof ` set (inorder (root t))"
      by (auto simp: avl_get_by_key_def avl_invar_def entry_compare_def)
    then have "tree_contents keyof t (keyof e) = None" by (simp only: tree_contents_None not_False_eq_True)
    with None show ?thesis by simp
  next
    case (Some x)
    with found t have "tree_contents keyof t (keyof e) = Some x"
      by (auto simp: avl_get_by_key_def avl_invar_def entry_compare_def tree_contents_Some [OF dist])
    with Some show ?thesis by simp
  qed
qed

locale avl_entries =
  fixes keyof :: "'e \<Rightarrow> string"

sublocale avl_entries \<subseteq> store: keyed_store keyof "avl_tree_new (entry_compare keyof)" tree_insert tree_delete
  avl_get_by_key "tree_contents keyof" "store_ok keyof"
proof unfold_locales
  show "store_ok keyof (avl_tree_new (entry_compare keyof))"
    by (simp add: store_ok_def avl_tree_new_def avl_invar_def)
  show "tree_contents keyof (avl_tree_new (entry_compare keyof)) = Map.empty"
    by (simp add: tree_contents_def avl_tree_new_def)
  show "keyof e = n" if "store_ok keyof t" "tree_contents keyof t n = Some e" for t n e
    using that tree_contents_Some [of keyof t n e] by (auto simp: store_ok_def)
qed (simp_all add: store_insert store_delete store_lookup)

section \<open>Trees built from lists with repeated keys\<close>

lemma tree_insert_ok:
  assumes "key_compare (compare_fun t)" and "avl_invar t"
  shows "avl_invar (tree_insert t e)" and "compare_fun (tree_insert t e) = compare_fun t"
    and "set (inorder (root (tree_insert t e))) = insert e (set (inorder (root t)))"
proof -
  obtain res t' where ins: "avl_insert True t e = (res, t')" by fastforce
  note avl_insert_correct [OF assms ins]
  with ins show "avl_invar (tree_insert t e)" "compare_fun (tree_insert t e) = compare_fun t"
    "set (inorder (root (tree_insert t e))) = insert e (set (inorder (root t)))"
    by (simp_all add: tree_insert_def list_insert_set)
qed

lemma tree_build_ok:
  "key_compare (compare_fun t) \<Longrightarrow> avl_invar t \<Longrightarrow>
   avl_invar (fold (\<lambda>e t. tree_insert t e) xs t) \<and>
   compare_fun (fold (\<lambda>e t. tree_insert t e) xs t) = compare_fun t \<and>
   set (inorder (root (fold (\<lambda>e t. tree_insert t e) xs t))) = set xs \<union> set (inorder (root t))"
  by (induction xs arbitrary: t) (auto simp: tree_insert_ok)

lemma avl_get_by_key_cases:
  assumes "key_compare (compare_fun t)" and "avl_invar t"
  shows "case avl_get_by_key t k of
      None \<Rightarrow> \<forall>y\<in>set (inorder (root t)). compare_fun t k y \<noteq> 0
    | Some x \<Rightarrow> x \<in> set (inorder (root t)) \<and> compare_fun t k x = 0"
  using key_compare.get_by_key_loop_correct [OF assms(1), of "root t" k] assms(2)
  by (simp add: avl_get_by_key_def avl_invar_def)

lemma tree_build_lookup:
  assumes "key_compare cmp"
  shows "case avl_get_by_key (fold (\<lambda>e t. tree_insert t e) xs (avl_tree_new cmp)) k of
      None \<Rightarrow> \<forall>y\<in>set xs. cmp k y \<noteq> 0
    | Some x \<Rightarrow> x \<in> set xs \<and> cmp k x = 0"
proof -
  let ?t = "fold (\<lambda>e t. tree_insert t e) xs (avl_tree_new cmp)"
  have new: "avl_invar (avl_tree_new cmp)" "compare_fun (avl_tree_new cmp) = cmp" "inorder (root (avl_tree_new cmp)) = []"
    by (simp_all add: avl_tree_new_def avl_invar_def)
  have t: "avl_invar ?t" "compare_fun ?t = cmp" "set (inorder (root ?t)) = set xs"
    using tree_build_ok [of "avl_tree_new cmp" xs] new assms by simp_all
  show ?thesis using avl_get_by_key_cases [of ?t k, unfolded t] assms t(1) by blast
qed

end
