(* ===== verification/Avl_Props.thy ===== *)
theory Avl_Props
  imports Avl_Store
begin

text \<open>
  The properties of the AVL library, stated over its operations, each with a concrete
  instance: trees of strings under \<open>strcmp\<close>, the only comparison the program uses.
\<close>

section \<open>Logarithmic height\<close>

lemma balanced_min_count: "balanced t \<Longrightarrow> 2 ^ (height t div 2) \<le> node_count t + 1"
proof (induction t rule: measure_induct_rule [of height])
  case (less t)
  show ?case
  proof (cases t)
    case (Node l k w r)
    then have lr: "balanced l" "balanced r" "height l < height t" "height r < height t"
      "height t \<le> height l + 2" "height t \<le> height r + 2" using less.prems by auto
    have half: "2 ^ (height t div 2 - 1) \<le> node_count u + 1" if "u \<in> {l, r}" for u
    proof -
      have "(2::nat) ^ (height t div 2 - 1) \<le> 2 ^ (height u div 2)"
        using that lr by (intro power_increasing) auto
      also have "\<dots> \<le> node_count u + 1" using that lr less.IH by blast
      finally show ?thesis .
    qed
    show ?thesis
    proof (cases "height t div 2")
      case (Suc n)
      then show ?thesis using half [of l] half [of r] Node by simp
    qed simp
  qed simp
qed

section \<open>A tree for the concrete instances\<close>

definition demo_tree :: "string avl_tree" where
  "demo_tree = fold (\<lambda>k t. snd (avl_insert True t k)) [''b'', ''d'', ''f'', ''h''] (avl_tree_new strcmp)"

lemma demo_tree_value:
  "demo_tree = \<lparr>root = Node (Node Null ''b'' 5 Null) ''d'' 10 (Node Null ''f'' 6 (Node Null ''h'' 5 Null)),
     tree_height = 2, tree_length = 4, compare_fun = strcmp\<rparr>"
  by (simp add: demo_tree_def avl_insert_def avl_tree_new_def avl_node_new_def balancing_act_def Let_def
      AVL_GET_BALANCE_def AVL_SET_BALANCE_def AVL_GET_RANK_def AVL_SET_RANK_def)

lemma demo_tree_ok:
  "key_compare (compare_fun demo_tree)" "avl_invar demo_tree" "ranked (root demo_tree)"
  "inorder (root demo_tree) = [''b'', ''d'', ''f'', ''h'']"
proof -
  show "key_compare (compare_fun demo_tree)" by (simp add: demo_tree_value strcmp_key_compare)
  show "avl_invar demo_tree" by (simp add: demo_tree_value avl_invar_def AVL_GET_BALANCE_def)
  show "ranked (root demo_tree)" by (simp add: demo_tree_value rank30_def AVL_GET_RANK_def)
  show "inorder (root demo_tree) = [''b'', ''d'', ''f'', ''h'']" by (simp add: demo_tree_value)
qed

section \<open>Properties\<close>

text \<open>
  C6: Insertion into a well-formed tree succeeds, keeps the tree ordered, height-balanced and
  correctly ranked, and places the new key directly in front of the first key that is not
  smaller; every other key keeps its place.
\<close>

theorem avl_insert_spec:
  assumes "key_compare (compare_fun ob)" and "avl_invar ob" and "ranked (root ob)"
  shows "\<exists>ob'. avl_insert True ob k = (0, ob') \<and> avl_invar ob' \<and> ranked (root ob') \<and>
           compare_fun ob' = compare_fun ob \<and>
           inorder (root ob') = takeWhile (\<lambda>x. 0 < compare_fun ob k x) (inorder (root ob)) @
             k # dropWhile (\<lambda>x. 0 < compare_fun ob k x) (inorder (root ob))"
proof -
  obtain res ob' where ins: "avl_insert True ob k = (res, ob')" by fastforce
  from avl_insert_correct [OF assms(1,2) ins] assms(3) ins show ?thesis
    by (auto simp: list_insert_def)
qed

theorem avl_insert_spec_witness:
  "\<exists>ob'. avl_insert True demo_tree ''e'' = (0, ob') \<and> inorder (root ob') = [''b'', ''d'', ''e'', ''f'', ''h'']"
  using avl_insert_spec [OF demo_tree_ok(1-3), of "''e''"] demo_tree_ok(4)
  by (auto simp: demo_tree_value)

text \<open>
  C13: Deletion from a well-formed tree either removes exactly one key, which compares equal to
  the argument and is the one handed to the free function, or reports -1 because no key
  compares equal, in which case the keys stay as they are. The tree stays ordered and
  balanced either way, and a successful deletion keeps the ranks right.
\<close>

theorem avl_delete_spec:
  assumes "key_compare (compare_fun tree)" and "avl_invar tree" and "ranked (root tree)"
  shows "\<exists>res freed tree'. avl_delete tree k = (res, freed, tree') \<and> avl_invar tree' \<and>
    (if \<exists>y\<in>set (inorder (root tree)). compare_fun tree k y = 0
     then res = 0 \<and> ranked (root tree') \<and>
       (\<exists>xs x ys. freed = Some x \<and> compare_fun tree k x = 0 \<and>
          inorder (root tree) = xs @ x # ys \<and> inorder (root tree') = xs @ ys)
     else res = -1 \<and> freed = None \<and> inorder (root tree') = inorder (root tree))"
proof -
  obtain res freed tree' where del: "avl_delete tree k = (res, freed, tree')" using prod_cases3 by blast
  note delete = avl_delete_correct [OF assms(1,2) del]
  show ?thesis
  proof (cases "res = 0")
    case True
    with delete(3) obtain xs x ys where x: "freed = Some x" "compare_fun tree k x = 0"
      "inorder (root tree) = xs @ x # ys" "inorder (root tree') = xs @ ys" by blast
    then have "\<exists>y\<in>set (inorder (root tree)). compare_fun tree k y = 0" by auto
    with True x delete(1,5) assms(3) del show ?thesis by auto
  next
    case False
    with delete(1,4) del show ?thesis by auto
  qed
qed

theorem avl_delete_spec_witness:
  "\<exists>tree'. avl_delete demo_tree ''d'' = (0, Some ''d'', tree') \<and> inorder (root tree') = [''b'', ''f'', ''h'']"
proof -
  have "\<exists>y\<in>set (inorder (root demo_tree)). compare_fun demo_tree ''d'' y = 0"
    by (simp add: demo_tree_value)
  with avl_delete_spec [OF demo_tree_ok(1-3), of "''d''"] demo_tree_ok(4) show ?thesis
    by (auto simp: demo_tree_value append_eq_Cons_conv Cons_eq_append_conv)
qed

text \<open>
  A deletion that finds no key is not always without effect: it leaves the ranks right if
  and only if the key at which the search stopped is above the argument. In particular
  deleting a key above all others from a correctly ranked tree always spoils a rank.
\<close>

lemma avl_delete_miss_spoils_rank:
  assumes "root tree \<noteq> Null" and "ranked (root tree)"
    and "\<forall>y\<in>set (inorder (root tree)). 0 < compare_fun tree k y"
    and "avl_delete tree k = (res, freed, tree')"
  shows "res = -1 \<and> \<not> ranked (root tree')"
proof -
  obtain found x c where find: "delete_find (compare_fun tree) k (root tree) [] = (found, x, c)"
    using prod_cases3 by blast
  have x: "inorder (root tree) = before c @ inorder x @ after c" using delete_find_inorder [OF find] by simp
  have "\<not> found"
  proof
    assume found
    with find delete_find_key [of "compare_fun tree" k "root tree" "[]" x c]
    have "x \<noteq> Null" "compare_fun tree k (key x) = 0" by auto
    moreover from x \<open>x \<noteq> Null\<close> have "key x \<in> set (inorder (root tree))" by (cases x) auto
    ultimately show False using assms(3) by auto
  qed
  with avl_delete_result(2) [OF assms(4,1) find] have "res = -1" by simp
  with avl_delete_rank_after_miss [OF assms(1,2,4)] assms(3) show ?thesis by fastforce
qed

text \<open>
  Lookup by key in a well-formed tree finds a key that compares equal whenever there is
  one, and fails otherwise.
\<close>

lemma avl_get_by_key_spec:
  assumes "key_compare (compare_fun tree)" and "avl_invar tree"
  shows "case avl_get_by_key tree k of
           None \<Rightarrow> \<forall>y\<in>set (inorder (root tree)). compare_fun tree k y \<noteq> 0
         | Some x \<Rightarrow> x \<in> set (inorder (root tree)) \<and> compare_fun tree k x = 0"
  using key_compare.get_by_key_loop_correct [OF assms(1)] assms(2)
  by (simp add: avl_get_by_key_def avl_invar_def)

text \<open>
  Lookup by index in a correctly ranked tree of fewer than \<open>2 ^ 30 - 1\<close> nodes returns the
  key at that position of the sorted sequence, and fails beyond its end.
\<close>

lemma avl_get_by_index_spec:
  assumes "ranked (root tree)" and "node_count (root tree) < 2 ^ 30 - 1"
  shows "avl_get_by_index tree i =
    (if unat i < node_count (root tree) then Some (inorder (root tree) ! unat i) else None)"
proof (cases "i = - 1")
  case True
  have "unat (- 1 :: u64) = 2 ^ 64 - 1" by (simp add: unsigned_minus_1_eq_mask mask_eq_exp_minus_1)
  with True assms(2) get_by_index_loop_correct [OF assms, of 0] show ?thesis
    by (simp add: avl_get_by_index_def)
next
  case False
  then have "1 + i \<noteq> 0" by (simp add: eq_neg_iff_add_eq_0 add.commute)
  then have "unat (i + 1) = Suc (unat i)" by (simp only: add.commute [of i] unatSuc not_False_eq_True)
  with get_by_index_loop_correct [OF assms, of "i + 1"] show ?thesis
    by (simp add: avl_get_by_index_def)
qed

text \<open>
  \<open>avl_get_item_by_key_most\<close> returns a largest key that is not above the argument, and
  \<open>avl_get_item_by_key_least\<close> a smallest key that is not below it; each fails only if there is
  no such key.
\<close>

lemma avl_get_item_by_key_spec:
  assumes "key_compare (compare_fun tree)" and "avl_invar tree"
  shows "(case avl_get_item_by_key_most tree k of
            None \<Rightarrow> \<forall>y\<in>set (inorder (root tree)). compare_fun tree k y < 0
          | Some x \<Rightarrow> x \<in> set (inorder (root tree)) \<and> 0 \<le> compare_fun tree k x \<and>
              (\<forall>y\<in>set (inorder (root tree)). 0 \<le> compare_fun tree k y \<longrightarrow> compare_fun tree y x \<le> 0)) \<and>
         (case avl_get_item_by_key_least tree k of
            None \<Rightarrow> \<forall>y\<in>set (inorder (root tree)). 0 < compare_fun tree k y
          | Some x \<Rightarrow> x \<in> set (inorder (root tree)) \<and> compare_fun tree k x \<le> 0 \<and>
              (\<forall>y\<in>set (inorder (root tree)). compare_fun tree k y \<le> 0 \<longrightarrow> compare_fun tree x y \<le> 0))"
proof -
  have sorted: "sorted_wrt (\<lambda>x y. compare_fun tree x y \<le> 0) (inorder (root tree))"
    using assms(2) by (simp add: avl_invar_def)
  note most = key_compare.get_most_loop_max [OF assms(1) sorted, of _ k None]
    key_compare.get_most_loop_bound [OF assms(1), of k None "root tree"]
  note least = key_compare.get_least_loop_min [OF assms(1) sorted, of _ k None]
    key_compare.get_least_loop_bound [OF assms(1), of k None "root tree"]
  show ?thesis
    using most least unfolding avl_get_item_by_key_most_def avl_get_item_by_key_least_def
    by (auto split: option.splits) (meson linorder_not_less)+
qed

text \<open>
  The traversal loop \<open>avl_get_first\<close>, \<open>avl_get_next\<close>, ... terminates and visits every key
  exactly once in sorted order; \<open>avl_get_prev\<close> undoes a step of \<open>avl_get_next\<close> in that order.
\<close>

lemma avl_traversal_spec:
  assumes "node_count (root tree) \<le> n" and "t \<noteq> Null"
  shows "cursor_walk n (avl_get_first tree) = inorder (root tree) \<and>
    (case avl_get_next (t, c) of
       None \<Rightarrow> inorder (right t) @ after c = []
     | Some (t', c') \<Rightarrow> inorder (right t) @ after c = key t' # inorder (right t') @ after c') \<and>
    (case avl_get_prev (t, c) of
       None \<Rightarrow> before c @ inorder (left t) = []
     | Some (t', c') \<Rightarrow> before c @ inorder (left t) = before c' @ inorder (left t') @ [key t'])"
  using cursor_walk_first [OF assms(1)] avl_get_next_step [OF assms(2), of c] avl_get_prev_step [OF assms(2), of c]
  by (auto simp: cursor_before_def cursor_after_def split: option.splits)

text \<open>
  The height of a well-formed tree is logarithmic in its number of keys, so the loops of
  insertion, deletion and lookup take at most \<open>2 * log2 (n + 1) + 1\<close> rounds.
\<close>

lemma avl_height_bound:
  assumes "avl_invar tree"
  shows "2 ^ (height (root tree) div 2) \<le> length (inorder (root tree)) + 1"
  using balanced_min_count [of "root tree"] assms by (simp add: avl_invar_def length_inorder)

end
