(* ===== verification/Config.thy ===== *)
theory Config
  imports C_String
begin

text \<open>
  The part of the configuration (\<open>cfgfile.h\<close>, \<open>cfgfile.c\<close>) the server consults while it runs: mount
  settings with the merging of defaults and the lookup of a mount, listening sockets, aliases,
  extra reply headers. Strings that may be null are options; linked lists are lists. The matching
  of mount patterns by \<open>fnmatch\<close> is a parameter.
\<close>

section \<open>Records\<close>

datatype http_header_type = HTTP_HEADER_TYPE_STATIC

record ice_config_http_header =
  htype :: http_header_type
  hname :: "string option"
  hvalue :: "string option"
  hstatus :: int

datatype mount_type = MOUNT_TYPE_NORMAL | MOUNT_TYPE_DEFAULT

text \<open>\<open>auth\<close> is the address of an authenticator.\<close>

record mount_proxy =
  mountname :: "string option"
  mounttype :: mount_type
  username :: "string option"
  password :: "string option"
  dumpfile :: "string option"
  intro_filename :: "string option"
  fallback_when_full :: int
  max_listeners :: int
  fallback_mount :: "string option"
  fallback_override :: int
  no_mount :: int
  burst_size :: int
  queue_size_limit :: nat
  hidden :: int
  source_timeout :: nat
  charset :: "string option"
  mp3_meta_interval :: int
  http_headers :: "ice_config_http_header list"
  auth_type :: "string option"
  auth :: "nat option"
  cluster_password :: "string option"
  on_connect :: "string option"
  on_disconnect :: "string option"
  max_listener_duration :: nat
  stream_name :: "string option"
  stream_description :: "string option"
  stream_url :: "string option"
  stream_genre :: "string option"
  bitrate :: "string option"
  type_of_stream :: "string option"
  subtype :: "string option"
  yp_public :: int

record server_alias =
  asource :: string
  adestination :: string
  aport :: int
  abind :: "string option"

record listener =
  lport :: int
  so_sndbuf :: int
  lbind :: "string option"
  shoutcast_compat :: bool
  lshoutcast_mount :: "string option"
  lssl :: bool

record ice_config =
  client_limit :: int
  source_limit :: int
  global_queue_size_limit :: nat
  global_burst_size :: nat
  client_timeout :: int
  header_timeout :: int
  global_source_timeout :: nat
  ice_login :: bool
  fileserve :: bool
  shoutcast_mount :: "string option"
  source_password :: "string option"
  admin_username :: "string option"
  admin_password :: "string option"
  relay_username :: "string option"
  relay_password :: "string option"
  listen_sock :: "listener list"
  global_headers :: "ice_config_http_header list"
  mounts :: "mount_proxy list"
  server_id :: string
  banfile :: "string option"
  allowfile :: "string option"
  webroot_dir :: string
  aliases :: "server_alias list"

section \<open>Lookup\<close>

definition mount_matches :: "(string \<Rightarrow> string \<Rightarrow> bool) \<Rightarrow> string option \<Rightarrow> mount_type \<Rightarrow> mount_proxy \<Rightarrow> bool" where
  "mount_matches fnmatch mount type m \<longleftrightarrow>
     mounttype m = type \<and>
     (case (mount, mountname m) of
        (Some s, Some n) \<Rightarrow> (mounttype m = MOUNT_TYPE_NORMAL \<and> strcmp n s = 0) \<or> fnmatch n s
      | _ \<Rightarrow> True)"

definition config_find_mount :: "(string \<Rightarrow> string \<Rightarrow> bool) \<Rightarrow> ice_config \<Rightarrow> string option \<Rightarrow> mount_type \<Rightarrow> mount_proxy option" where
  "config_find_mount fnmatch config mount type =
     (case find (mount_matches fnmatch mount type) (mounts config) of
        Some m \<Rightarrow> Some m
      | None \<Rightarrow>
          if type = MOUNT_TYPE_NORMAL then find (mount_matches fnmatch mount MOUNT_TYPE_DEFAULT) (mounts config)
          else None)"

text \<open>The listener of a connection: the one whose server socket, at the same position, accepted it.\<close>

fun config_get_listen_sock :: "listener list \<Rightarrow> int list \<Rightarrow> int \<Rightarrow> listener option" where
  "config_get_listen_sock [] serversock s = None"
| "config_get_listen_sock (l # ls) [] s = None"
| "config_get_listen_sock (l # ls) (x # xs) s = (if x = s then Some l else config_get_listen_sock ls xs s)"

section \<open>Merging of defaults\<close>

definition or_else :: "'a option \<Rightarrow> 'a option \<Rightarrow> 'a option" where
  "or_else d s = (case d of None \<Rightarrow> s | Some _ \<Rightarrow> d)"

definition unless_zero :: "'a::zero \<Rightarrow> 'a \<Rightarrow> 'a" where
  "unless_zero d s = (if d = 0 then s else d)"

definition unless_unset :: "int \<Rightarrow> int \<Rightarrow> int" where
  "unless_unset d s = (if d = -1 then s else d)"

text \<open>Copying stops at the first header without a name or a value.\<close>

definition config_copy_http_header :: "ice_config_http_header list \<Rightarrow> ice_config_http_header list" where
  "config_copy_http_header hs = takeWhile (\<lambda>h. hname h \<noteq> None \<and> hvalue h \<noteq> None) hs"

definition merge_mounts :: "mount_proxy \<Rightarrow> mount_proxy option \<Rightarrow> mount_proxy" where
  "merge_mounts dst s =
     (case s of
        None \<Rightarrow> dst
      | Some src \<Rightarrow> dst
          \<lparr>username := or_else (username dst) (username src),
           password := or_else (password dst) (password src),
           dumpfile := or_else (dumpfile dst) (dumpfile src),
           intro_filename := or_else (intro_filename dst) (intro_filename src),
           fallback_when_full := unless_zero (fallback_when_full dst) (fallback_when_full src),
           max_listeners := unless_unset (max_listeners dst) (max_listeners src),
           fallback_mount := or_else (fallback_mount dst) (fallback_mount src),
           fallback_override := unless_zero (fallback_override dst) (fallback_override src),
           no_mount := unless_zero (no_mount dst) (no_mount src),
           burst_size := unless_unset (burst_size dst) (burst_size src),
           queue_size_limit := unless_zero (queue_size_limit dst) (queue_size_limit src),
           hidden := unless_zero (hidden dst) (hidden src),
           source_timeout := unless_zero (source_timeout dst) (source_timeout src),
           charset := or_else (charset dst) (charset src),
           mp3_meta_interval := unless_unset (mp3_meta_interval dst) (mp3_meta_interval src),
           auth_type := or_else (auth_type dst) (auth_type src),
           cluster_password := or_else (cluster_password dst) (cluster_password src),
           on_connect := or_else (on_connect dst) (on_connect src),
           on_disconnect := or_else (on_disconnect dst) (on_disconnect src),
           max_listener_duration := unless_zero (max_listener_duration dst) (max_listener_duration src),
           stream_name := or_else (stream_name dst) (stream_name src),
           stream_description := or_else (stream_description dst) (stream_description src),
           stream_url := or_else (stream_url dst) (stream_url src),
           stream_genre := or_else (stream_genre dst) (stream_genre src),
           bitrate := or_else (bitrate dst) (bitrate src),
           type_of_stream := or_else (type_of_stream dst) (type_of_stream src),
           subtype := or_else (subtype dst) (subtype src),
           yp_public := unless_unset (yp_public dst) (yp_public src),
           http_headers := http_headers dst @ config_copy_http_header (http_headers src)\<rparr>)"

definition merge_mounts_all :: "(string \<Rightarrow> string \<Rightarrow> bool) \<Rightarrow> ice_config \<Rightarrow> ice_config" where
  "merge_mounts_all fnmatch c = c\<lparr>mounts := map (\<lambda>m.
     if mounttype m \<noteq> MOUNT_TYPE_NORMAL then m
     else merge_mounts m (config_find_mount fnmatch c (mountname m) MOUNT_TYPE_DEFAULT)) (mounts c)\<rparr>"

section \<open>Facts\<close>

text \<open>A lookup returns a mount that matches, a normal one whenever there is one.\<close>

lemma config_find_mount_sound:
  "config_find_mount fnmatch config mount type = Some m \<Longrightarrow>
   m \<in> set (mounts config) \<and>
   (mount_matches fnmatch mount type m \<or>
    type = MOUNT_TYPE_NORMAL \<and> mount_matches fnmatch mount MOUNT_TYPE_DEFAULT m \<and>
    (\<forall>x\<in>set (mounts config). \<not> mount_matches fnmatch mount MOUNT_TYPE_NORMAL x))"
  by (auto simp: config_find_mount_def find_Some_iff find_None_iff split: option.splits if_splits)

lemma config_get_listen_sock_nth:
  "config_get_listen_sock ls xs s = Some l \<Longrightarrow> \<exists>i < length ls. i < length xs \<and> xs ! i = s \<and> ls ! i = l \<and> s \<notin> set (take i xs)"
proof (induction ls xs s rule: config_get_listen_sock.induct)
  case (3 l' ls x xs s)
  then show ?case
  proof (cases "x = s")
    case False
    then obtain i where "i < length ls" "i < length xs" "xs ! i = s" "ls ! i = l" "s \<notin> set (take i xs)"
      using 3 by auto
    with False show ?thesis by (intro exI [of _ "Suc i"]) simp
  qed (use 3 in auto)
qed auto

text \<open>A configuration for the examples, and the matching of patterns without wildcards.\<close>

definition demo_config :: ice_config where
  "demo_config =
     \<lparr>client_limit = 100, source_limit = 10, global_queue_size_limit = 524288, global_burst_size = 65536, client_timeout = 30,
      header_timeout = 15, global_source_timeout = 10, ice_login = False, fileserve = True, shoutcast_mount = Some ''/stream'',
      source_password = Some ''hackme'', admin_username = Some ''admin'', admin_password = Some ''secret'',
      relay_username = None, relay_password = None, listen_sock = [], global_headers = [], mounts = [],
      server_id = ''icecast'', banfile = None, allowfile = None, webroot_dir = ''/web'', aliases = []\<rparr>"

definition literal_match :: "string \<Rightarrow> string \<Rightarrow> bool" where
  "literal_match pattern s \<longleftrightarrow> pattern = s"

end
