(* ===== verification/Httpp.thy ===== *)
theory Httpp
  imports Avl_Store
begin

text \<open>
  The HTTP request parser \<open>httpp/httpp.c\<close>. A parser holds the request type, the URI and two AVL
  trees of variables: the headers with the parser's own \<open>__\<close> variables, and the query
  parameters. Parsing works on a private copy of the request whose line ends, blanks, colons
  and query separators are overwritten by NUL, so that pointers into the copy become C
  strings; the model keeps that buffer and reads it with \<open>c_str\<close>. Operations that would
  dereference a null pointer return \<open>None\<close>. Allocations succeed.
\<close>

section \<open>State\<close>

datatype httpp_request_type =
  httpp_req_none | httpp_req_get | httpp_req_post | httpp_req_put | httpp_req_head
| httpp_req_source | httpp_req_play | httpp_req_stats | httpp_req_unknown

text \<open>A value is a null pointer where the query decoder failed.\<close>

record http_var =
  name :: string
  val :: "string option"

record http_parser =
  req_type :: httpp_request_type
  uri :: "string option"
  vars :: "http_var avl_tree"
  queryvars :: "http_var avl_tree"

definition compare_vars :: "http_var \<Rightarrow> http_var \<Rightarrow> int" where
  "compare_vars a b = strcmp (name a) (name b)"

definition MAX_HEADERS :: nat where
  "MAX_HEADERS = 32"

definition HTTPP_VAR_PROTOCOL :: string where "HTTPP_VAR_PROTOCOL = ''__protocol''"
definition HTTPP_VAR_VERSION :: string where "HTTPP_VAR_VERSION = ''__version''"
definition HTTPP_VAR_URI :: string where "HTTPP_VAR_URI = ''__uri''"
definition HTTPP_VAR_RAWURI :: string where "HTTPP_VAR_RAWURI = ''__rawuri''"
definition HTTPP_VAR_QUERYARGS :: string where "HTTPP_VAR_QUERYARGS = '' __queryargs''"
definition HTTPP_VAR_REQ_TYPE :: string where "HTTPP_VAR_REQ_TYPE = ''__req_type''"
definition HTTPP_VAR_ERROR_MESSAGE :: string where "HTTPP_VAR_ERROR_MESSAGE = ''__errormessage''"
definition HTTPP_VAR_ERROR_CODE :: string where "HTTPP_VAR_ERROR_CODE = ''__errorcode''"

lemmas httpp_var_names = HTTPP_VAR_PROTOCOL_def HTTPP_VAR_VERSION_def HTTPP_VAR_URI_def
  HTTPP_VAR_RAWURI_def HTTPP_VAR_QUERYARGS_def HTTPP_VAR_REQ_TYPE_def
  HTTPP_VAR_ERROR_MESSAGE_def HTTPP_VAR_ERROR_CODE_def

section \<open>Variables\<close>

definition httpp_getvar :: "http_parser \<Rightarrow> string \<Rightarrow> string option" where
  "httpp_getvar parser n =
     (case avl_get_by_key (vars parser) \<lparr>name = n, val = None\<rparr> of
        Some found \<Rightarrow> val found
      | None \<Rightarrow> None)"

definition httpp_setvar :: "http_parser \<Rightarrow> string \<Rightarrow> string \<Rightarrow> http_parser" where
  "httpp_setvar parser n v =
     (let var = \<lparr>name = n, val = Some v\<rparr>
      in case httpp_getvar parser n of
           None \<Rightarrow> parser\<lparr>vars := tree_insert (vars parser) var\<rparr>
         | Some _ \<Rightarrow> parser\<lparr>vars := tree_insert (tree_delete (vars parser) var) var\<rparr>)"

definition httpp_deletevar :: "http_parser \<Rightarrow> string \<Rightarrow> http_parser" where
  "httpp_deletevar parser n = parser\<lparr>vars := tree_delete (vars parser) \<lparr>name = n, val = None\<rparr>\<rparr>"

fun set_defaults :: "http_parser \<Rightarrow> (string \<times> string) list \<Rightarrow> http_parser" where
  "set_defaults parser [] = parser"
| "set_defaults parser ((n, v) # list) = set_defaults (httpp_setvar parser n v) list"

definition httpp_initialize :: "(string \<times> string) list \<Rightarrow> http_parser" where
  "httpp_initialize defaults =
     set_defaults \<lparr>req_type = httpp_req_none, uri = None,
       vars = avl_tree_new compare_vars, queryvars = avl_tree_new compare_vars\<rparr> defaults"

section \<open>Query parameters\<close>

definition hex :: "char \<Rightarrow> int" where
  "hex c =
     (if code (CHR ''0'') \<le> code c \<and> code c \<le> code (CHR ''9'') then int (code c) - int (code (CHR ''0''))
      else if code (CHR ''A'') \<le> code c \<and> code c \<le> code (CHR ''F'') then int (code c) - int (code (CHR ''A'')) + 10
      else if code (CHR ''a'') \<le> code c \<and> code c \<le> code (CHR ''f'') then int (code c) - int (code (CHR ''a'')) + 10
      else -1)"

text \<open>
  The decoding loop of \<open>url_escape\<close> over the rest of the source string: the bytes it writes,
  or \<open>None\<close> for an escape that is cut off or not hexadecimal.
\<close>

fun url_escape_loop :: "string \<Rightarrow> string option" where
  "url_escape_loop [] = Some []"
| "url_escape_loop (c # cs) =
     (if c = CHR ''%'' then
        case cs of
          a # b # r \<Rightarrow>
            if hex a = -1 \<or> hex b = -1 then None
            else map_option (\<lambda>d. char_of (nat (hex a * 16 + hex b)) # d) (url_escape_loop r)
        | _ \<Rightarrow> None
      else if c = CHR ''+'' then map_option (\<lambda>d. CHR '' '' # d) (url_escape_loop cs)
      else if c = CHR ''#'' then Some []
      else map_option (\<lambda>d. c # d) (url_escape_loop cs))"

text \<open>The caller sees the C string in the decoded buffer, up to a decoded NUL.\<close>

definition url_escape :: "string \<Rightarrow> string option" where
  "url_escape src = map_option (\<lambda>d. c_str (d @ [NUL]) 0) (url_escape_loop src)"

definition httpp_get_query_param :: "http_parser \<Rightarrow> string \<Rightarrow> string option" where
  "httpp_get_query_param parser n =
     (case avl_get_by_key (queryvars parser) \<lparr>name = n, val = None\<rparr> of
        Some found \<Rightarrow> val found
      | None \<Rightarrow> None)"

definition httpp_set_query_param :: "http_parser \<Rightarrow> string \<Rightarrow> string \<Rightarrow> http_parser" where
  "httpp_set_query_param parser n v =
     (let var = \<lparr>name = n, val = url_escape v\<rparr>
      in case httpp_get_query_param parser n of
           None \<Rightarrow> parser\<lparr>queryvars := tree_insert (queryvars parser) var\<rparr>
         | Some _ \<Rightarrow> parser\<lparr>queryvars := tree_insert (tree_delete (queryvars parser) var) var\<rparr>)"

text \<open>
  One round of the loop of \<open>parse_query\<close> at position \<open>i\<close>. \<open>key\<close> and \<open>val\<close> are offsets into
  \<open>query\<close>; \<open>val\<close> is not reset when a new key starts.
\<close>

record query_state =
  query :: string
  qkey :: nat
  qval :: "nat option"
  qparser :: http_parser

definition query_flush :: "query_state \<Rightarrow> http_parser" where
  "query_flush st =
     (case qval st of
        None \<Rightarrow> qparser st
      | Some v \<Rightarrow> httpp_set_query_param (qparser st) (c_str (query st) (qkey st)) (c_str (query st) v))"

definition parse_query_step :: "nat \<Rightarrow> query_state \<Rightarrow> query_state" where
  "parse_query_step i st =
     (if query st ! i = CHR ''&'' then
        let st' = st\<lparr>query := (query st)[i := NUL]\<rparr>
        in st'\<lparr>qparser := query_flush st', qkey := i + 1\<rparr>
      else if query st ! i = CHR ''='' then
        st\<lparr>query := (query st)[i := NUL], qval := Some (i + 1)\<rparr>
      else st)"

definition parse_query :: "http_parser \<Rightarrow> string \<Rightarrow> http_parser" where
  "parse_query parser q =
     (if q = [] then parser
      else query_flush (fold parse_query_step [0..<length q]
             \<lparr>query = q @ [NUL], qkey = 0, qval = None, qparser = parser\<rparr>))"

section \<open>Lines and headers\<close>

text \<open>
  \<open>split_headers\<close> over the bytes from position \<open>i\<close> on: the rewritten bytes, the number of
  lines, and the array of line starts.
\<close>

fun split_loop :: "nat \<Rightarrow> nat \<Rightarrow> nat option list \<Rightarrow> string \<Rightarrow> string \<times> nat \<times> nat option list" where
  "split_loop i lines line [] = ([], lines, line)"
| "split_loop i lines line (c # cs) =
     (if \<not> lines < MAX_HEADERS then (c # cs, lines, line)
      else
        let c' = (if c = CR then NUL else c)
        in if c' = LF then
             (if Suc lines \<ge> MAX_HEADERS then (NUL # cs, MAX_HEADERS, line)
              else if cs = [] then (NUL # cs, Suc lines, line)
              else if hd cs = LF \<or> hd cs = CR then (NUL # cs, Suc lines, line)
              else
                let (cs', n, line') = split_loop (Suc i) (Suc lines) (line[Suc lines := Some (Suc i)]) cs
                in (NUL # cs', n, line'))
           else
             let (cs', n, line') = split_loop (Suc i) lines line cs
             in (c' # cs', n, line'))"

definition split_headers :: "string \<Rightarrow> string \<times> nat \<times> nat option list" where
  "split_headers data =
     (let (buf, lines, line) = split_loop 0 0 ((replicate MAX_HEADERS None)[0 := Some 0]) data
      in (buf @ [NUL], lines, line))"

definition lowercase :: "string \<Rightarrow> string" where
  "lowercase s = map tolower s"

text \<open>
  The scan of one header line: the value starts at the first character after a colon that is
  neither a colon nor a blank following it; the name ends at the first colon.
\<close>

fun header_value :: "bool \<Rightarrow> string \<Rightarrow> string option" where
  "header_value whitespace [] = None"
| "header_value whitespace (c # cs) =
     (if c = CHR '':'' then header_value True cs
      else if whitespace then
        (case dropWhile (\<lambda>x. x = CHR '' '') (c # cs) of [] \<Rightarrow> None | v # vs \<Rightarrow> Some (v # vs))
      else header_value False cs)"

definition parse_header_line :: "http_parser \<Rightarrow> string \<Rightarrow> http_parser" where
  "parse_header_line parser thisline =
     (case header_value False thisline of
        None \<Rightarrow> parser
      | Some v \<Rightarrow> httpp_setvar parser (lowercase (takeWhile (\<lambda>x. x \<noteq> CHR '':'') thisline)) v)"

fun parse_headers :: "http_parser \<Rightarrow> string \<Rightarrow> nat option list \<Rightarrow> http_parser option" where
  "parse_headers parser buf [] = Some parser"
| "parse_headers parser buf (None # ls) = None"
| "parse_headers parser buf (Some off # ls) = parse_headers (parse_header_line parser (c_str buf off)) buf ls"

section \<open>Requests\<close>

text \<open>
  The scan of the first line: blanks become NUL, and the first character after a run of blanks
  starts the next word. Words 1 and 2 are the URI and the protocol version.
\<close>

fun word_starts :: "nat \<Rightarrow> bool \<Rightarrow> string \<Rightarrow> nat list" where
  "word_starts i whitespace [] = []"
| "word_starts i whitespace (c # cs) =
     (if c = CHR '' '' then word_starts (Suc i) True cs
      else if whitespace then i # word_starts (Suc i) False cs
      else word_starts (Suc i) False cs)"

definition cut_words :: "string \<Rightarrow> string" where
  "cut_words s = map (\<lambda>c. if c = CHR '' '' then NUL else c) s @ [NUL]"

definition request_type_of :: "string \<Rightarrow> httpp_request_type" where
  "request_type_of w =
     (if strcasecmp ''GET'' w = 0 then httpp_req_get
      else if strcasecmp ''POST'' w = 0 then httpp_req_post
      else if strcasecmp ''PUT'' w = 0 then httpp_req_put
      else if strcasecmp ''HEAD'' w = 0 then httpp_req_head
      else if strcasecmp ''SOURCE'' w = 0 then httpp_req_source
      else if strcasecmp ''PLAY'' w = 0 then httpp_req_play
      else if strcasecmp ''STATS'' w = 0 then httpp_req_stats
      else httpp_req_unknown)"

fun request_type_name :: "httpp_request_type \<Rightarrow> string option" where
  "request_type_name httpp_req_get = Some ''GET''"
| "request_type_name httpp_req_post = Some ''POST''"
| "request_type_name httpp_req_put = Some ''PUT''"
| "request_type_name httpp_req_head = Some ''HEAD''"
| "request_type_name httpp_req_source = Some ''SOURCE''"
| "request_type_name httpp_req_play = Some ''PLAY''"
| "request_type_name httpp_req_stats = Some ''STATS''"
| "request_type_name _ = None"

text \<open>The part of \<open>httpp_parse\<close> that handles the URI word.\<close>

definition parse_uri :: "http_parser \<Rightarrow> string \<Rightarrow> http_parser" where
  "parse_uri parser u =
     (case strchr u (CHR ''?'') of
        Some i \<Rightarrow>
          let p1 = httpp_setvar parser HTTPP_VAR_RAWURI u;
              p2 = httpp_setvar p1 HTTPP_VAR_QUERYARGS (drop i u);
              p3 = parse_query p2 (drop (Suc i) u)
          in p3\<lparr>uri := Some (take i u)\<rparr>
      | None \<Rightarrow> parser\<lparr>uri := Some u\<rparr>)"

definition httpp_parse :: "http_parser \<Rightarrow> string \<Rightarrow> (int \<times> http_parser) option" where
  "httpp_parse parser data =
     (let (buf, lines, line) = split_headers data;
          thisline = c_str buf 0;
          words = cut_words thisline;
          starts = word_starts 0 False thisline;
          p1 = parser\<lparr>req_type := request_type_of (c_str words 0)\<rparr>
      in case starts of
           [] \<Rightarrow> Some (0, p1)
         | u # rest \<Rightarrow>
             let p2 = parse_uri p1 (c_str words u)
             in case rest of
                  [] \<Rightarrow> Some (0, p2)
                | v # _ \<Rightarrow>
                    let version = c_str words v
                    in case strchr version (CHR ''/'') of
                         None \<Rightarrow> Some (0, p2)
                       | Some i \<Rightarrow>
                           if i = 0 \<or> drop (Suc i) version = [] then Some (0, p2)
                           else
                             let p3 = httpp_setvar (httpp_setvar p2 HTTPP_VAR_PROTOCOL (take i version))
                                        HTTPP_VAR_VERSION (drop (Suc i) version)
                             in case request_type_name (req_type p3) of
                                  None \<Rightarrow> Some (0, p3)
                                | Some t \<Rightarrow>
                                    (case uri p3 of
                                       None \<Rightarrow> Some (0, httpp_setvar p3 HTTPP_VAR_REQ_TYPE t)
                                     | Some x \<Rightarrow>
                                         map_option (Pair 1)
                                           (parse_headers
                                              (httpp_setvar (httpp_setvar p3 HTTPP_VAR_REQ_TYPE t) HTTPP_VAR_URI x)
                                              buf (take (lines - 1) (drop 1 line)))))"

text \<open>
  The reply of another server: version, response code, and the rest of the line as message.
\<close>

definition httpp_parse_response :: "http_parser \<Rightarrow> string \<Rightarrow> string \<Rightarrow> (int \<times> http_parser) option" where
  "httpp_parse_response parser data u =
     (let (buf, lines, line) = split_headers data;
          thisline = c_str buf 0
      in case word_starts 0 False thisline of
           rc # m # _ \<Rightarrow>
             let resp_code = c_str (cut_words thisline) rc;
                 p1 = httpp_setvar parser HTTPP_VAR_ERROR_CODE resp_code;
                 n = atoi resp_code;
                 p2 = (if n < 200 \<or> n \<ge> 300 then httpp_setvar p1 HTTPP_VAR_ERROR_MESSAGE (drop m thisline) else p1);
                 p3 = httpp_setvar (httpp_setvar p2 HTTPP_VAR_URI u) HTTPP_VAR_REQ_TYPE ''NONE''
             in map_option (Pair 1) (parse_headers p3 buf (take (lines - 1) (drop 1 line)))
         | _ \<Rightarrow> Some (0, parser))"

section \<open>The variables form a map\<close>

interpretation hv: avl_entries name .

lemma compare_vars_entry: "compare_vars = entry_compare name"
  by (simp add: fun_eq_iff compare_vars_def entry_compare_def)

definition vars_ok :: "http_parser \<Rightarrow> bool" where
  "vars_ok p \<longleftrightarrow> store_ok name (vars p) \<and> (\<forall>e\<in>set (inorder (root (vars p))). val e \<noteq> None)"

lemma vars_ok_val: "vars_ok p \<Longrightarrow> tree_contents name (vars p) n = Some e \<Longrightarrow> val e \<noteq> None"
  using tree_contents_Some [of name "vars p" n e] by (auto simp: vars_ok_def store_ok_def)

lemma httpp_getvar_contents:
  "vars_ok p \<Longrightarrow> httpp_getvar p n = Option.bind (tree_contents name (vars p) n) val"
  by (auto simp: httpp_getvar_def vars_ok_def hv.store.lookup_contents split: option.splits)

lemma httpp_getvar_None:
  "vars_ok p \<Longrightarrow> httpp_getvar p n = None \<longleftrightarrow> avl_get_by_key (vars p) \<lparr>name = n, val = v\<rparr> = None"
  using vars_ok_val [of p n] hv.store.lookup_contents [of "vars p" "\<lparr>name = n, val = v\<rparr>"]
  by (cases "tree_contents name (vars p) n") (auto simp: httpp_getvar_contents vars_ok_def)

text \<open>\<open>httpp_setvar\<close> is the replacing insertion of the store interface.\<close>

lemma httpp_setvar_store:
  assumes "vars_ok p"
  shows "httpp_setvar p n v = p\<lparr>vars :=
    (let e = \<lparr>name = n, val = Some v\<rparr>
     in if avl_get_by_key (vars p) e = None then tree_insert (vars p) e
        else tree_insert (tree_delete (vars p) e) e)\<rparr>"
  using httpp_getvar_None [OF assms, of n "Some v"]
  by (auto simp: httpp_setvar_def Let_def split: option.splits)

lemma store_values:
  assumes "store_ok name t" and "store_ok name t'" and "tree_contents name t' = (tree_contents name t)(n := x)"
    and "\<forall>e\<in>set (inorder (root t)). val e \<noteq> None" and "\<And>e. x = Some e \<Longrightarrow> val e \<noteq> None"
  shows "\<forall>e\<in>set (inorder (root t')). val e \<noteq> None"
proof
  fix e assume "e \<in> set (inorder (root t'))"
  with assms(2) tree_contents_Some [of name t' "name e" e] have "tree_contents name t' (name e) = Some e"
    by (simp add: store_ok_def)
  with assms(1,3,4,5) tree_contents_Some [of name t "name e" e] show "val e \<noteq> None"
    by (auto simp: store_ok_def split: if_splits)
qed

lemma httpp_setvar_ok:
  assumes "vars_ok p"
  shows "vars_ok (httpp_setvar p n v)"
    and "tree_contents name (vars (httpp_setvar p n v)) = (tree_contents name (vars p))(n \<mapsto> \<lparr>name = n, val = Some v\<rparr>)"
proof -
  let ?e = "\<lparr>name = n, val = Some v\<rparr> :: http_var"
  have ok: "store_ok name (vars p)" and vals: "\<forall>e\<in>set (inorder (root (vars p))). val e \<noteq> None"
    using assms by (auto simp: vars_ok_def)
  show con: "tree_contents name (vars (httpp_setvar p n v)) = (tree_contents name (vars p))(n \<mapsto> ?e)"
    using hv.store.replace_contents [OF ok, of ?e] by (simp add: httpp_setvar_store [OF assms] Let_def)
  have ok': "store_ok name (vars (httpp_setvar p n v))"
    using hv.store.replace_ok [OF ok, of ?e] by (simp add: httpp_setvar_store [OF assms] Let_def)
  with store_values [OF ok ok' con vals] show "vars_ok (httpp_setvar p n v)"
    by (simp add: vars_ok_def)
qed

lemma httpp_getvar_setvar:
  "vars_ok p \<Longrightarrow> httpp_getvar (httpp_setvar p n v) m = (if m = n then Some v else httpp_getvar p m)"
  by (simp add: httpp_getvar_contents httpp_setvar_ok)

lemma httpp_setvar_frame [simp]:
  "queryvars (httpp_setvar p n v) = queryvars p" "uri (httpp_setvar p n v) = uri p"
  "req_type (httpp_setvar p n v) = req_type p"
  by (auto simp: httpp_setvar_def Let_def split: option.splits)

lemma httpp_deletevar_ok:
  assumes "vars_ok p"
  shows "vars_ok (httpp_deletevar p n)"
    and "httpp_getvar (httpp_deletevar p n) m = (if m = n then None else httpp_getvar p m)"
proof -
  have ok: "store_ok name (vars p)" and vals: "\<forall>e\<in>set (inorder (root (vars p))). val e \<noteq> None"
    using assms by (auto simp: vars_ok_def)
  note del = hv.store.contents_delete [OF ok, of "\<lparr>name = n, val = None\<rparr>"] hv.store.ok_delete [OF ok, of "\<lparr>name = n, val = None\<rparr>"]
  with store_values [OF ok del(2) del(1) vals] show ok': "vars_ok (httpp_deletevar p n)"
    by (simp add: vars_ok_def httpp_deletevar_def)
  show "httpp_getvar (httpp_deletevar p n) m = (if m = n then None else httpp_getvar p m)"
    using del(1) by (simp add: httpp_getvar_contents [OF ok'] httpp_getvar_contents [OF assms]) (simp add: httpp_deletevar_def)
qed

lemma vars_ok_updates [simp]:
  "vars_ok (p\<lparr>req_type := t\<rparr>) = vars_ok p" "vars_ok (p\<lparr>uri := u\<rparr>) = vars_ok p"
  "vars_ok (p\<lparr>queryvars := q\<rparr>) = vars_ok p"
  by (simp_all add: vars_ok_def)

lemma getvar_updates [simp]:
  "httpp_getvar (p\<lparr>req_type := t\<rparr>) n = httpp_getvar p n" "httpp_getvar (p\<lparr>uri := u\<rparr>) n = httpp_getvar p n"
  "httpp_getvar (p\<lparr>queryvars := q\<rparr>) n = httpp_getvar p n"
  by (simp_all add: httpp_getvar_def)

lemma initial_vars_ok:
  "vars_ok \<lparr>req_type = t, uri = u, vars = avl_tree_new compare_vars, queryvars = q\<rparr>"
  using hv.store.ok_empty by (simp add: vars_ok_def compare_vars_entry) (simp add: avl_tree_new_def)

lemma set_defaults_vars:
  "vars_ok p \<Longrightarrow> vars_ok (set_defaults p ds) \<and>
   httpp_getvar (set_defaults p ds) n = (case map_of (rev ds) n of Some v \<Rightarrow> Some v | None \<Rightarrow> httpp_getvar p n)"
  by (induction p ds rule: set_defaults.induct)
    (auto simp: httpp_setvar_ok httpp_getvar_setvar map_add_def split: option.splits)

section \<open>Lines\<close>

text \<open>Every line counted has a start inside the buffer.\<close>

definition starts_ok :: "nat option list \<Rightarrow> nat \<Rightarrow> nat \<Rightarrow> bool" where
  "starts_ok line n b \<longleftrightarrow> length line = MAX_HEADERS \<and> n \<le> MAX_HEADERS \<and>
     (\<forall>l<n. \<exists>off. line ! l = Some off \<and> off \<le> b)"

lemma starts_ok_mono: "starts_ok line n b \<Longrightarrow> m \<le> n \<Longrightarrow> b \<le> b' \<Longrightarrow> starts_ok line m b'"
  unfolding starts_ok_def by (meson le_trans less_le_trans)

lemma starts_ok_extend:
  "starts_ok line (Suc lines) i \<Longrightarrow> Suc lines < MAX_HEADERS \<Longrightarrow>
   starts_ok (line[Suc lines := Some (Suc i)]) (Suc (Suc lines)) (Suc i)"
  by (fastforce simp: starts_ok_def nth_list_update less_Suc_eq)

lemma split_loop_starts:
  assumes "split_loop i lines line cs = (cs', n, line')" and "lines < MAX_HEADERS"
    and "starts_ok line (Suc lines) i"
  shows "length cs' = length cs \<and> starts_ok line' n (i + length cs)"
  using assms
proof (induction cs arbitrary: i lines line cs' n line')
  case Nil
  then show ?case by (auto elim: starts_ok_mono)
next
  case (Cons c cs)
  have here: "starts_ok line (Suc lines) (i + length (c # cs))"
    using Cons.prems(3) by (rule starts_ok_mono) auto
  consider (plain) "c \<noteq> LF"
    | (full) "c = LF" "Suc lines = MAX_HEADERS"
    | (last) "c = LF" "Suc lines < MAX_HEADERS" "cs = [] \<or> hd cs = LF \<or> hd cs = CR"
    | (line) "c = LF" "Suc lines < MAX_HEADERS" "cs \<noteq> []" "hd cs \<noteq> LF" "hd cs \<noteq> CR"
    using Cons.prems(2) by fastforce
  then show ?case
  proof cases
    case plain
    obtain ds where "split_loop (Suc i) lines line cs = (ds, n, line')" "length cs' = Suc (length ds)"
      using Cons.prems(1,2) plain by (auto simp: Let_def NUL_def LF_def split: prod.splits if_splits)
    with Cons.IH [OF this(1) Cons.prems(2) starts_ok_mono [OF Cons.prems(3)]] show ?thesis by simp
  next
    case full
    with Cons.prems here show ?thesis by (auto simp: LF_def CR_def)
  next
    case last
    with Cons.prems here show ?thesis by (auto simp: LF_def CR_def split: if_splits)
  next
    case line
    obtain ds where "split_loop (Suc i) (Suc lines) (line[Suc lines := Some (Suc i)]) cs = (ds, n, line')"
      "length cs' = Suc (length ds)"
      using Cons.prems(1,2) line by (auto simp: Let_def LF_def CR_def split: prod.splits if_splits)
    with Cons.IH [OF this(1) line(2) starts_ok_extend [OF Cons.prems(3) line(2)]] show ?thesis by simp
  qed
qed

lemma split_headers_starts:
  assumes "split_headers data = (buf, lines, line)"
  shows "length buf = Suc (length data) \<and> starts_ok line lines (length data)"
proof -
  let ?line = "(replicate MAX_HEADERS None)[0 := Some 0]"
  obtain cs where split: "split_loop 0 0 ?line data = (cs, lines, line)" and buf: "buf = cs @ [NUL]"
    using assms by (auto simp: split_headers_def split: prod.splits)
  have "starts_ok ?line (Suc 0) 0" by (simp add: starts_ok_def MAX_HEADERS_def)
  with split_loop_starts [OF split] buf show ?thesis by (simp add: MAX_HEADERS_def)
qed

lemma parse_header_line_ok: "vars_ok p \<Longrightarrow> vars_ok (parse_header_line p l)"
  by (auto simp: parse_header_line_def httpp_setvar_ok split: option.splits)

lemma parse_headers_total:
  "None \<notin> set ls \<Longrightarrow> vars_ok p \<Longrightarrow> \<exists>p'. parse_headers p buf ls = Some p' \<and> vars_ok p'"
  by (induction p buf ls rule: parse_headers.induct) (auto simp: parse_header_line_ok)

lemma starts_no_null: "starts_ok line lines b \<Longrightarrow> None \<notin> set (take (lines - 1) (drop 1 line))"
proof
  assume ok: "starts_ok line lines b" and "None \<in> set (take (lines - 1) (drop 1 line))"
  then obtain i where "i < lines - 1" "Suc i < length line" "line ! Suc i = None"
    by (auto simp: in_set_conv_nth)
  with ok show False by (auto simp: starts_ok_def less_diff_conv)
qed

section \<open>Query parameters keep the headers\<close>

lemma httpp_set_query_param_frame [simp]:
  "vars (httpp_set_query_param p n v) = vars p" "uri (httpp_set_query_param p n v) = uri p"
  "req_type (httpp_set_query_param p n v) = req_type p"
  by (auto simp: httpp_set_query_param_def Let_def split: option.splits)

lemma query_flush_frame [simp]:
  "vars (query_flush st) = vars (qparser st)" "uri (query_flush st) = uri (qparser st)"
  "req_type (query_flush st) = req_type (qparser st)"
  by (auto simp: query_flush_def split: option.splits)

lemma parse_query_fold_frame:
  "vars (qparser (fold parse_query_step is st)) = vars (qparser st) \<and>
   uri (qparser (fold parse_query_step is st)) = uri (qparser st) \<and>
   req_type (qparser (fold parse_query_step is st)) = req_type (qparser st)"
  by (induction "is" arbitrary: st) (auto simp: parse_query_step_def Let_def)

lemma parse_query_frame [simp]:
  "vars (parse_query p q) = vars p" "uri (parse_query p q) = uri p" "req_type (parse_query p q) = req_type p"
  by (auto simp: parse_query_def parse_query_fold_frame)

lemma vars_ok_same: "vars p' = vars p \<Longrightarrow> vars_ok p' = vars_ok p"
  by (simp add: vars_ok_def)

lemma parse_uri_ok: "vars_ok p \<Longrightarrow> vars_ok (parse_uri p u)"
  by (auto simp: parse_uri_def Let_def httpp_setvar_ok vars_ok_same [of "parse_query _ _"] split: option.splits)

lemma parse_uri_fields [simp]:
  "uri (parse_uri p u) = Some (takeWhile (\<lambda>c. c \<noteq> CHR ''?'') u)" "req_type (parse_uri p u) = req_type p"
proof -
  show "uri (parse_uri p u) = Some (takeWhile (\<lambda>c. c \<noteq> CHR ''?'') u)" "req_type (parse_uri p u) = req_type p"
    by (auto simp: parse_uri_def Let_def strchr_take strchr_None split: option.splits)
qed

text \<open>Parsing never follows a null pointer.\<close>

lemma httpp_parse_total:
  assumes "vars_ok p"
  shows "\<exists>res p'. httpp_parse p data = Some (res, p') \<and> res \<in> {0, 1} \<and> vars_ok p'"
proof -
  obtain buf lines line where split: "split_headers data = (buf, lines, line)" using prod_cases3 by blast
  have lines: "None \<notin> set (take (lines - 1) (drop 1 line))"
    using split_headers_starts [OF split] starts_no_null by blast
  show ?thesis
    using assms parse_headers_total [OF lines]
    by (auto simp: httpp_parse_def split Let_def httpp_setvar_ok parse_uri_ok split: list.splits option.splits)
       
qed

end
