(* ===== verification/Httpp_Request.thy ===== *)
theory Httpp_Request
  imports Httpp
begin

text \<open>
  What \<open>httpp.c\<close> makes of whole requests and query strings. \<open>request_text\<close> and \<open>query_text\<close>
  print a request and a list of parameters the way a client does; the lemmas run
  \<open>split_headers\<close>, \<open>parse_headers\<close>, \<open>httpp_parse\<close> and \<open>parse_query\<close> over the printed bytes, with
  the NULs the parser writes, and give what it stores.
\<close>

section \<open>Whole requests\<close>

text \<open>Request lines as a client sends them, and the same bytes after \<open>split_headers\<close>.\<close>

definition render_lines :: "string list \<Rightarrow> string" where
  "render_lines ls = concat (map (\<lambda>l. l @ [CR, LF]) ls)"

definition cut_lines :: "string list \<Rightarrow> string" where
  "cut_lines ls = concat (map (\<lambda>l. l @ [NUL, NUL]) ls)"

definition clean_line :: "string \<Rightarrow> bool" where
  "clean_line l \<longleftrightarrow> l \<noteq> [] \<and> NUL \<notin> set l \<and> CR \<notin> set l \<and> LF \<notin> set l"

fun line_offsets :: "nat \<Rightarrow> string list \<Rightarrow> nat list" where
  "line_offsets i [] = []"
| "line_offsets i (l # ls) = i # line_offsets (i + length l + 2) ls"

fun fill_starts :: "nat option list \<Rightarrow> nat \<Rightarrow> nat list \<Rightarrow> nat option list" where
  "fill_starts line k [] = line"
| "fill_starts line k (o1 # os) = fill_starts (line[k := Some o1]) (Suc k) os"

lemma split_loop_clean:
  "CR \<notin> set xs \<Longrightarrow> LF \<notin> set xs \<Longrightarrow> lines < MAX_HEADERS \<Longrightarrow>
   split_loop i lines line (xs @ cs) =
     (let (cs', n, line') = split_loop (i + length xs) lines line cs in (xs @ cs', n, line'))"
  by (induction xs arbitrary: i) (auto simp: split: prod.splits)

lemma split_loop_render:
  assumes "ls \<noteq> []" and "\<forall>l\<in>set ls. clean_line l" and "k + length ls < MAX_HEADERS"
  shows "split_loop i k line (render_lines ls @ CR # LF # body) =
    (cut_lines ls @ CR # LF # body, k + length ls, fill_starts line (Suc k) (tl (line_offsets i ls)))"
  using assms
proof (induction ls arbitrary: i k line)
  case (Cons l ls)
  have l: "CR \<notin> set l" "LF \<notin> set l" using Cons.prems(2) by (auto simp: clean_line_def)
  show ?case
  proof (cases ls)
    case Nil
    then show ?thesis using Cons.prems(3) l
      by (simp add: render_lines_def cut_lines_def split_loop_clean)
  next
    case (Cons m ms)
    have "hd (render_lines ls @ CR # LF # body) \<noteq> CR" "hd (render_lines ls @ CR # LF # body) \<noteq> LF"
      using Cons.prems(2) Cons by (auto simp: render_lines_def clean_line_def hd_append) (metis hd_in_set)+
    moreover have "split_loop (i + length l + 2) (Suc k) (line[Suc k := Some (i + length l + 2)]) (render_lines ls @ CR # LF # body)
      = (cut_lines ls @ CR # LF # body, Suc k + length ls,
         fill_starts (line[Suc k := Some (i + length l + 2)]) (Suc (Suc k)) (tl (line_offsets (i + length l + 2) ls)))"
      using Cons.prems Cons by (intro Cons.IH) auto
    ultimately show ?thesis using Cons.prems(3) l Cons
      by (simp add: split_loop_clean render_lines_def cut_lines_def)
  qed
qed simp

lemma fill_starts_read:
  "k + length os \<le> length line \<Longrightarrow> take (length os) (drop k (fill_starts line k os)) = map Some os \<and>
     take k (fill_starts line k os) = take k line \<and> length (fill_starts line k os) = length line"
proof (induction os arbitrary: line k)
  case (Cons a os)
  let ?f = "fill_starts (line[k := Some a]) (Suc k) os"
  have IH: "take (length os) (drop (Suc k) ?f) = map Some os" "take (Suc k) ?f = take (Suc k) (line[k := Some a])"
    "length ?f = length line"
    using Cons.IH [of "Suc k" "line[k := Some a]"] Cons.prems by auto
  have "take k ?f = take k line" using arg_cong [OF IH(2), of "take k"] by simp
  moreover have "?f ! k = Some a" using arg_cong [OF IH(2), of "\<lambda>xs. xs ! k"] Cons.prems by simp
  then have "drop k ?f = Some a # drop (Suc k) ?f"
    using Cons.prems IH(3) by (metis Cons_nth_drop_Suc add_Suc_right le_imp_less_Suc length_Cons less_add_Suc1 less_le_trans)
  ultimately show ?case using IH by simp
qed simp

lemma line_offsets_length [simp]: "length (line_offsets i ls) = length ls"
  by (induction i ls rule: line_offsets.induct) auto

lemma line_offsets_read:
  "\<forall>l\<in>set ls. clean_line l \<Longrightarrow> length pre = i \<Longrightarrow>
   map (c_str (pre @ cut_lines ls @ rest)) (line_offsets i ls) = ls"
proof (induction ls arbitrary: pre i)
  case (Cons l ls)
  have "map (c_str ((pre @ l @ [NUL, NUL]) @ cut_lines ls @ rest)) (line_offsets (i + length l + 2) ls) = ls"
    using Cons.prems by (intro Cons.IH) auto
  then have "map (c_str (pre @ cut_lines (l # ls) @ rest)) (line_offsets (i + length l + 2) ls) = ls"
    by (simp add: cut_lines_def)
  moreover have "c_str (pre @ l @ NUL # NUL # cut_lines ls @ rest) i = l"
    using Cons.prems by (intro c_str_append) (auto simp: clean_line_def is_cstr_def)
  ultimately show ?case by (simp add: cut_lines_def)
qed simp

lemma parse_headers_fold:
  "parse_headers p buf (map Some os) = Some (fold (\<lambda>l p. parse_header_line p l) (map (c_str buf) os) p)"
  by (induction os arbitrary: p) auto

text \<open>What \<open>split_headers\<close> gives for rendered lines.\<close>

lemma split_headers_render:
  assumes "\<forall>l\<in>set (l # ls). clean_line l" and "Suc (length ls) < MAX_HEADERS"
  obtains buf line where "split_headers (render_lines (l # ls) @ CR # LF # body) = (buf, Suc (length ls), line)"
    and "c_str buf 0 = l"
    and "\<And>p. parse_headers p buf (take (length ls) (drop 1 line)) = Some (fold (\<lambda>l p. parse_header_line p l) ls p)"
proof -
  let ?line = "(replicate MAX_HEADERS None)[0 := Some 0]"
  let ?os = "line_offsets (length l + 2) ls"
  let ?buf = "cut_lines (l # ls) @ CR # LF # body @ [NUL]"
  let ?starts = "fill_starts ?line 1 ?os"
  have "split_headers (render_lines (l # ls) @ CR # LF # body) = (?buf, Suc (length ls), ?starts)"
    using split_loop_render [of "l # ls" 0 0 ?line body] assms by (simp add: split_headers_def)
  moreover have read: "map (c_str ?buf) (line_offsets 0 (l # ls)) = l # ls"
    using line_offsets_read [OF assms(1), of "[]" 0 "CR # LF # body @ [NUL]"] by simp
  moreover have "take (length ls) (drop 1 ?starts) = map Some ?os"
    using fill_starts_read [of 1 ?os ?line] assms(2) by simp
  ultimately show ?thesis using that [of ?buf ?starts] by (simp add: parse_headers_fold)
qed


definition header_line :: "string \<times> string \<Rightarrow> string" where
  "header_line h = fst h @ '': '' @ snd h"

definition good_header :: "string \<times> string \<Rightarrow> bool" where
  "good_header h \<longleftrightarrow> CHR '':'' \<notin> set (fst h) \<and> clean_line (fst h) \<and> clean_line (snd h) \<and>
     hd (snd h) \<notin> {CHR '' '', CHR '':''}"

lemma header_value_skip: "CHR '':'' \<notin> set n \<Longrightarrow> header_value False (n @ s) = header_value False s"
  by (induction n) auto

lemma parse_header_line_good:
  assumes "good_header h"
  shows "parse_header_line p (header_line h) = httpp_setvar p (lowercase (fst h)) (snd h)"
proof -
  obtain v vs where v: "snd h = v # vs" "v \<noteq> CHR '' ''" "v \<noteq> CHR '':''"
    using assms by (cases "snd h") (auto simp: good_header_def clean_line_def)
  have n: "CHR '':'' \<notin> set (fst h)" using assms by (simp add: good_header_def)
  have "header_value False (header_line h) = Some (snd h)"
    using v by (simp add: header_line_def header_value_skip [OF n])
  moreover have "takeWhile (\<lambda>x. x \<noteq> CHR '':'') (header_line h) = fst h"
    using n by (simp add: header_line_def takeWhile_tail)
  ultimately show ?thesis by (simp add: parse_header_line_def)
qed

lemma header_line_clean: "good_header h \<Longrightarrow> clean_line (header_line h)"
  by (auto simp: good_header_def header_line_def clean_line_def NUL_def CR_def LF_def)

lemma fold_headers:
  assumes "\<forall>h\<in>set hs. good_header h" and "vars_ok p"
  defines "p' \<equiv> fold (\<lambda>l p. parse_header_line p l) (map header_line hs) p"
  shows "vars_ok p'" and "req_type p' = req_type p" and "uri p' = uri p" and "queryvars p' = queryvars p"
    and "httpp_getvar p' n = (case map_of (rev (map (\<lambda>(a, b). (lowercase a, b)) hs)) n of
           Some v \<Rightarrow> Some v | None \<Rightarrow> httpp_getvar p n)"
  using assms(1,2) unfolding p'_def
  by (induction hs arbitrary: p)
    (auto simp: parse_header_line_good httpp_setvar_ok httpp_getvar_setvar map_add_def split: option.splits)

text \<open>The words of the first line.\<close>

definition good_word :: "string \<Rightarrow> bool" where
  "good_word w \<longleftrightarrow> clean_line w \<and> CHR '' '' \<notin> set w"

lemma word_starts_skip:
  "CHR '' '' \<notin> set w \<Longrightarrow> word_starts i False (w @ s) = word_starts (i + length w) False s"
  by (induction w arbitrary: i) auto

lemma word_starts_next:
  "good_word w \<Longrightarrow> word_starts i True (w @ s) = i # word_starts (i + length w) False s"
  by (cases w) (auto simp: good_word_def clean_line_def word_starts_skip)

lemma cut_words_id: "CHR '' '' \<notin> set w \<Longrightarrow> map (\<lambda>c. if c = CHR '' '' then NUL else c) w = w"
  by (induction w) auto

lemma request_words:
  assumes "good_word a" "good_word b" "good_word c"
  defines "l \<equiv> a @ '' '' @ b @ '' '' @ c"
  shows "word_starts 0 False l = [Suc (length a), length a + length b + 2]"
    and "c_str (cut_words l) 0 = a"
    and "c_str (cut_words l) (Suc (length a)) = b"
    and "c_str (cut_words l) (length a + length b + 2) = c"
    and "clean_line l"
proof -
  have sp: "CHR '' '' \<notin> set a" "CHR '' '' \<notin> set b" "CHR '' '' \<notin> set c"
    and cs: "is_cstr a" "is_cstr b" "is_cstr c"
    using assms(1-3) by (auto simp: good_word_def clean_line_def is_cstr_def)
  show "word_starts 0 False l = [Suc (length a), length a + length b + 2]"
    using assms(2) word_starts_next [OF assms(3), of _ "[]"] sp
    by (simp add: l_def word_starts_skip word_starts_next)
  have cut: "cut_words l = a @ NUL # b @ NUL # c @ [NUL]"
    by (simp add: cut_words_def l_def cut_words_id [OF sp(1)] cut_words_id [OF sp(2)] cut_words_id [OF sp(3)])
  show "c_str (cut_words l) 0 = a" using c_str_append [of "[]" 0 a] cs by (simp add: cut)
  show "c_str (cut_words l) (Suc (length a)) = b"
    using c_str_append [of "a @ [NUL]" "Suc (length a)" b] cs by (simp add: cut)
  show "c_str (cut_words l) (length a + length b + 2) = c"
    using c_str_append [of "a @ NUL # b @ [NUL]" "length a + length b + 2" c "[]"] cs by (simp add: cut)
  show "clean_line l" using assms(1-3) by (auto simp: l_def good_word_def clean_line_def NUL_def CR_def LF_def)
qed

definition request_text :: "string \<Rightarrow> string \<Rightarrow> string \<Rightarrow> string \<Rightarrow> (string \<times> string) list \<Rightarrow> string" where
  "request_text meth u prot ver hs =
     render_lines ((meth @ '' '' @ u @ '' '' @ prot @ ''/'' @ ver) # map header_line hs) @ [CR, LF]"

lemma parse_query_getvar [simp]: "httpp_getvar (parse_query p q) n = httpp_getvar p n"
  by (simp add: httpp_getvar_def)

lemma parse_uri_getvar:
  assumes "vars_ok p"
  shows "httpp_getvar (parse_uri p u) n =
    (if CHR ''?'' \<in> set u \<and> n = HTTPP_VAR_QUERYARGS then Some (dropWhile (\<lambda>c. c \<noteq> CHR ''?'') u)
     else if CHR ''?'' \<in> set u \<and> n = HTTPP_VAR_RAWURI then Some u
     else httpp_getvar p n)"
proof (cases "strchr u (CHR ''?'')")
  case None
  then have "CHR ''?'' \<notin> set u" by (simp add: strchr_None)
  with None show ?thesis by (simp add: parse_uri_def)
next
  case (Some i)
  then have "CHR ''?'' \<in> set u" by (metis option.distinct(1) strchr_None)
  with Some assms show ?thesis
    by (simp add: parse_uri_def Let_def httpp_getvar_setvar httpp_setvar_ok strchr_drop)
qed

text \<open>The query parameters depend on no other field.\<close>

lemma query_param_local:
  "queryvars p = queryvars p' \<Longrightarrow>
   queryvars (httpp_set_query_param p n v) = queryvars (httpp_set_query_param p' n v)"
  by (auto simp: httpp_set_query_param_def httpp_get_query_param_def Let_def split: option.splits)

lemma query_flush_local:
  "query st = query st' \<Longrightarrow> qkey st = qkey st' \<Longrightarrow> qval st = qval st' \<Longrightarrow>
   queryvars (qparser st) = queryvars (qparser st') \<Longrightarrow>
   queryvars (query_flush st) = queryvars (query_flush st')"
  by (auto simp: query_flush_def intro: query_param_local split: option.splits)

lemma parse_query_local:
  assumes "queryvars p = queryvars p'"
  shows "queryvars (parse_query p q) = queryvars (parse_query p' q)"
proof -
  define same where "same st st' \<longleftrightarrow> query st = query st' \<and> qkey st = qkey st' \<and> qval st = qval st' \<and>
    queryvars (qparser st) = queryvars (qparser st')" for st st' :: query_state
  have step: "same (parse_query_step i st) (parse_query_step i st')" if "same st st'" for i st st'
    using that by (auto simp: same_def parse_query_step_def Let_def intro: query_flush_local)
  have "same (fold parse_query_step is st) (fold parse_query_step is st')" if "same st st'" for "is" st st'
    using that by (induction "is" arbitrary: st st') (auto intro: step)
  then have "same (fold parse_query_step [0..<length q] \<lparr>query = q @ [NUL], qkey = 0, qval = None, qparser = p\<rparr>)
      (fold parse_query_step [0..<length q] \<lparr>query = q @ [NUL], qkey = 0, qval = None, qparser = p'\<rparr>)"
    using assms by (simp add: same_def)
  then have "queryvars (query_flush (fold parse_query_step [0..<length q] \<lparr>query = q @ [NUL], qkey = 0, qval = None, qparser = p\<rparr>)) =
      queryvars (query_flush (fold parse_query_step [0..<length q] \<lparr>query = q @ [NUL], qkey = 0, qval = None, qparser = p'\<rparr>))"
    unfolding same_def by (intro query_flush_local) blast+
  then show ?thesis unfolding parse_query_def using assms by (cases "q = []") (simp_all only: if_True if_False simp_thms)
qed

lemma parse_uri_queryvars:
  "queryvars (parse_uri p u) =
     (if CHR ''?'' \<in> set u then queryvars (parse_query p (tl (dropWhile (\<lambda>c. c \<noteq> CHR ''?'') u))) else queryvars p)"
proof (cases "strchr u (CHR ''?'')")
  case None
  then have "CHR ''?'' \<notin> set u" by (simp add: strchr_None)
  with None show ?thesis by (simp add: parse_uri_def)
next
  case (Some i)
  then have "CHR ''?'' \<in> set u" "tl (dropWhile (\<lambda>c. c \<noteq> CHR ''?'') u) = drop (Suc i) u"
    by (metis option.distinct(1) strchr_None, metis strchr_drop drop_Suc tl_drop)
  with Some show ?thesis by (auto simp: parse_uri_def Let_def intro: parse_query_local)
qed

lemma httpp_parse_request:
  assumes ok: "vars_ok p"
    and words: "good_word meth" "good_word u" "good_word prot" "good_word ver" "CHR ''/'' \<notin> set prot"
    and hs: "\<forall>h\<in>set hs. good_header h" "Suc (length hs) < MAX_HEADERS"
    and known: "request_type_name (request_type_of meth) = Some t"
  obtains p' where "httpp_parse p (request_text meth u prot ver hs @ body) = Some (1, p')"
    and "p' = fold (\<lambda>l p. parse_header_line p l) (map header_line hs)
        (httpp_setvar (httpp_setvar (httpp_setvar (httpp_setvar
           (parse_uri (p\<lparr>req_type := request_type_of meth\<rparr>) u)
           HTTPP_VAR_PROTOCOL prot) HTTPP_VAR_VERSION ver) HTTPP_VAR_REQ_TYPE t)
           HTTPP_VAR_URI (takeWhile (\<lambda>c. c \<noteq> CHR ''?'') u))"
proof -
  let ?v = "prot @ ''/'' @ ver"
  let ?l = "meth @ '' '' @ u @ '' '' @ ?v"
  have v: "good_word ?v" using words by (auto simp: good_word_def clean_line_def NUL_def CR_def LF_def)
  note w = request_words [OF words(1,2) v]
  have "\<forall>l\<in>set (?l # map header_line hs). clean_line l" using w(5) hs(1) by (auto simp: header_line_clean)
  then obtain buf line where split: "split_headers (request_text meth u prot ver hs @ body) = (buf, Suc (length hs), line)"
    and first: "c_str buf 0 = ?l"
    and rest: "\<And>p. parse_headers p buf (take (length hs) (drop 1 line)) =
        Some (fold (\<lambda>l p. parse_header_line p l) (map header_line hs) p)"
    by (rule split_headers_render [of ?l "map header_line hs" body]) (use hs(2) in \<open>simp_all add: request_text_def\<close>)
  have slash: "strchr ?v (CHR ''/'') = Some (length prot)" using strchr_at [OF words(5)] by simp
  have ne: "prot \<noteq> []" "ver \<noteq> []" using words by (auto simp: good_word_def clean_line_def)
  show ?thesis
    by (rule that, unfold httpp_parse_def split)
      (simp_all add: Let_def first [simplified] w(1-4) [simplified] slash [simplified] ne known rest [simplified])
qed


section \<open>Query strings\<close>

lemma upt_split3: "a \<le> n \<Longrightarrow> n < b \<Longrightarrow> [a..<b] = [a..<n] @ n # [Suc n..<b]"
  using upt_add_eq_append [of a n "b - n"] by (simp add: upt_conv_Cons)

definition good_text :: "string \<Rightarrow> bool" where
  "good_text s \<longleftrightarrow> NUL \<notin> set s \<and> CHR ''&'' \<notin> set s \<and> CHR ''='' \<notin> set s"

fun query_text :: "(string \<times> string) list \<Rightarrow> string" where
  "query_text [] = []"
| "query_text [(k, v)] = k @ ''='' @ v"
| "query_text ((k, v) # ps) = k @ ''='' @ v @ ''&'' @ query_text ps"

definition set_params :: "(string \<times> string) list \<Rightarrow> http_parser \<Rightarrow> http_parser" where
  "set_params ps p = fold (\<lambda>(k, v) p. httpp_set_query_param p k v) ps p"

text \<open>Characters that separate nothing leave the state alone.\<close>

lemma query_steps_plain:
  assumes "good_text xs" and "query st = pre @ xs @ rest"
  shows "fold parse_query_step [length pre..<length pre + length xs] st = st"
proof -
  have step: "parse_query_step i st = st" if "i \<in> set [length pre..<length pre + length xs]" for i
  proof -
    have "query st ! i \<in> set xs" using that assms(2) by (auto simp: nth_append)
    then show ?thesis using assms(1) by (auto simp: parse_query_step_def good_text_def)
  qed
  have "fold parse_query_step is st = st" if "\<forall>i\<in>set is. parse_query_step i st = st" for "is"
    using that by (induction "is") auto
  with step show ?thesis by blast
qed

lemma query_step_assign:
  "query st = pre @ CHR ''='' # rest \<Longrightarrow>
   parse_query_step (length pre) st = st\<lparr>query := pre @ NUL # rest, qval := Some (Suc (length pre))\<rparr>"
  by (simp add: parse_query_step_def)

lemma query_step_sep:
  "query st = pre @ CHR ''&'' # rest \<Longrightarrow>
   parse_query_step (length pre) st =
     st\<lparr>query := pre @ NUL # rest, qparser := query_flush (st\<lparr>query := pre @ NUL # rest\<rparr>), qkey := Suc (length pre)\<rparr>"
  by (simp add: parse_query_step_def Let_def)

lemma query_flush_pair:
  assumes "good_text k" "good_text v" and "query st = pre @ k @ NUL # v @ NUL # rest"
    and "qkey st = length pre" "qval st = Some (Suc (length pre + length k))"
  shows "query_flush st = httpp_set_query_param (qparser st) k v"
proof -
  have "c_str (query st) (length pre) = k" "c_str (query st) (Suc (length pre + length k)) = v"
    using assms(1-3) c_str_append [of pre "length pre" k] c_str_append [of "pre @ k @ [NUL]" "Suc (length pre + length k)" v]
    by (auto simp: good_text_def is_cstr_def)
  then show ?thesis using assms(4,5) by (simp add: query_flush_def)
qed

text \<open>One pair \<open>k=v\<close>, up to the separator or the end.\<close>

lemma query_steps_pair:
  assumes "good_text k" "good_text v" and "query st = pre @ k @ ''='' @ v @ rest"
  shows "fold parse_query_step [length pre..<length pre + length k + length v + 1] st =
    st\<lparr>query := pre @ k @ NUL # v @ rest, qval := Some (Suc (length pre + length k))\<rparr>"
proof -
  let ?n = "length (pre @ k)"
  let ?st = "st\<lparr>query := (pre @ k) @ NUL # v @ rest, qval := Some (Suc ?n)\<rparr>"
  have range: "[length pre..<length pre + length k + length v + 1] =
      [length pre..<length pre + length k] @ ?n # [Suc ?n..<Suc ?n + length v]"
    by (subst upt_split3 [of _ ?n]) auto
  have 1: "fold parse_query_step [length pre..<length pre + length k] st = st"
    using query_steps_plain [OF assms(1), of st pre "''='' @ v @ rest"] assms(3) by simp
  have 2: "parse_query_step ?n st = ?st"
    using query_step_assign [of st "pre @ k" "v @ rest"] assms(3) by simp
  have 3: "fold parse_query_step [Suc ?n..<Suc ?n + length v] ?st = ?st"
    using query_steps_plain [OF assms(2), of ?st "pre @ k @ [NUL]" rest] by simp
  show ?thesis unfolding range using 1 2 3 by simp
qed

lemma query_steps_pairs:
  assumes "ps \<noteq> []" and "\<forall>(k, v)\<in>set ps. good_text k \<and> good_text v"
    and "query st = pre @ query_text ps @ rest" and "qkey st = length pre"
  shows "\<exists>pre'. fold parse_query_step [length pre..<length pre + length (query_text ps)] st =
    \<lparr>query = pre' @ fst (last ps) @ NUL # snd (last ps) @ rest, qkey = length pre',
     qval = Some (Suc (length pre' + length (fst (last ps)))), qparser = set_params (butlast ps) (qparser st)\<rparr>
     \<and> length pre' + length (fst (last ps)) + length (snd (last ps)) + 1 = length pre + length (query_text ps)"
  using assms
proof (induction ps arbitrary: pre st rule: query_text.induct)
  case (2 k v)
  have "fold parse_query_step [length pre..<length pre + length k + length v + 1] st =
    st\<lparr>query := pre @ k @ NUL # v @ rest, qval := Some (Suc (length pre + length k))\<rparr>"
    using 2 by (intro query_steps_pair) auto
  then show ?case using 2 by (intro exI [of _ pre]) (simp add: set_params_def add.assoc)
next
  case (3 k v q ps)
  let ?qs = "q # ps" and ?pre = "pre @ k @ NUL # v" and ?m = "Suc (length pre + length k)"
  let ?rest = "query_text ?qs @ rest"
  define n where "n = length ?pre"
  let ?st = "st\<lparr>query := ?pre @ ''&'' @ ?rest, qval := Some ?m\<rparr>"
  let ?st' = "st\<lparr>query := (?pre @ [NUL]) @ ?rest, qval := Some ?m,
    qparser := httpp_set_query_param (qparser st) k v, qkey := Suc n\<rparr>"
  have good: "good_text k" "good_text v" using 3(3) by auto
  have "fold parse_query_step [length pre..<length pre + length k + length v + 1] st = ?st"
    using query_steps_pair [OF good, of st pre "''&'' @ ?rest"] 3(4) by simp
  then have 1: "fold parse_query_step [length pre..<n] st = ?st" by (simp add: n_def add.assoc)
  have "query_flush (?st\<lparr>query := ?pre @ NUL # ?rest\<rparr>) = httpp_set_query_param (qparser st) k v"
    using query_flush_pair [OF good, of "?st\<lparr>query := ?pre @ NUL # ?rest\<rparr>" pre ?rest] 3(5) by simp
  then have 2: "parse_query_step n ?st = ?st'"
    using query_step_sep [of ?st ?pre ?rest] by (simp add: n_def)
  have "\<exists>pre'. fold parse_query_step [Suc n..<Suc n + length (query_text ?qs)] ?st' =
    \<lparr>query = pre' @ fst (last ?qs) @ NUL # snd (last ?qs) @ rest, qkey = length pre',
     qval = Some (Suc (length pre' + length (fst (last ?qs)))), qparser = set_params (butlast ?qs) (qparser ?st')\<rparr> \<and>
    length pre' + length (fst (last ?qs)) + length (snd (last ?qs)) + 1 = Suc n + length (query_text ?qs)"
    using 3(1) [of ?st' "?pre @ [NUL]"] 3(3) by (simp add: n_def)
  then obtain pre' where IH: "fold parse_query_step [Suc n..<Suc n + length (query_text ?qs)] ?st' =
    \<lparr>query = pre' @ fst (last ?qs) @ NUL # snd (last ?qs) @ rest, qkey = length pre',
     qval = Some (Suc (length pre' + length (fst (last ?qs)))), qparser = set_params (butlast ?qs) (qparser ?st')\<rparr>"
    and len: "length pre' + length (fst (last ?qs)) + length (snd (last ?qs)) + 1 = Suc n + length (query_text ?qs)"
    by blast
  have total: "length pre + length (query_text ((k, v) # ?qs)) = Suc n + length (query_text ?qs)" by (simp add: n_def)
  have "[length pre..<Suc n + length (query_text ?qs)] = [length pre..<n] @ n # [Suc n..<Suc n + length (query_text ?qs)]"
    by (rule upt_split3) (simp_all add: n_def)
  then have "fold parse_query_step [length pre..<Suc n + length (query_text ?qs)] st =
      fold parse_query_step [Suc n..<Suc n + length (query_text ?qs)] ?st'"
    using 1 2 by (simp del: upt_Suc)
  with IH len show ?case unfolding total by (intro exI [of _ pre']) (simp del: upt_Suc add: set_params_def)
qed simp


lemma query_text_nonempty: "ps \<noteq> [] \<Longrightarrow> query_text ps \<noteq> []"
  by (cases ps rule: query_text.cases) auto

lemma parse_query_pairs:
  assumes "\<forall>(k, v)\<in>set ps. good_text k \<and> good_text v"
  shows "parse_query p (query_text ps) = set_params ps p"
proof (cases "ps = []")
  case False
  let ?k = "fst (last ps)" and ?v = "snd (last ps)"
  have good: "good_text ?k" "good_text ?v" using assms False last_in_set [of ps] by (auto simp: split_beta)
  obtain pre where st: "fold parse_query_step [0..<length (query_text ps)]
      \<lparr>query = query_text ps @ [NUL], qkey = 0, qval = None, qparser = p\<rparr> =
    \<lparr>query = pre @ ?k @ NUL # ?v @ [NUL], qkey = length pre, qval = Some (Suc (length pre + length ?k)),
     qparser = set_params (butlast ps) p\<rparr>"
    using query_steps_pairs [OF False assms, of "\<lparr>query = query_text ps @ [NUL], qkey = 0, qval = None, qparser = p\<rparr>" "[]" "[NUL]"]
    by auto
  have "set_params ps p = set_params (butlast ps @ [last ps]) p" using False by simp
  also have "\<dots> = httpp_set_query_param (set_params (butlast ps) p) ?k ?v"
    unfolding set_params_def fold_append by (simp add: split_beta)
  finally show ?thesis
    using query_text_nonempty [OF False] query_flush_pair [OF good, of _ pre "[]"] by (simp add: parse_query_def st)
qed (simp add: parse_query_def set_params_def)

lemma parse_query_bare_key:
  assumes "ps \<noteq> []" and "\<forall>(k, v)\<in>set ps. good_text k \<and> good_text v" and "good_text b"
  shows "parse_query p (query_text ps @ ''&'' @ b) = httpp_set_query_param (set_params ps p) b (snd (last ps))"
proof -
  let ?k = "fst (last ps)" and ?v = "snd (last ps)" and ?q = "query_text ps @ ''&'' @ b"
  let ?st = "\<lparr>query = ?q @ [NUL], qkey = 0, qval = None, qparser = p\<rparr>"
  have good: "good_text ?k" "good_text ?v" using assms(1,2) last_in_set [of ps] by (auto simp: split_beta)
  obtain pre where st: "fold parse_query_step [0..<length (query_text ps)] ?st =
    \<lparr>query = pre @ ?k @ NUL # ?v @ ''&'' @ b @ [NUL], qkey = length pre, qval = Some (Suc (length pre + length ?k)),
     qparser = set_params (butlast ps) p\<rparr>" and len: "length (pre @ ?k @ NUL # ?v) = length (query_text ps)"
    using query_steps_pairs [OF assms(1,2), of ?st "[]" "''&'' @ b @ [NUL]"] by auto
  let ?pre = "pre @ ?k @ NUL # ?v"
  let ?st2 = "\<lparr>query = ?pre @ NUL # b @ [NUL], qkey = Suc (length ?pre), qval = Some (Suc (length pre + length ?k)),
     qparser = set_params ps p\<rparr>"
  have "set_params ps p = set_params (butlast ps @ [last ps]) p" using assms(1) by simp
  also have "\<dots> = httpp_set_query_param (set_params (butlast ps) p) ?k ?v"
    unfolding set_params_def fold_append by (simp add: split_beta)
  finally have 2: "parse_query_step (length ?pre) (fold parse_query_step [0..<length ?pre] ?st) = ?st2"
    using query_flush_pair [OF good, of _ pre "b @ [NUL]"] query_step_sep [of _ ?pre "b @ [NUL]"] len st by simp
  have 3: "fold parse_query_step [length (?pre @ [NUL])..<length (?pre @ [NUL]) + length b] ?st2 = ?st2"
    using query_steps_plain [OF assms(3), of ?st2 "?pre @ [NUL]" "[NUL]"] by simp
  have range: "[0..<length ?q] = [0..<length ?pre] @ length ?pre # [length (?pre @ [NUL])..<length (?pre @ [NUL]) + length b]"
    using len by (subst upt_split3 [of _ "length ?pre"]) auto
  have "c_str (query ?st2) (length (?pre @ [NUL])) = b" "c_str (query ?st2) (length (pre @ ?k @ [NUL])) = ?v"
    using c_str_append [OF refl, of b "?pre @ [NUL]" "[]"] c_str_append [OF refl, of ?v "pre @ ?k @ [NUL]" "b @ [NUL]"] assms(3) good
    by (auto simp: good_text_def is_cstr_def)
  then have flush: "query_flush ?st2 = httpp_set_query_param (set_params ps p) b ?v" by (simp add: query_flush_def)
  have run: "fold parse_query_step [0..<length ?q] ?st = ?st2"
    unfolding range fold_append o_apply fold_Cons 2 3 ..
  show ?thesis unfolding parse_query_def run flush by simp
qed


section \<open>Decoded parameters form a map\<close>

definition query_ok :: "http_parser \<Rightarrow> bool" where
  "query_ok p \<longleftrightarrow> vars_ok (p\<lparr>vars := queryvars p\<rparr>)"

lemma get_query_param_getvar: "httpp_get_query_param p n = httpp_getvar (p\<lparr>vars := queryvars p\<rparr>) n"
  by (simp add: httpp_get_query_param_def httpp_getvar_def)

lemma set_query_param_setvar:
  "url_escape v = Some w \<Longrightarrow>
   queryvars (httpp_set_query_param p n v) = vars (httpp_setvar (p\<lparr>vars := queryvars p\<rparr>) n w)"
  by (simp add: httpp_set_query_param_def httpp_setvar_def get_query_param_getvar Let_def split: option.splits)

lemma getvar_vars: "vars p = vars p' \<Longrightarrow> httpp_getvar p n = httpp_getvar p' n"
  by (simp add: httpp_getvar_def)

lemma httpp_set_query_param_ok:
  assumes "query_ok p" and "url_escape v = Some w"
  shows "query_ok (httpp_set_query_param p n v)"
    and "httpp_get_query_param (httpp_set_query_param p n v) m = (if m = n then Some w else httpp_get_query_param p m)"
proof -
  let ?q = "p\<lparr>vars := queryvars p\<rparr>" and ?p = "httpp_set_query_param p n v"
  note set = set_query_param_setvar [OF assms(2), of p n]
  have ok: "vars_ok ?q" using assms(1) by (simp add: query_ok_def)
  show "query_ok ?p" unfolding query_ok_def
    using httpp_setvar_ok(1) [OF ok, of n w] vars_ok_same [of "?p\<lparr>vars := queryvars ?p\<rparr>" "httpp_setvar ?q n w"] set by simp
  have "httpp_get_query_param ?p m = httpp_getvar (httpp_setvar ?q n w) m"
    unfolding get_query_param_getvar by (rule getvar_vars) (simp add: set)
  then show "httpp_get_query_param ?p m = (if m = n then Some w else httpp_get_query_param p m)"
    by (simp add: httpp_getvar_setvar [OF ok] get_query_param_getvar)
qed

lemma set_params_get:
  "query_ok p \<Longrightarrow> \<forall>(k, v)\<in>set ps. url_escape v \<noteq> None \<Longrightarrow>
   query_ok (set_params ps p) \<and>
   httpp_get_query_param (set_params ps p) n =
     (case map_of (rev ps) n of Some v \<Rightarrow> url_escape v | None \<Rightarrow> httpp_get_query_param p n)"
proof (induction ps arbitrary: p)
  case (Cons kv ps)
  obtain k v w where kv: "kv = (k, v)" "url_escape v = Some w" using Cons.prems(2) by (cases kv) auto
  have "set_params (kv # ps) p = set_params ps (httpp_set_query_param p k v)" by (simp add: set_params_def kv)
  moreover have "query_ok (httpp_set_query_param p k v)" using httpp_set_query_param_ok(1) Cons.prems(1) kv(2) .
  ultimately show ?case using Cons.IH [of "httpp_set_query_param p k v"] Cons.prems kv
    by (auto simp: httpp_set_query_param_ok map_add_def split: option.splits)
qed (simp add: set_params_def)

lemma initialize_ok: "vars_ok (httpp_initialize ds)" "query_ok (httpp_initialize ds)"
  using set_defaults_vars initial_vars_ok
proof -
  have frame: "queryvars (set_defaults p ds) = queryvars p" for p
    by (induction p ds rule: set_defaults.induct) auto
  show "vars_ok (httpp_initialize ds)" unfolding httpp_initialize_def using set_defaults_vars initial_vars_ok by blast
  have "vars_ok ((httpp_initialize ds)\<lparr>vars := queryvars (httpp_initialize ds)\<rparr>)"
    using initial_vars_ok [of httpp_req_none None "avl_tree_new compare_vars"]
    by (subst vars_ok_same [of _ "\<lparr>req_type = httpp_req_none, uri = None, vars = avl_tree_new compare_vars, queryvars = avl_tree_new compare_vars\<rparr>"])
      (simp_all add: httpp_initialize_def frame)
  then show "query_ok (httpp_initialize ds)" by (simp add: query_ok_def)
qed

lemma httpp_parse_request_vars:
  assumes ok: "vars_ok p"
    and words: "good_word meth" "good_word u" "good_word prot" "good_word ver" "CHR ''/'' \<notin> set prot"
    and hs: "\<forall>h\<in>set hs. good_header h" "Suc (length hs) < MAX_HEADERS"
    and known: "request_type_name (request_type_of meth) = Some t"
  shows "\<exists>p'. httpp_parse p (request_text meth u prot ver hs @ body) = Some (1, p')
    \<and> vars_ok p' \<and> req_type p' = request_type_of meth
    \<and> uri p' = Some (takeWhile (\<lambda>c. c \<noteq> CHR ''?'') u)
    \<and> queryvars p' = (if CHR ''?'' \<in> set u then queryvars (parse_query p (tl (dropWhile (\<lambda>c. c \<noteq> CHR ''?'') u)))
                      else queryvars p)
    \<and> (\<forall>n. httpp_getvar p' n =
        (case map_of (rev (map (\<lambda>(a, b). (lowercase a, b)) hs)) n of
           Some v \<Rightarrow> Some v
         | None \<Rightarrow>
             if n = HTTPP_VAR_URI then Some (takeWhile (\<lambda>c. c \<noteq> CHR ''?'') u)
             else if n = HTTPP_VAR_REQ_TYPE then Some t
             else if n = HTTPP_VAR_VERSION then Some ver
             else if n = HTTPP_VAR_PROTOCOL then Some prot
             else if CHR ''?'' \<in> set u \<and> n = HTTPP_VAR_QUERYARGS then Some (dropWhile (\<lambda>c. c \<noteq> CHR ''?'') u)
             else if CHR ''?'' \<in> set u \<and> n = HTTPP_VAR_RAWURI then Some u
             else httpp_getvar p n))"
proof -
  obtain p' where parse: "httpp_parse p (request_text meth u prot ver hs @ body) = Some (1, p')"
    and p': "p' = fold (\<lambda>l p. parse_header_line p l) (map header_line hs)
        (httpp_setvar (httpp_setvar (httpp_setvar (httpp_setvar
           (parse_uri (p\<lparr>req_type := request_type_of meth\<rparr>) u)
           HTTPP_VAR_PROTOCOL prot) HTTPP_VAR_VERSION ver) HTTPP_VAR_REQ_TYPE t)
           HTTPP_VAR_URI (takeWhile (\<lambda>c. c \<noteq> CHR ''?'') u))" (is "_ = fold _ _ ?q")
    using httpp_parse_request [OF assms] .
  have ok': "vars_ok (parse_uri (p\<lparr>req_type := request_type_of meth\<rparr>) u)" using ok by (simp add: parse_uri_ok)
  have q: "vars_ok ?q" using ok' by (simp add: httpp_setvar_ok)
  have "queryvars (parse_uri (p\<lparr>req_type := request_type_of meth\<rparr>) u) =
      (if CHR ''?'' \<in> set u then queryvars (parse_query p (tl (dropWhile (\<lambda>c. c \<noteq> CHR ''?'') u))) else queryvars p)"
    using parse_query_local [of "p\<lparr>req_type := request_type_of meth\<rparr>" p] by (simp add: parse_uri_queryvars)
  moreover have getq: "httpp_getvar ?q n =
      (if n = HTTPP_VAR_URI then Some (takeWhile (\<lambda>c. c \<noteq> CHR ''?'') u)
       else if n = HTTPP_VAR_REQ_TYPE then Some t
       else if n = HTTPP_VAR_VERSION then Some ver
       else if n = HTTPP_VAR_PROTOCOL then Some prot
       else if CHR ''?'' \<in> set u \<and> n = HTTPP_VAR_QUERYARGS then Some (dropWhile (\<lambda>c. c \<noteq> CHR ''?'') u)
       else if CHR ''?'' \<in> set u \<and> n = HTTPP_VAR_RAWURI then Some u
       else httpp_getvar p n)" for n
    using ok ok' by (simp add: httpp_getvar_setvar httpp_setvar_ok parse_uri_getvar)
  moreover note fold = fold_headers(1-4) [OF hs(1) q, folded p']
  ultimately show ?thesis
    using parse fold_headers(5) [OF hs(1) q, folded p', unfolded getq]
    by (intro exI [of _ p'] conjI allI) simp_all
qed

section \<open>Properties\<close>

text \<open>C38: The header variables of a request behave as a map: a variable reads back the value last
  set, deleting one removes it alone, and neither touches any other variable.\<close>

theorem httpp_vars_spec:
  assumes "vars_ok p"
  shows "vars_ok (httpp_setvar p n v) \<and> vars_ok (httpp_deletevar p n)
    \<and> httpp_getvar (httpp_setvar p n v) m = (if m = n then Some v else httpp_getvar p m)
    \<and> httpp_getvar (httpp_deletevar p n) m = (if m = n then None else httpp_getvar p m)"
  using assms by (simp add: httpp_setvar_ok httpp_getvar_setvar httpp_deletevar_ok)

theorem httpp_vars_spec_witness:
  "vars_ok (httpp_setvar (httpp_initialize []) ''host'' ''x'') \<and>
   httpp_getvar (httpp_setvar (httpp_initialize []) ''host'' ''x'') ''host'' = Some ''x''"
  using httpp_vars_spec [OF initialize_ok(1), of "[]" "''host''" "''x''" "''host''"] by simp

text \<open>Parsing any bytes as a request follows no null line pointer, whatever the number of lines
  and line ends: it returns 0 or 1, and the variables stay a well-formed map.\<close>

lemma httpp_parse_safe:
  assumes "vars_ok p"
  shows "\<exists>res p'. httpp_parse p data = Some (res, p') \<and> res \<in> {0, 1} \<and> vars_ok p'"
  using httpp_parse_total [OF assms] .



text \<open>A query string of \<open>key=value\<close> pairs whose values decode gives every key the decoded value
  of its last pair and leaves the other parameters as they were.\<close>

lemma parse_query_spec:
  assumes "query_ok p" and "\<forall>(k, v)\<in>set ps. good_text k \<and> good_text v" and "\<forall>(k, v)\<in>set ps. url_escape v \<noteq> None"
  shows "query_ok (parse_query p (query_text ps)) \<and>
    httpp_get_query_param (parse_query p (query_text ps)) n =
      (case map_of (rev ps) n of Some v \<Rightarrow> url_escape v | None \<Rightarrow> httpp_get_query_param p n)"
  using set_params_get [OF assms(1,3)] by (simp add: parse_query_pairs [OF assms(2)])

text \<open>A key without a value takes the value of the pair before it, because the value pointer of
  \<open>parse_query\<close> is not reset at a separator.\<close>

lemma parse_query_stale_value:
  assumes "ps \<noteq> []" and "\<forall>(k, v)\<in>set ps. good_text k \<and> good_text v" and "good_text b"
  shows "parse_query p (query_text ps @ ''&'' @ b) = httpp_set_query_param (parse_query p (query_text ps)) b (snd (last ps))"
  by (simp only: parse_query_pairs [OF assms(2)] parse_query_bare_key [OF assms])

text \<open>When the first value given for a parameter does not decode, the parameter stays without a
  value: the null value makes the next assignment insert a second entry under the same name, and
  the lookup keeps finding the first.\<close>

lemma set_query_param_lost:
  assumes "queryvars p = avl_tree_new compare_vars" and "url_escape bad = None"
  shows "httpp_get_query_param (httpp_set_query_param (httpp_set_query_param p n bad) n good) n = None"
proof -
  have cmp: "compare_vars \<lparr>name = n, val = a\<rparr> \<lparr>name = n, val = b\<rparr> = 0" for a b by (simp add: compare_vars_def)
  let ?bad = "\<lparr>name = n, val = None\<rparr> :: http_var"
  have "httpp_get_query_param p n = None"
    by (simp add: httpp_get_query_param_def assms(1) avl_get_by_key_def avl_tree_new_def)
  then have one: "queryvars (httpp_set_query_param p n bad) = (avl_tree_new compare_vars)\<lparr>root := avl_node_new ?bad, tree_length := 1\<rparr>"
    by (simp add: httpp_set_query_param_def assms tree_insert_def avl_insert_def) (simp add: avl_tree_new_def)
  have get: "httpp_get_query_param q n = None" if "root (queryvars q) = Node l ?bad w r" "compare_fun (queryvars q) = compare_vars"
    for q l w r using that by (simp add: httpp_get_query_param_def avl_get_by_key_def cmp)
  have none: "httpp_get_query_param (httpp_set_query_param p n bad) n = None"
    by (rule get) (simp_all add: one avl_node_new_def avl_tree_new_def)
  have bal: "AVL_GET_BALANCE (AVL_SET_RANK (AVL_SET_RANK (AVL_SET_BALANCE 0 0) 1) r) = 0" for r
    by (simp add: node_bits)
  show ?thesis
    by (rule get)
      (simp_all add: bal Let_def httpp_set_query_param_def [of "httpp_set_query_param p n bad"] none one tree_insert_def
        avl_insert_def avl_node_new_def avl_tree_new_def cmp balancing_act_def split: if_splits prod.splits)
qed

end
