(* ===== verification/Reply.thy ===== *)
theory Reply
  imports Config Httpp_Request
begin

text \<open>
  The headers of replies (\<open>util_http_build_header\<close> and \<open>_build_headers\<close> in \<open>util.c\<close>). Text is
  printed into buffers of fixed size as \<open>snprintf\<close> does. The line with the current time is an
  argument, as the clock and \<open>strftime\<close> give it.
\<close>

section \<open>Building headers\<close>

text \<open>The buffer and its allocated size, grown by every configured header that applies.\<close>

fun build_headers_loop :: "string \<times> nat \<Rightarrow> ice_config_http_header list \<Rightarrow> int \<Rightarrow> string \<times> nat" where
  "build_headers_loop rl [] status = rl"
| "build_headers_loop (r, len) (h # hs) status =
     (if hstatus h \<noteq> 0 \<and> hstatus h \<noteq> status then build_headers_loop (r, len) hs status
      else
        (case (hname h, case htype h of HTTP_HEADER_TYPE_STATIC \<Rightarrow> hvalue h) of
           (Some n, Some v) \<Rightarrow>
             build_headers_loop (r @ n @ '': '' @ v @ [CR, LF], len + (length n + length v + 4)) hs status
         | _ \<Rightarrow> build_headers_loop (r, len) hs status))"

text \<open>\<open>mount\<close> is the mount of the source the reply is for, if any.\<close>

definition build_headers :: "(string \<Rightarrow> string \<Rightarrow> bool) \<Rightarrow> int \<Rightarrow> ice_config \<Rightarrow> string option \<Rightarrow> string \<times> nat" where
  "build_headers fnmatch status config mount =
     (let mountproxy = (case mount of None \<Rightarrow> None | Some m \<Rightarrow> config_find_mount fnmatch config (Some m) MOUNT_TYPE_NORMAL);
          rl = build_headers_loop ([], 1) (global_headers config) status
      in case mountproxy of
           None \<Rightarrow> rl
         | Some m \<Rightarrow> build_headers_loop rl (http_headers m) status)"

definition status_text :: "int \<Rightarrow> string" where
  "status_text status =
     (if status = 200 then ''OK''
      else if status = 206 then ''Partial Content''
      else if status = 400 then ''Bad Request''
      else if status = 401 then ''Authentication Required''
      else if status = 403 then ''Forbidden''
      else if status = 404 then ''File Not Found''
      else if status = 416 then ''Request Range Not Satisfiable''
      else ''(unknown status code)'')"

definition status_buffer :: "int \<Rightarrow> string option \<Rightarrow> string" where
  "status_buffer status statusmsg =
     (if status = -1 then []
      else
        let version = (if statusmsg = None \<and> status = 206 then ''1.1'' else ''1.0'');
            msg = (case statusmsg of None \<Rightarrow> status_text status | Some m \<Rightarrow> m)
        in fst (snprintf 80 (''HTTP/'' @ version @ '' '' @ fmt_d status @ '' '' @ msg @ [CR, LF])))"

definition contenttype_buffer :: "string option \<Rightarrow> string option \<Rightarrow> string" where
  "contenttype_buffer contenttype cset =
     (case contenttype of
        None \<Rightarrow> []
      | Some t \<Rightarrow>
          (case cset of
             Some c \<Rightarrow> fst (snprintf 80 (''Content-Type: '' @ t @ ''; charset='' @ c @ [CR, LF]))
           | None \<Rightarrow> fst (snprintf 80 (''Content-Type: '' @ t @ [CR, LF]))))"

definition auth_header :: "int \<Rightarrow> string" where
  "auth_header status = (if status = 401 then ''WWW-Authenticate: Basic realm=\"Icecast2 Server\"'' @ [CR, LF] else [])"

definition cache_header :: "bool \<Rightarrow> string" where
  "cache_header cache =
     (if cache then []
      else ''Cache-Control: no-cache, no-store'' @ [CR, LF] @ ''Expires: Mon, 26 Jul 1997 05:00:00 GMT'' @ [CR, LF] @
           ''Pragma: no-cache'' @ [CR, LF])"

definition reply_text ::
  "(string \<Rightarrow> string \<Rightarrow> bool) \<Rightarrow> ice_config \<Rightarrow> string \<Rightarrow> bool \<Rightarrow> int \<Rightarrow> string option \<Rightarrow> string option \<Rightarrow> string option \<Rightarrow>
   string option \<Rightarrow> string option \<Rightarrow> string" where
  "reply_text fnmatch config date cache status statusmsg contenttype cset datablock mount =
     status_buffer status statusmsg @
     ''Server: '' @ server_id config @ [CR, LF] @ ''Connection: Close'' @ [CR, LF] @
     date @ contenttype_buffer contenttype cset @ auth_header status @ cache_header cache @
     fst (build_headers fnmatch status config mount) @
     (case datablock of None \<Rightarrow> [] | Some d \<Rightarrow> [CR, LF] @ d)"

text \<open>
  \<open>out\<close> is the string in the buffer of \<open>len\<close> bytes; an offset of -1 stands for its end. The result
  is the length of the text, whether or not it fitted, and the string in the buffer from its
  start to the end of the text that was printed.
\<close>

definition util_http_build_header ::
  "(string \<Rightarrow> string \<Rightarrow> bool) \<Rightarrow> ice_config \<Rightarrow> string \<Rightarrow> string option \<Rightarrow> nat \<Rightarrow> int \<Rightarrow> bool \<Rightarrow> int \<Rightarrow> string option \<Rightarrow>
   string option \<Rightarrow> string option \<Rightarrow> string option \<Rightarrow> string option \<Rightarrow> int \<times> string" where
  "util_http_build_header fnmatch config date out len offset cache status statusmsg contenttype cset datablock mount =
     (case out of
        None \<Rightarrow> (-1, [])
      | Some o' \<Rightarrow>
          let off = (if offset = -1 then length o' else nat offset);
              (written, ret) = snprintf (len - off)
                 (reply_text fnmatch config date cache status statusmsg contenttype cset datablock mount)
          in (ret, take off o' @ written))"

section \<open>Facts\<close>

text \<open>The configured headers that apply to a reply.\<close>

definition applies :: "int \<Rightarrow> ice_config_http_header \<Rightarrow> bool" where
  "applies status h \<longleftrightarrow> (hstatus h = 0 \<or> hstatus h = status) \<and> hname h \<noteq> None \<and> hvalue h \<noteq> None"

definition header_pairs :: "int \<Rightarrow> ice_config_http_header list \<Rightarrow> (string \<times> string) list" where
  "header_pairs status hs = map (\<lambda>h. (the (hname h), the (hvalue h))) (filter (applies status) hs)"

lemma render_lines_simps [simp]:
  "render_lines [] = []" "render_lines (l # ls) = l @ CR # LF # render_lines ls" "render_lines (ls @ ls') = render_lines ls @ render_lines ls'"
  by (simp_all add: render_lines_def)

lemma build_headers_loop_eq:
  "build_headers_loop (r, len) hs status =
     (r @ render_lines (map header_line (header_pairs status hs)),
      len + length (render_lines (map header_line (header_pairs status hs))))"
  by (induction "(r, len)" hs status arbitrary: r len rule: build_headers_loop.induct)
    (auto simp: header_pairs_def applies_def header_line_def split: option.splits http_header_type.splits)

definition extra_headers :: "(string \<Rightarrow> string \<Rightarrow> bool) \<Rightarrow> int \<Rightarrow> ice_config \<Rightarrow> string option \<Rightarrow> (string \<times> string) list" where
  "extra_headers fnmatch status config mount =
     header_pairs status (global_headers config) @
     (case mount of
        None \<Rightarrow> []
      | Some m \<Rightarrow>
          (case config_find_mount fnmatch config (Some m) MOUNT_TYPE_NORMAL of
             None \<Rightarrow> []
           | Some info \<Rightarrow> header_pairs status (http_headers info)))"

lemma build_headers_eq:
  "build_headers fnmatch status config mount =
     (render_lines (map header_line (extra_headers fnmatch status config mount)),
      Suc (length (render_lines (map header_line (extra_headers fnmatch status config mount)))))"
  by (auto simp: build_headers_def extra_headers_def build_headers_loop_eq Let_def split: option.splits)

section \<open>Parsing a reply\<close>

text \<open>What a relay's \<open>httpp_parse_response\<close> makes of a status line and header lines.\<close>

lemma response_words:
  assumes "good_word a" "good_word b" "clean_line m" "hd m \<noteq> CHR '' ''"
  defines "l \<equiv> a @ '' '' @ b @ '' '' @ m"
  shows "\<exists>r. word_starts 0 False l = Suc (length a) # (length a + length b + 2) # r"
    and "c_str (cut_words l) (Suc (length a)) = b"
    and "drop (length a + length b + 2) l = m"
    and "clean_line l"
proof -
  have sp: "CHR '' '' \<notin> set a" "CHR '' '' \<notin> set b" and cs: "is_cstr a" "is_cstr b"
    using assms(1,2) by (auto simp: good_word_def clean_line_def is_cstr_def)
  obtain c r where m: "m = c # r" "c \<noteq> CHR '' ''" using assms(3,4) by (cases m) (auto simp: clean_line_def)
  show "\<exists>r. word_starts 0 False l = Suc (length a) # (length a + length b + 2) # r"
    using assms(2) sp m by (simp add: l_def word_starts_skip word_starts_next)
  have cut: "cut_words l = a @ NUL # b @ NUL # cut_words m"
    by (simp add: cut_words_def l_def cut_words_id [OF sp(1)] cut_words_id [OF sp(2)])
  show "c_str (cut_words l) (Suc (length a)) = b"
    using c_str_append [of "a @ [NUL]" "Suc (length a)" b] cs by (simp add: cut)
  show "drop (length a + length b + 2) l = m" by (simp add: l_def)
  show "clean_line l" using assms(1-3) by (auto simp: l_def good_word_def clean_line_def NUL_def CR_def LF_def)
qed

lemma httpp_parse_response_vars:
  assumes ok: "vars_ok p" and words: "good_word prot" "good_word rc" "clean_line msg" "hd msg \<noteq> CHR '' ''"
    and hs: "\<forall>h\<in>set hs. good_header h" "Suc (length hs) < MAX_HEADERS"
  shows "\<exists>p'. httpp_parse_response p (render_lines ((prot @ '' '' @ rc @ '' '' @ msg) # map header_line hs) @ CR # LF # body) u
        = Some (1, p') \<and> vars_ok p' \<and>
    (\<forall>n. httpp_getvar p' n =
        (case map_of (rev (map (\<lambda>(a, b). (lowercase a, b)) hs)) n of
           Some v \<Rightarrow> Some v
         | None \<Rightarrow>
             if n = HTTPP_VAR_REQ_TYPE then Some ''NONE''
             else if n = HTTPP_VAR_URI then Some u
             else if (atoi rc < 200 \<or> atoi rc \<ge> 300) \<and> n = HTTPP_VAR_ERROR_MESSAGE then Some msg
             else if n = HTTPP_VAR_ERROR_CODE then Some rc
             else httpp_getvar p n))"
proof -
  let ?l = "prot @ '' '' @ rc @ '' '' @ msg"
  note w = response_words [OF words]
  have "\<forall>l\<in>set (?l # map header_line hs). clean_line l" using w(4) hs(1) by (auto simp: header_line_clean)
  then obtain buf line where split: "split_headers (render_lines (?l # map header_line hs) @ CR # LF # body) = (buf, Suc (length hs), line)"
    and first: "c_str buf 0 = ?l"
    and rest: "\<And>p. parse_headers p buf (take (length hs) (drop 1 line)) = Some (fold (\<lambda>l p. parse_header_line p l) (map header_line hs) p)"
    by (rule split_headers_render [of ?l "map header_line hs" body]) (use hs(2) in simp_all)
  from w(1) obtain r where starts: "word_starts 0 False ?l = Suc (length prot) # (length prot + length rc + 2) # r" by blast
  define p1 where "p1 = httpp_setvar p HTTPP_VAR_ERROR_CODE rc"
  define p2 where "p2 = (if atoi rc < 200 \<or> atoi rc \<ge> 300 then httpp_setvar p1 HTTPP_VAR_ERROR_MESSAGE msg else p1)"
  define p3 where "p3 = httpp_setvar (httpp_setvar p2 HTTPP_VAR_URI u) HTTPP_VAR_REQ_TYPE ''NONE''"
  define p' where "p' = fold (\<lambda>l p. parse_header_line p l) (map header_line hs) p3"
  have parse: "httpp_parse_response p (render_lines (?l # map header_line hs) @ CR # LF # body) u = Some (1, p')"
    unfolding httpp_parse_response_def split Let_def prod.case first starts list.case w(2,3)
    by (simp add: rest [simplified] p'_def p3_def p2_def p1_def)
  have ok3: "vars_ok p3" using ok by (simp add: p3_def p2_def p1_def httpp_setvar_ok)
  have getq: "httpp_getvar p3 n = (if n = HTTPP_VAR_REQ_TYPE then Some ''NONE''
             else if n = HTTPP_VAR_URI then Some u
             else if (atoi rc < 200 \<or> atoi rc \<ge> 300) \<and> n = HTTPP_VAR_ERROR_MESSAGE then Some msg
             else if n = HTTPP_VAR_ERROR_CODE then Some rc
             else httpp_getvar p n)" for n
    using ok by (simp add: p3_def p2_def p1_def httpp_getvar_setvar httpp_setvar_ok)
  show ?thesis
    by (intro exI [of _ p'] conjI allI, rule parse, rule fold_headers(1) [OF hs(1) ok3, folded p'_def],
        rule fold_headers(5) [OF hs(1) ok3, folded p'_def, unfolded getq])
qed

text \<open>The lines of a reply.\<close>

definition reply_headers ::
  "(string \<Rightarrow> string \<Rightarrow> bool) \<Rightarrow> ice_config \<Rightarrow> string \<Rightarrow> bool \<Rightarrow> int \<Rightarrow> string \<Rightarrow> string option \<Rightarrow> (string \<times> string) list" where
  "reply_headers fnmatch config date cache status contenttype mount =
     [(''Server'', server_id config), (''Connection'', ''Close''), (''Date'', date), (''Content-Type'', contenttype)] @
     (if status = 401 then [(''WWW-Authenticate'', ''Basic realm=\"Icecast2 Server\"'')] else []) @
     (if cache then []
      else [(''Cache-Control'', ''no-cache, no-store''), (''Expires'', ''Mon, 26 Jul 1997 05:00:00 GMT''), (''Pragma'', ''no-cache'')]) @
     extra_headers fnmatch status config mount"

definition full_type :: "string \<Rightarrow> string option \<Rightarrow> string" where
  "full_type t cset = (case cset of None \<Rightarrow> t | Some c \<Rightarrow> t @ ''; charset='' @ c)"

lemma contenttype_buffer_fits:
  "length (full_type t cset) \<le> 63 \<Longrightarrow> contenttype_buffer (Some t) cset = render_lines [header_line (''Content-Type'', full_type t cset)]"
  by (auto simp: contenttype_buffer_def full_type_def snprintf_def header_line_def split: option.splits)

lemma dec_3: "n < 1000 \<Longrightarrow> length (dec n) \<le> 3"
proof -
  have 1: "length (dec m) \<le> 1" if "m < 10" for m using that by (subst dec.simps) simp
  have 2: "length (dec m) \<le> 2" if "m < 100" for m using that 1 [of "m div 10"] by (subst dec.simps) auto
  show "n < 1000 \<Longrightarrow> length (dec n) \<le> 3" using 2 [of "n div 10"] by (subst dec.simps) auto
qed

lemma status_text_length: "length (status_text status) \<le> 29"
  by (simp add: status_text_def)

lemma status_buffer_fits:
  assumes "0 \<le> status" "status < 1000" "status \<noteq> 206"
  shows "status_buffer status None = render_lines [''HTTP/1.0'' @ '' '' @ fmt_d status @ '' '' @ status_text status]"
proof -
  have "length (fmt_d status) \<le> 3" using assms dec_3 [of "nat status"] by (simp add: fmt_d_def)
  then show ?thesis using assms status_text_length [of status] by (simp add: status_buffer_def snprintf_def)
qed

lemma reply_text_lines:
  assumes "0 \<le> status" "status < 1000" "status \<noteq> 206" "length (full_type t cset) \<le> 63"
  shows "reply_text fnmatch config (render_lines [header_line (''Date'', date)]) cache status None (Some t) cset (Some d) mount =
    render_lines ((''HTTP/1.0'' @ '' '' @ fmt_d status @ '' '' @ status_text status) #
      map header_line (reply_headers fnmatch config date cache status (full_type t cset) mount)) @ CR # LF # d"
  unfolding reply_text_def status_buffer_fits [OF assms(1-3)] contenttype_buffer_fits [OF assms(4)]
  by (simp add: reply_headers_def header_line_def auth_header_def cache_header_def build_headers_eq)

lemma fmt_d_word: "0 \<le> i \<Longrightarrow> good_word (fmt_d i)"
proof -
  assume "0 \<le> i"
  have "\<forall>c\<in>set (dec (nat i)). c \<noteq> NUL \<and> c \<noteq> CR \<and> c \<noteq> LF \<and> c \<noteq> CHR '' ''"
    using dec_digits(1) [of "nat i"] is_digit_facts(4-7) by (simp only: list_all_iff) blast
  then show ?thesis using dec_digits(2) [of "nat i"] \<open>0 \<le> i\<close> by (simp only: fmt_d_def good_word_def clean_line_def) auto
qed

lemma status_text_clean: "clean_line (status_text status) \<and> hd (status_text status) \<noteq> CHR '' ''"
  by (simp add: status_text_def clean_line_def NUL_def CR_def LF_def)

section \<open>Properties\<close>

text \<open>
  C33: A reply that fits its buffer is understood by a relay: \<open>httpp_parse_response\<close> accepts the text
  that \<open>util_http_build_header\<close> leaves in the buffer, whatever data follows the blank line, and finds
  the status code, the status text of an error, and every header, those added by the
  configuration of the server and of the mount included.
\<close>

theorem reply_parse_roundtrip:
  assumes "vars_ok p" and "100 \<le> status" "status < 1000" "status \<noteq> 206" and "length (full_type t cset) \<le> 63"
    and "\<forall>h\<in>set (reply_headers fnmatch config date cache status (full_type t cset) mount). good_header h"
    and "length (reply_headers fnmatch config date cache status (full_type t cset) mount) \<le> 30"
    and "util_http_build_header fnmatch config (render_lines [header_line (''Date'', date)]) (Some []) len 0 cache
          status None (Some t) cset (Some d) mount = (ret, out)"
    and "ret < int len"
  shows "ret = int (length out) \<and>
    (\<exists>p'. httpp_parse_response p out u = Some (1, p') \<and> vars_ok p' \<and>
      (\<forall>n. httpp_getvar p' n =
        (case map_of (rev (map (\<lambda>(a, b). (lowercase a, b)) (reply_headers fnmatch config date cache status (full_type t cset) mount))) n of
           Some v \<Rightarrow> Some v
         | None \<Rightarrow>
             if n = HTTPP_VAR_REQ_TYPE then Some ''NONE''
             else if n = HTTPP_VAR_URI then Some u
             else if (status < 200 \<or> status \<ge> 300) \<and> n = HTTPP_VAR_ERROR_MESSAGE then Some (status_text status)
             else if n = HTTPP_VAR_ERROR_CODE then Some (fmt_d status)
             else httpp_getvar p n)))"
proof -
  let ?hs = "reply_headers fnmatch config date cache status (full_type t cset) mount"
  let ?text = "render_lines ((''HTTP/1.0'' @ '' '' @ fmt_d status @ '' '' @ status_text status) # map header_line ?hs) @ CR # LF # d"
  have s: "0 \<le> status" using assms(2) by simp
  have "ret = int (length ?text)" "out = take (len - 1) ?text"
    using assms(8) unfolding util_http_build_header_def option.case reply_text_lines [OF s assms(3-5)]
    by (simp_all add: snprintf_def)
  then have out: "out = ?text" "ret = int (length out)" using assms(9) by auto
  have w: "good_word ''HTTP/1.0''" by (simp add: good_word_def clean_line_def NUL_def CR_def LF_def)
  have n: "Suc (length ?hs) < MAX_HEADERS" using assms(7) by (simp add: MAX_HEADERS_def)
  have st: "clean_line (status_text status)" "hd (status_text status) \<noteq> CHR '' ''" using status_text_clean by auto
  show ?thesis
    using httpp_parse_response_vars [OF assms(1) w fmt_d_word [OF s] st assms(6) n, of d u]
    unfolding out(1) [symmetric] atoi_fmt_d using out(2) by simp
qed

definition plain_config :: ice_config where
  "plain_config = demo_config\<lparr>global_headers := [\<lparr>htype = HTTP_HEADER_TYPE_STATIC, hname = Some ''x-a'', hvalue = Some ''b'', hstatus = 0\<rparr>]\<rparr>"

theorem reply_parse_roundtrip_witness:
  "\<exists>ret out p'. util_http_build_header literal_match plain_config (render_lines [header_line (''Date'', ''now'')]) (Some []) 4096 0 False
      401 None (Some ''text/plain'') (Some ''utf-8'') (Some ''no'') None = (ret, out) \<and>
    httpp_parse_response (httpp_initialize []) out ''/x'' = Some (1, p') \<and> httpp_getvar p' ''x-a'' = Some ''b''"
proof -
  let ?hs = "reply_headers literal_match plain_config ''now'' False 401 (full_type ''text/plain'' (Some ''utf-8'')) None"
  obtain ret out where b: "util_http_build_header literal_match plain_config (render_lines [header_line (''Date'', ''now'')]) (Some []) 4096 0 False
      401 None (Some ''text/plain'') (Some ''utf-8'') (Some ''no'') None = (ret, out)" by (rule prod.exhaust)
  have hs: "?hs = [(''Server'', ''icecast''), (''Connection'', ''Close''), (''Date'', ''now''), (''Content-Type'', ''text/plain; charset=utf-8''),
      (''WWW-Authenticate'', ''Basic realm=\"Icecast2 Server\"''), (''Cache-Control'', ''no-cache, no-store''),
      (''Expires'', ''Mon, 26 Jul 1997 05:00:00 GMT''), (''Pragma'', ''no-cache''), (''x-a'', ''b'')]"
    by (simp add: reply_headers_def full_type_def extra_headers_def header_pairs_def applies_def plain_config_def demo_config_def)
  have good: "\<forall>h\<in>set ?hs. good_header h" "length ?hs \<le> 30" unfolding hs
    by (simp_all add: good_header_def clean_line_def NUL_def CR_def LF_def)
  have ft: "length (full_type ''text/plain'' (Some ''utf-8'')) \<le> 63" by (simp add: full_type_def)
  have "length (reply_text literal_match plain_config (render_lines [header_line (''Date'', ''now'')]) False 401 None (Some ''text/plain'') (Some ''utf-8'') (Some ''no'') None) < 4096"
    by (simp add: reply_text_def status_buffer_def contenttype_buffer_def snprintf_def auth_header_def cache_header_def build_headers_eq
        extra_headers_def header_pairs_def applies_def plain_config_def demo_config_def header_line_def fmt_d_def dec.simps status_text_def)
  then have "ret < int 4096" using b by (auto simp: util_http_build_header_def snprintf_def)
  note r = reply_parse_roundtrip [OF initialize_ok(1) _ _ _ ft good b this]
  have "map_of (rev (map (\<lambda>(a, b). (lowercase a, b)) ?hs)) ''x-a'' = Some ''b''" unfolding hs by (simp add: lowercase_def tolower_def)
  moreover have "100 \<le> (401::int)" "(401::int) < 1000" "(401::int) \<noteq> 206" by simp_all
  note r [OF this, of "[]" "''/x''"]
  then obtain p' where "httpp_parse_response (httpp_initialize []) out ''/x'' = Some (1, p')"
    "\<And>n v. map_of (rev (map (\<lambda>(a, b). (lowercase a, b)) ?hs)) n = Some v \<Longrightarrow> httpp_getvar p' n = Some v" by auto
  ultimately have "\<exists>p'. httpp_parse_response (httpp_initialize []) out ''/x'' = Some (1, p') \<and> httpp_getvar p' ''x-a'' = Some ''b''"
    by blast
  with b show ?thesis by blast
qed

text \<open>
  A content type that does not fit the 80 bytes of its buffer loses the end of its line: the
  line is cut to 79 bytes and runs into the header that follows it.
\<close>

lemma long_content_type_joins_lines:
  assumes "64 \<le> length (full_type t cset)" and "LF \<notin> set (full_type t cset)"
  shows "\<exists>before line. LF \<notin> set line \<and> length line = 79 \<and>
    reply_text fnmatch config date False status statusmsg (Some t) cset datablock mount =
      before @ line @ auth_header status @ ''Cache-Control: no-cache, no-store'' @
      drop 33 (cache_header False) @ fst (build_headers fnmatch status config mount) @ (case datablock of None \<Rightarrow> [] | Some d \<Rightarrow> [CR, LF] @ d)"
proof -
  let ?l = "''Content-Type: '' @ full_type t cset @ [CR]"
  have b: "contenttype_buffer (Some t) cset = take 79 ?l"
    using assms(1) by (auto simp: contenttype_buffer_def full_type_def snprintf_def take_Cons' split: option.splits)
  have "LF \<notin> set ?l" using assms(2) by (simp add: LF_def CR_def)
  then have "LF \<notin> set (take 79 ?l)" by (meson in_set_takeD)
  moreover have "length (take 79 ?l) = 79" using assms(1) by simp
  ultimately show ?thesis
    unfolding reply_text_def b cache_header_def
    by (intro exI [of _ "status_buffer status statusmsg @ ''Server: '' @ server_id config @ [CR, LF] @ ''Connection: Close'' @ [CR, LF] @ date"]
        exI [of _ "take 79 ?l"]) simp
qed

end
