(* ===== verification/Util.thy ===== *)
theory Util
  imports C_String
begin

unbundle bit_operations_syntax

text \<open>
  The helpers of \<open>util.c\<close> on strings and bytes: reading a header from a socket, path checks, URL
  escaping, hexadecimal and base64 coding, string dictionaries, reading lines from a file. A
  socket is the sequence of results its \<open>poll\<close> and \<open>recv\<close> calls give, a file the bytes left to
  read. Allocations succeed.
\<close>

section \<open>Bytes\<close>

text \<open>Storing an \<open>int\<close> into a \<open>char\<close>.\<close>

definition to_char :: "int \<Rightarrow> char" where
  "to_char i = char_of (nat (i mod 256))"

definition byte :: "char \<Rightarrow> int" where
  "byte c = int (code c)"

section \<open>Reading headers\<close>

text \<open>One round of waiting and receiving: nothing in time, one byte, end of stream, an error.\<close>

datatype rx = Timeout | Received char | Closed | Failed

definition header_done :: "bool \<Rightarrow> string \<Rightarrow> bool" where
  "header_done entire buff \<longleftrightarrow>
     (let pos = length buff
      in if entire then pos > 1 \<and> buff ! (pos - 1) = LF \<and> buff ! (pos - 2) = LF
         else pos > 1 \<and> buff ! (pos - 1) = LF)"

text \<open>
  \<open>lim\<close> is \<open>len - 1\<close>, \<open>c\<close> the content of the variable \<open>c\<close>: \<open>recv\<close> leaves it as it is when it
  fails, and the code stores it all the same.
\<close>

fun read_header_loop :: "bool \<Rightarrow> nat \<Rightarrow> string \<Rightarrow> char \<Rightarrow> rx list \<Rightarrow> bool \<times> string" where
  "read_header_loop entire lim buff c [] = (False, buff)"
| "read_header_loop entire lim buff c (r # rs) =
     (if \<not> length buff < lim then (False, buff)
      else case r of
        Timeout \<Rightarrow> (False, buff)
      | Closed \<Rightarrow> (False, buff)
      | Received c' \<Rightarrow>
          let buff' = (if c' \<noteq> CR then buff @ [c'] else buff)
          in if header_done entire buff' then (True, buff')
             else read_header_loop entire lim buff' c' rs
      | Failed \<Rightarrow>
          let buff' = (if c \<noteq> CR then buff @ [c] else buff)
          in (header_done entire buff', buff'))"

definition util_read_header :: "char \<Rightarrow> rx list \<Rightarrow> u64 \<Rightarrow> bool \<Rightarrow> bool \<times> string" where
  "util_read_header c0 sock len entire = read_header_loop entire (unat (len - 1)) [] c0 sock"

section \<open>Paths\<close>

definition util_get_extension :: "string \<Rightarrow> string" where
  "util_get_extension path = (case strrchr path (CHR ''.'') of None \<Rightarrow> [] | Some i \<Rightarrow> drop (i + 1) path)"

definition XSLT_CONTENT :: int where "XSLT_CONTENT = 1"
definition HTML_CONTENT :: int where "HTML_CONTENT = 2"

definition util_check_valid_extension :: "string option \<Rightarrow> int" where
  "util_check_valid_extension uri =
     (case uri of
        None \<Rightarrow> 0
      | Some u \<Rightarrow>
          (case strrchr u (CHR ''.'') of
             None \<Rightarrow> 0
           | Some i \<Rightarrow>
               let p2 = drop (i + 1) u;
                   ret = (if strncmp p2 ''xsl'' 3 = 0 then XSLT_CONTENT else 0);
                   ret = (if strncmp p2 ''htm'' 3 = 0 then HTML_CONTENT else ret);
                   ret = (if strncmp p2 ''html'' 4 = 0 then HTML_CONTENT else ret)
               in ret))"

definition path_sep :: "char \<Rightarrow> bool" where
  "path_sep c \<longleftrightarrow> c = CHR ''/'' \<or> c = CHR 0x5C"

fun verify_path_loop :: "bool \<Rightarrow> bool \<Rightarrow> string \<Rightarrow> bool" where
  "verify_path_loop dir indotseq [] = True"
| "verify_path_loop dir indotseq (c # path) =
     (if path_sep c then
        if indotseq then False
        else if dir then False
        else verify_path_loop True indotseq path
      else
        let indotseq' = (if dir \<or> indotseq then c = CHR ''.'' else indotseq)
        in verify_path_loop False indotseq' path)"

definition verify_path :: "string \<Rightarrow> bool" where
  "verify_path path = verify_path_loop False False path"

section \<open>URL escaping and hexadecimal\<close>

definition hex_digit :: "char \<Rightarrow> int" where
  "hex_digit c =
     (if code (CHR ''0'') \<le> code c \<and> code c \<le> code (CHR ''9'') then byte c - byte (CHR ''0'')
      else if code (CHR ''A'') \<le> code c \<and> code c \<le> code (CHR ''F'') then byte c - byte (CHR ''A'') + 10
      else if code (CHR ''a'') \<le> code c \<and> code c \<le> code (CHR ''f'') then byte c - byte (CHR ''a'') + 10
      else -1)"

definition hexchars :: string where
  "hexchars = ''0123456789abcdef''"

definition safechars :: "bool list" where
  "safechars = replicate 48 False @ replicate 10 True @ replicate 7 False @ replicate 26 True @
     replicate 6 False @ replicate 26 True @ replicate 133 False"

definition escape_byte :: "char \<Rightarrow> string" where
  "escape_byte c =
     (if safechars ! code c then [c]
      else [CHR ''%'', hexchars ! nat (drop_bit 4 (byte c) AND 0x0F), hexchars ! nat (byte c AND 0x0F)])"

definition util_url_escape :: "string \<Rightarrow> string" where
  "util_url_escape src = concat (map escape_byte src)"

fun url_unescape_loop :: "string \<Rightarrow> string option" where
  "url_unescape_loop [] = Some []"
| "url_unescape_loop (c # src) =
     (if c = CHR ''%'' then
        case src of
          a # b # r \<Rightarrow>
            if hex_digit a = -1 \<or> hex_digit b = -1 then None
            else map_option (\<lambda>d. to_char (hex_digit a * 16 + hex_digit b) # d) (url_unescape_loop r)
        | _ \<Rightarrow> None
      else if c = CHR ''#'' then Some []
      else map_option (\<lambda>d. c # d) (url_unescape_loop src))"

definition util_url_unescape :: "string \<Rightarrow> string option" where
  "util_url_unescape src = map_option (\<lambda>d. c_str (d @ [NUL]) 0) (url_unescape_loop src)"

definition util_normalise_uri :: "string \<Rightarrow> string option" where
  "util_normalise_uri uri =
     (if uri = [] \<or> hd uri \<noteq> CHR ''/'' then None
      else case util_url_unescape uri of
             None \<Rightarrow> None
           | Some path \<Rightarrow> if verify_path path then Some path else None)"

definition util_get_path_from_normalised_uri :: "string \<Rightarrow> string \<Rightarrow> string" where
  "util_get_path_from_normalised_uri webroot uri = webroot @ uri"

definition util_get_path_from_uri :: "string \<Rightarrow> string \<Rightarrow> string option" where
  "util_get_path_from_uri webroot uri =
     (case util_normalise_uri uri of
        None \<Rightarrow> None
      | Some path \<Rightarrow> Some (util_get_path_from_normalised_uri webroot path))"

definition util_bin_to_hex :: "u8 list \<Rightarrow> string" where
  "util_bin_to_hex data =
     concat (map (\<lambda>d. [hexchars ! unat (drop_bit 4 (d AND 0xF0)), hexchars ! unat (d AND 0x0F)]) data)"

section \<open>Base64\<close>

definition base64table :: string where
  "base64table = ''ABCDEFGHIJKLMNOPQRSTUVWXYZabcdefghijklmnopqrstuvwxyz0123456789+/''"

definition base64decode :: "int list" where
  "base64decode =
     replicate 43 (-2) @ [62] @ replicate 3 (-2) @ [63] @ map int [52..<62] @ replicate 3 (-2) @ [-1] @
     replicate 3 (-2) @ map int [0..<26] @ replicate 6 (-2) @ map int [26..<52] @ replicate 133 (-2)"

definition b64 :: "int \<Rightarrow> char" where
  "b64 i = base64table ! nat i"

text \<open>With one byte left, \<open>*(data+1)\<close> is the terminating NUL.\<close>

fun base64_encode_loop :: "string \<Rightarrow> string" where
  "base64_encode_loop [] = []"
| "base64_encode_loop [a] =
     [b64 (drop_bit 2 (byte a AND 0xFC)), b64 (push_bit 4 (byte a AND 0x03) OR drop_bit 4 (byte NUL AND 0xF0)),
      CHR ''='', CHR ''='']"
| "base64_encode_loop [a, b] =
     [b64 (drop_bit 2 (byte a AND 0xFC)), b64 (push_bit 4 (byte a AND 0x03) OR drop_bit 4 (byte b AND 0xF0)),
      b64 (push_bit 2 (byte b AND 0x0F)), CHR ''='']"
| "base64_encode_loop (a # b # c # data) =
     b64 (drop_bit 2 (byte a AND 0xFC)) # b64 (push_bit 4 (byte a AND 0x03) OR drop_bit 4 (byte b AND 0xF0)) #
     b64 (push_bit 2 (byte b AND 0x0F) OR drop_bit 6 (byte c AND 0xC0)) # b64 (byte c AND 0x3F) #
     base64_encode_loop data"

definition util_base64_encode :: "string \<Rightarrow> string" where
  "util_base64_encode data = base64_encode_loop data"

definition unb64 :: "char \<Rightarrow> int" where
  "unb64 c = base64decode ! code c"

text \<open>Groups with characters outside the alphabet are skipped; a short last group is an error.\<close>

fun base64_decode_loop :: "string \<Rightarrow> string option" where
  "base64_decode_loop [] = Some []"
| "base64_decode_loop (i0 # i1 # i2 # i3 # input) =
     (let v0 = unb64 i0; v1 = unb64 i1; v2 = unb64 i2; v3 = unb64 i3
      in if v0 < 0 \<or> v1 < 0 \<or> v2 < -1 \<or> v3 < -1 then base64_decode_loop input
         else map_option (\<lambda>out.
             to_char (push_bit 2 v0 OR drop_bit 4 v1) #
             (if v2 \<ge> 0 then to_char (push_bit 4 (v1 AND 0x0F) OR drop_bit 2 v2) else NUL) #
             (if v3 \<ge> 0 then to_char (push_bit 6 (v2 AND 0x03) OR v3) else NUL) # out)
           (base64_decode_loop input))"
| "base64_decode_loop _ = None"

definition util_base64_decode :: "string \<Rightarrow> string option" where
  "util_base64_decode data = map_option (\<lambda>out. c_str (out @ [NUL]) 0) (base64_decode_loop data)"

section \<open>Dictionaries\<close>

text \<open>The linked list of \<open>util_dict\<close>, head first; a node fresh from \<open>util_dict_new\<close> has null key and value.\<close>

record util_dict_node =
  dkey :: "string option"
  dval :: "string option"

type_synonym util_dict = "util_dict_node list"

definition util_dict_new :: util_dict where
  "util_dict_new = [\<lparr>dkey = None, dval = None\<rparr>]"

text \<open>\<open>Inl ()\<close> is the null pointer handed to \<open>strcmp\<close>.\<close>

fun util_dict_get :: "util_dict \<Rightarrow> string \<Rightarrow> unit + string option" where
  "util_dict_get [] key = Inr None"
| "util_dict_get (d # dict) key =
     (case dkey d of
        None \<Rightarrow> Inl ()
      | Some k \<Rightarrow> if strcmp key k = 0 then Inr (dval d) else util_dict_get dict key)"

fun dict_set_loop :: "util_dict \<Rightarrow> string \<Rightarrow> string \<Rightarrow> util_dict" where
  "dict_set_loop [] key v = [\<lparr>dkey = Some key, dval = Some v\<rparr>]"
| "dict_set_loop (d # dict) key v =
     (case dkey d of
        None \<Rightarrow> \<lparr>dkey = Some key, dval = Some v\<rparr> # dict
      | Some k \<Rightarrow> if strcmp k key = 0 then \<lparr>dkey = Some k, dval = Some v\<rparr> # dict
                  else d # dict_set_loop dict key v)"

text \<open>A null dictionary or key is refused with 0.\<close>

definition util_dict_set :: "util_dict \<Rightarrow> string option \<Rightarrow> string \<Rightarrow> bool \<times> util_dict" where
  "util_dict_set dict key v =
     (case key of
        None \<Rightarrow> (False, dict)
      | Some k \<Rightarrow> if dict = [] then (False, dict) else (True, dict_set_loop dict k v))"

fun dict_urlencode_loop :: "string option \<Rightarrow> util_dict \<Rightarrow> char \<Rightarrow> string option" where
  "dict_urlencode_loop res [] delim = res"
| "dict_urlencode_loop res (d # dict) delim =
     (case dkey d of
        None \<Rightarrow> dict_urlencode_loop res dict delim
      | Some k \<Rightarrow>
          let res1 = (case res of None \<Rightarrow> k | Some r \<Rightarrow> r @ [delim] @ k)
          in case dval d of
               None \<Rightarrow> dict_urlencode_loop (Some res1) dict delim
             | Some v \<Rightarrow> dict_urlencode_loop (Some (res1 @ ''='' @ util_url_escape v)) dict delim)"

definition util_dict_urlencode :: "util_dict \<Rightarrow> char \<Rightarrow> string option" where
  "util_dict_urlencode dict delim = dict_urlencode_loop None dict delim"

section \<open>Lines of a file\<close>

text \<open>\<open>fgets\<close>: at most \<open>siz - 1\<close> bytes, up to and including a newline; \<open>None\<close> at the end of the file.\<close>

definition fgets :: "nat \<Rightarrow> string \<Rightarrow> (string \<times> string) option" where
  "fgets siz file =
     (if file = [] then None
      else
        let n = min (siz - 1) (case strchr file LF of None \<Rightarrow> length file | Some i \<Rightarrow> i + 1)
        in Some (take n file, drop n file))"

definition chomp :: "string \<Rightarrow> string" where
  "chomp buf =
     (if buf \<noteq> [] \<and> last buf = LF then
        let buf' = butlast buf
        in if buf' \<noteq> [] \<and> last buf' = CR then butlast buf' else buf'
      else buf)"

definition get_line :: "string \<Rightarrow> nat \<Rightarrow> (string \<times> string) option" where
  "get_line file siz =
     (case fgets siz file of
        None \<Rightarrow> None
      | Some (bytes, rest) \<Rightarrow> Some (chomp (c_str (bytes @ [NUL]) 0), rest))"

definition MAX_LINE_LEN :: nat where
  "MAX_LINE_LEN = 512"

lemma fgets_progress: "fgets siz file = Some (l, rest) \<Longrightarrow> 1 < siz \<Longrightarrow> length rest < length file"
  by (auto simp: fgets_def Let_def split: if_splits option.splits)

lemma get_line_progress [termination_simp]:
  "get_line file MAX_LINE_LEN = Some (l, rest) \<Longrightarrow> length rest < length file"
  using fgets_progress by (auto simp: get_line_def MAX_LINE_LEN_def split: option.splits)

text \<open>The lines the loops \<open>while (get_line (file, line, MAX_LINE_LEN))\<close> see.\<close>

function file_lines :: "string \<Rightarrow> string list" where
  "file_lines file =
     (case get_line file MAX_LINE_LEN of
        None \<Rightarrow> []
      | Some (l, rest) \<Rightarrow> l # file_lines rest)"
  by auto

termination
  by (relation "measure length") (auto simp: get_line_progress)

declare file_lines.simps [simp del]

section \<open>Headers\<close>

lemma read_header_bounds:
  "read_header_loop entire lim buff c rs = (ok, buff') \<Longrightarrow> length buff \<le> lim \<Longrightarrow> length buff' \<le> lim"
  by (induction entire lim buff c rs rule: read_header_loop.induct)
    (auto simp: Let_def split: rx.splits if_splits)

definition strip_cr :: "string \<Rightarrow> string" where
  "strip_cr s = filter (\<lambda>c. c \<noteq> CR) s"

text \<open>A scan that stops at the last of the bytes \<open>xs\<close> and not before.\<close>

lemma read_header_prefix:
  assumes "\<And>n. 0 < n \<Longrightarrow> n < length xs \<Longrightarrow> \<not> header_done entire (buff @ strip_cr (take n xs))"
    and "length (buff @ strip_cr xs) \<le> lim"
    and "xs \<noteq> []" "header_done entire (buff @ strip_cr xs)" "last xs \<noteq> CR"
  shows "read_header_loop entire lim buff c (map Received xs @ rs) = (True, buff @ strip_cr xs)"
  using assms
proof (induction xs arbitrary: buff c)
  case (Cons x xs)
  have "last (x # xs) \<in> set (strip_cr (x # xs))" using Cons.prems(5) last_in_set [of "x # xs"] by (auto simp: strip_cr_def)
  then have "strip_cr (x # xs) \<noteq> []" by (metis empty_iff empty_set)
  then have full: "length buff < lim" using Cons.prems(2) by (cases "strip_cr (x # xs)") auto
  show ?case
  proof (cases "xs = []")
    case True
    with Cons.prems full show ?thesis by (auto simp: strip_cr_def)
  next
    case False
    have app: "(buff @ strip_cr [x]) @ strip_cr ys = buff @ strip_cr (x # ys)" for ys by (simp add: strip_cr_def)
    have "\<not> header_done entire (buff @ strip_cr [x])"
      using Cons.prems(1) [of 1] False by simp
    moreover have "\<not> header_done entire ((buff @ strip_cr [x]) @ strip_cr (take n xs))" if "n < length xs" for n
      using Cons.prems(1) [of "Suc n"] that unfolding app by simp
    then have "read_header_loop entire lim (buff @ strip_cr [x]) x (map Received xs @ rs) = (True, (buff @ strip_cr [x]) @ strip_cr xs)"
      using Cons.prems False unfolding app by (intro Cons.IH [of "buff @ strip_cr [x]", unfolded app]) auto
    ultimately show ?thesis using full by (cases "x = CR") (auto simp: strip_cr_def)
  qed
qed simp

lemma header_done_snoc: "header_done True (buff @ [c]) \<longleftrightarrow> buff \<noteq> [] \<and> c = LF \<and> last buff = LF"
  by (auto simp: header_done_def nth_append last_conv_nth)

lemma read_header_plain:
  "CR \<notin> set xs \<Longrightarrow> LF \<notin> set xs \<Longrightarrow> length buff + length xs \<le> lim \<Longrightarrow>
   read_header_loop True lim buff c (map Received xs @ rs) = read_header_loop True lim (buff @ xs) (last (c # xs)) rs"
  by (induction xs arbitrary: buff c) (auto simp: header_done_snoc)

section \<open>Paths\<close>

fun components :: "string \<Rightarrow> string list" where
  "components [] = [[]]"
| "components (c # s) =
     (if path_sep c then [] # components s
      else case components s of [] \<Rightarrow> [[c]] | w # ws \<Rightarrow> (c # w) # ws)"

definition proper_component :: "string \<Rightarrow> bool" where
  "proper_component w \<longleftrightarrow> (\<exists>x\<in>set w. x \<noteq> CHR ''.'')"

lemma components_nonempty [simp]: "components s \<noteq> []"
  by (cases s) (auto split: list.splits)

text \<open>
  What the scan still demands: of the component it is in, given whether it has just started or
  is all dots so far, unless no separator follows, and of every later one but the last.
\<close>

definition rest_ok :: "bool \<Rightarrow> bool \<Rightarrow> string list \<Rightarrow> bool" where
  "rest_ok dir dots ws \<longleftrightarrow>
     (tl ws = [] \<or> ((dir \<or> dots) \<longrightarrow> proper_component (hd ws))) \<and> (\<forall>w\<in>set (butlast (tl ws)). proper_component w)"

lemma verify_path_loop_iff: "\<not> (dir \<and> dots) \<Longrightarrow> verify_path_loop dir dots s = rest_ok dir dots (components s)"
proof (induction s arbitrary: dir dots)
  case Nil
  then show ?case by (simp add: rest_ok_def)
next
  case (Cons c s)
  obtain w ws where ws: "components s = w # ws" using components_nonempty [of s] by (metis list.exhaust)
  show ?case
    using Cons.IH [of True False] Cons.IH [of False True] Cons.IH [of False False] Cons.prems ws
    by (cases "path_sep c"; cases dir; cases dots; cases "c = CHR ''.''"; cases ws)
      (auto simp: rest_ok_def proper_component_def)
qed

lemma verify_path_iff: "verify_path s \<longleftrightarrow> (\<forall>w\<in>set (butlast (tl (components s))). proper_component w)"
  by (simp add: verify_path_def verify_path_loop_iff rest_ok_def)

section \<open>Escaping\<close>

lemma byte_range: "0 \<le> byte c" "byte c < 256"
  by (simp_all add: byte_def of_char_def) 

lemma to_char_byte [simp]: "to_char (byte c) = c"
  using byte_range [of c] by (simp add: to_char_def byte_def)

lemma nibble_hex_all: "list_all (\<lambda>i. hex_digit (hexchars ! i) = int i) [0..<16]"
  by code_simp

lemma nibble_hex: "0 \<le> i \<Longrightarrow> i < 16 \<Longrightarrow> hex_digit (hexchars ! nat i) = i"
  using nibble_hex_all by (auto simp: list_all_iff dest: bspec [of _ _ "nat i"])

lemma low_nibble: "x AND 0x0F = x mod 16" for x :: int
  using take_bit_eq_mask [of 4 x] by (simp add: take_bit_eq_mod mask_eq_exp_minus_1)

lemma nibbles: "0 \<le> drop_bit 4 (byte c) AND 0x0F" "drop_bit 4 (byte c) AND 0x0F < 16"
  "0 \<le> byte c AND 0x0F" "byte c AND 0x0F < 16"
  "(drop_bit 4 (byte c) AND 0x0F) * 16 + (byte c AND 0x0F) = byte c"
  using byte_range [of c] by (auto simp: low_nibble drop_bit_eq_div)

lemma safe_plain:
  "safechars ! code c \<Longrightarrow> c \<notin> {CHR ''%'', CHR ''#'', CHR ''+'', CHR ''&'', CHR ''='', NUL}"
  by (auto simp: safechars_def nth_append NUL_def)

lemma hexchars_plain:
  assumes "i < 16"
  shows "hexchars ! i \<notin> {CHR ''%'', CHR ''#'', CHR ''+'', CHR ''&'', CHR ''='', NUL}"
proof -
  have "hexchars ! i \<in> set hexchars" using assms by (intro nth_mem) (simp add: hexchars_def)
  then show ?thesis by (auto simp: hexchars_def NUL_def)
qed

lemma escape_byte_cases:
  obtains (safe) "escape_byte c = [c]" "c \<notin> {CHR ''%'', CHR ''#'', CHR ''+'', CHR ''&'', CHR ''='', NUL}"
  | (code) a b where "escape_byte c = [CHR ''%'', a, b]" "hex_digit a \<ge> 0" "hex_digit b \<ge> 0"
      "hex_digit a * 16 + hex_digit b = byte c" "{a, b} \<inter> {CHR ''%'', CHR ''#'', CHR ''+'', CHR ''&'', CHR ''='', NUL} = {}"
proof (cases "safechars ! code c")
  case True
  then show ?thesis using safe_plain by (intro safe) (simp add: escape_byte_def)
next
  case False
  let ?a = "drop_bit 4 (byte c) AND 0x0F" and ?b = "byte c AND 0x0F"
  have "nat ?a < 16" "nat ?b < 16" using nibbles [of c] by linarith+
  then show ?thesis
    using False nibbles [of c] nibble_hex [of ?a] nibble_hex [of ?b] hexchars_plain [of "nat ?a"] hexchars_plain [of "nat ?b"]
    by (intro code [of "hexchars ! nat ?a" "hexchars ! nat ?b"]) (auto simp: escape_byte_def)
qed

lemma url_escape_plain: "set (util_url_escape s) \<inter> {CHR ''#'', CHR ''+'', CHR ''&'', CHR ''='', NUL} = {}"
proof (induction s)
  case (Cons c s)
  then show ?case by (cases c rule: escape_byte_cases) (auto simp: util_url_escape_def NUL_def)
qed (simp add: util_url_escape_def)

lemma url_unescape_escape: "url_unescape_loop (util_url_escape s) = Some s"
proof (induction s)
  case (Cons c s)
  then show ?case
    by (cases c rule: escape_byte_cases) (auto simp: util_url_escape_def)
qed (simp add: util_url_escape_def)

lemma util_url_roundtrip: "is_cstr s \<Longrightarrow> util_url_unescape (util_url_escape s) = Some s"
  by (simp add: util_url_unescape_def url_unescape_escape is_cstr_read)

lemma url_escape_length: "length (util_url_escape s) \<le> 3 * length s"
  by (induction s) (auto simp: util_url_escape_def escape_byte_def)

lemma url_unescape_length: "url_unescape_loop s = Some d \<Longrightarrow> length d \<le> length s"
  by (induction s arbitrary: d rule: url_unescape_loop.induct) (fastforce split: if_splits list.splits)+

section \<open>Normalised URIs\<close>

lemma util_normalise_uri_Some:
  "util_normalise_uri u = Some p \<longleftrightarrow>
     u \<noteq> [] \<and> hd u = CHR ''/'' \<and> util_url_unescape u = Some p \<and> (\<forall>w\<in>set (butlast (tl (components p))). proper_component w)"
  by (auto simp: util_normalise_uri_def verify_path_iff split: option.splits)

lemma unescape_slash: "hd u = CHR ''/'' \<Longrightarrow> u \<noteq> [] \<Longrightarrow> util_url_unescape u = Some p \<Longrightarrow> p \<noteq> [] \<and> hd p = CHR ''/''"
  by (cases u) (auto simp: util_url_unescape_def c_str_def NUL_def)

section \<open>Base64\<close>

lemma unb64_b64_all: "list_all (\<lambda>i. unb64 (base64table ! i) = int i) [0..<64]"
  by (simp add: upt_rec unb64_def base64table_def base64decode_def nth_append)

lemma unb64_b64: "0 \<le> i \<Longrightarrow> i < 64 \<Longrightarrow> unb64 (b64 i) = i"
  using unb64_b64_all by (auto simp: list_all_iff b64_def dest: bspec [of _ _ "nat i"])

lemma unb64_pad: "unb64 (CHR ''='') = -1"
  by (simp add: unb64_def base64decode_def nth_append)

lemma or_high_low:
  fixes a b :: int
  assumes "0 \<le> b" "b < 2 ^ n"
  shows "push_bit n a OR b = a * 2 ^ n + b"
proof -
  have "b = take_bit n b" using assms by (simp add: take_bit_int_eq_self)
  then have "push_bit n a AND b = 0"
    by (metis (no_types) bit_eqI bit_and_iff bit_push_bit_iff bit_take_bit_iff bit_0_eq bot_apply bot_bool_def linorder_not_less)
  then have "push_bit n a + b = push_bit n a OR b" by (rule disjunctive_add_eq_or)
  then show ?thesis by (simp add: push_bit_eq_mult)
qed

lemma mask_low: "x AND 0x03 = x mod 4" "x AND 0x3F = x mod 64" for x :: int
  using take_bit_eq_mask [of 2 x] take_bit_eq_mask [of 6 x] by (simp_all add: take_bit_eq_mod mask_eq_exp_minus_1)

lemma mask_high:
  fixes x :: int
  assumes "0 \<le> x" "x < 256"
  shows "drop_bit 2 (x AND 0xFC) = x div 4" "drop_bit 4 (x AND 0xF0) = x div 16" "drop_bit 6 (x AND 0xC0) = x div 64"
  using assms by (simp_all, simp_all add: mask_low low_nibble drop_bit_eq_div)

text \<open>The four indices of a group, and the bytes read back from them, as arithmetic.\<close>

lemma base64_indices:
  fixes x y z :: int
  assumes "0 \<le> x" "x < 256" "0 \<le> y" "y < 256" "0 \<le> z" "z < 256"
  shows "push_bit 4 (x AND 0x03) OR drop_bit 4 (y AND 0xF0) = x mod 4 * 16 + y div 16"
    and "push_bit 2 (y AND 0x0F) OR drop_bit 6 (z AND 0xC0) = y mod 16 * 4 + z div 64"
  unfolding mask_high [OF assms(3,4)] mask_high [OF assms(5,6)] mask_low low_nibble
  using assms by (subst or_high_low; simp)+

lemma base64_bytes:
  fixes x y z :: int
  assumes "0 \<le> x" "x < 256" "0 \<le> y" "y < 256" "0 \<le> z" "z < 256"
  shows "push_bit 2 (x div 4) OR drop_bit 4 (x mod 4 * 16 + y div 16) = x"
    and "push_bit 4 ((x mod 4 * 16 + y div 16) AND 0x0F) OR drop_bit 2 (y mod 16 * 4 + z div 64) = y"
    and "push_bit 6 ((y mod 16 * 4 + z div 64) AND 0x03) OR z mod 64 = z"
proof -
  have q: "0 \<le> y div 16" "y div 16 < 16" "0 \<le> z div 64" "z div 64 < 4" using assms by auto
  have gen: "(a * n + b) div n = a" "(a * n + b) mod n = b" if "0 \<le> b" "b < n" for a b n :: int
    using that by simp_all
  have d: "(x mod 4 * 16 + y div 16) div 16 = x mod 4" "(y mod 16 * 4 + z div 64) div 4 = y mod 16"
    "(x mod 4 * 16 + y div 16) mod 16 = y div 16" "(y mod 16 * 4 + z div 64) mod 4 = z div 64"
    by (rule gen [OF q(1,2)] gen [OF q(3,4)])+
  show "push_bit 2 (x div 4) OR drop_bit 4 (x mod 4 * 16 + y div 16) = x"
    using or_high_low [of "x mod 4" 2 "x div 4"] by (simp add: drop_bit_eq_div d)
  show "push_bit 4 ((x mod 4 * 16 + y div 16) AND 0x0F) OR drop_bit 2 (y mod 16 * 4 + z div 64) = y"
    unfolding low_nibble d(3) drop_bit_eq_div using or_high_low [of "y mod 16" 4 "y div 16"] by (simp add: d(2))
  show "push_bit 6 ((y mod 16 * 4 + z div 64) AND 0x03) OR z mod 64 = z"
    using or_high_low [of "z mod 64" 6 "z div 64"] by (simp only: mask_low d) simp
qed

lemma base64_index_range:
  fixes x y :: int
  assumes "0 \<le> x" "x < 256" "0 \<le> y" "y < 256"
  shows "0 \<le> x div 4" "x div 4 < 64" "0 \<le> x mod 4 * 16 + y div 16" "x mod 4 * 16 + y div 16 < 64"
    "0 \<le> x mod 16 * 4 + y div 64" "x mod 16 * 4 + y div 64 < 64"
  using assms by auto

text \<open>Decoding one group of four characters.\<close>

lemma decode_group1:
  "0 \<le> p \<Longrightarrow> p < 64 \<Longrightarrow> 0 \<le> q \<Longrightarrow> q < 64 \<Longrightarrow>
   base64_decode_loop [b64 p, b64 q, CHR ''='', CHR ''=''] = Some [to_char (push_bit 2 p OR drop_bit 4 q), NUL, NUL]"
  by (simp add: unb64_b64 unb64_pad)

lemma decode_group2:
  "0 \<le> p \<Longrightarrow> p < 64 \<Longrightarrow> 0 \<le> q \<Longrightarrow> q < 64 \<Longrightarrow> 0 \<le> r \<Longrightarrow> r < 64 \<Longrightarrow>
   base64_decode_loop [b64 p, b64 q, b64 r, CHR ''=''] =
     Some [to_char (push_bit 2 p OR drop_bit 4 q), to_char (push_bit 4 (q AND 0x0F) OR drop_bit 2 r), NUL]"
  by (simp add: unb64_b64 unb64_pad)

lemma decode_group3:
  "0 \<le> p \<Longrightarrow> p < 64 \<Longrightarrow> 0 \<le> q \<Longrightarrow> q < 64 \<Longrightarrow> 0 \<le> r \<Longrightarrow> r < 64 \<Longrightarrow> 0 \<le> t \<Longrightarrow> t < 64 \<Longrightarrow>
   base64_decode_loop (b64 p # b64 q # b64 r # b64 t # input) = map_option (\<lambda>out.
     to_char (push_bit 2 p OR drop_bit 4 q) # to_char (push_bit 4 (q AND 0x0F) OR drop_bit 2 r) #
     to_char (push_bit 6 (r AND 0x03) OR t) # out) (base64_decode_loop input)"
  by (simp add: unb64_b64 unb64_pad)

lemma base64_decode_encode:
  "\<exists>pad. base64_decode_loop (base64_encode_loop s) = Some (s @ pad) \<and> set pad \<subseteq> {NUL}"
proof (induction s rule: base64_encode_loop.induct)
  case 1
  show ?case by simp
next
  case (2 a)
  have r: "0 \<le> byte a" "byte a < 256" "0 \<le> byte NUL" "byte NUL < 256" by (simp_all add: byte_range)
  have "base64_decode_loop (base64_encode_loop [a]) = Some ([a] @ [NUL, NUL])"
    unfolding base64_encode_loop.simps mask_high [OF r(1,2)] base64_indices(1) [OF r r(3,4)]
    by (subst decode_group1, (rule base64_index_range [OF r])+) (simp only: base64_bytes(1) [OF r r(3,4)] to_char_byte append.simps)
  then show ?case by (intro exI conjI) (assumption, simp)
next
  case (3 a b)
  define z where "z = (0::int)"
  have r: "0 \<le> byte a" "byte a < 256" "0 \<le> byte b" "byte b < 256" "0 \<le> z" "z < 256" by (simp_all add: byte_range z_def)
  have last: "push_bit 2 (byte b AND 0x0F) = byte b mod 16 * 4 + z div 64" by (simp add: low_nibble push_bit_eq_mult z_def)
  have "base64_decode_loop (base64_encode_loop [a, b]) = Some ([a, b] @ [NUL])"
    unfolding base64_encode_loop.simps mask_high [OF r(1,2)] base64_indices(1) [OF r] last
    by (subst decode_group2, (rule base64_index_range [OF r(1-4)] base64_index_range [OF r(3-6)])+)
      (simp only: base64_bytes(1,2) [OF r] to_char_byte append.simps)
  then show ?case by (intro exI conjI) (assumption, simp)
next
  case (4 a b c data)
  then obtain pad where IH: "base64_decode_loop (base64_encode_loop data) = Some (data @ pad)" "set pad \<subseteq> {NUL}" by blast
  have r: "0 \<le> byte a" "byte a < 256" "0 \<le> byte b" "byte b < 256" "0 \<le> byte c" "byte c < 256" by (simp_all add: byte_range)
  have low: "0 \<le> byte c mod 64" "byte c mod 64 < 64" by auto
  have "base64_decode_loop (base64_encode_loop (a # b # c # data)) = Some ((a # b # c # data) @ pad)"
    unfolding base64_encode_loop.simps mask_high [OF r(1,2)] base64_indices [OF r] mask_low(2)
    by (subst decode_group3, (rule low base64_index_range [OF r(1-4)] base64_index_range [OF r(3-6)])+)
      (simp only: base64_bytes [OF r] IH to_char_byte append.simps option.map)
  then show ?case using IH(2) by (intro exI conjI)
qed


lemma util_base64_roundtrip: "is_cstr s \<Longrightarrow> util_base64_decode (util_base64_encode s) = Some s"
proof -
  assume s: "is_cstr s"
  obtain pad where dec: "base64_decode_loop (base64_encode_loop s) = Some (s @ pad)" "set pad \<subseteq> {NUL}"
    using base64_decode_encode by blast
  obtain m where "pad @ [NUL] = NUL # m" using dec(2) by (cases pad) auto
  then show ?thesis
    using dec(1) c_str_append [of "[]" 0 s m] s by (simp add: util_base64_decode_def util_base64_encode_def)
qed

text \<open>The encoding with its NUL fits the \<open>len * 4 / 3 + 4\<close> bytes the code allocates.\<close>

lemma base64_encode_length: "length (base64_encode_loop s) + 1 \<le> length s * 4 div 3 + 4"
  by (induction s rule: base64_encode_loop.induct) auto

lemma base64_decode_length: "base64_decode_loop s = Some d \<Longrightarrow> length d \<le> length s * 3 div 4"
  by (induction s arbitrary: d rule: base64_decode_loop.induct) (fastforce simp: Let_def split: if_splits)+

section \<open>Dictionaries\<close>

text \<open>
  The abstract dictionary: the pairs of the nodes with a key, in order. A dictionary from
  \<open>util_dict_new\<close> has at most its first node without a key, and then no other node.
\<close>

definition dict_ok :: "util_dict \<Rightarrow> bool" where
  "dict_ok d \<longleftrightarrow> d = util_dict_new \<or>
     d \<noteq> [] \<and> (\<forall>n\<in>set d. dkey n \<noteq> None \<and> dval n \<noteq> None) \<and> distinct (map dkey d)"

definition dict_pairs :: "util_dict \<Rightarrow> (string \<times> string) list" where
  "dict_pairs d = map (\<lambda>n. (the (dkey n), the (dval n))) (filter (\<lambda>n. dkey n \<noteq> None) d)"

lemma dict_set_loop_keys:
  "\<forall>n\<in>set d. dkey n \<noteq> None \<Longrightarrow>
   set (map dkey (dict_set_loop d k v)) = insert (Some k) (set (map dkey d)) \<and>
   (distinct (map dkey d) \<longrightarrow> distinct (map dkey (dict_set_loop d k v))) \<and>
   ((\<forall>n\<in>set d. dval n \<noteq> None) \<longrightarrow> (\<forall>n\<in>set (dict_set_loop d k v). dkey n \<noteq> None \<and> dval n \<noteq> None))"
  by (induction d) (auto split: option.splits)

lemma dict_set_loop_pairs:
  "\<forall>n\<in>set d. dkey n \<noteq> None \<Longrightarrow> map_of (dict_pairs (dict_set_loop d k v)) = (map_of (dict_pairs d))(k \<mapsto> v)"
  by (induction d) (auto simp: dict_pairs_def split: option.splits)

lemma util_dict_set_ok:
  assumes "dict_ok d" and "util_dict_set d (Some k) v = (ok, d')"
  shows "ok" and "dict_ok d'" and "map_of (dict_pairs d') = (map_of (dict_pairs d))(k \<mapsto> v)"
proof -
  consider (new) "d = [\<lparr>dkey = None, dval = None\<rparr>]"
    | (used) "d \<noteq> []" "\<forall>n\<in>set d. dkey n \<noteq> None \<and> dval n \<noteq> None" "distinct (map dkey d)"
    using assms(1) by (auto simp: dict_ok_def util_dict_new_def)
  then have "ok \<and> dict_ok d' \<and> map_of (dict_pairs d') = (map_of (dict_pairs d))(k \<mapsto> v)"
  proof cases
    case new
    with assms(2) show ?thesis by (auto simp: util_dict_set_def dict_ok_def dict_pairs_def)
  next
    case used
    then have "dict_set_loop d k v \<noteq> []" by (cases d) (auto split: option.splits)
    with used assms(2) dict_set_loop_keys [of d k v] dict_set_loop_pairs [of d k v] show ?thesis
      by (auto simp: util_dict_set_def dict_ok_def)
  qed
  then show "ok" and "dict_ok d'" and "map_of (dict_pairs d') = (map_of (dict_pairs d))(k \<mapsto> v)" by auto
qed

lemma util_dict_get_pairs:
  "\<forall>n\<in>set d. dkey n \<noteq> None \<and> dval n \<noteq> None \<Longrightarrow> util_dict_get d k = Inr (map_of (dict_pairs d) k)"
  by (induction d) (auto simp: dict_pairs_def split: option.splits)

text \<open>The printed dictionary: \<open>key=value\<close> items separated by the delimiter.\<close>

fun join_items :: "char \<Rightarrow> string list \<Rightarrow> string" where
  "join_items delim [] = []"
| "join_items delim [w] = w"
| "join_items delim (w # ws) = w @ [delim] @ join_items delim ws"

definition dict_item :: "string \<times> string \<Rightarrow> string" where
  "dict_item kv = fst kv @ ''='' @ util_url_escape (snd kv)"

lemma dict_urlencode_loop_items:
  "\<forall>n\<in>set d. dkey n \<noteq> None \<and> dval n \<noteq> None \<Longrightarrow>
   dict_urlencode_loop (Some r) d delim = Some (r @ concat (map (\<lambda>kv. delim # dict_item kv) (dict_pairs d)))"
  by (induction d arbitrary: r) (auto simp: dict_pairs_def dict_item_def split: option.splits)

lemma join_items_Cons: "join_items delim (w # ws) = w @ concat (map (\<lambda>x. delim # x) ws)"
  by (induction ws arbitrary: w) auto

lemma util_dict_urlencode_items:
  assumes "d \<noteq> []" and "\<forall>n\<in>set d. dkey n \<noteq> None \<and> dval n \<noteq> None"
  shows "util_dict_urlencode d delim = Some (join_items delim (map dict_item (dict_pairs d)))"
proof -
  obtain n ds k v where d: "d = n # ds" "dkey n = Some k" "dval n = Some v"
    using assms by (cases d) auto
  with assms(2) dict_urlencode_loop_items [of ds "dict_item (k, v)" delim] show ?thesis
    by (simp add: util_dict_urlencode_def dict_pairs_def dict_item_def join_items_Cons comp_def)
qed

section \<open>Lines\<close>

lemma chomp_length: "length (chomp s) \<le> length s"
  by (auto simp: chomp_def Let_def)

lemma c_str_length: "length (c_str (s @ [NUL]) 0) \<le> length s"
  using length_takeWhile_le [of "\<lambda>c. c \<noteq> NUL" s] by (auto simp: c_str_def takeWhile_append split: if_splits)

lemma get_line_length:
  assumes "get_line file siz = Some (l, rest)" and "0 < siz"
  shows "length l < siz"
proof -
  obtain bytes where l: "l = chomp (c_str (bytes @ [NUL]) 0)" and "length bytes \<le> siz - 1"
    using assms(1) by (auto simp: get_line_def fgets_def Let_def split: option.splits if_splits)
  with chomp_length [of "c_str (bytes @ [NUL]) 0"] c_str_length [of bytes] assms(2) show ?thesis by simp
qed

text \<open>A line shorter than the buffer is read whole, without its line end.\<close>

lemma fgets_line:
  assumes "LF \<notin> set l" and "length l + 1 < siz"
  shows "fgets siz (l @ LF # rest) = Some (l @ [LF], rest)"
proof -
  have "min (siz - 1) (length l + 1) = length l + 1" using assms(2) by simp
  then show ?thesis unfolding fgets_def strchr_at [OF assms(1)] by simp
qed

lemma chomp_line: "CR \<notin> set l \<Longrightarrow> chomp (l @ [LF]) = l" "CR \<notin> set l \<Longrightarrow> chomp (l @ [CR, LF]) = l"
  by (auto simp: chomp_def butlast_append) (metis last_in_set)

lemma get_line_line:
  assumes "is_cstr l" "LF \<notin> set l" "CR \<notin> set l" and "length l + 2 < siz"
  shows "get_line (l @ [LF] @ rest) siz = Some (l, rest)" and "get_line (l @ [CR, LF] @ rest) siz = Some (l, rest)"
proof -
  have nul: "is_cstr (l @ [LF])" "is_cstr (l @ [CR, LF])" using assms(1) by (auto simp: is_cstr_def NUL_def LF_def CR_def)
  show "get_line (l @ [LF] @ rest) siz = Some (l, rest)"
    using fgets_line [OF assms(2), of siz rest] assms(3,4) is_cstr_read [OF nul(1)] by (simp add: get_line_def chomp_line)
  have "LF \<notin> set (l @ [CR])" using assms(2) by (auto simp: LF_def CR_def)
  then have "fgets siz (l @ [CR, LF] @ rest) = Some (l @ [CR, LF], rest)"
    using fgets_line [of "l @ [CR]" siz rest] assms(4) by simp
  then show "get_line (l @ [CR, LF] @ rest) siz = Some (l, rest)"
    using assms(3) is_cstr_read [OF nul(2)] by (simp add: get_line_def chomp_line)
qed

lemma file_lines_Nil [simp]: "file_lines [] = []"
  by (simp add: file_lines.simps get_line_def fgets_def)

text \<open>A file printed line by line reads back, and more lines can follow.\<close>

definition plain_line :: "string \<Rightarrow> bool" where
  "plain_line l \<longleftrightarrow> is_cstr l \<and> LF \<notin> set l \<and> CR \<notin> set l \<and> length l + 2 < MAX_LINE_LEN"

definition print_lines :: "string list \<Rightarrow> string" where
  "print_lines ls = concat (map (\<lambda>l. l @ [LF]) ls)"

lemma file_lines_append:
  "\<forall>l\<in>set ls. plain_line l \<Longrightarrow> file_lines (print_lines ls @ rest) = ls @ file_lines rest"
proof (induction ls)
  case (Cons l ls)
  then have "get_line (l @ [LF] @ print_lines ls @ rest) MAX_LINE_LEN = Some (l, print_lines ls @ rest)"
    by (intro get_line_line(1)) (auto simp: plain_line_def)
  moreover have "print_lines (l # ls) @ rest = l @ [LF] @ print_lines ls @ rest" by (simp add: print_lines_def)
  ultimately show ?case using Cons by (simp add: file_lines.simps [of "l @ LF # print_lines ls @ rest"])
qed (simp add: print_lines_def)

lemma file_lines_print: "\<forall>l\<in>set ls. plain_line l \<Longrightarrow> file_lines (print_lines ls) = ls"
  using file_lines_append [of ls "[]"] by simp

lemma file_lines_last:
  assumes "plain_line t" and "t \<noteq> []"
  shows "file_lines t = [t]"
proof -
  have t: "is_cstr t" "LF \<notin> set t" "length t < MAX_LINE_LEN - 1" using assms(1) by (auto simp: plain_line_def)
  have "fgets MAX_LINE_LEN t = Some (t, [])"
    using t assms(2) strchr_None [of t LF] by (simp add: fgets_def)
  moreover have "chomp t = t" using t(2) assms(2) last_in_set by (fastforce simp: chomp_def)
  ultimately have "get_line t MAX_LINE_LEN = Some (t, [])" using is_cstr_read [OF t(1)] by (simp add: get_line_def)
  then show ?thesis by (simp add: file_lines.simps [of t])
qed

section \<open>Properties\<close>

text \<open>C36: A URI is turned into a path only if it starts with a slash and decodes, and the decoded
  path starts with a slash and has no empty and no all-dots component before a separator, so no
  \<open>/../\<close> is left in it; conversely every such URI is accepted.\<close>

theorem util_normalise_uri_spec:
  "util_normalise_uri u = Some p \<longleftrightarrow>
     u \<noteq> [] \<and> hd u = CHR ''/'' \<and> util_url_unescape u = Some p \<and> p \<noteq> [] \<and> hd p = CHR ''/'' \<and>
     (\<forall>i. i < length (components p) - 1 \<and> 0 < i \<longrightarrow> proper_component (components p ! i))"
proof -
  have "(\<forall>w\<in>set (butlast (tl (components p))). proper_component w) \<longleftrightarrow>
      (\<forall>i. i < length (components p) - 1 \<and> 0 < i \<longrightarrow> proper_component (components p ! i))" (is "?L = ?R")
  proof
    assume L: ?L
    show ?R
    proof (intro allI impI)
      fix i assume i: "i < length (components p) - 1 \<and> 0 < i"
      then have "butlast (tl (components p)) ! (i - 1) = components p ! i" by (cases i) (auto simp: nth_butlast nth_tl)
      moreover have "butlast (tl (components p)) ! (i - 1) \<in> set (butlast (tl (components p)))"
        using i by (intro nth_mem) auto
      ultimately show "proper_component (components p ! i)" using L by metis
    qed
  next
    assume R: ?R
    show ?L
    proof
      fix w assume "w \<in> set (butlast (tl (components p)))"
      then obtain i where "i < length (components p) - 2" "w = components p ! Suc i"
        by (auto simp: in_set_conv_nth nth_butlast nth_tl numeral_2_eq_2)
      with R show "proper_component w" by auto
    qed
  qed
  then show ?thesis using unescape_slash [of u p] by (auto simp: util_normalise_uri_Some)
qed

theorem util_normalise_uri_spec_witness:
  "util_normalise_uri ''/a/b'' = Some ''/a/b'' \<and> util_normalise_uri ''/a/../b'' \<noteq> Some ''/a/../b''"
proof
  have "proper_component ''a''" by (simp add: proper_component_def)
  then show "util_normalise_uri ''/a/b'' = Some ''/a/b''"
    unfolding util_normalise_uri_spec by (auto simp: util_url_unescape_def c_str_def NUL_def path_sep_def)
  have "\<not> proper_component (components ''/a/../b'' ! 2)" by (simp add: path_sep_def proper_component_def)
  then show "util_normalise_uri ''/a/../b'' \<noteq> Some ''/a/../b''"
    unfolding util_normalise_uri_spec by (auto simp: path_sep_def intro!: exI [of _ 2])
qed

text \<open>Escaping and unescaping a URL is the identity on C strings, the escaped text fits the three
  bytes per byte the code allocates, and it is free of the characters that separate query
  parameters.\<close>

lemma util_url_escape_roundtrip:
  assumes "is_cstr s"
  shows "util_url_unescape (util_url_escape s) = Some s \<and> length (util_url_escape s) \<le> 3 * length s \<and>
    set (util_url_escape s) \<inter> {CHR ''#'', CHR ''+'', CHR ''&'', CHR ''='', NUL} = {}"
  using util_url_roundtrip [OF assms] url_escape_length [of s] url_escape_plain [of s] by blast

text \<open>Base64 decoding undoes encoding on C strings of any length, the encoder's output with its
  terminator fits the buffer it allocates, and so does the decoder's.\<close>

lemma util_base64_spec:
  assumes "is_cstr s"
  shows "util_base64_decode (util_base64_encode s) = Some s \<and>
    length (util_base64_encode s) + 1 \<le> length s * 4 div 3 + 4 \<and>
    (\<forall>d. base64_decode_loop s = Some d \<longrightarrow> length d + 1 \<le> length s * 3 div 4 + 5)"
  using util_base64_roundtrip [OF assms] base64_encode_length [of s] base64_decode_length [of s]
  by (fastforce simp: util_base64_encode_def)

text \<open>A header is complete at its first blank line: when the bytes up to it, without carriage
  returns, fit the buffer, \<open>util_read_header\<close> returns them; whatever arrives, what it stores
  leaves room for the terminator.\<close>

lemma util_read_header_spec:
  assumes "len \<noteq> 0"
  shows "(xs \<noteq> [] \<and> last xs \<noteq> CR \<and> header_done True (strip_cr xs) \<and> length (strip_cr xs) < unat len \<and>
       (\<forall>n. 0 < n \<and> n < length xs \<longrightarrow> \<not> header_done True (strip_cr (take n xs))) \<longrightarrow>
       util_read_header c0 (map Received xs @ rest) len True = (True, strip_cr xs))
    \<and> length (snd (util_read_header c0 sock len entire)) < unat len"
proof -
  have lim: "unat (len - 1) = unat len - 1" "0 < unat len"
    using assms by (simp_all add: unat_minus_one unat_gt_0)
  have "length (snd (util_read_header c0 sock len entire)) \<le> unat (len - 1)"
    using read_header_bounds [of entire "unat (len - 1)" "[]" c0 sock] by (simp add: util_read_header_def) (metis prod.collapse)
  moreover have "util_read_header c0 (map Received xs @ rest) len True = (True, strip_cr xs)"
    if "xs \<noteq> []" "last xs \<noteq> CR" "header_done True (strip_cr xs)" "length (strip_cr xs) < unat len"
      "\<forall>n. 0 < n \<and> n < length xs \<longrightarrow> \<not> header_done True (strip_cr (take n xs))"
    unfolding util_read_header_def using that lim read_header_prefix [of xs True "[]" "unat (len - 1)" c0 rest] by auto
  ultimately show ?thesis using lim by auto
qed

text \<open>A receive error after the end of a header line is taken for a blank line: the byte received
  last is stored once more and the incomplete header is reported complete.\<close>

lemma util_read_header_error_completes:
  assumes "length line + 2 < unat len" and "CR \<notin> set line" and "LF \<notin> set line"
  shows "util_read_header c0 (map Received (line @ [LF]) @ [Failed]) len True = (True, line @ [LF, LF])"
proof -
  have "len \<noteq> 0" using assms(1) by auto
  then have lim: "length line + 2 \<le> unat (len - 1)" using assms(1) by (simp add: unat_minus_one)
  have "line \<noteq> [] \<Longrightarrow> last line \<noteq> LF" using assms(3) last_in_set by metis
  then show ?thesis
    using lim read_header_plain [OF assms(2,3), of "[]" "unat (len - 1)" c0 "[Received LF, Failed]"] header_done_snoc [of "line @ [LF]" LF]
    by (auto simp: util_read_header_def header_done_snoc Let_def)
qed

end
