(* ===== verification/Conn_Access.thy ===== *)
theory Conn_Access
  imports Config Httpp_Request Util
begin

unbundle bit_operations_syntax

text \<open>
  Who may connect, from \<open>connection.c\<close>: the listening sockets and the wait for a client, the
  address filters read from the ban and allow files, and the password checks. The operating
  system's answers (\<open>poll\<close>, \<open>accept\<close>, files, the clock) are arguments. A C function that would
  dereference a null pointer has the value \<open>None\<close>.
\<close>

section \<open>Connections\<close>

definition SOCK_ERROR :: int where "SOCK_ERROR = -1"

record connection =
  con_id :: u64
  con_time :: int
  discon_time :: int
  sent_bytes :: u64
  sock :: int
  con_serversock :: int
  con_error :: bool
  ip :: string

text \<open>The fields of \<open>global\<close> the connection code uses.\<close>

record ice_global =
  serversock :: "int list"
  sources :: int
  clients :: int
  current_id :: u64

definition global_initialize :: ice_global where
  "global_initialize = \<lparr>serversock = [], sources = 0, clients = 0, current_id = 0\<rparr>"

definition next_connection_id :: "ice_global \<Rightarrow> u64 \<times> ice_global" where
  "next_connection_id g = (current_id g, g\<lparr>current_id := current_id g + 1\<rparr>)"

definition connection_create :: "ice_global \<Rightarrow> int \<Rightarrow> int \<Rightarrow> int \<Rightarrow> string \<Rightarrow> connection \<times> ice_global" where
  "connection_create g now s srv addr =
     (let (i, g) = next_connection_id g
      in (\<lparr>con_id = i, con_time = now, discon_time = 0, sent_bytes = 0, sock = s, con_serversock = srv, con_error = False, ip = addr\<rparr>, g))"

text \<open>\<open>bytes\<close> and \<open>recoverable\<close> are what the socket call returns and how it failed.\<close>

definition connection_read :: "connection \<Rightarrow> int \<Rightarrow> bool \<Rightarrow> int \<times> connection" where
  "connection_read con bytes recoverable =
     (let con = (if bytes = 0 then con\<lparr>con_error := True\<rparr> else con);
          con = (if bytes = -1 \<and> \<not> recoverable then con\<lparr>con_error := True\<rparr> else con)
      in (bytes, con))"

definition connection_send :: "connection \<Rightarrow> int \<Rightarrow> bool \<Rightarrow> int \<times> connection" where
  "connection_send con bytes recoverable =
     (if bytes < 0 then (bytes, if \<not> recoverable then con\<lparr>con_error := True\<rparr> else con)
      else (bytes, con\<lparr>sent_bytes := sent_bytes con + word_of_int bytes\<rparr>))"

section \<open>Listening sockets\<close>

definition POLLIN :: int where "POLLIN = 1"
definition POLLERR :: int where "POLLERR = 8"
definition POLLHUP :: int where "POLLHUP = 16"
definition POLLNVAL :: int where "POLLNVAL = 32"

text \<open>
  The scan of the poll results: the socket that has a client, the sockets with the broken ones
  overwritten, and those that were closed. It stops at the first socket that is ready.
\<close>

fun poll_scan :: "int list \<Rightarrow> int list \<Rightarrow> int option \<times> int list \<times> int list" where
  "poll_scan [] revents = (None, [], [])"
| "poll_scan (s # ss) [] = (None, s # ss, [])"
| "poll_scan (s # ss) (r # rs) =
     (if r AND POLLIN \<noteq> 0 then (Some s, s # ss, [])
      else
        let (res, ss', closed) = poll_scan ss rs
        in if r AND (POLLHUP OR POLLERR OR POLLNVAL) \<noteq> 0 then
             (res, SOCK_ERROR # ss', if r AND (POLLHUP OR POLLERR) \<noteq> 0 then s # closed else closed)
           else (res, s # ss', closed))"

text \<open>The loop that moves the remaining sockets to the front of the array, from position \<open>i\<close> on.\<close>

function compact :: "nat \<Rightarrow> nat \<Rightarrow> int list \<Rightarrow> nat \<times> int list" where
  "compact i dst a =
     (if i \<ge> length a then (dst, a)
      else if a ! i = SOCK_ERROR then compact (Suc i) dst a
      else compact (Suc i) (Suc dst) (if i \<noteq> dst then a[dst := a ! i] else a))"
  by auto

termination
  by (relation "measure (\<lambda>(i, dst, a). length a - i)") auto

declare compact.simps [simp del]

definition wait_for_serversock :: "ice_global \<Rightarrow> int \<Rightarrow> int list \<Rightarrow> int \<times> int list \<times> ice_global" where
  "wait_for_serversock g ret revents =
     (if ret \<le> 0 then (SOCK_ERROR, [], g)
      else
        let (res, ss, closed) = poll_scan (serversock g) revents
        in case res of
             Some fd \<Rightarrow> (fd, closed, g\<lparr>serversock := ss\<rparr>)
           | None \<Rightarrow>
               let (dst, ss) = compact 0 0 ss
               in (SOCK_ERROR, closed, g\<lparr>serversock := take dst ss\<rparr>))"

text \<open>
  Opening a socket per listener: those that can be opened and listened on are kept with their
  listener, the others are dropped from the configuration; \<open>k\<close> counts the calls to the system.
\<close>

fun open_listeners ::
  "(nat \<Rightarrow> int \<Rightarrow> string option \<Rightarrow> int) \<Rightarrow> (int \<Rightarrow> bool) \<Rightarrow> nat \<Rightarrow> listener list \<Rightarrow> listener list \<times> int list \<times> int list" where
  "open_listeners sock_get_server_socket sock_listen k [] = ([], [], [])"
| "open_listeners sock_get_server_socket sock_listen k (l # ls) =
     (let s = sock_get_server_socket k (lport l) (lbind l);
          (kept, socks, closed) = open_listeners sock_get_server_socket sock_listen (Suc k) ls
      in if s = SOCK_ERROR then (kept, socks, closed)
         else if \<not> sock_listen s then (kept, socks, s # closed)
         else (l # kept, s # socks, closed))"

section \<open>Address filters\<close>

text \<open>A file as \<open>stat\<close> and \<open>fopen\<close> see it.\<close>

record ip_file =
  ip_mtime :: "int option"
  ip_bytes :: "string option"

record cache_file_contents =
  cfilename :: "string option"
  file_recheck :: int
  file_mtime :: int
  ccontents :: "string avl_tree option"

record ip_filters =
  banned_ip :: cache_file_contents
  allowed_ip :: cache_file_contents

definition compare_ip :: "string \<Rightarrow> string \<Rightarrow> int" where
  "compare_ip a pattern = strcmp pattern a"

text \<open>\<open>None\<close> when the key is not found: the result box is null and its field is read.\<close>

definition avl_box_get_by_key :: "string avl_tree \<Rightarrow> string \<Rightarrow> string option" where
  "avl_box_get_by_key t addr =
     (case avl_get_by_key t addr of
        None \<Rightarrow> None
      | Some resultBox \<Rightarrow> Some resultBox)"

definition ip_entries :: "string \<Rightarrow> string list" where
  "ip_entries file = filter (\<lambda>line. line \<noteq> [] \<and> hd line \<noteq> CHR ''#'') (file_lines file)"

definition read_ips :: "string \<Rightarrow> string avl_tree" where
  "read_ips file = fold (\<lambda>str new_ips. tree_insert new_ips str) (ip_entries file) (avl_tree_new compare_ip)"

definition recheck_ip_file :: "(string \<Rightarrow> ip_file) \<Rightarrow> int \<Rightarrow> cache_file_contents \<Rightarrow> cache_file_contents" where
  "recheck_ip_file fs now cache =
     (if now \<ge> file_recheck cache then
        let cache = cache\<lparr>file_recheck := now + 10\<rparr>
        in case cfilename cache of
             None \<Rightarrow> cache\<lparr>ccontents := None\<rparr>
           | Some f \<Rightarrow>
               (case ip_mtime (fs f) of
                  None \<Rightarrow> cache
                | Some st_mtime \<Rightarrow>
                    if st_mtime = file_mtime cache then cache
                    else
                      let cache = cache\<lparr>file_mtime := st_mtime\<rparr>
                      in case ip_bytes (fs f) of
                           None \<Rightarrow> cache
                         | Some bytes \<Rightarrow> cache\<lparr>ccontents := Some (read_ips bytes)\<rparr>)
      else cache)"

text \<open>The two rechecks read the clock one after the other.\<close>

definition rechecked :: "(string \<Rightarrow> ip_file) \<Rightarrow> int \<Rightarrow> int \<Rightarrow> ip_filters \<Rightarrow> ip_filters" where
  "rechecked fs now1 now2 st =
     st\<lparr>banned_ip := recheck_ip_file fs now1 (banned_ip st), allowed_ip := recheck_ip_file fs now2 (allowed_ip st)\<rparr>"

definition accept_ip_address :: "(string \<Rightarrow> ip_file) \<Rightarrow> int \<Rightarrow> int \<Rightarrow> ip_filters \<Rightarrow> string \<Rightarrow> (int \<times> ip_filters) option" where
  "accept_ip_address fs now1 now2 st addr =
     (let st = rechecked fs now1 now2 st;
          allowed = (case ccontents (allowed_ip st) of
             None \<Rightarrow> Some (1, st)
           | Some t \<Rightarrow> map_option (\<lambda>_. (1, st)) (avl_box_get_by_key t addr))
      in case ccontents (banned_ip st) of
           None \<Rightarrow> allowed
         | Some t \<Rightarrow> map_option (\<lambda>_. (0, st)) (avl_box_get_by_key t addr))"

text \<open>IPv4 addresses mapped into IPv6 look like normal ones.\<close>

definition plain_address :: "string \<Rightarrow> string" where
  "plain_address addr = (if strncmp addr ''::ffff:'' 7 = 0 then drop 7 addr else addr)"

text \<open>The system's answers to one round of accepting: what \<open>poll\<close>, \<open>accept\<close> and the clock give.\<close>

record accept_event =
  poll_ret :: int
  poll_revents :: "int list"
  acc_sock :: int
  acc_addr :: string
  time_banned :: int
  time_allowed :: int
  time_created :: int

text \<open>The connection, if any, the sockets closed, and the new state.\<close>

definition accept_connection ::
  "(string \<Rightarrow> ip_file) \<Rightarrow> accept_event \<Rightarrow> ice_global \<Rightarrow> ip_filters \<Rightarrow>
   (connection option \<times> int list \<times> ice_global \<times> ip_filters) option" where
  "accept_connection fs e g st =
     (let (srv, closed, g) = wait_for_serversock g (poll_ret e) (poll_revents e)
      in if srv = SOCK_ERROR then Some (None, closed, g, st)
         else if acc_sock e = SOCK_ERROR then Some (None, closed, g, st)
         else
           let addr = plain_address (acc_addr e)
           in case accept_ip_address fs (time_banned e) (time_allowed e) st addr of
                None \<Rightarrow> None
              | Some (res, st) \<Rightarrow>
                  if res \<noteq> 0 then
                    let (con, g) = connection_create g (time_created e) (acc_sock e) srv addr
                    in Some (Some con, closed, g, st)
                  else Some (None, closed @ [acc_sock e], g, st))"

text \<open>Called with no configuration at shutdown and with the new one after a reload.\<close>

definition connection_setup_sockets ::
  "(nat \<Rightarrow> int \<Rightarrow> string option \<Rightarrow> int) \<Rightarrow> (int \<Rightarrow> bool) \<Rightarrow> ice_config option \<Rightarrow> ice_global \<Rightarrow> ip_filters \<Rightarrow>
   int \<times> ice_config option \<times> int list \<times> ice_global \<times> ip_filters" where
  "connection_setup_sockets sock_get_server_socket sock_listen config g st =
     (let st = st\<lparr>banned_ip := (banned_ip st)\<lparr>cfilename := None\<rparr>, allowed_ip := (allowed_ip st)\<lparr>cfilename := None\<rparr>\<rparr>;
          closed = serversock g
      in case config of
           None \<Rightarrow> (0, None, closed, g\<lparr>serversock := []\<rparr>, st)
         | Some c \<Rightarrow>
             let st = st\<lparr>banned_ip := (banned_ip st)\<lparr>cfilename := banfile c\<rparr>,
                         allowed_ip := (allowed_ip st)\<lparr>cfilename := allowfile c\<rparr>\<rparr>;
                 (ls, ss, failed) = open_listeners sock_get_server_socket sock_listen 0 (listen_sock c)
             in (int (length ss), Some (c\<lparr>listen_sock := ls\<rparr>), closed @ failed, g\<lparr>serversock := ss\<rparr>, st))"

section \<open>Passwords\<close>

definition check_pass_http :: "http_parser \<Rightarrow> string \<Rightarrow> string \<Rightarrow> int" where
  "check_pass_http parser correctuser correctpass =
     (case httpp_getvar parser ''authorization'' of
        None \<Rightarrow> 0
      | Some header \<Rightarrow>
          if strncmp header ''Basic '' 6 \<noteq> 0 then 0
          else
            (case util_base64_decode (drop 6 header) of
               None \<Rightarrow> 0
             | Some userpass \<Rightarrow>
                 (case strchr userpass (CHR '':'') of
                    None \<Rightarrow> 0
                  | Some tmp \<Rightarrow>
                      if strcmp (take tmp userpass) correctuser \<noteq> 0 \<or> strcmp (drop (tmp + 1) userpass) correctpass \<noteq> 0
                      then 0 else 1)))"

definition check_pass_icy :: "http_parser \<Rightarrow> string \<Rightarrow> int" where
  "check_pass_icy parser correctpass =
     (case httpp_getvar parser ''__icy_password'' of
        None \<Rightarrow> 0
      | Some given \<Rightarrow> if strcmp given correctpass \<noteq> 0 then 0 else 1)"

definition check_pass_ice :: "http_parser \<Rightarrow> string \<Rightarrow> int" where
  "check_pass_ice parser correctpass =
     (let given = (case httpp_getvar parser ''ice-password'' of None \<Rightarrow> [] | Some p \<Rightarrow> p)
      in if strcmp given correctpass \<noteq> 0 then 0 else 1)"

definition connection_check_admin_pass :: "ice_config \<Rightarrow> http_parser \<Rightarrow> int" where
  "connection_check_admin_pass config parser =
     (case (admin_password config, admin_username config) of
        (Some pass, Some user) \<Rightarrow>
          if httpp_getvar parser HTTPP_VAR_PROTOCOL = Some ''ICY'' then check_pass_icy parser pass
          else check_pass_http parser user pass
      | _ \<Rightarrow> 0)"

definition connection_check_relay_pass :: "ice_config \<Rightarrow> http_parser \<Rightarrow> int" where
  "connection_check_relay_pass config parser =
     (case (relay_password config, relay_username config) of
        (Some pass, Some user) \<Rightarrow> check_pass_http parser user pass
      | _ \<Rightarrow> 0)"

definition connection_check_pass :: "ice_config \<Rightarrow> http_parser \<Rightarrow> string \<Rightarrow> string option \<Rightarrow> int" where
  "connection_check_pass config parser user pass =
     (case pass of
        None \<Rightarrow> -1
      | Some pass \<Rightarrow>
          if httpp_getvar parser HTTPP_VAR_PROTOCOL = Some ''ICY'' then check_pass_icy parser pass
          else
            let ret = check_pass_http parser user pass
            in if ret = 0 \<and> ice_login config then check_pass_ice parser pass else ret)"

section \<open>Sockets\<close>

definition not_broken :: "int \<Rightarrow> bool" where
  "not_broken s \<longleftrightarrow> s \<noteq> SOCK_ERROR"

lemma compact_filter:
  "dst \<le> i \<Longrightarrow> i \<le> length a \<Longrightarrow>
   (case compact i dst a of (n, a') \<Rightarrow> take n a' = take dst a @ filter not_broken (drop i a) \<and> length a' = length a)"
proof (induction i dst a rule: compact.induct)
  case (1 i dst a)
  show ?case
  proof (cases "i \<ge> length a")
    case True
    then show ?thesis using 1 by (subst compact.simps) simp
  next
    case False
    then have d: "drop i a = a ! i # drop (Suc i) a" by (simp add: Cons_nth_drop_Suc)
    show ?thesis
    proof (cases "a ! i = SOCK_ERROR")
      case True
      have nb: "\<not> not_broken SOCK_ERROR" by (simp add: not_broken_def)
      with True False 1(1) 1(3,4) d show ?thesis by (subst compact.simps) simp
    next
      case ok: False
      then have nb: "not_broken (a ! i)" by (simp add: not_broken_def)
      define b where "b = (if i \<noteq> dst then a[dst := a ! i] else a)"
      have b: "length b = length a" "take (Suc dst) b = take dst a @ [a ! i]" "drop (Suc i) b = drop (Suc i) a"
        using False 1(3,4) by (auto simp: b_def take_Suc_conv_app_nth)
      have "case compact (Suc i) (Suc dst) b of (n, a') \<Rightarrow>
          take n a' = take (Suc dst) b @ filter not_broken (drop (Suc i) b) \<and> length a' = length b"
        unfolding b_def by (rule 1(2) [OF False ok]) (use False 1(3,4) in auto)
      then show ?thesis using False ok d b by (subst compact.simps) (simp add: b_def [symmetric] nb split: prod.splits)
    qed
  qed
qed

lemma compact_all: "compact 0 0 a = (n, a') \<Longrightarrow> take n a' = filter not_broken a"
  using compact_filter [of 0 0 a] by simp

lemma poll_scan_hangup:
  assumes "length rs = length ss" "\<forall>r\<in>set rs. r = 0"
  shows "poll_scan ss rs = (None, ss, [])"
  using assms by (induction ss rs rule: poll_scan.induct) auto

lemma poll_scan_one:
  assumes "length rs = length as" "\<forall>r\<in>set rs. r = 0" "length rs' = length bs" "\<forall>r\<in>set rs'. r = 0"
  shows "poll_scan (as @ s # bs) (rs @ POLLHUP # rs') = (None, as @ SOCK_ERROR # bs, [s])"
  using assms
proof (induction rs as rule: list_induct2)
  case Nil
  then show ?case using poll_scan_hangup [of rs' bs] by (simp add: POLLHUP_def POLLIN_def POLLERR_def POLLNVAL_def)
qed auto

text \<open>Every listener with the socket the system gives it, and those of them that work.\<close>

definition opened :: "(nat \<Rightarrow> int \<Rightarrow> string option \<Rightarrow> int) \<Rightarrow> (int \<Rightarrow> bool) \<Rightarrow> nat \<Rightarrow> listener list \<Rightarrow> (listener \<times> int) list" where
  "opened gss sl k ls =
     filter (\<lambda>(l, s). s \<noteq> SOCK_ERROR \<and> sl s) (map (\<lambda>(j, l). (l, gss j (lport l) (lbind l))) (List.enumerate k ls))"

lemma open_listeners_opened:
  "open_listeners gss sl k ls = (kept, socks, closed) \<Longrightarrow> kept = map fst (opened gss sl k ls) \<and> socks = map snd (opened gss sl k ls)"
  by (induction gss sl k ls arbitrary: kept socks closed rule: open_listeners.induct)
    (auto simp: opened_def Let_def split: prod.splits if_splits)

lemma config_get_listen_sock_at:
  "i < length ls \<Longrightarrow> i < length ss \<Longrightarrow> distinct ss \<Longrightarrow> config_get_listen_sock ls ss (ss ! i) = Some (ls ! i)"
  by (induction ls ss "ss ! i" arbitrary: i rule: config_get_listen_sock.induct) (auto simp: nth_Cons split: nat.splits)

section \<open>Filters\<close>

text \<open>The cached addresses, if a file has been loaded.\<close>

definition ip_set :: "cache_file_contents \<Rightarrow> string set option" where
  "ip_set cache = map_option (\<lambda>t. set (inorder (root t))) (ccontents cache)"

definition cache_invar :: "cache_file_contents \<Rightarrow> bool" where
  "cache_invar cache \<longleftrightarrow> (case ccontents cache of None \<Rightarrow> True | Some t \<Rightarrow> avl_invar t \<and> compare_fun t = compare_ip)"

interpretation ip_order: key_compare compare_ip
  by unfold_locales (auto simp: compare_ip_def strcmp_swap intro: strcmp_trans)

lemmas compare_ip_ok = ip_order.key_compare_axioms

lemma read_ips_ok:
  "avl_invar (read_ips file) \<and> compare_fun (read_ips file) = compare_ip \<and> set (inorder (root (read_ips file))) = set (ip_entries file)"
proof -
  have "avl_invar (avl_tree_new compare_ip)" "compare_fun (avl_tree_new compare_ip) = compare_ip" "inorder (root (avl_tree_new compare_ip)) = []"
    by (simp_all add: avl_tree_new_def avl_invar_def)
  with tree_build_ok [of "avl_tree_new compare_ip" "ip_entries file"] compare_ip_ok show ?thesis
    by (simp add: read_ips_def)
qed

lemma recheck_invar: "cache_invar cache \<Longrightarrow> cache_invar (recheck_ip_file fs now cache)"
  using read_ips_ok by (auto simp: cache_invar_def recheck_ip_file_def Let_def split: option.splits)

lemma avl_box_get: 
  assumes "avl_invar t" "compare_fun t = compare_ip"
  shows "avl_box_get_by_key t addr = (if addr \<in> set (inorder (root t)) then Some addr else None)"
  using avl_get_by_key_cases [of t addr] assms compare_ip_ok
  by (auto simp: avl_box_get_by_key_def compare_ip_def split: option.splits)

text \<open>What is loaded from a file that has changed.\<close>

lemma recheck_loads:
  assumes "file_recheck cache \<le> now" "cfilename cache = Some f" "ip_mtime (fs f) = Some m" "m \<noteq> file_mtime cache" "ip_bytes (fs f) = Some b"
  shows "ip_set (recheck_ip_file fs now cache) = Some (set (ip_entries b))" "file_mtime (recheck_ip_file fs now cache) = m"
  using assms read_ips_ok by (simp_all add: recheck_ip_file_def ip_set_def)

lemma basic_credentials:
  assumes "httpp_getvar parser ''authorization'' = Some (''Basic '' @ util_base64_encode (u @ '':'' @ w))"
    and "is_cstr u" "is_cstr w" "CHR '':'' \<notin> set u"
  shows "check_pass_http parser user pass = (if u = user \<and> w = pass then 1 else 0)"
proof -
  have "is_cstr (u @ '':'' @ w)" using assms(2,3) by (simp add: is_cstr_def NUL_def)
  then have "util_base64_decode (util_base64_encode (u @ '':'' @ w)) = Some (u @ '':'' @ w)" by (rule util_base64_roundtrip)
  moreover have "strchr (u @ '':'' @ w) (CHR '':'') = Some (length u)" using strchr_at [OF assms(4)] by simp
  ultimately show ?thesis using assms(1) by (simp add: check_pass_http_def strncmp_def)
qed

section \<open>Properties\<close>

text \<open>
  The address filter. With a ban list loaded, a listed address is refused; with an allow
  list and no ban list, a listed address is accepted; with neither every address is accepted. An
  address that is missing from the list that is consulted is never answered: the null result of
  the failed lookup is dereferenced.
\<close>

lemma accept_ip_address_spec:
  assumes "cache_invar (banned_ip st)" and "cache_invar (allowed_ip st)"
  shows "accept_ip_address fs now1 now2 st addr =
    (let st' = rechecked fs now1 now2 st
     in case ip_set (banned_ip st') of
       Some B \<Rightarrow> if addr \<in> B then Some (0, st') else None
     | None \<Rightarrow>
         (case ip_set (allowed_ip st') of
            Some A \<Rightarrow> if addr \<in> A then Some (1, st') else None
          | None \<Rightarrow> Some (1, st')))"
proof -
  have inv: "cache_invar (recheck_ip_file fs now1 (banned_ip st))" "cache_invar (recheck_ip_file fs now2 (allowed_ip st))"
    using assms recheck_invar by auto
  show ?thesis
  proof (cases "ccontents (recheck_ip_file fs now1 (banned_ip st))")
    case None
    then show ?thesis using inv(2)
      by (cases "ccontents (recheck_ip_file fs now2 (allowed_ip st))")
        (simp_all add: accept_ip_address_def rechecked_def ip_set_def cache_invar_def avl_box_get)
  next
    case (Some t)
    then show ?thesis using inv(1) by (simp add: accept_ip_address_def rechecked_def ip_set_def cache_invar_def avl_box_get)
  qed
qed

definition no_cache :: cache_file_contents where
  "no_cache = \<lparr>cfilename = None, file_recheck = 0, file_mtime = 0, ccontents = None\<rparr>"

definition demo_filters :: ip_filters where
  "demo_filters = \<lparr>banned_ip = no_cache\<lparr>cfilename := Some ''ban''\<rparr>, allowed_ip = no_cache\<rparr>"

definition demo_files :: "string \<Rightarrow> ip_file" where
  "demo_files f = \<lparr>ip_mtime = Some 7, ip_bytes = Some (print_lines [''10.0.0.1''])\<rparr>"

text \<open>
  A ban list that is removed from the configuration and put back is not used again while the
  file stays unchanged: the time of its last change is remembered although its content is not,
  so after two reloads every address is accepted.
\<close>

lemma ban_list_not_reloaded:
  assumes "banfile c1 = None" "allowfile c1 = None" and "banfile c2 = Some f" "allowfile c2 = None" and "ip_set (allowed_ip st) = None"
    and "file_recheck (banned_ip st) \<le> now1" and "ip_mtime (fs f) = Some (file_mtime (banned_ip st))"
    and "connection_setup_sockets gss sl (Some c1) g st = (r1, c1', closed1, g1, st1)"
    and "connection_setup_sockets gss sl (Some c2) g1 (rechecked fs now1 now2 st1) = (r2, c2', closed2, g2, st2)"
  shows "\<exists>st'. accept_ip_address fs now3 now4 st2 addr = Some (1, st')"
proof -
  let ?b1 = "recheck_ip_file fs now1 ((banned_ip st)\<lparr>cfilename := None\<rparr>)"
  let ?a1 = "recheck_ip_file fs now2 ((allowed_ip st)\<lparr>cfilename := None\<rparr>)"
  have "banned_ip st1 = (banned_ip st)\<lparr>cfilename := None\<rparr>" "allowed_ip st1 = (allowed_ip st)\<lparr>cfilename := None\<rparr>"
    using assms(1,2,8) by (auto simp: connection_setup_sockets_def Let_def split: prod.splits)
  then have 2: "banned_ip st2 = ?b1\<lparr>cfilename := Some f\<rparr>" "allowed_ip st2 = ?a1\<lparr>cfilename := None\<rparr>"
    using assms(3,4,9) by (auto simp: connection_setup_sockets_def rechecked_def Let_def split: prod.splits)
  have b: "ccontents ?b1 = None" "file_mtime ?b1 = file_mtime (banned_ip st)"
    using assms(6) by (simp_all add: recheck_ip_file_def)
  then have "ccontents (recheck_ip_file fs now3 (banned_ip st2)) = None"
    using assms(7) unfolding 2(1) by (simp add: recheck_ip_file_def)
  moreover have "ccontents ?a1 = None" using assms(5) by (simp add: recheck_ip_file_def ip_set_def)
  then have "ccontents (recheck_ip_file fs now4 (allowed_ip st2)) = None" unfolding 2(2) by (simp add: recheck_ip_file_def)
  ultimately show ?thesis by (simp add: accept_ip_address_def rechecked_def)
qed

definition loaded_filters :: ip_filters where
  "loaded_filters =
     \<lparr>banned_ip = \<lparr>cfilename = Some ''ban'', file_recheck = 0, file_mtime = 7, ccontents = Some (read_ips (print_lines [''10.0.0.1'']))\<rparr>,
      allowed_ip = no_cache\<rparr>"

text \<open>
  After the sockets are set up, the listeners that could not be opened are gone, and a client
  that is accepted on a socket is given the settings of the listener the socket was opened for.
\<close>

lemma connection_setup_sockets_spec:
  assumes "connection_setup_sockets gss sl (Some c) g st = (count, Some c', closed, g', st')"
    and "distinct (map snd (opened gss sl 0 (listen_sock c)))"
  shows "count = int (length (serversock g')) \<and> SOCK_ERROR \<notin> set (serversock g') \<and>
    (\<forall>(l, s)\<in>set (opened gss sl 0 (listen_sock c)). config_get_listen_sock (listen_sock c') (serversock g') s = Some l)"
proof -
  obtain ls ss failed where o: "open_listeners gss sl 0 (listen_sock c) = (ls, ss, failed)" by (metis prod.exhaust)
  have r: "count = int (length ss)" "listen_sock c' = ls" "serversock g' = ss"
    using assms(1) o by (auto simp: connection_setup_sockets_def Let_def)
  note os = open_listeners_opened [OF o]
  have "config_get_listen_sock ls ss s = Some l" if "(l, s) \<in> set (opened gss sl 0 (listen_sock c))" for l s
  proof -
    from that obtain i where "i < length (opened gss sl 0 (listen_sock c))" "opened gss sl 0 (listen_sock c) ! i = (l, s)"
      by (auto simp: in_set_conv_nth)
    with os assms(2) config_get_listen_sock_at [of i ls ss] show ?thesis by simp
  qed
  moreover have "SOCK_ERROR \<notin> set ss" using os by (auto simp: opened_def)
  ultimately show ?thesis using r by auto
qed

definition demo_listener :: "int \<Rightarrow> bool \<Rightarrow> listener" where
  "demo_listener p sc = \<lparr>lport = p, so_sndbuf = 0, lbind = None, shoutcast_compat = sc, lshoutcast_mount = None, lssl = False\<rparr>"

definition demo_sockets :: "nat \<Rightarrow> int \<Rightarrow> string option \<Rightarrow> int" where
  "demo_sockets k p b = (if p = 80 then SOCK_ERROR else int k + 3)"

text \<open>
  When a listening socket breaks down and is closed, the sockets behind it move up while the
  list of listeners stays: a client accepted later on the next socket is given the settings of
  the listener that broke down.
\<close>

lemma broken_socket_shifts_listeners:
  assumes "serversock g = as @ s # t # bs" and "distinct (serversock g)" and "SOCK_ERROR \<notin> set (serversock g)"
    and "length ls = length (serversock g)" and "0 < ret"
  shows "wait_for_serversock g ret (replicate (length as) 0 @ POLLHUP # replicate (Suc (length bs)) 0)
       = (SOCK_ERROR, [s], g\<lparr>serversock := as @ t # bs\<rparr>) \<and>
    config_get_listen_sock ls (serversock g) t = Some (ls ! Suc (length as)) \<and>
    config_get_listen_sock ls (as @ t # bs) t = Some (ls ! length as)"
proof -
  have scan: "poll_scan (as @ s # t # bs) (replicate (length as) 0 @ POLLHUP # replicate (Suc (length bs)) 0)
      = (None, as @ SOCK_ERROR # t # bs, [s])"
    by (rule poll_scan_one) auto
  obtain n a' where c: "compact 0 0 (as @ SOCK_ERROR # t # bs) = (n, a')" by (rule prod.exhaust)
  have "filter not_broken (as @ SOCK_ERROR # t # bs) = as @ t # bs"
  proof -
    have "filter not_broken as = as" "filter not_broken bs = bs" "not_broken t" "\<not> not_broken SOCK_ERROR"
      using assms(1,3) unfolding filter_id_conv by (auto simp: not_broken_def)
    then show ?thesis by simp
  qed
  with compact_all [OF c] have "take n a' = as @ t # bs" by simp
  then have "wait_for_serversock g ret (replicate (length as) 0 @ POLLHUP # replicate (Suc (length bs)) 0)
       = (SOCK_ERROR, [s], g\<lparr>serversock := as @ t # bs\<rparr>)"
    using assms(1,5) scan c by (simp add: wait_for_serversock_def del: replicate_Suc)
  moreover have "config_get_listen_sock ls (serversock g) t = Some (ls ! Suc (length as))"
    using config_get_listen_sock_at [of "Suc (length as)" ls "serversock g"] assms by (simp add: nth_append)
  moreover have "config_get_listen_sock ls (as @ t # bs) t = Some (ls ! length as)"
    using config_get_listen_sock_at [of "length as" ls "as @ t # bs"] assms by (simp add: nth_append)
  ultimately show ?thesis by blast
qed

end
