(* ===== verification/Client.thy ===== *)
theory Client
  imports Reply Conn_Access
begin

text \<open>
  Clients (\<open>client.c\<close>): creation under the client limit, reading through the client's buffer, and
  the error replies. A client's first buffer is its content and the number of bytes in use.
  What happens to a client in the end is a value of \<open>fate\<close>: it is handed to the file server with
  a reply in its buffer, or it is destroyed after some bytes were sent directly.
\<close>

section \<open>State\<close>

definition PER_CLIENT_REFBUF_SIZE :: nat where
  "PER_CLIENT_REFBUF_SIZE = 4096"

text \<open>The functions a client's \<open>check_buffer\<close> points to.\<close>

datatype check_fun = format_check_http_buffer | format_check_file_buffer | format_advance_queue

text \<open>\<open>cauth\<close> is the address of the authenticator the client holds a reference to.\<close>

record client =
  con :: connection
  parser :: "http_parser option"
  respcode :: int
  authenticated :: bool
  rdata :: string
  rlen :: nat
  pos :: nat
  cauth :: "nat option"
  cusername :: "string option"
  cpassword :: "string option"
  intro_offset :: int
  check_buffer :: "check_fun option"

datatype fate =
    Queued client
  | Destroyed string

section \<open>Operations\<close>

definition client_create :: "ice_config \<Rightarrow> ice_global \<Rightarrow> connection \<Rightarrow> http_parser option \<Rightarrow> int \<times> client \<times> ice_global" where
  "client_create config g c p =
     (let g = g\<lparr>clients := clients g + 1\<rparr>;
          ret = (if client_limit config < clients g then -1 else 0)
      in (ret, \<lparr>con = c, parser = p, respcode = 0, authenticated = False, rdata = [], rlen = 0, pos = 0,
                cauth = None, cusername = None, cpassword = None, intro_offset = 0, check_buffer = None\<rparr>, g))"

text \<open>
  The bytes delivered and the result; \<open>rx\<close> is what the socket would deliver, or whether its error
  is recoverable.
\<close>

definition client_read_bytes :: "client \<Rightarrow> nat \<Rightarrow> (bool + string) \<Rightarrow> int \<times> string \<times> client" where
  "client_read_bytes client len rx =
     (if rlen client \<noteq> 0 then
        let n = (if rlen client < len then rlen client else len)
        in (int n, take n (rdata client), client\<lparr>rdata := drop n (rdata client), rlen := rlen client - n\<rparr>)
      else
        let (bytes, data, recoverable) =
              (case rx of Inl r \<Rightarrow> (-1, [], r) | Inr d \<Rightarrow> (int (length (take len d)), take len d, True));
            (ret, c) = connection_read (con client) bytes recoverable
        in (ret, data, client\<lparr>con := c\<rparr>))"

text \<open>A message for a client in a bad state: sent directly, as far as the socket takes it.\<close>

definition header_500 :: string where
  "header_500 =
     ''HTTP/1.0 500 Internal Server Error'' @ [CR, LF] @ ''Content-Type: text/plain; charset=utf-8'' @ [CR, LF, CR, LF] @
     ''500 - Internal Server Error'' @ [LF] @ ''---------------------------'' @ [LF]"

definition client_send_500 :: "nat \<Rightarrow> string option \<Rightarrow> fate" where
  "client_send_500 taken message =
     (if taken < length header_500 then Destroyed (take taken header_500)
      else Destroyed (header_500 @ (case message of None \<Rightarrow> [] | Some m \<Rightarrow> m)))"

definition client_send_error ::
  "(string \<Rightarrow> string \<Rightarrow> bool) \<Rightarrow> ice_config \<Rightarrow> string \<Rightarrow> nat \<Rightarrow> client \<Rightarrow> int \<Rightarrow> bool \<Rightarrow> string \<Rightarrow> fate" where
  "client_send_error fnmatch config date taken client status plain message =
     (let (ret, out) = util_http_build_header fnmatch config date (Some (rdata client)) PER_CLIENT_REFBUF_SIZE 0
            False status None (Some (if plain then ''text/plain'' else ''text/html'')) (Some ''utf-8'')
            (Some (if plain then message else [])) None
      in if ret = -1 \<or> ret \<ge> int PER_CLIENT_REFBUF_SIZE then client_send_500 taken (Some ''Header generation failed.'')
         else
           let html = ''<html><head><title>Error '' @ fmt_d status @ ''</title></head><body><b>'' @ fmt_d status @ '' - '' @
                 message @ ''</b></body></html>'' @ [CR, LF];
               data = (if plain then out else out @ fst (snprintf (PER_CLIENT_REFBUF_SIZE - nat ret) html))
           in Queued (client\<lparr>respcode := status, rdata := data, rlen := length data\<rparr>))"

definition client_send_100 :: string where
  "client_send_100 = ''HTTP/1.1 100 Continue'' @ [CR, LF] @ ''Content-Length: 0'' @ [CR, LF, CR, LF, NUL]"

definition client_send_400 where
  "client_send_400 fnmatch config date taken client message = client_send_error fnmatch config date taken client 400 False message"

definition client_send_404 where
  "client_send_404 fnmatch config date taken client message = client_send_error fnmatch config date taken client 404 False message"

definition client_send_401 where
  "client_send_401 fnmatch config date taken client =
     client_send_error fnmatch config date taken client 401 True (''You need to authenticate'' @ [CR, LF])"

definition client_send_403 where
  "client_send_403 fnmatch config date taken client message = client_send_error fnmatch config date taken client 403 True message"

text \<open>Pointing the client to another buffer, or to none.\<close>

definition client_set_queue :: "client \<Rightarrow> string option \<Rightarrow> client" where
  "client_set_queue client refbuf =
     (case refbuf of
        None \<Rightarrow> client\<lparr>rdata := [], rlen := 0, pos := 0\<rparr>
      | Some d \<Rightarrow> client\<lparr>rdata := d, rlen := length d, pos := 0\<rparr>)"

section \<open>Facts\<close>

text \<open>Reading drains the buffer before it touches the socket.\<close>

fun read_all :: "nat list \<Rightarrow> client \<Rightarrow> string \<times> client" where
  "read_all [] c = ([], c)"
| "read_all (n # ns) c = (let (_, d, c') = client_read_bytes c n (Inl True); (r, c'') = read_all ns c' in (d @ r, c''))"

lemma read_all_buffer:
  "length (rdata c) = rlen c \<Longrightarrow> sum_list ns \<le> rlen c \<Longrightarrow>
   read_all ns c = (take (sum_list ns) (rdata c), c\<lparr>rdata := drop (sum_list ns) (rdata c), rlen := rlen c - sum_list ns\<rparr>)"
proof (induction ns arbitrary: c)
  case (Cons n ns)
  show ?case
  proof (cases "rlen c = 0")
    case True
    then have "n = 0" "sum_list ns = 0" "rdata c = []" using Cons.prems by auto
    with True Cons.IH [of c] show ?thesis by (simp add: client_read_bytes_def connection_read_def)
  next
    case False
    let ?c = "c\<lparr>rdata := drop n (rdata c), rlen := rlen c - n\<rparr>"
    have n: "n \<le> rlen c" "sum_list ns \<le> rlen c - n" using Cons.prems by auto
    have r: "client_read_bytes c n (Inl True) = (int n, take n (rdata c), ?c)"
      using False n by (simp add: client_read_bytes_def)
    have "read_all ns ?c = (take (sum_list ns) (drop n (rdata c)), ?c\<lparr>rdata := drop (sum_list ns) (drop n (rdata c)), rlen := rlen c - n - sum_list ns\<rparr>)"
      using Cons.IH [of ?c] Cons.prems n by simp
    then show ?thesis using r by (simp add: take_add add.commute)
  qed
qed simp

text \<open>The headers of an error reply.\<close>

definition error_headers :: "(string \<Rightarrow> string \<Rightarrow> bool) \<Rightarrow> ice_config \<Rightarrow> string \<Rightarrow> int \<Rightarrow> bool \<Rightarrow> (string \<times> string) list" where
  "error_headers fnmatch config date status plain =
     reply_headers fnmatch config date False status (full_type (if plain then ''text/plain'' else ''text/html'') (Some ''utf-8'')) None"

definition error_text :: "(string \<Rightarrow> string \<Rightarrow> bool) \<Rightarrow> ice_config \<Rightarrow> string \<Rightarrow> int \<Rightarrow> bool \<Rightarrow> string \<Rightarrow> string" where
  "error_text fnmatch config date status plain body =
     render_lines ((''HTTP/1.0'' @ '' '' @ fmt_d status @ '' '' @ status_text status) # map header_line (error_headers fnmatch config date status plain))
       @ CR # LF # body"

lemma error_text_append: "error_text fnmatch config date status plain (a @ b) = error_text fnmatch config date status plain a @ b"
  by (simp add: error_text_def)

lemma client_send_error_text:
  assumes "0 \<le> status" "status < 1000" "status \<noteq> 206"
  shows "client_send_error fnmatch config (render_lines [header_line (''Date'', date)]) taken client status plain message =
    (let head = error_text fnmatch config date status plain (if plain then message else [])
     in if length head \<ge> PER_CLIENT_REFBUF_SIZE then client_send_500 taken (Some ''Header generation failed.'')
        else
          let html = ''<html><head><title>Error '' @ fmt_d status @ ''</title></head><body><b>'' @ fmt_d status @ '' - '' @
                 message @ ''</b></body></html>'' @ [CR, LF];
              data = head @ (if plain then [] else take (PER_CLIENT_REFBUF_SIZE - length head - 1) html)
          in Queued (client\<lparr>respcode := status, rdata := data, rlen := length data\<rparr>))"
proof -
  have ft: "length (full_type (if plain then ''text/plain'' else ''text/html'') (Some ''utf-8'')) \<le> 63" by (simp add: full_type_def)
  show ?thesis
    unfolding client_send_error_def util_http_build_header_def option.case reply_text_lines [OF assms ft] error_headers_def [symmetric]
      error_text_def [symmetric]
    by (simp add: snprintf_def Let_def PER_CLIENT_REFBUF_SIZE_def)
qed

section \<open>Properties\<close>

text \<open>
  An error reply whose headers fit the client's buffer is queued for sending with the status as
  the response code; the text stays below the size of the buffer, and a client that parses it
  sees the status code and its text. When the headers do not fit, the client is destroyed after
  at most a server error message was sent.
\<close>

lemma client_send_error_spec:
  assumes "vars_ok p" and "300 \<le> status" "status < 1000"
    and "\<forall>h\<in>set (error_headers fnmatch config date status plain). good_header h \<and>
           lowercase (fst h) \<noteq> HTTPP_VAR_ERROR_CODE \<and> lowercase (fst h) \<noteq> HTTPP_VAR_ERROR_MESSAGE"
    and "length (error_headers fnmatch config date status plain) \<le> 30"
  shows "case client_send_error fnmatch config (render_lines [header_line (''Date'', date)]) taken client status plain message of
      Queued c \<Rightarrow> respcode c = status \<and> rlen c = length (rdata c) \<and> rlen c < PER_CLIENT_REFBUF_SIZE \<and>
        (\<exists>p'. httpp_parse_response p (rdata c) u = Some (1, p') \<and>
          httpp_getvar p' HTTPP_VAR_ERROR_CODE = Some (fmt_d status) \<and> httpp_getvar p' HTTPP_VAR_ERROR_MESSAGE = Some (status_text status))
    | Destroyed bytes \<Rightarrow>
        length (error_text fnmatch config date status plain (if plain then message else [])) \<ge> PER_CLIENT_REFBUF_SIZE \<and>
        (\<exists>n. bytes = take n (header_500 @ ''Header generation failed.''))"
proof -
  let ?hs = "error_headers fnmatch config date status plain"
  let ?head = "error_text fnmatch config date status plain (if plain then message else [])"
  have s: "0 \<le> status" "status \<noteq> 206" using assms(2) by auto
  have w: "good_word ''HTTP/1.0''" by (simp add: good_word_def clean_line_def NUL_def CR_def LF_def)
  have st: "clean_line (status_text status)" "hd (status_text status) \<noteq> CHR '' ''" using status_text_clean by auto
  have n: "Suc (length ?hs) < MAX_HEADERS" using assms(5) by (simp add: MAX_HEADERS_def)
  have hs: "\<forall>h\<in>set ?hs. good_header h" using assms(4) by blast
  have none: "map_of (rev (map (\<lambda>(a, b). (lowercase a, b)) ?hs)) m = None" if "m = HTTPP_VAR_ERROR_CODE \<or> m = HTTPP_VAR_ERROR_MESSAGE" for m
    using assms(4) that by (force simp: map_of_eq_None_iff)
  have parse: "\<exists>p'. httpp_parse_response p (error_text fnmatch config date status plain body) u = Some (1, p') \<and>
      httpp_getvar p' HTTPP_VAR_ERROR_CODE = Some (fmt_d status) \<and> httpp_getvar p' HTTPP_VAR_ERROR_MESSAGE = Some (status_text status)" for body
    using httpp_parse_response_vars [OF assms(1) w fmt_d_word [OF s(1)] st hs n, of body u] assms(2)
    unfolding error_text_def [symmetric] atoi_fmt_d by (auto simp: none httpp_var_names)
  show ?thesis
  proof (cases "length ?head \<ge> PER_CLIENT_REFBUF_SIZE")
    case True
    have "\<exists>n. take taken header_500 = take n (header_500 @ ''Header generation failed.'')" if "taken < length header_500"
      using that by (intro exI [of _ taken]) simp
    moreover have "\<exists>n. header_500 @ ''Header generation failed.'' = take n (header_500 @ ''Header generation failed.'')"
      by (intro exI [of _ "length (header_500 @ ''Header generation failed.'')"]) simp
    ultimately show ?thesis unfolding client_send_error_text [OF s(1) assms(3) s(2)] using True
      by (auto simp: client_send_500_def Let_def)
  next
    case False
    define html where "html = ''<html><head><title>Error '' @ fmt_d status @ ''</title></head><body><b>'' @ fmt_d status @ '' - '' @
                 message @ ''</b></body></html>'' @ [CR, LF]"
    define tail where "tail = (if plain then [] else take (PER_CLIENT_REFBUF_SIZE - length ?head - 1) html)"
    have "length (?head @ tail) < PER_CLIENT_REFBUF_SIZE" using False by (cases plain) (auto simp: tail_def)
    moreover note parse [of "(if plain then message else []) @ tail", unfolded error_text_append]
    ultimately show ?thesis
      unfolding client_send_error_text [OF s(1) assms(3) s(2)] html_def [symmetric] Let_def tail_def [symmetric] if_not_P [OF False]
      by simp
  qed
qed

definition demo_client :: client where
  "demo_client =
     \<lparr>con = \<lparr>con_id = 0, con_time = 0, discon_time = 0, sent_bytes = 0, sock = 5, con_serversock = 4, con_error = False, ip = ''10.0.0.1''\<rparr>,
        parser = None, respcode = 0, authenticated = False, rdata = [], rlen = 0, pos = 0, cauth = None, cusername = None, cpassword = None, intro_offset = 0, check_buffer = None\<rparr>"

end
