(* ===== verification/Source.thy ===== *)
theory Source
  imports Client "HOL-Library.Multiset"
begin

text \<open>
  The registry of sources (\<open>source.c\<close>): the tree of mounts, finding a mount with or without its
  fallbacks, reserving and freeing a mount, and moving the listeners of one source to another.
  Sources live in a store; the tree holds their mounts with their addresses. Streaming itself is
  not part of this theory.
\<close>

section \<open>State\<close>

definition MAX_FALLBACK_DEPTH :: nat where
  "MAX_FALLBACK_DEPTH = 10"

definition compare_clients :: "client \<Rightarrow> client \<Rightarrow> int" where
  "compare_clients a b =
     (if con_id (con a) < con_id (con b) then -1 else if con_id (con a) > con_id (con b) then 1 else 0)"

text \<open>\<open>sformat\<close> is the type of the stream format, \<open>has_con\<close> says whether the source has a connection.\<close>

record source =
  smount :: string
  srunning :: bool
  on_demand :: bool
  on_demand_req :: bool
  smax_listeners :: int
  slisteners :: u64
  sfallback_mount :: "string option"
  sfallback_when_full :: bool
  sformat :: "nat option"
  has_con :: bool
  client_tree :: "client avl_tree"
  pending_tree :: "client avl_tree"

record source_entry =
  emount :: string
  eaddr :: nat

record source_registry =
  source_tree :: "source_entry avl_tree"
  sheap :: "nat \<Rightarrow> source option"

definition source_compare_sources :: "source_entry \<Rightarrow> source_entry \<Rightarrow> int" where
  "source_compare_sources a b = strcmp (emount a) (emount b)"

section \<open>Operations\<close>

text \<open>The search walks the tree by itself, comparing names.\<close>

fun find_raw_loop :: "string \<Rightarrow> source_entry avl_node \<Rightarrow> nat option" where
  "find_raw_loop mount Null = None"
| "find_raw_loop mount (Node l e w r) =
     (let cmp = strcmp mount (emount e)
      in if cmp < 0 then find_raw_loop mount l
         else if cmp > 0 then find_raw_loop mount r
         else Some (eaddr e))"

definition source_find_mount_raw :: "source_registry \<Rightarrow> string option \<Rightarrow> nat option" where
  "source_find_mount_raw reg mount =
     (case mount of None \<Rightarrow> None | Some m \<Rightarrow> find_raw_loop m (root (source_tree reg)))"

definition source_active :: "source_registry \<Rightarrow> nat \<Rightarrow> bool" where
  "source_active reg a \<longleftrightarrow> (case sheap reg a of None \<Rightarrow> False | Some s \<Rightarrow> srunning s \<or> on_demand s)"

text \<open>\<open>rounds\<close> is the number of rounds left before the depth limit.\<close>

fun find_mount_loop ::
  "(string \<Rightarrow> string \<Rightarrow> bool) \<Rightarrow> ice_config \<Rightarrow> source_registry \<Rightarrow> nat \<Rightarrow> string option \<Rightarrow> nat option" where
  "find_mount_loop fnmatch config reg 0 mount = None"
| "find_mount_loop fnmatch config reg (Suc rounds) None = None"
| "find_mount_loop fnmatch config reg (Suc rounds) (Some m) =
     (case source_find_mount_raw reg (Some m) of
        Some a \<Rightarrow>
          if source_active reg a then Some a
          else (case config_find_mount fnmatch config (Some m) MOUNT_TYPE_NORMAL of
                  None \<Rightarrow> None
                | Some mountinfo \<Rightarrow> find_mount_loop fnmatch config reg rounds (fallback_mount mountinfo))
      | None \<Rightarrow>
          (case config_find_mount fnmatch config (Some m) MOUNT_TYPE_NORMAL of
             None \<Rightarrow> None
           | Some mountinfo \<Rightarrow> find_mount_loop fnmatch config reg rounds (fallback_mount mountinfo)))"

definition source_find_mount :: "(string \<Rightarrow> string \<Rightarrow> bool) \<Rightarrow> ice_config \<Rightarrow> source_registry \<Rightarrow> string option \<Rightarrow> nat option" where
  "source_find_mount fnmatch config reg mount = find_mount_loop fnmatch config reg MAX_FALLBACK_DEPTH mount"

text \<open>The new source goes to the free address \<open>a\<close>.\<close>

definition source_new :: "string \<Rightarrow> source" where
  "source_new mount =
     \<lparr>smount = mount, srunning = False, on_demand = False, on_demand_req = False, smax_listeners = -1, slisteners = 0,
      sfallback_mount = None, sfallback_when_full = False, sformat = None, has_con = False,
      client_tree = avl_tree_new compare_clients, pending_tree = avl_tree_new compare_clients\<rparr>"

definition source_reserve :: "source_registry \<Rightarrow> string \<Rightarrow> nat \<Rightarrow> nat option \<times> source_registry" where
  "source_reserve reg mount a =
     (case source_find_mount_raw reg (Some mount) of
        Some _ \<Rightarrow> (None, reg)
      | None \<Rightarrow>
          (Some a, reg\<lparr>source_tree := tree_insert (source_tree reg) \<lparr>emount = mount, eaddr = a\<rparr>,
                       sheap := (sheap reg)(a \<mapsto> source_new mount)\<rparr>))"

definition source_free_source :: "source_registry \<Rightarrow> nat \<Rightarrow> source_registry option" where
  "source_free_source reg a =
     (case sheap reg a of
        None \<Rightarrow> None
      | Some s \<Rightarrow> Some (reg\<lparr>source_tree := tree_delete (source_tree reg) \<lparr>emount = smount s, eaddr = a\<rparr>,
                            sheap := (sheap reg)(a := None)\<rparr>))"

definition source_find_client :: "source \<Rightarrow> client \<Rightarrow> client option" where
  "source_find_client source fakeclient = avl_get_by_key (client_tree source) fakeclient"

text \<open>
  Moving: the clients of a tree, first to last, are taken out and put into the pending tree of
  the destination. A client whose buffer holds HTTP headers keeps it. One unit of fuel is a client.
\<close>

definition moved_client :: "bool \<Rightarrow> client \<Rightarrow> client" where
  "moved_client no_con client =
     (if check_buffer client \<noteq> Some format_check_http_buffer then
        let client = (client_set_queue client None)\<lparr>check_buffer := Some format_check_file_buffer\<rparr>
        in if no_con then client\<lparr>intro_offset := -1\<rparr> else client
      else client)"

fun move_loop ::
  "nat \<Rightarrow> bool \<Rightarrow> client avl_tree \<Rightarrow> client avl_tree \<Rightarrow> nat \<Rightarrow> (client avl_tree \<times> client avl_tree \<times> nat) option" where
  "move_loop fuel no_con tree dest n =
     (case avl_get_first tree of
        None \<Rightarrow> Some (tree, dest, n)
      | Some node \<Rightarrow>
          (case fuel of
             0 \<Rightarrow> None
           | Suc fuel' \<Rightarrow>
               let client = key (fst node)
               in move_loop fuel' no_con (tree_delete tree client) (tree_insert dest (moved_client no_con client)) (n + 1)))"

declare move_loop.simps [simp del]

text \<open>\<open>None\<close> is an unfinished loop; the pair is the source and the destination afterwards.\<close>

definition source_move_clients :: "nat \<Rightarrow> source \<Rightarrow> source \<Rightarrow> (source \<times> source) option" where
  "source_move_clients fuel source dest =
     (if strcmp (smount source) (smount dest) = 0 then Some (source, dest)
      else if \<not> srunning dest \<and> \<not> on_demand dest then Some (source, dest)
      else if \<not> on_demand source \<and> sformat source = None then Some (source, dest)
      else if sformat source \<noteq> None \<and> sformat dest \<noteq> None \<and> sformat source \<noteq> sformat dest then Some (source, dest)
      else
        (case move_loop fuel (\<not> has_con source) (pending_tree source) (pending_tree dest) 0 of
           None \<Rightarrow> None
         | Some (pending, moved, n) \<Rightarrow>
             (case move_loop fuel (\<not> has_con source) (client_tree source) moved n of
                None \<Rightarrow> None
              | Some (rest, moved, n) \<Rightarrow>
                  Some (source\<lparr>pending_tree := pending, client_tree := rest, slisteners := 0\<rparr>,
                        dest\<lparr>pending_tree := moved,
                             on_demand_req := (if \<not> srunning dest \<and> on_demand dest \<and> n \<noteq> 0 then True else on_demand_req dest)\<rparr>))))"

section \<open>The tree of mounts\<close>

interpretation sv: avl_entries emount .

definition registry_ok :: "source_registry \<Rightarrow> bool" where
  "registry_ok reg \<longleftrightarrow> store_ok emount (source_tree reg) \<and>
     (\<forall>e\<in>set (inorder (root (source_tree reg))). \<exists>s. sheap reg (eaddr e) = Some s \<and> smount s = emount e)"

definition mount_of :: "source_registry \<Rightarrow> string \<rightharpoonup> nat" where
  "mount_of reg m = map_option eaddr (tree_contents emount (source_tree reg) m)"

lemma compare_entry: "source_compare_sources = entry_compare emount"
  by (simp add: fun_eq_iff source_compare_sources_def entry_compare_def)

lemma find_raw_get_by_key:
  "find_raw_loop m t = map_option eaddr (get_by_key_loop (entry_compare emount) \<lparr>emount = m, eaddr = a\<rparr> t)"
  by (induction t) (auto simp: entry_compare_def Let_def)

lemma find_raw_contents:
  assumes "registry_ok reg"
  shows "source_find_mount_raw reg (Some m) = mount_of reg m"
  using assms sv.store.lookup_contents [of "source_tree reg" "\<lparr>emount = m, eaddr = 0\<rparr>"] find_raw_get_by_key [of m _ 0]
  by (simp add: source_find_mount_raw_def mount_of_def avl_get_by_key_def registry_ok_def store_ok_def)

lemma source_reserve_ok:
  assumes ok: "registry_ok reg" and free: "sheap reg a = None"
  shows "case source_reserve reg m a of (res, reg') \<Rightarrow> registry_ok reg' \<and>
    (case mount_of reg m of
       Some _ \<Rightarrow> res = None \<and> reg' = reg
     | None \<Rightarrow> res = Some a \<and> mount_of reg' = (mount_of reg)(m \<mapsto> a) \<and> sheap reg' = (sheap reg)(a \<mapsto> source_new m))"
proof (cases "mount_of reg m")
  case (Some x)
  then show ?thesis using ok by (simp add: source_reserve_def find_raw_contents)
next
  case None
  let ?e = "\<lparr>emount = m, eaddr = a\<rparr>"
  have st: "store_ok emount (source_tree reg)" and new: "tree_contents emount (source_tree reg) (emount ?e) = None"
    using ok None by (simp_all add: registry_ok_def mount_of_def)
  note ins = store_insert [OF st new]
  define reg' where "reg' = reg\<lparr>source_tree := tree_insert (source_tree reg) ?e, sheap := (sheap reg)(a \<mapsto> source_new m)\<rparr>"
  have res: "source_reserve reg m a = (Some a, reg')" using ok None by (simp add: source_reserve_def find_raw_contents reg'_def)
  have mem: "set (inorder (root (tree_insert (source_tree reg) ?e))) = insert ?e (set (inorder (root (source_tree reg))))"
    by (rule tree_insert_ok(3)) (use st entry_compare_ok in \<open>auto simp: store_ok_def\<close>)
  have "mount_of reg' = (mount_of reg)(m \<mapsto> a)" using ins(2) by (auto simp: mount_of_def reg'_def)
  moreover have "registry_ok reg'"
    using ins(1) ok free unfolding registry_ok_def reg'_def by (auto simp: mem source_new_def)
  ultimately show ?thesis using None res by (simp add: reg'_def)
qed

section \<open>Fallbacks\<close>

text \<open>The mounts that are tried: each one's fallback, as long as it has settings.\<close>

fun fallback_chain :: "(string \<Rightarrow> string \<Rightarrow> bool) \<Rightarrow> ice_config \<Rightarrow> nat \<Rightarrow> string option \<Rightarrow> string list" where
  "fallback_chain fnmatch config 0 mount = []"
| "fallback_chain fnmatch config (Suc n) None = []"
| "fallback_chain fnmatch config (Suc n) (Some m) =
     m # (case config_find_mount fnmatch config (Some m) MOUNT_TYPE_NORMAL of
            None \<Rightarrow> []
          | Some info \<Rightarrow> fallback_chain fnmatch config n (fallback_mount info))"

definition first_active :: "source_registry \<Rightarrow> string list \<Rightarrow> nat option" where
  "first_active reg ms = List.find (source_active reg) (List.map_filter (\<lambda>m. source_find_mount_raw reg (Some m)) ms)"

lemma first_active_simps:
  "first_active reg [] = None"
  "first_active reg (m # ms) =
     (case source_find_mount_raw reg (Some m) of
        None \<Rightarrow> first_active reg ms
      | Some a \<Rightarrow> if source_active reg a then Some a else first_active reg ms)"
  by (simp_all add: first_active_def List.map_filter_simps split: option.splits)

lemma find_mount_chain: "find_mount_loop fnmatch config reg n mount = first_active reg (fallback_chain fnmatch config n mount)"
  by (induction fnmatch config reg n mount rule: find_mount_loop.induct)
    (auto simp: first_active_simps split: option.splits)

section \<open>Moving listeners\<close>

definition clients_ok :: "client avl_tree \<Rightarrow> bool" where
  "clients_ok t \<longleftrightarrow> avl_invar t \<and> compare_fun t = compare_clients \<and> distinct (map (\<lambda>c. con_id (con c)) (inorder (root t)))"

interpretation client_order: key_compare compare_clients
  by unfold_locales (auto simp: compare_clients_def split: if_splits)

lemmas compare_clients_ok = client_order.key_compare_axioms

lemma compare_clients_eq: "compare_clients a b = 0 \<longleftrightarrow> con_id (con a) = con_id (con b)"
  by (auto simp: compare_clients_def)

lemma mset_list_insert: "mset (list_insert cmp k xs) = add_mset k (mset xs)"
proof -
  let ?P = "\<lambda>x. 0 < cmp k x"
  have "mset (takeWhile ?P xs) + mset (dropWhile ?P xs) = mset xs"
    unfolding mset_append [symmetric] takeWhile_dropWhile_id ..
  then show ?thesis unfolding list_insert_def by simp
qed

lemma delete_first:
  assumes ok: "clients_ok t" and xs: "inorder (root t) = c # cs"
  shows "clients_ok (tree_delete t c)" "inorder (root (tree_delete t c)) = cs"
proof -
  obtain res freed t' where del: "avl_delete t c = (res, freed, t')" using prod_cases3 by blast
  have k: "key_compare (compare_fun t)" "avl_invar t" using ok compare_clients_ok by (auto simp: clients_ok_def)
  note d = avl_delete_correct [OF k del]
  have "compare_fun t c c = 0" using k(1) by (rule key_compare.cmp_self)
  then have "res = 0" using d(4) xs by auto
  with d(3) obtain us x vs where x: "compare_fun t c x = 0" "inorder (root t) = us @ x # vs" "inorder (root t') = us @ vs" by blast
  have "con_id (con x) = con_id (con c)" using x(1) ok by (simp add: clients_ok_def compare_clients_eq)
  then have "us = []" using ok x(2) xs by (cases us) (auto simp: clients_ok_def)
  then have t': "inorder (root t') = cs" using x(2,3) xs by simp
  have tt: "tree_delete t c = t'" using del by (simp add: tree_delete_def)
  show "inorder (root (tree_delete t c)) = cs" using t' tt by simp
  show "clients_ok (tree_delete t c)" using d(1,2) ok t' tt xs by (simp add: clients_ok_def)
qed

lemma move_loop_all:
  assumes "clients_ok t" "avl_invar d" "compare_fun d = compare_clients" "length (inorder (root t)) \<le> fuel"
  shows "\<exists>t' d'. move_loop fuel nc t d n = Some (t', d', n + length (inorder (root t))) \<and> clients_ok t' \<and> root t' = Null \<and>
    avl_invar d' \<and> compare_fun d' = compare_clients \<and>
    mset (inorder (root d')) = mset (inorder (root d)) + mset (map (moved_client nc) (inorder (root t)))"
  using assms
proof (induction fuel arbitrary: t d n)
  case 0
  then have "avl_get_first t = None" using avl_get_first_spec [of t] by (auto split: option.splits)
  with 0 avl_get_first_spec [of t] show ?case by (subst move_loop.simps) auto
next
  case (Suc fuel)
  show ?case
  proof (cases "avl_get_first t")
    case None
    then show ?thesis using Suc.prems avl_get_first_spec [of t] by (subst move_loop.simps) auto
  next
    case (Some cur)
    then have xs: "inorder (root t) = key (fst cur) # cursor_after cur" using avl_get_first_spec [of t] by simp
    note del = delete_first [OF Suc.prems(1) xs]
    let ?c = "moved_client nc (key (fst cur))"
    obtain res d1 where ins: "avl_insert True d ?c = (res, d1)" by fastforce
    have k: "key_compare (compare_fun d)" "avl_invar d" using Suc.prems compare_clients_ok by auto
    note i = avl_insert_correct [OF k ins]
    have d1: "tree_insert d ?c = d1" using ins by (simp add: tree_insert_def)
    have m: "mset (inorder (root d1)) = add_mset ?c (mset (inorder (root d)))" using i(4) by (simp add: mset_list_insert)
    have c1: "compare_fun d1 = compare_clients" using i(3) Suc.prems(3) by simp
    have len: "length (inorder (root (tree_delete t (key (fst cur))))) \<le> fuel" using Suc.prems(4) xs del(2) by simp
    have step: "move_loop (Suc fuel) nc t d n = move_loop fuel nc (tree_delete t (key (fst cur))) d1 (n + 1)"
      using Some d1 by (subst move_loop.simps) simp
    show ?thesis unfolding step
      using Suc.IH [OF del(1) i(2) c1 len, of "n + 1"] unfolding del(2) m xs by auto
  qed
qed

section \<open>Properties\<close>

text \<open>
  C34: A mount has at most one source. Reserving a mount that is in use fails and changes nothing;
  reserving a free one enters a new source under its name, leaves the other mounts as they
  were, and keeps the tree of mounts well formed.
\<close>

theorem source_reserve_spec:
  assumes "registry_ok reg" and "sheap reg a = None"
  shows "case source_reserve reg m a of (res, reg') \<Rightarrow> registry_ok reg' \<and>
    (case source_find_mount_raw reg (Some m) of
       Some _ \<Rightarrow> res = None \<and> reg' = reg
     | None \<Rightarrow> res = Some a \<and> sheap reg' = (sheap reg)(a \<mapsto> source_new m) \<and>
         (\<forall>m'. source_find_mount_raw reg' (Some m') = (if m' = m then Some a else source_find_mount_raw reg (Some m'))))"
proof -
  note r = source_reserve_ok [OF assms, of m]
  then have "registry_ok (snd (source_reserve reg m a))" by (simp split: prod.splits)
  from find_raw_contents [OF this] find_raw_contents [OF assms(1)] r show ?thesis
    by (auto split: prod.splits option.splits)
qed

definition empty_registry :: source_registry where
  "empty_registry = \<lparr>source_tree = avl_tree_new source_compare_sources, sheap = (\<lambda>_. None)\<rparr>"

lemma empty_registry_ok: "registry_ok empty_registry"
  using sv.store.ok_empty by (simp add: registry_ok_def empty_registry_def compare_entry) (simp add: avl_tree_new_def)

theorem source_reserve_spec_witness:
  "\<exists>reg. source_reserve empty_registry ''/a'' 1 = (Some 1, reg) \<and> source_find_mount_raw reg (Some ''/a'') = Some 1 \<and>
     source_find_mount_raw reg (Some ''/b'') = None"
proof -
  have e: "source_find_mount_raw empty_registry (Some m) = None" for m
    by (simp add: source_find_mount_raw_def empty_registry_def avl_tree_new_def)
  obtain res reg where "source_reserve empty_registry ''/a'' 1 = (res, reg)" by fastforce
  moreover have "sheap empty_registry 1 = None" by (simp add: empty_registry_def)
  ultimately show ?thesis using source_reserve_spec [OF empty_registry_ok, of 1 "''/a''"] by (simp add: e)
qed

text \<open>
  C39: Finding a mount with fallbacks gives the first active source among the mount and its
  successive fallbacks, of which at most ten are tried, so that a cycle of fallbacks ends.
\<close>

theorem source_find_mount_spec:
  "source_find_mount fnmatch config reg mount = first_active reg (fallback_chain fnmatch config 10 mount) \<and>
   length (fallback_chain fnmatch config 10 mount) \<le> 10 \<and>
   (\<forall>a. source_find_mount fnmatch config reg mount = Some a \<longrightarrow> source_active reg a)"
proof -
  have f: "source_find_mount fnmatch config reg mount = first_active reg (fallback_chain fnmatch config 10 mount)"
    by (simp add: source_find_mount_def find_mount_chain MAX_FALLBACK_DEPTH_def)
  have "length (fallback_chain fnmatch config n m) \<le> n" for n m
    by (induction fnmatch config n m rule: fallback_chain.induct) (auto split: option.splits)
  then have l: "length (fallback_chain fnmatch config 10 mount) \<le> 10" .
  have "source_active reg a" if "first_active reg ms = Some a" for ms a
    using that by (auto simp: first_active_def find_Some_iff)
  then show ?thesis unfolding f using l by auto
qed

theorem source_find_mount_spec_witness:
  "source_find_mount literal_match demo_config empty_registry (Some ''/a'') = None \<and>
   length (fallback_chain literal_match demo_config 10 (Some ''/a'')) \<le> 10"
proof -
  have "first_active empty_registry ms = None" for ms
    by (induction ms) (simp_all add: first_active_simps source_find_mount_raw_def empty_registry_def avl_tree_new_def)
  then show ?thesis using source_find_mount_spec [of literal_match demo_config empty_registry "Some ''/a''"] by simp
qed

text \<open>
  C35: Moving the listeners of a source to an active destination of the same format finishes, given
  a step for every client, and loses none of them: the source's trees are empty afterwards, its
  listener count is 0, and the destination's pending tree holds its old clients and all those
  of the source, pending and active.
\<close>

theorem source_move_clients_spec:
  assumes "clients_ok (pending_tree source)" and "clients_ok (client_tree source)" and "clients_ok (pending_tree dest)"
    and "smount source \<noteq> smount dest" and "srunning dest \<or> on_demand dest" and "sformat source = Some f" and "sformat dest = Some f"
    and "length (inorder (root (pending_tree source))) \<le> fuel" and "length (inorder (root (client_tree source))) \<le> fuel"
  shows "\<exists>source' dest'. source_move_clients fuel source dest = Some (source', dest') \<and>
    root (pending_tree source') = Null \<and> root (client_tree source') = Null \<and> slisteners source' = 0 \<and>
    avl_invar (pending_tree dest') \<and> client_tree dest' = client_tree dest \<and>
    mset (inorder (root (pending_tree dest'))) = mset (inorder (root (pending_tree dest))) +
      mset (map (moved_client (\<not> has_con source)) (inorder (root (pending_tree source)) @ inorder (root (client_tree source))))"
proof -
  have d: "avl_invar (pending_tree dest)" "compare_fun (pending_tree dest) = compare_clients" using assms(3) by (simp_all add: clients_ok_def)
  obtain p' d1 where 1: "move_loop fuel (\<not> has_con source) (pending_tree source) (pending_tree dest) 0 = Some (p', d1, 0 + length (inorder (root (pending_tree source))))"
    "root p' = Null" "avl_invar d1" "compare_fun d1 = compare_clients"
    "mset (inorder (root d1)) = mset (inorder (root (pending_tree dest))) + mset (map (moved_client (\<not> has_con source)) (inorder (root (pending_tree source))))"
    using move_loop_all [OF assms(1) d assms(8)] by blast
  obtain c' d2 where 2: "move_loop fuel (\<not> has_con source) (client_tree source) d1 (0 + length (inorder (root (pending_tree source))))
      = Some (c', d2, 0 + length (inorder (root (pending_tree source))) + length (inorder (root (client_tree source))))"
    "root c' = Null" "avl_invar d2"
    "mset (inorder (root d2)) = mset (inorder (root d1)) + mset (map (moved_client (\<not> has_con source)) (inorder (root (client_tree source))))"
    using move_loop_all [OF assms(2) 1(3,4) assms(9)] by blast
  have ne: "strcmp (smount source) (smount dest) \<noteq> 0" using assms(4) by simp
  have m: "source_move_clients fuel source dest =
      Some (source\<lparr>pending_tree := p', client_tree := c', slisteners := 0\<rparr>,
        dest\<lparr>pending_tree := d2, on_demand_req := (if \<not> srunning dest \<and> on_demand dest \<and>
          0 + length (inorder (root (pending_tree source))) + length (inorder (root (client_tree source))) \<noteq> 0 then True else on_demand_req dest)\<rparr>)"
    using ne assms(5-7) unfolding source_move_clients_def 1(1) option.case prod.case 2(1) by auto
  show ?thesis unfolding m using 1(2) 2(2,3) 2(4) [unfolded 1(5)] by simp
qed

theorem source_move_clients_spec_witness:
  "\<exists>source' dest'. source_move_clients 3 ((source_new ''/a'')\<lparr>sformat := Some 0, pending_tree := tree_insert (avl_tree_new compare_clients) demo_client\<rparr>)
      ((source_new ''/b'')\<lparr>sformat := Some 0, srunning := True\<rparr>) = Some (source', dest') \<and>
    mset (inorder (root (pending_tree dest'))) = {#moved_client True demo_client#}"
proof -
  let ?s = "(source_new ''/a'')\<lparr>sformat := Some 0, pending_tree := tree_insert (avl_tree_new compare_clients) demo_client\<rparr>"
  let ?d = "(source_new ''/b'')\<lparr>sformat := Some 0, srunning := True\<rparr>"
  have new: "clients_ok (avl_tree_new compare_clients)" by (simp add: clients_ok_def avl_tree_new_def avl_invar_def)
  have one: "inorder (root (tree_insert (avl_tree_new compare_clients) demo_client)) = [demo_client]"
    by (simp add: tree_insert_def avl_insert_def avl_tree_new_def avl_node_new_def)
  have ins: "clients_ok (tree_insert (avl_tree_new compare_clients) demo_client)"
    using tree_insert_ok(1,2) [of "avl_tree_new compare_clients" demo_client] new one compare_clients_ok
    by (simp add: clients_ok_def)
  have "clients_ok (pending_tree ?s)" "clients_ok (client_tree ?s)" "clients_ok (pending_tree ?d)"
    using new ins by (simp_all add: source_new_def)
  note source_move_clients_spec [OF this, of 0 3]
  then show ?thesis using one by (auto simp: source_new_def) (auto simp: avl_tree_new_def)
qed

end
