(* ===== verification/Md5.thy ===== *)
theory Md5
  imports Prelude
begin

unbundle bit_operations_syntax

text \<open>
  The MD5 digest of \<open>md5.c\<close>, which protects the passwords of the htpasswd files. \<open>MD5Init\<close>,
  \<open>MD5Update\<close> and \<open>MD5Final\<close> work on a context with the four chaining words, a 64-bit count
  of bits in two words, and a 64-byte input block. The result is compared with the algorithm
  as RFC 1321 gives it for a whole message. \<open>byteReverse\<close> reads four bytes at a time as a
  little-endian number: \<open>le_word\<close>; the block keeps its bytes, as on a little-endian machine.
\<close>

section \<open>The context and the transformation\<close>

record MD5Context =
  buf :: "u32 list"
  bits0 :: u32
  bits1 :: u32
  inblk :: "u8 list"

definition le_word :: "u8 list \<Rightarrow> u32" where
  "le_word b = push_bit 16 (push_bit 8 (ucast (b ! 3)) OR ucast (b ! 2)) OR (push_bit 8 (ucast (b ! 1)) OR ucast (b ! 0))"

definition byteReverse :: "u8 list \<Rightarrow> nat \<Rightarrow> u32 list" where
  "byteReverse b longs = map (\<lambda>i. le_word (take 4 (drop (4 * i) b))) [0..<longs]"

definition le_bytes :: "u32 \<Rightarrow> u8 list" where
  "le_bytes w = [ucast w, ucast (drop_bit 8 w), ucast (drop_bit 16 w), ucast (drop_bit 24 w)]"

definition F1 :: "u32 \<Rightarrow> u32 \<Rightarrow> u32 \<Rightarrow> u32" where "F1 x y z = z XOR (x AND (y XOR z))"
definition F2 :: "u32 \<Rightarrow> u32 \<Rightarrow> u32 \<Rightarrow> u32" where "F2 x y z = F1 z x y"
definition F3 :: "u32 \<Rightarrow> u32 \<Rightarrow> u32 \<Rightarrow> u32" where "F3 x y z = x XOR y XOR z"
definition F4 :: "u32 \<Rightarrow> u32 \<Rightarrow> u32 \<Rightarrow> u32" where "F4 x y z = y XOR (x OR NOT z)"

type_synonym md5_step = "(u32 \<Rightarrow> u32 \<Rightarrow> u32 \<Rightarrow> u32) \<times> nat \<times> u32 \<times> nat"

text \<open>
  One \<open>MD5STEP\<close>. Every call updates its first register and names the registers in the order
  of the call before it, rotated by one; the four registers are kept in that order.
\<close>

fun MD5STEP :: "u32 list \<Rightarrow> md5_step \<Rightarrow> u32 \<times> u32 \<times> u32 \<times> u32 \<Rightarrow> u32 \<times> u32 \<times> u32 \<times> u32" where
  "MD5STEP inp (f, k, c, s) (w, x, y, z) =
     (let w1 = w + (f x y z + (inp ! k + c));
          w2 = push_bit s w1 OR drop_bit (32 - s) w1;
          w3 = w2 + x
      in (z, w3, x, y))"

text \<open>The 64 calls of \<open>MD5Transform\<close>: function, index into the block, constant and shift.\<close>

definition md5_steps :: "md5_step list" where
  "md5_steps =
     [(F1, 0, 0xd76aa478, 7), (F1, 1, 0xe8c7b756, 12),
      (F1, 2, 0x242070db, 17), (F1, 3, 0xc1bdceee, 22),
      (F1, 4, 0xf57c0faf, 7), (F1, 5, 0x4787c62a, 12),
      (F1, 6, 0xa8304613, 17), (F1, 7, 0xfd469501, 22),
      (F1, 8, 0x698098d8, 7), (F1, 9, 0x8b44f7af, 12),
      (F1, 10, 0xffff5bb1, 17), (F1, 11, 0x895cd7be, 22),
      (F1, 12, 0x6b901122, 7), (F1, 13, 0xfd987193, 12),
      (F1, 14, 0xa679438e, 17), (F1, 15, 0x49b40821, 22),
      (F2, 1, 0xf61e2562, 5), (F2, 6, 0xc040b340, 9),
      (F2, 11, 0x265e5a51, 14), (F2, 0, 0xe9b6c7aa, 20),
      (F2, 5, 0xd62f105d, 5), (F2, 10, 0x02441453, 9),
      (F2, 15, 0xd8a1e681, 14), (F2, 4, 0xe7d3fbc8, 20),
      (F2, 9, 0x21e1cde6, 5), (F2, 14, 0xc33707d6, 9),
      (F2, 3, 0xf4d50d87, 14), (F2, 8, 0x455a14ed, 20),
      (F2, 13, 0xa9e3e905, 5), (F2, 2, 0xfcefa3f8, 9),
      (F2, 7, 0x676f02d9, 14), (F2, 12, 0x8d2a4c8a, 20),
      (F3, 5, 0xfffa3942, 4), (F3, 8, 0x8771f681, 11),
      (F3, 11, 0x6d9d6122, 16), (F3, 14, 0xfde5380c, 23),
      (F3, 1, 0xa4beea44, 4), (F3, 4, 0x4bdecfa9, 11),
      (F3, 7, 0xf6bb4b60, 16), (F3, 10, 0xbebfbc70, 23),
      (F3, 13, 0x289b7ec6, 4), (F3, 0, 0xeaa127fa, 11),
      (F3, 3, 0xd4ef3085, 16), (F3, 6, 0x04881d05, 23),
      (F3, 9, 0xd9d4d039, 4), (F3, 12, 0xe6db99e5, 11),
      (F3, 15, 0x1fa27cf8, 16), (F3, 2, 0xc4ac5665, 23),
      (F4, 0, 0xf4292244, 6), (F4, 7, 0x432aff97, 10),
      (F4, 14, 0xab9423a7, 15), (F4, 5, 0xfc93a039, 21),
      (F4, 12, 0x655b59c3, 6), (F4, 3, 0x8f0ccc92, 10),
      (F4, 10, 0xffeff47d, 15), (F4, 1, 0x85845dd1, 21),
      (F4, 8, 0x6fa87e4f, 6), (F4, 15, 0xfe2ce6e0, 10),
      (F4, 6, 0xa3014314, 15), (F4, 13, 0x4e0811a1, 21),
      (F4, 4, 0xf7537e82, 6), (F4, 11, 0xbd3af235, 10),
      (F4, 2, 0x2ad7d2bb, 15), (F4, 9, 0xeb86d391, 21)]"

definition MD5Transform :: "u32 list \<Rightarrow> u32 list \<Rightarrow> u32 list" where
  "MD5Transform b inp =
     (let (a', b', c', d') = fold (MD5STEP inp) md5_steps (b ! 0, b ! 1, b ! 2, b ! 3)
      in [b ! 0 + a', b ! 1 + b', b ! 2 + c', b ! 3 + d'])"

section \<open>Operations\<close>

definition MD5Init :: MD5Context where
  "MD5Init = \<lparr>buf = [0x67452301, 0xefcdab89, 0x98badcfe, 0x10325476], bits0 = 0, bits1 = 0, inblk = replicate 64 0\<rparr>"

definition memcpy_at :: "'a list \<Rightarrow> nat \<Rightarrow> 'a list \<Rightarrow> 'a list" where
  "memcpy_at dst off src = take off dst @ src @ drop (off + length src) dst"

text \<open>The loop over whole blocks, ending with the copy of the rest.\<close>

function update_blocks :: "MD5Context \<Rightarrow> u8 list \<Rightarrow> MD5Context" where
  "update_blocks ctx data =
     (if length data \<ge> 64 then
        let inp = memcpy_at (inblk ctx) 0 (take 64 data)
        in update_blocks (ctx\<lparr>inblk := inp, buf := MD5Transform (buf ctx) (byteReverse inp 16)\<rparr>) (drop 64 data)
      else ctx\<lparr>inblk := memcpy_at (inblk ctx) 0 data\<rparr>)"
  by auto

termination
  by (relation "measure (\<lambda>(ctx, data). length data)") auto

declare update_blocks.simps [simp del]

definition MD5Update :: "MD5Context \<Rightarrow> u8 list \<Rightarrow> MD5Context" where
  "MD5Update ctx data =
     (let len = of_nat (length data) :: u32;
          t0 = bits0 ctx;
          low = t0 + push_bit 3 len;
          high = (if low < t0 then bits1 ctx + 1 else bits1 ctx) + drop_bit 29 len;
          ctx1 = ctx\<lparr>bits0 := low, bits1 := high\<rparr>;
          t = unat (drop_bit 3 t0 AND 0x3f)
      in if t \<noteq> 0 then
           if length data < 64 - t then ctx1\<lparr>inblk := memcpy_at (inblk ctx1) t data\<rparr>
           else
             let inp = memcpy_at (inblk ctx1) t (take (64 - t) data)
             in update_blocks (ctx1\<lparr>inblk := inp, buf := MD5Transform (buf ctx1) (byteReverse inp 16)\<rparr>) (drop (64 - t) data)
         else update_blocks ctx1 data)"

text \<open>
  \<open>memset(ctx, 0, sizeof(ctx))\<close> clears as many bytes as a pointer has: on a 64-bit machine
  the first two words of \<open>buf\<close>.
\<close>

definition MD5Final :: "MD5Context \<Rightarrow> u8 list \<times> MD5Context" where
  "MD5Final ctx =
     (let count = unat (drop_bit 3 (bits0 ctx) AND 0x3F);
          inp1 = memcpy_at (inblk ctx) count [0x80];
          room = 64 - 1 - count;
          (b, inp2) =
            (if room < 8 then
               let full = memcpy_at inp1 (count + 1) (replicate room 0)
               in (MD5Transform (buf ctx) (byteReverse full 16), memcpy_at full 0 (replicate 56 0))
             else (buf ctx, memcpy_at inp1 (count + 1) (replicate (room - 8) 0)));
          words = byteReverse inp2 14 @ [bits0 ctx, bits1 ctx];
          b' = MD5Transform b words
      in (concat (map le_bytes b'), ctx\<lparr>buf := [0, 0] @ drop 2 b', inblk := take 56 inp2 @ le_bytes (bits0 ctx) @ le_bytes (bits1 ctx)\<rparr>))"

text \<open>The digest of a message handed over in pieces.\<close>

definition md5_digest :: "u8 list list \<Rightarrow> u8 list" where
  "md5_digest pieces = fst (MD5Final (fold (\<lambda>d ctx. MD5Update ctx d) pieces MD5Init))"

section \<open>Reference\<close>

definition rotate_left32 :: "nat \<Rightarrow> u32 \<Rightarrow> u32" where
  "rotate_left32 s w = word_rotl s w"

definition md5_K :: "u32 list" where
  "md5_K = [0xd76aa478, 0xe8c7b756, 0x242070db, 0xc1bdceee, 0xf57c0faf, 0x4787c62a, 0xa8304613, 0xfd469501,
      0x698098d8, 0x8b44f7af, 0xffff5bb1, 0x895cd7be, 0x6b901122, 0xfd987193, 0xa679438e, 0x49b40821,
      0xf61e2562, 0xc040b340, 0x265e5a51, 0xe9b6c7aa, 0xd62f105d, 0x02441453, 0xd8a1e681, 0xe7d3fbc8,
      0x21e1cde6, 0xc33707d6, 0xf4d50d87, 0x455a14ed, 0xa9e3e905, 0xfcefa3f8, 0x676f02d9, 0x8d2a4c8a,
      0xfffa3942, 0x8771f681, 0x6d9d6122, 0xfde5380c, 0xa4beea44, 0x4bdecfa9, 0xf6bb4b60, 0xbebfbc70,
      0x289b7ec6, 0xeaa127fa, 0xd4ef3085, 0x04881d05, 0xd9d4d039, 0xe6db99e5, 0x1fa27cf8, 0xc4ac5665,
      0xf4292244, 0x432aff97, 0xab9423a7, 0xfc93a039, 0x655b59c3, 0x8f0ccc92, 0xffeff47d, 0x85845dd1,
      0x6fa87e4f, 0xfe2ce6e0, 0xa3014314, 0x4e0811a1, 0xf7537e82, 0xbd3af235, 0x2ad7d2bb, 0xeb86d391]"

definition md5_shift :: "nat \<Rightarrow> nat" where
  "md5_shift i = [[7, 12, 17, 22], [5, 9, 14, 20], [4, 11, 16, 23], [6, 10, 15, 21]] ! (i div 16) ! (i mod 4)"

definition md5_index :: "nat \<Rightarrow> nat" where
  "md5_index i = (if i < 16 then i else if i < 32 then (5 * i + 1) mod 16
     else if i < 48 then (3 * i + 5) mod 16 else (7 * i) mod 16)"

definition md5_aux :: "nat \<Rightarrow> u32 \<Rightarrow> u32 \<Rightarrow> u32 \<Rightarrow> u32" where
  "md5_aux i x y z =
     (if i < 16 then (x AND y) OR (NOT x AND z)
      else if i < 32 then (x AND z) OR (y AND NOT z)
      else if i < 48 then x XOR y XOR z
      else y XOR (x OR NOT z))"

definition md5_round :: "u32 list \<Rightarrow> nat \<Rightarrow> u32 \<times> u32 \<times> u32 \<times> u32 \<Rightarrow> u32 \<times> u32 \<times> u32 \<times> u32" where
  "md5_round m i = (\<lambda>(a, b, c, d).
     (d, b + rotate_left32 (md5_shift i) (a + md5_aux i b c d + m ! md5_index i + md5_K ! i), b, c))"

definition md5_block :: "u8 list \<Rightarrow> u32 list \<Rightarrow> u32 list" where
  "md5_block blk h =
     (let m = map (\<lambda>i. le_word (take 4 (drop (4 * i) blk))) [0..<16];
          (a, b, c, d) = fold (md5_round m) [0..<64] (h ! 0, h ! 1, h ! 2, h ! 3)
      in [h ! 0 + a, h ! 1 + b, h ! 2 + c, h ! 3 + d])"

fun md5_chunks :: "nat \<Rightarrow> u8 list \<Rightarrow> u8 list list" where
  "md5_chunks 0 m = []"
| "md5_chunks (Suc n) m = take 64 m # md5_chunks n (drop 64 m)"

definition md5_pad :: "u8 list \<Rightarrow> u8 list" where
  "md5_pad m =
     (let len = of_nat (8 * length m) :: u64
      in m @ [0x80] @ replicate ((55 + 64 - length m mod 64) mod 64) 0 @
         map (\<lambda>i. ucast (drop_bit (8 * i) len)) [0..<8])"

definition md5_reference :: "u8 list \<Rightarrow> u8 list" where
  "md5_reference m =
     concat (map le_bytes (fold md5_block (md5_chunks (length (md5_pad m) div 64) (md5_pad m)) (buf MD5Init)))"

section \<open>The transformation is the reference's\<close>

lemma F1_select: "F1 x y z = (x AND y) OR (NOT x AND z)"
  by (rule bit_eqI) (auto simp: F1_def bit_simps)

lemma F2_select: "F2 x y z = (x AND z) OR (y AND NOT z)"
  by (rule bit_eqI) (auto simp: F2_def F1_def bit_simps)

lemma rotate_shift:
  fixes w :: u32
  assumes "0 < s" "s < 32"
  shows "push_bit s w OR drop_bit (32 - s) w = rotate_left32 s w"
proof (rule bit_word_eqI)
  fix n assume "n < LENGTH(32)"
  then have n: "n < 32" by simp
  show "bit (push_bit s w OR drop_bit (32 - s) w) n = bit (rotate_left32 s w) n"
  proof (cases "n < s")
    case True
    then have "(n + (32 - s)) mod 32 = 32 - s + n" using assms by simp
    then show ?thesis using True n assms by (simp add: rotate_left32_def bit_word_rotl_iff bit_simps)
  next
    case False
    then have "(n + (32 - s)) mod 32 = n - s" "\<not> bit w (32 - s + n)" "n + (32 - s) \<ge> 32"
      using assms n bit_imp_le_length [of w "32 - s + n"] by (auto simp: mod_if)
    then show ?thesis using False n assms by (simp add: rotate_left32_def bit_word_rotl_iff bit_simps)
  qed
qed

definition md5_F :: "nat \<Rightarrow> u32 \<Rightarrow> u32 \<Rightarrow> u32 \<Rightarrow> u32" where
  "md5_F i = (if i < 16 then F1 else if i < 32 then F2 else if i < 48 then F3 else F4)"

lemma md5_F_aux: "md5_F i x y z = md5_aux i x y z"
  by (auto simp: md5_F_def md5_aux_def F1_select F2_select F3_def F4_def)

lemma upt_64: "[0..<64] = [0,1,2,3,4,5,6,7,8,9,10,11,12,13,14,15,16,17,18,19,20,21,22,23,24,25,26,27,28,29,30,31,
  32,33,34,35,36,37,38,39,40,41,42,43,44,45,46,47,48,49,50,51,52,53,54,55,56,57,58,59,60,61,62,63]"
  by (simp add: upt_rec)

lemma md5_steps_rows: "md5_steps = map (\<lambda>i. (md5_F i, md5_index i, md5_K ! i, md5_shift i)) [0..<64]"
  unfolding upt_64 md5_steps_def
  by (simp add: md5_F_def md5_index_def md5_K_def md5_shift_def)

lemma md5_shift_range: "i < 64 \<Longrightarrow> 0 < md5_shift i \<and> md5_shift i < 32"
proof -
  assume "i < 64"
  then have "i div 16 < 4" "i mod 4 < 4" by auto
  then have "i div 16 \<in> {0, 1, 2, 3}" "i mod 4 \<in> {0, 1, 2, 3}" by auto
  then show ?thesis by (auto simp: md5_shift_def)
qed

lemma MD5STEP_round: "i < 64 \<Longrightarrow> MD5STEP m (md5_F i, md5_index i, md5_K ! i, md5_shift i) st = md5_round m i st"
  using md5_shift_range [of i]
  by (cases st) (simp add: md5_round_def md5_F_aux rotate_shift ac_simps Let_def)

lemma md5_rounds: "fold (MD5STEP m) md5_steps st = fold (md5_round m) [0..<64] st"
proof -
  have "fold (MD5STEP m) md5_steps st = fold (\<lambda>i. MD5STEP m (md5_F i, md5_index i, md5_K ! i, md5_shift i)) [0..<64] st"
    by (simp add: md5_steps_rows fold_map comp_def del: upt_Suc)
  also have "\<dots> = fold (md5_round m) [0..<64] st"
    by (rule fold_cong) (auto simp: MD5STEP_round fun_eq_iff)
  finally show ?thesis .
qed

lemma MD5Transform_block: "MD5Transform h (byteReverse blk 16) = md5_block blk h"
  by (simp add: MD5Transform_def md5_block_def md5_rounds byteReverse_def del: upt_Suc)

section \<open>Buffering\<close>

text \<open>The chaining value after the whole blocks of a message, and the bytes left over.\<close>

function absorb :: "u32 list \<Rightarrow> u8 list \<Rightarrow> u32 list \<times> u8 list" where
  "absorb h m = (if length m \<ge> 64 then absorb (md5_block (take 64 m) h) (drop 64 m) else (h, m))"
  by auto

termination
  by (relation "measure (\<lambda>(h, m). length m)") auto

declare absorb.simps [simp del]

lemma absorb_append: "absorb h (m @ d) = (case absorb h m of (h', r) \<Rightarrow> absorb h' (r @ d))"
proof (induction h m rule: absorb.induct)
  case (1 h m)
  show ?case
  proof (cases "length m \<ge> 64")
    case True
    then have "absorb h (m @ d) = absorb (md5_block (take 64 m) h) (drop 64 m @ d)" by (subst absorb.simps) simp
    with 1 True show ?thesis by (simp add: absorb.simps [of h m])
  qed (simp add: absorb.simps [of h m])
qed

lemma absorb_rest: "absorb h m = (h', r) \<Longrightarrow> length r = length m mod 64 \<and> length r < 64"
proof (induction h m arbitrary: h' r rule: absorb.induct)
  case (1 h m)
  show ?case
  proof (cases "length m \<ge> 64")
    case True
    then have "absorb (md5_block (take 64 m) h) (drop 64 m) = (h', r)" using 1(2) by (simp add: absorb.simps [of h m])
    from 1(1) [OF True this] True show ?thesis by (simp add: le_mod_geq)
  next
    case False
    then show ?thesis using 1(2) by (simp add: absorb.simps [of h m])
  qed
qed

text \<open>What a context stands for.\<close>

definition md5_holds :: "MD5Context \<Rightarrow> u8 list \<Rightarrow> bool" where
  "md5_holds ctx m \<longleftrightarrow> length (inblk ctx) = 64 \<and>
     absorb (buf MD5Init) m = (buf ctx, take (length m mod 64) (inblk ctx)) \<and>
     (ucast (bits1 ctx) :: u64) * 2 ^ 32 + ucast (bits0 ctx) = of_nat (8 * length m)"

lemma update_blocks_absorb:
  assumes "length (inblk ctx) = 64" and "absorb (buf ctx) data = (h, r)"
  shows "\<exists>blk. update_blocks ctx data = ctx\<lparr>buf := h, inblk := blk\<rparr> \<and> length blk = 64 \<and> take (length r) blk = r"
  using assms
proof (induction ctx data rule: update_blocks.induct)
  case (1 ctx data)
  show ?case
  proof (cases "length data \<ge> 64")
    case True
    let ?inp = "memcpy_at (inblk ctx) 0 (take 64 data)"
    have inp: "?inp = take 64 data" using True 1(2) by (simp add: memcpy_at_def)
    have "absorb (md5_block (take 64 data) (buf ctx)) (drop 64 data) = (h, r)"
      using 1(3) True by (simp add: absorb.simps [of "buf ctx" data])
    then show ?thesis
      using 1(1) [OF True refl] True by (simp add: update_blocks.simps [of ctx data] inp MD5Transform_block Let_def)
  next
    case False
    then have "h = buf ctx" "r = data" using 1(3) by (auto simp: absorb.simps [of "buf ctx" data])
    with False 1(2) show ?thesis
      by (intro exI [of _ "memcpy_at (inblk ctx) 0 data"]) (simp add: update_blocks.simps [of ctx data] memcpy_at_def)
  qed
qed

text \<open>The bit count.\<close>

lemma ucast_nat: "(ucast w :: u64) = of_nat (unat w)" for w :: u32
  by (simp add: unsigned_ucast_eq word_unat_eq_iff)

lemma high_add: "(ucast (a + b :: u32) :: u64) * 2 ^ 32 = ucast a * 2 ^ 32 + ucast b * 2 ^ 32"
proof -
  let ?n = "unat a + unat b"
  have "(of_nat (k mod 2 ^ 64) :: u64) = of_nat k" for k
    by (simp add: word_of_nat_eq_iff take_bit_eq_mod)
  then have "(of_nat (?n * 2 ^ 32 mod 2 ^ 64) :: u64) = of_nat (?n * 2 ^ 32)" .
  moreover have "?n * 2 ^ 32 mod 2 ^ 64 = ?n mod 2 ^ 32 * 2 ^ 32"
    using mult_mod_left [of ?n "2 ^ 32" "2 ^ 32"] by (simp only: power_add [symmetric]) simp
  moreover have "unat (a + b) = ?n mod 2 ^ 32" by (simp add: unat_word_ariths)
  ultimately have "(of_nat (unat (a + b) * 2 ^ 32) :: u64) = of_nat (?n * 2 ^ 32)" by (simp only:)
  then show ?thesis by (simp only: ucast_nat of_nat_mult of_nat_add of_nat_power of_nat_numeral distrib_right)
qed

lemma low_add:
  fixes a b :: u32
  shows "(ucast a :: u64) + ucast b = (if a + b < a then 2 ^ 32 else 0) + ucast (a + b)"
proof -
  have r: "unat a < 2 ^ 32" "unat b < 2 ^ 32" using unsigned_less [of a] unsigned_less [of b] by auto
  have less: "a + b < a \<longleftrightarrow> \<not> unat a + unat b < 2 ^ 32"
    using r by (auto simp: word_less_nat_alt unat_word_ariths mod_if)
  show ?thesis
  proof (cases "unat a + unat b < 2 ^ 32")
    case True
    then have "unat (a + b) = unat a + unat b" by (simp add: unat_word_ariths)
    then show ?thesis using True less r
      by (simp add: word_unat_eq_iff unat_word_ariths unsigned_ucast_eq take_bit_nat_eq_self)
  next
    case False
    then have "unat (a + b) + 2 ^ 32 = unat a + unat b"
      using r mod_less [of "unat a + unat b - 2 ^ 32" "2 ^ 32"] by (simp add: unat_word_ariths le_mod_geq)
    then have "(of_nat (unat (a + b)) :: u64) + 2 ^ 32 = of_nat (unat a) + of_nat (unat b)"
      by (metis of_nat_add of_nat_power of_nat_numeral)
    then show ?thesis using False less by (simp only: ucast_nat if_True not_False_eq_True) (simp only: add.commute)
  qed
qed

lemma len_split:
  assumes "n < 2 ^ 32"
  shows "(ucast (push_bit 3 (of_nat n :: u32)) :: u64) + ucast (drop_bit 29 (of_nat n :: u32)) * 2 ^ 32 = of_nat (8 * n)"
proof -
  have 1: "unat (push_bit 3 (of_nat n :: u32)) = 8 * n mod 2 ^ 32"
    by (simp add: push_bit_eq_mult unat_word_ariths unat_of_nat mult.commute take_bit_eq_mod mod_mult_right_eq)
  have 2: "unat (drop_bit 29 (of_nat n :: u32)) = n div 2 ^ 29"
    unfolding unat_drop_bit_eq using assms by (simp add: drop_bit_eq_div unat_of_nat take_bit_nat_eq_self)
  have "8 * n mod 2 ^ 32 + n div 2 ^ 29 * 2 ^ 32 = 8 * n"
  proof -
    have "8 * n mod 2 ^ 32 = 8 * (n mod 2 ^ 29)" using mult_mod_right [of 8 n "2 ^ 29"] by simp
    moreover have "8 * (n mod 2 ^ 29) + n div 2 ^ 29 * (8 * 2 ^ 29) = 8 * (n div 2 ^ 29 * 2 ^ 29 + n mod 2 ^ 29)"
      by (simp only: distrib_left ac_simps)
    ultimately show ?thesis unfolding div_mult_mod_eq by simp
  qed
  then have "(of_nat (8 * n mod 2 ^ 32) :: u64) + of_nat (n div 2 ^ 29) * 2 ^ 32 = of_nat (8 * n)"
    by (metis of_nat_add of_nat_mult of_nat_power of_nat_numeral)
  then show ?thesis by (simp only: 1 2 ucast_nat)
qed

lemma bit_count:
  fixes lo hi :: u32
  assumes "n < 2 ^ 32"
  defines "len \<equiv> of_nat n :: u32"
  defines "lo' \<equiv> lo + push_bit 3 len"
  shows "(ucast ((if lo' < lo then hi + 1 else hi) + drop_bit 29 len) :: u64) * 2 ^ 32 + ucast lo' =
    ucast hi * 2 ^ 32 + ucast lo + of_nat (8 * n)"
proof -
  have low: "(ucast lo :: u64) + ucast (push_bit 3 len) = (if lo' < lo then 2 ^ 32 else 0) + ucast lo'"
    unfolding lo'_def by (rule low_add)
  have one: "(ucast (1 :: u32) :: u64) = 1" by simp
  have "(ucast ((if lo' < lo then hi + 1 else hi) + drop_bit 29 len) :: u64) * 2 ^ 32 =
      ucast hi * 2 ^ 32 + (if lo' < lo then 2 ^ 32 else 0) + ucast (drop_bit 29 len) * 2 ^ 32"
    unfolding high_add by (cases "lo' < lo") (simp_all only: if_True if_False high_add one mult_1 add_0_right)
  then have "(ucast ((if lo' < lo then hi + 1 else hi) + drop_bit 29 len) :: u64) * 2 ^ 32 + ucast lo' =
      ucast hi * 2 ^ 32 + (ucast lo + ucast (push_bit 3 len)) + ucast (drop_bit 29 len) * 2 ^ 32"
    unfolding low by (simp only: ac_simps)
  also have "\<dots> = ucast hi * 2 ^ 32 + ucast lo + of_nat (8 * n)"
    unfolding len_split [OF assms(1), folded len_def, symmetric] by (simp only: ac_simps)
  finally show ?thesis .
qed


lemma count_bytes:
  assumes "(ucast (hi :: u32) :: u64) * 2 ^ 32 + ucast (lo :: u32) = of_nat (8 * n)"
  shows "unat (drop_bit 3 lo AND 0x3f) = n mod 64"
proof -
  let ?x = "unat hi * 2 ^ 32 + unat lo"
  have r: "unat hi < 2 ^ 32" "unat lo < 2 ^ 32" using unsigned_less [of hi] unsigned_less [of lo] by auto
  have "(of_nat ?x :: u64) = of_nat (8 * n)"
    using assms by (simp only: ucast_nat of_nat_mult of_nat_add of_nat_power of_nat_numeral)
  then have "?x mod 2 ^ 64 = 8 * n mod 2 ^ 64" by (simp only: word_of_nat_eq_iff take_bit_eq_mod) simp
  then have "?x mod 2 ^ 64 mod 2 ^ 32 = 8 * n mod 2 ^ 64 mod 2 ^ 32" by (simp only:)
  then have "?x mod 2 ^ 32 = 8 * n mod 2 ^ 32"
    by (simp only: mod_mod_cancel [OF le_imp_power_dvd [of 32 64]] numeral_le_iff semiring_norm) 
  moreover have "?x mod 2 ^ 32 = unat lo" using r(2) by (simp only: mod_mult_self3 mod_less)
  moreover have "8 * n mod 2 ^ 32 = 8 * (n mod 2 ^ 29)" using mult_mod_right [of 8 n "2 ^ 29"] by simp
  ultimately have lo: "unat lo = 8 * (n mod 2 ^ 29)" by (simp only:)
  have "drop_bit 3 lo AND 0x3f = take_bit 6 (drop_bit 3 lo)" by (simp add: take_bit_eq_mask mask_eq_exp_minus_1)
  then have "unat (drop_bit 3 lo AND 0x3f) = (unat lo div 8) mod 64"
    by (simp only: unsigned_take_bit_eq unat_drop_bit_eq) (simp add: take_bit_eq_mod drop_bit_eq_div)
  also have "\<dots> = n mod 2 ^ 29 mod 2 ^ 6" unfolding lo by simp
  also have "\<dots> = n mod 64" by (subst mod_mod_cancel) (simp_all add: le_imp_power_dvd)
  finally show ?thesis .
qed

lemma MD5Update_holds:
  assumes holds: "md5_holds ctx m" and len: "length data < 2 ^ 32"
  shows "md5_holds (MD5Update ctx data) (m @ data)"
proof -
  let ?len = "of_nat (length data) :: u32"
  define low where "low = bits0 ctx + push_bit 3 ?len"
  define high where "high = (if low < bits0 ctx then bits1 ctx + 1 else bits1 ctx) + drop_bit 29 ?len"
  define t where "t = length m mod 64"
  let ?ctx = "ctx\<lparr>bits0 := low, bits1 := high\<rparr>"
  have blk: "length (inblk ctx) = 64" and abs: "absorb (buf MD5Init) m = (buf ctx, take t (inblk ctx))"
    and cnt: "(ucast (bits1 ctx) :: u64) * 2 ^ 32 + ucast (bits0 ctx) = of_nat (8 * length m)"
    using holds by (auto simp: md5_holds_def t_def)
  have t: "unat (drop_bit 3 (bits0 ctx) AND 0x3f) = t" "t < 64" using count_bytes [OF cnt] by (auto simp: t_def)
  have "(ucast high :: u64) * 2 ^ 32 + ucast low = of_nat (8 * length m) + of_nat (8 * length data)"
    unfolding cnt [symmetric] high_def low_def using bit_count [OF len] by simp
  then have cnt': "(ucast high :: u64) * 2 ^ 32 + ucast low = of_nat (8 * length (m @ data))"
    by (simp only: length_append distrib_left of_nat_add)
  obtain h r where run: "absorb (buf ctx) (take t (inblk ctx) @ data) = (h, r)" by fastforce
  then have all: "absorb (buf MD5Init) (m @ data) = (h, r)" using absorb_append [of "buf MD5Init" m data] abs by simp
  then have r: "length r = length (m @ data) mod 64" using absorb_rest by blast
  have res: "\<exists>b. MD5Update ctx data = ?ctx\<lparr>buf := h, inblk := b\<rparr> \<and> length b = 64 \<and> take (length r) b = r"
  proof (cases "t \<noteq> 0 \<and> length data < 64 - t")
    case True
    then have "\<not> length (take t (inblk ctx) @ data) \<ge> 64" by auto
    then have "h = buf ctx" "r = take t (inblk ctx) @ data" using run by (simp_all add: absorb.simps [of "buf ctx"])
    moreover have "MD5Update ctx data = ?ctx\<lparr>inblk := memcpy_at (inblk ctx) t data\<rparr>"
      using True t by (simp add: MD5Update_def low_def high_def Let_def)
    moreover have "min 64 t = t" using t(2) by simp
    ultimately show ?thesis using True blk
      by (intro exI [of _ "memcpy_at (inblk ctx) t data"]) (auto simp: memcpy_at_def)
  next
    case False
    define inp where "inp = memcpy_at (inblk ctx) t (take (64 - t) data)"
    let ?c = "if t = 0 then ?ctx else ?ctx\<lparr>inblk := inp, buf := md5_block inp (buf ctx)\<rparr>"
    have upd: "MD5Update ctx data = update_blocks ?c (if t = 0 then data else drop (64 - t) data)"
      using False t by (cases "t = 0") (simp_all add: MD5Update_def low_def high_def Let_def MD5Transform_block inp_def)
    have inp: "t \<noteq> 0 \<Longrightarrow> inp = take t (inblk ctx) @ take (64 - t) data"
      using False t blk by (auto simp: inp_def memcpy_at_def)
    have "absorb (buf ?c) (if t = 0 then data else drop (64 - t) data) = (h, r)"
    proof (cases "t = 0")
      case True
      with run show ?thesis by simp
    next
      case t0: False
      then have full: "length (take t (inblk ctx) @ data) \<ge> 64" using False blk t(2) by simp
      have "take 64 (take t (inblk ctx) @ data) = inp" "drop 64 (take t (inblk ctx) @ data) = drop (64 - t) data"
        using inp [OF t0] blk t(2) by auto
      with run full t0 show ?thesis by (subst (asm) absorb.simps) simp
    qed
    moreover have "length (inblk ?c) = 64" using inp False blk t(2) by auto
    ultimately obtain b where "update_blocks ?c (if t = 0 then data else drop (64 - t) data) = ?c\<lparr>buf := h, inblk := b\<rparr>"
      "length b = 64" "take (length r) b = r"
      using update_blocks_absorb by blast
    then show ?thesis unfolding upd by (intro exI [of _ b]) simp
  qed
  then obtain b where "MD5Update ctx data = ?ctx\<lparr>buf := h, inblk := b\<rparr>" "length b = 64" "take (length r) b = r" by blast
  then show ?thesis using all cnt' r by (simp add: md5_holds_def)
qed

lemma MD5Init_holds: "md5_holds MD5Init []"
  by (simp add: md5_holds_def absorb.simps) (simp add: MD5Init_def)

lemma updates_hold:
  "md5_holds ctx m \<Longrightarrow> \<forall>d\<in>set pieces. length d < 2 ^ 32 \<Longrightarrow>
   md5_holds (fold (\<lambda>d ctx. MD5Update ctx d) pieces ctx) (m @ concat pieces)"
  by (induction pieces arbitrary: ctx m) (use MD5Update_holds in fastforce)+

text \<open>The reference as the same absorption of the padded message.\<close>

lemma absorb_chunks:
  "length m = 64 * n \<Longrightarrow> absorb h m = (fold md5_block (md5_chunks n m) h, [])"
proof (induction n arbitrary: m h)
  case 0
  then show ?case by (simp add: absorb.simps)
next
  case (Suc n)
  then show ?case by (subst absorb.simps) simp
qed


lemma le_word_bytes: "le_word (le_bytes w) = w"
proof (rule bit_word_eqI)
  fix n assume "n < LENGTH(32)"
  then have "n < 32" by simp
  then consider "n < 8" | "8 \<le> n" "n < 16" | "16 \<le> n" "n < 24" | "24 \<le> n" "n < 32" by linarith
  then show "bit (le_word (le_bytes w)) n = bit w n"
    by cases (auto simp: le_word_def le_bytes_def bit_simps)
qed

lemma byteReverse_prefix: "4 * n \<le> length xs \<Longrightarrow> byteReverse (xs @ ys) n = byteReverse xs n"
  by (auto simp: byteReverse_def)

lemma byteReverse_append:
  assumes "length xs = 56"
  shows "byteReverse (xs @ le_bytes a @ le_bytes b) 16 = byteReverse xs 14 @ [a, b]"
proof -
  let ?ys = "xs @ le_bytes a @ le_bytes b"
  have "byteReverse ?ys 16 = byteReverse ?ys 14 @ [le_word (take 4 (drop 56 ?ys)), le_word (take 4 (drop 60 ?ys))]"
    by (simp add: byteReverse_def numeral_eq_Suc)
  moreover have "take 4 (drop 56 ?ys) = le_bytes a" "take 4 (drop 60 ?ys) = le_bytes b"
    using assms by (simp_all add: le_bytes_def)
  ultimately show ?thesis using assms byteReverse_prefix [of 14 xs] by (simp add: le_word_bytes)
qed

lemma length_bytes:
  fixes hi lo :: u32
  assumes "(ucast hi :: u64) * 2 ^ 32 + ucast lo = len"
  shows "map (\<lambda>i. ucast (drop_bit (8 * i) len)) [0..<8] = le_bytes lo @ le_bytes hi"
proof -
  have "push_bit 32 (ucast hi :: u64) OR ucast lo = push_bit 32 (ucast hi) + ucast lo"
    by (rule disjunctive_add [symmetric]) (auto simp: bit_simps dest: bit_imp_le_length)
  then have len: "len = push_bit 32 (ucast hi) OR ucast lo" using assms by (simp add: push_bit_eq_mult)
  have lo: "(ucast (drop_bit n len) :: u8) = ucast (drop_bit n lo)" if "n \<le> 24" for n
    unfolding len by (rule bit_word_eqI) (use that in \<open>auto simp: bit_simps\<close>)
  have hi: "(ucast (drop_bit (32 + n) len) :: u8) = ucast (drop_bit n hi)" if "n \<le> 24" for n
    unfolding len by (rule bit_word_eqI) (use that in \<open>auto simp: bit_simps dest: bit_imp_le_length\<close>)
  show ?thesis
    using lo [of 0] lo [of 8] lo [of 16] lo [of 24] hi [of 0] hi [of 8] hi [of 16] hi [of 24]
    by (simp add: le_bytes_def upt_rec)
qed

lemma MD5Final_reference:
  assumes "md5_holds ctx m"
  shows "fst (MD5Final ctx) = md5_reference m"
proof -
  define c where "c = length m mod 64"
  define r where "r = take c (inblk ctx)"
  define tail where "tail = le_bytes (bits0 ctx) @ le_bytes (bits1 ctx)"
  have blk: "length (inblk ctx) = 64" and abs: "absorb (buf MD5Init) m = (buf ctx, r)"
    and cnt: "(ucast (bits1 ctx) :: u64) * 2 ^ 32 + ucast (bits0 ctx) = of_nat (8 * length m)"
    using assms by (auto simp: md5_holds_def c_def r_def)
  have c: "unat (drop_bit 3 (bits0 ctx) AND 0x3F) = c" "c < 64" "length r = c"
    using count_bytes [OF cnt] blk by (auto simp: c_def r_def)
  define k where "k = (55 + 64 - c) mod 64"
  have tail: "length tail = 8" by (simp add: tail_def le_bytes_def)
  have pad: "md5_pad m = m @ [0x80] @ replicate k 0 @ tail"
    unfolding md5_pad_def Let_def length_bytes [OF cnt] tail_def k_def c_def ..
  have "(length m + (9 + k)) mod 64 = (c + (9 + k)) mod 64" by (simp add: c_def mod_add_left_eq)
  also have "\<dots> = 0" using c(2) by (cases "c \<le> 55") (auto simp: k_def mod_if)
  finally have "length (md5_pad m) mod 64 = 0" by (simp add: pad tail)
  then have len: "length (md5_pad m) = 64 * (length (md5_pad m) div 64)" by presburger
  have ref: "md5_reference m = concat (map le_bytes (fst (absorb (buf ctx) (r @ [0x80] @ replicate k 0 @ tail))))"
    using absorb_chunks [OF len] absorb_append [of "buf MD5Init" m "[0x80] @ replicate k 0 @ tail"] abs pad
    by (simp add: md5_reference_def) (metis fst_conv)
  have one: "absorb h b = (md5_block b h, [])" if "length b = 64" for h b
    using that by (simp add: absorb.simps [of h b] absorb.simps [of _ "[]"])
  have inp1: "memcpy_at (inblk ctx) c [0x80] = r @ [0x80] @ drop (c + 1) (inblk ctx)"
    by (simp add: memcpy_at_def r_def)
  show ?thesis
  proof (cases "c \<le> 55")
    case True
    then have k: "k = 55 - c" by (simp add: k_def mod_if)
    define x where "x = r @ [0x80] @ replicate k 0"
    have x: "length x = 56" using True c(3) by (simp add: x_def k)
    have inp2: "memcpy_at (memcpy_at (inblk ctx) c [0x80]) (c + 1) (replicate (64 - 1 - c - 8) 0) = x @ drop 56 (inblk ctx)"
    proof -
      have "drop (c + 1 + (55 - c)) (r @ [0x80] @ drop (c + 1) (inblk ctx)) = drop 56 (inblk ctx)"
        using True c(3) Suc_diff_le [OF True] by simp
      then show ?thesis unfolding inp1 using True c(3) by (simp only: memcpy_at_def x_def k) simp
    qed
    have "fst (MD5Final ctx) = concat (map le_bytes (MD5Transform (buf ctx)
        (byteReverse (x @ drop 56 (inblk ctx)) 14 @ [bits0 ctx, bits1 ctx])))"
    proof -
      have "\<not> 64 - 1 - c < 8" using True by simp
      then show ?thesis unfolding MD5Final_def c(1) Let_def inp2 by (simp only: if_False prod.case inp2 fst_conv)
    qed
    also have "byteReverse (x @ drop 56 (inblk ctx)) 14 @ [bits0 ctx, bits1 ctx] = byteReverse (x @ tail) 16"
      using byteReverse_append [OF x] byteReverse_prefix [of 14 x] x by (simp add: tail_def)
    finally show ?thesis unfolding ref MD5Transform_block using one [of "x @ tail"] x tail by (simp add: x_def)
  next
    case False
    then have k: "k = (63 - c) + 56" using c(2) by (simp add: k_def mod_if)
    define x where "x = r @ [0x80] @ replicate (63 - c) 0"
    have x: "length x = 64" using False c(2,3) by (simp add: x_def)
    have full: "memcpy_at (memcpy_at (inblk ctx) c [0x80]) (c + 1) (replicate (64 - 1 - c) 0) = x"
      unfolding inp1 using False c(2,3) blk by (simp add: memcpy_at_def x_def)
    have zero: "memcpy_at x 0 (replicate 56 0) = replicate 56 0 @ drop 56 x" by (simp add: memcpy_at_def)
    have "fst (MD5Final ctx) = concat (map le_bytes (MD5Transform (MD5Transform (buf ctx) (byteReverse x 16))
        (byteReverse (replicate 56 0 @ drop 56 x) 14 @ [bits0 ctx, bits1 ctx])))"
    proof -
      have "64 - 1 - c < 8" using False by simp
      then show ?thesis unfolding MD5Final_def c(1) Let_def full zero by (simp only: if_True prod.case full zero fst_conv)
    qed
    also have "byteReverse (replicate 56 0 @ drop 56 x) 14 @ [bits0 ctx, bits1 ctx] = byteReverse (replicate 56 0 @ tail) 16"
      using byteReverse_append [of "replicate 56 0"] byteReverse_prefix [of 14 "replicate 56 0"] by (simp add: tail_def)
    finally have final: "fst (MD5Final ctx) = concat (map le_bytes (md5_block (replicate 56 0 @ tail) (md5_block x (buf ctx))))"
      by (simp only: MD5Transform_block)
    have "r @ [0x80] @ replicate k 0 @ tail = x @ replicate 56 0 @ tail" by (simp add: x_def k replicate_add)
    moreover have "absorb (buf ctx) (x @ replicate 56 0 @ tail) = (md5_block (replicate 56 0 @ tail) (md5_block x (buf ctx)), [])"
      using absorb_append [of "buf ctx" x "replicate 56 0 @ tail"] one [OF x] one [of "replicate 56 0 @ tail"] tail by simp
    ultimately show ?thesis unfolding final ref by (simp only: fst_conv)
  qed
qed


section \<open>Properties\<close>



text \<open>\<open>MD5Final\<close> does not clear the context: the padded last block, with the end of the message,
  and the second half of the chaining value stay in it.\<close>

lemma MD5Final_leaves_input:
  assumes "md5_holds ctx m" and "length m mod 64 \<le> 55"
  shows "take (length m mod 64) (inblk (snd (MD5Final ctx))) = take (length m mod 64) (inblk ctx)
    \<and> drop 8 (fst (MD5Final ctx)) = concat (map le_bytes (drop 2 (buf (snd (MD5Final ctx)))))"
proof -
  define c where "c = length m mod 64"
  have blk: "length (inblk ctx) = 64" and cnt: "(ucast (bits1 ctx) :: u64) * 2 ^ 32 + ucast (bits0 ctx) = of_nat (8 * length m)"
    using assms(1) by (auto simp: md5_holds_def)
  have c: "unat (drop_bit 3 (bits0 ctx) AND 0x3F) = c" "c \<le> 55" using count_bytes [OF cnt] assms(2) by (simp_all add: c_def)
  then have room: "\<not> 64 - 1 - c < 8" by simp
  define inp where "inp = memcpy_at (memcpy_at (inblk ctx) c [0x80]) (c + 1) (replicate (64 - 1 - c - 8) 0)"
  define w where "w = byteReverse inp 14 @ [bits0 ctx, bits1 ctx]"
  have fin: "MD5Final ctx = (concat (map le_bytes (MD5Transform (buf ctx) w)),
      ctx\<lparr>buf := [0, 0] @ drop 2 (MD5Transform (buf ctx) w), inblk := take 56 inp @ le_bytes (bits0 ctx) @ le_bytes (bits1 ctx)\<rparr>)"
    unfolding MD5Final_def c(1) Let_def w_def inp_def using room by (simp only: if_False prod.case)
  have "take c inp = take c (inblk ctx)" "c \<le> length inp" using c(2) blk by (auto simp: inp_def memcpy_at_def)
  moreover obtain b0 b1 b2 b3 where "MD5Transform (buf ctx) w = [b0, b1, b2, b3]"
    by (cases "fold (MD5STEP w) md5_steps (buf ctx ! 0, buf ctx ! 1, buf ctx ! 2, buf ctx ! 3)") (simp add: MD5Transform_def)
  ultimately show ?thesis unfolding fin c_def [symmetric] using c(2) by (simp add: le_bytes_def min_def)
qed

end
