(* ===== verification/Htpasswd.thy ===== *)
theory Htpasswd
  imports Avl_Store Util Md5
begin

unbundle bit_operations_syntax

text \<open>
  The htpasswd authenticator \<open>auth_htpasswd.c\<close>: users and hashed passwords from a file, cached in
  an AVL tree and re-read when the modification time changes. The file is part of the state:
  what \<open>stat\<close> and \<open>fopen\<close> would give, and its bytes. Names and passwords are C strings. The
  file lock is not modelled: every operation runs alone.
\<close>

section \<open>State\<close>

datatype auth_result = AUTH_UNDEFINED | AUTH_OK | AUTH_FAILED | AUTH_FORBIDDEN
  | AUTH_USERADDED | AUTH_USEREXISTS | AUTH_USERDELETED

record htpasswd_user =
  uname :: string
  upass :: string

text \<open>The password file: \<open>None\<close> for \<open>stat\<close> when it fails; \<open>readable\<close>, \<open>appendable\<close>, \<open>replaceable\<close> say
  whether opening it for reading, for appending, and writing a new version beside it succeed.\<close>

record passwd_file =
  mtime_of :: "int option"
  bytes_of :: string
  readable :: bool
  appendable :: bool
  replaceable :: bool

record htpasswd_auth_state =
  filename :: "string option"
  users :: "htpasswd_user avl_tree option"
  mtime :: int

definition compare_users :: "htpasswd_user \<Rightarrow> htpasswd_user \<Rightarrow> int" where
  "compare_users user1 user2 = strcmp (uname user1) (uname user2)"

definition get_hash :: "string \<Rightarrow> string" where
  "get_hash data = util_bin_to_hex (md5_digest [map of_char data])"

section \<open>Reading the file\<close>

definition parse_user_line :: "string \<Rightarrow> htpasswd_user option" where
  "parse_user_line line =
     (if line = [] \<or> hd line = CHR ''#'' then None
      else case strchr line (CHR '':'') of
             None \<Rightarrow> None
           | Some sep \<Rightarrow> Some \<lparr>uname = take sep line, upass = drop (sep + 1) line\<rparr>)"

definition file_users :: "string \<Rightarrow> htpasswd_user list" where
  "file_users file = List.map_filter parse_user_line (file_lines file)"

definition read_users :: "string \<Rightarrow> htpasswd_user avl_tree" where
  "read_users file = fold (\<lambda>entry new_users. tree_insert new_users entry) (file_users file) (avl_tree_new compare_users)"

definition htpasswd_recheckfile :: "htpasswd_auth_state \<Rightarrow> passwd_file \<Rightarrow> htpasswd_auth_state" where
  "htpasswd_recheckfile htpasswd file =
     (case filename htpasswd of
        None \<Rightarrow> htpasswd
      | Some _ \<Rightarrow>
          (case mtime_of file of
             None \<Rightarrow>
               (case users htpasswd of
                  None \<Rightarrow> htpasswd\<lparr>users := Some (avl_tree_new compare_users)\<rparr>
                | Some _ \<Rightarrow> htpasswd)
           | Some st_mtime \<Rightarrow>
               if st_mtime = mtime htpasswd then htpasswd
               else if \<not> readable file then htpasswd
               else htpasswd\<lparr>mtime := st_mtime, users := Some (read_users (bytes_of file))\<rparr>))"

section \<open>Operations\<close>

text \<open>\<open>name\<close> and \<open>pass\<close> are the client's credentials, null if it sent none.\<close>

definition htpasswd_auth ::
  "htpasswd_auth_state \<Rightarrow> passwd_file \<Rightarrow> string option \<Rightarrow> string option \<Rightarrow> auth_result \<times> htpasswd_auth_state" where
  "htpasswd_auth htpasswd file name pass =
     (case (name, pass) of
        (Some n, Some p) \<Rightarrow>
          if filename htpasswd = None then (AUTH_FAILED, htpasswd)
          else
            let htpasswd = htpasswd_recheckfile htpasswd file
            in (case users htpasswd of
                  None \<Rightarrow> (AUTH_FAILED, htpasswd)
                | Some tree \<Rightarrow>
                    (case avl_get_by_key tree \<lparr>uname = n, upass = []\<rparr> of
                       Some found \<Rightarrow>
                         if strcmp (upass found) (get_hash p) = 0 then (AUTH_OK, htpasswd) else (AUTH_FAILED, htpasswd)
                     | None \<Rightarrow> (AUTH_FAILED, htpasswd)))
      | _ \<Rightarrow> (AUTH_FAILED, htpasswd))"

text \<open>
  \<open>None\<close> is the null user tree handed to \<open>avl_get_by_key\<close>. Writing to the file gives it a new
  modification time, chosen by the system.
\<close>

definition htpasswd_adduser ::
  "htpasswd_auth_state \<Rightarrow> passwd_file \<Rightarrow> int \<Rightarrow> string \<Rightarrow> string \<Rightarrow> (auth_result \<times> htpasswd_auth_state \<times> passwd_file) option" where
  "htpasswd_adduser state file now username password =
     (if filename state = None then Some (AUTH_FAILED, state, file)
      else
        let state = htpasswd_recheckfile state file
        in if filename state = None then Some (AUTH_FAILED, state, file)
           else case users state of
             None \<Rightarrow> None
           | Some tree \<Rightarrow>
               if avl_get_by_key tree \<lparr>uname = username, upass = []\<rparr> \<noteq> None then Some (AUTH_USEREXISTS, state, file)
               else if \<not> appendable file then Some (AUTH_FAILED, state, file)
               else Some (AUTH_USERADDED, state,
                      file\<lparr>bytes_of := bytes_of file @ username @ '':'' @ get_hash password @ [LF],
                           mtime_of := Some now, readable := True\<rparr>))"

text \<open>The lines that are copied to the temporary file.\<close>

definition kept_lines :: "string \<Rightarrow> string \<Rightarrow> string list" where
  "kept_lines username file =
     filter (\<lambda>line. case parse_user_line line of None \<Rightarrow> False | Some u \<Rightarrow> strcmp username (uname u) \<noteq> 0) (file_lines file)"

text \<open>How replacing the file by the temporary one goes: \<open>remove\<close> and \<open>rename\<close> can each fail, which
  is only logged. A temporary file left behind makes later attempts fail.\<close>

datatype replace_outcome = Replaced | Remove_failed | Rename_failed

definition replace_file :: "replace_outcome \<Rightarrow> int \<Rightarrow> string \<Rightarrow> passwd_file \<Rightarrow> passwd_file" where
  "replace_file outcome now text file =
     (case outcome of
        Replaced \<Rightarrow> file\<lparr>bytes_of := text, mtime_of := Some now\<rparr>
      | Remove_failed \<Rightarrow> file\<lparr>replaceable := False\<rparr>
      | Rename_failed \<Rightarrow> file\<lparr>mtime_of := None, bytes_of := [], readable := False, replaceable := False\<rparr>)"

definition htpasswd_deleteuser ::
  "replace_outcome \<Rightarrow> htpasswd_auth_state \<Rightarrow> passwd_file \<Rightarrow> int \<Rightarrow> string \<Rightarrow> auth_result \<times> htpasswd_auth_state \<times> passwd_file" where
  "htpasswd_deleteuser outcome state file now username =
     (if filename state = None then (AUTH_FAILED, state, file)
      else if users state = None then (AUTH_FAILED, state, file)
      else if \<not> readable file then (AUTH_FAILED, state, file)
      else if \<not> replaceable file then (AUTH_FAILED, state, file)
      else
        let file' = replace_file outcome now (print_lines (kept_lines username (bytes_of file))) file
        in (AUTH_USERDELETED, htpasswd_recheckfile state file', file'))"

definition htpasswd_userlist :: "htpasswd_auth_state \<Rightarrow> passwd_file \<Rightarrow> auth_result \<times> string list \<times> htpasswd_auth_state" where
  "htpasswd_userlist state file =
     (if filename state = None then (AUTH_FAILED, [], state)
      else
        let state = htpasswd_recheckfile state file
        in (case users state of
              None \<Rightarrow> (AUTH_FAILED, [], state)
            | Some tree \<Rightarrow> (AUTH_OK, map uname (cursor_walk (Suc (length (inorder (root tree)))) (avl_get_first tree)), state)))"

definition auth_get_htpasswd_auth :: "(string \<times> string) list \<Rightarrow> passwd_file \<Rightarrow> htpasswd_auth_state" where
  "auth_get_htpasswd_auth options file =
     htpasswd_recheckfile
       \<lparr>filename = fold (\<lambda>(n, v) f. if strcmp n ''filename'' = 0 then Some v else f) options None,
        users = None, mtime = 0\<rparr> file"

section \<open>Users\<close>

interpretation user_order: key_compare compare_users
  using strcmp_field_compare [of uname] by (simp add: compare_users_def [abs_def])

lemmas compare_users_ok = user_order.key_compare_axioms

definition file_pairs :: "string \<Rightarrow> (string \<times> string) list" where
  "file_pairs file = map (\<lambda>u. (uname u, upass u)) (file_users file)"

lemma read_users_lookup:
  assumes "distinct (map fst (file_pairs file))"
  shows "map_option upass (avl_get_by_key (read_users file) \<lparr>uname = n, upass = p\<rparr>) = map_of (file_pairs file) n"
proof -
  have "distinct (map uname (file_users file))" using assms by (simp add: file_pairs_def comp_def)
  then have one: "map_of (file_pairs file) (uname u) = Some (upass u)" if "u \<in> set (file_users file)" for u
    using that assms by (subst map_of_eq_Some_iff) (auto simp: file_pairs_def)
  show ?thesis
  proof (cases "avl_get_by_key (read_users file) \<lparr>uname = n, upass = p\<rparr>")
    case None
    then have "n \<notin> fst ` set (file_pairs file)"
      using tree_build_lookup [OF compare_users_ok, of "file_users file" "\<lparr>uname = n, upass = p\<rparr>"]
      by (auto simp: read_users_def compare_users_def file_pairs_def)
    then have "map_of (file_pairs file) n = None" by (simp only: map_of_eq_None_iff not_False_eq_True)
    with None show ?thesis by simp
  next
    case (Some u)
    then have "u \<in> set (file_users file)" "uname u = n"
      using tree_build_lookup [OF compare_users_ok, of "file_users file" "\<lparr>uname = n, upass = p\<rparr>"]
      by (auto simp: read_users_def compare_users_def)
    with one [of u] Some show ?thesis by simp
  qed
qed

text \<open>The cached users are those of the file, unless its modification time says otherwise.\<close>

definition cache_ok :: "htpasswd_auth_state \<Rightarrow> passwd_file \<Rightarrow> bool" where
  "cache_ok state file \<longleftrightarrow> filename state \<noteq> None \<and> readable file \<and> mtime_of file \<noteq> None \<and>
     (mtime_of file = Some (mtime state) \<longrightarrow> users state = Some (read_users (bytes_of file)))"

lemma recheck_users:
  "cache_ok state file \<Longrightarrow>
   users (htpasswd_recheckfile state file) = Some (read_users (bytes_of file)) \<and>
   mtime_of file = Some (mtime (htpasswd_recheckfile state file)) \<and>
   filename (htpasswd_recheckfile state file) \<noteq> None"
  by (auto simp: cache_ok_def htpasswd_recheckfile_def split: option.splits)

lemma htpasswd_auth_iff:
  assumes "cache_ok state file" and "distinct (map fst (file_pairs (bytes_of file)))"
  shows "fst (htpasswd_auth state file (Some n) (Some p)) = AUTH_OK \<longleftrightarrow> map_of (file_pairs (bytes_of file)) n = Some (get_hash p)"
proof -
  have "filename state \<noteq> None" using assms(1) by (simp add: cache_ok_def)
  with recheck_users [OF assms(1)] show ?thesis
    unfolding read_users_lookup [OF assms(2), of n "[]", symmetric]
    by (auto simp: htpasswd_auth_def Let_def split: option.splits)
qed

section \<open>Printed files\<close>

definition good_name :: "string \<Rightarrow> bool" where
  "good_name n \<longleftrightarrow> n \<noteq> [] \<and> hd n \<noteq> CHR ''#'' \<and> CHR '':'' \<notin> set n \<and> LF \<notin> set n \<and> CR \<notin> set n \<and> NUL \<notin> set n \<and>
     length n + 35 < MAX_LINE_LEN"

lemma md5_length: "length (md5_digest ps) = 16"
proof -
  have "length (fst (MD5Final ctx)) = 16" for ctx
    by (auto simp: MD5Final_def MD5Transform_def le_bytes_def Let_def split: prod.splits if_splits)
  then show ?thesis by (simp add: md5_digest_def)
qed

lemma get_hash_chars: "set (get_hash p) \<subseteq> set hexchars" "length (get_hash p) = 32"
proof -
  have len: "length (util_bin_to_hex d) = 2 * length d" for d by (induction d) (auto simp: util_bin_to_hex_def)
  then show "length (get_hash p) = 32" by (simp add: get_hash_def md5_length)
  have "hexchars ! unat (drop_bit 4 (d AND 0xF0)) \<in> set hexchars \<and> hexchars ! unat (d AND 0x0F) \<in> set hexchars" for d :: u8
  proof -
    have "unat (d AND 0x0F) = take_bit 4 (unat d)"
      using arg_cong [OF take_bit_eq_mask [of 4 d], of unat] by (simp add: mask_eq_exp_minus_1 unsigned_take_bit_eq)
    then have "unat (d AND 0x0F) < 16" using take_bit_nat_less_exp [of 4 "unat d"] by simp
    moreover have "unat (drop_bit 4 (d AND 0xF0)) = drop_bit 4 (unat (d AND 0xF0))" by (rule unat_drop_bit_eq)
    then have "unat (drop_bit 4 (d AND 0xF0)) = unat (d AND 0xF0) div 16" by (simp only: drop_bit_eq_div) simp
    then have "unat (drop_bit 4 (d AND 0xF0)) < 16"
      using unsigned_less [of "d AND 0xF0", where 'a = nat] by simp
    moreover have "length hexchars = 16" by (simp add: hexchars_def)
    ultimately show ?thesis by (intro conjI nth_mem) (simp_all only:)
  qed
  then show "set (get_hash p) \<subseteq> set hexchars" by (auto simp: get_hash_def util_bin_to_hex_def)
qed


lemma parse_user_line_entry:
  assumes "good_name n"
  shows "parse_user_line (n @ '':'' @ h) = Some \<lparr>uname = n, upass = h\<rparr>"
proof -
  have "strchr (n @ '':'' @ h) (CHR '':'') = Some (length n)"
    using strchr_at [of "CHR '':''" n h] assms by (simp add: good_name_def)
  then show ?thesis using assms by (simp add: parse_user_line_def good_name_def)
qed

lemma entry_line_plain:
  assumes "good_name n"
  shows "plain_line (n @ '':'' @ get_hash p)"
proof -
  have "NUL \<notin> set (get_hash p)" "LF \<notin> set (get_hash p)" "CR \<notin> set (get_hash p)"
    using get_hash_chars(1) [of p] by (auto simp: hexchars_def NUL_def LF_def CR_def)
  then show ?thesis using assms get_hash_chars(2) [of p]
    by (auto simp: plain_line_def good_name_def is_cstr_def NUL_def LF_def CR_def)
qed

definition plain_file :: "string \<Rightarrow> bool" where
  "plain_file file \<longleftrightarrow> (\<exists>ls. file = print_lines ls \<and> (\<forall>l\<in>set ls. plain_line l))"

lemma print_lines_snoc: "print_lines ls @ l @ [LF] = print_lines (ls @ [l])"
  by (simp add: print_lines_def)

lemma file_users_snoc:
  assumes "plain_file file" and "good_name n"
  shows "file_users (file @ n @ '':'' @ get_hash p @ [LF]) = file_users file @ [\<lparr>uname = n, upass = get_hash p\<rparr>]"
    and "plain_file (file @ n @ '':'' @ get_hash p @ [LF])"
proof -
  obtain ls where ls: "file = print_lines ls" "\<forall>l\<in>set ls. plain_line l" using assms(1) by (auto simp: plain_file_def)
  let ?l = "n @ '':'' @ get_hash p"
  have eq: "file @ n @ '':'' @ get_hash p @ [LF] = print_lines (ls @ [?l])" by (simp add: ls(1) print_lines_def)
  have plain: "\<forall>l\<in>set (ls @ [?l]). plain_line l" using ls(2) entry_line_plain [OF assms(2)] by auto
  show "plain_file (file @ n @ '':'' @ get_hash p @ [LF])" unfolding eq plain_file_def using plain by blast
  show "file_users (file @ n @ '':'' @ get_hash p @ [LF]) = file_users file @ [\<lparr>uname = n, upass = get_hash p\<rparr>]"
    unfolding eq unfolding file_users_def file_lines_print [OF plain] unfolding ls(1) file_lines_print [OF ls(2)]
    using parse_user_line_entry [OF assms(2), of "get_hash p"] by (simp add: List.map_filter_def)
qed

text \<open>What a deletion leaves in the file.\<close>

lemma file_users_kept:
  assumes "plain_file file"
  shows "file_users (print_lines (kept_lines n file)) = filter (\<lambda>u. uname u \<noteq> n) (file_users file)"
proof -
  obtain ls where ls: "file = print_lines ls" "\<forall>l\<in>set ls. plain_line l" using assms by (auto simp: plain_file_def)
  let ?keep = "\<lambda>line. case parse_user_line line of None \<Rightarrow> False | Some u \<Rightarrow> strcmp n (uname u) \<noteq> 0"
  have kept: "kept_lines n file = filter ?keep ls" by (simp add: kept_lines_def ls(1) file_lines_print [OF ls(2)])
  have plain: "\<forall>l\<in>set (filter ?keep ls). plain_line l" using ls(2) by simp
  have "List.map_filter parse_user_line (filter ?keep ls) = filter (\<lambda>u. uname u \<noteq> n) (List.map_filter parse_user_line ls)"
    by (induction ls) (auto simp: List.map_filter_def split: option.splits)
  then show ?thesis unfolding file_users_def kept unfolding file_lines_print [OF plain] unfolding ls(1) file_lines_print [OF ls(2)] .
qed

lemma htpasswd_adduser_adds:
  assumes "cache_ok state file" and "appendable file" and "u \<notin> fst ` set (file_pairs (bytes_of file))"
  shows "htpasswd_adduser state file now u p = Some (AUTH_USERADDED, htpasswd_recheckfile state file,
    file\<lparr>bytes_of := bytes_of file @ u @ '':'' @ get_hash p @ [LF], mtime_of := Some now, readable := True\<rparr>)"
proof -
  have "avl_get_by_key (read_users (bytes_of file)) \<lparr>uname = u, upass = []\<rparr> = None"
    using tree_build_lookup [OF compare_users_ok, of "file_users (bytes_of file)" "\<lparr>uname = u, upass = []\<rparr>"] assms(3)
    by (auto simp: read_users_def compare_users_def file_pairs_def image_image split: option.splits)
  with recheck_users [OF assms(1)] assms(1,2) show ?thesis
    by (auto simp: htpasswd_adduser_def Let_def cache_ok_def)
qed

section \<open>Properties\<close>


definition demo_state :: htpasswd_auth_state where
  "demo_state = \<lparr>filename = Some ''pw'', users = None, mtime = 0\<rparr>"

definition demo_file :: passwd_file where
  "demo_file = \<lparr>mtime_of = Some 1, bytes_of = [], readable = True, appendable = True, replaceable = True\<rparr>"

lemma demo_ok: "cache_ok demo_state demo_file" "plain_file (bytes_of demo_file)" "file_pairs (bytes_of demo_file) = []"
proof -
  show "plain_file (bytes_of demo_file)" unfolding plain_file_def by (rule exI [of _ "[]"]) (simp add: demo_file_def print_lines_def)
qed (simp_all add: cache_ok_def demo_state_def demo_file_def file_pairs_def file_users_def List.map_filter_def)


text \<open>After a user is deleted from a password file it cannot log in with any password, and every
  other user can log in as before.\<close>

lemma htpasswd_deleteuser_auth:
  assumes cache: "cache_ok state file" and plain: "plain_file (bytes_of file)"
    and dist: "distinct (map fst (file_pairs (bytes_of file)))"
    and "users state \<noteq> None" and "replaceable file" and now: "mtime state \<noteq> now"
  shows "\<exists>state' file'. htpasswd_deleteuser Replaced state file now u = (AUTH_USERDELETED, state', file') \<and>
    (\<forall>n q. fst (htpasswd_auth state' file' (Some n) (Some q)) = AUTH_OK \<longleftrightarrow>
       n \<noteq> u \<and> map_of (file_pairs (bytes_of file)) n = Some (get_hash q))"
proof -
  let ?file = "replace_file Replaced now (print_lines (kept_lines u (bytes_of file))) file"
  let ?st = "htpasswd_recheckfile state ?file"
  have pairs: "file_pairs (bytes_of ?file) = filter (\<lambda>x. fst x \<noteq> u) (file_pairs (bytes_of file))"
    by (simp add: replace_file_def file_pairs_def file_users_kept [OF plain] filter_map comp_def)
  have dist': "distinct (map fst (file_pairs (bytes_of ?file)))" unfolding pairs using dist by (rule distinct_map_filter)
  have "cache_ok state ?file" using cache now by (auto simp: cache_ok_def replace_file_def)
  note recheck_users [OF this]
  then have cache': "cache_ok ?st ?file" using \<open>cache_ok state ?file\<close> unfolding cache_ok_def by blast
  have "fst (htpasswd_auth ?st ?file (Some n) (Some q)) = AUTH_OK \<longleftrightarrow>
      map_of (filter (\<lambda>x. fst x \<noteq> u) (file_pairs (bytes_of file))) n = Some (get_hash q)" for n q
    unfolding pairs [symmetric] by (rule htpasswd_auth_iff [OF cache' dist'])
  moreover have "map_of (filter (\<lambda>x. fst x \<noteq> u) xs) n = (if n = u then None else map_of xs n)" for xs :: "(string \<times> string) list" and n
    by (induction xs) auto
  moreover have "htpasswd_deleteuser Replaced state file now u = (AUTH_USERDELETED, ?st, ?file)"
    using assms(4,5) cache by (simp add: htpasswd_deleteuser_def cache_ok_def Let_def)
  ultimately show ?thesis by (intro exI [of _ ?st] exI [of _ ?file]) simp
qed


text \<open>Adding a user to a file whose last line has no line end reports success, but the new entry
  is glued to that line: the new user cannot log in.\<close>

lemma htpasswd_adduser_unterminated:
  assumes cache: "cache_ok state file" and bytes: "bytes_of file = print_lines ls @ n @ '':'' @ h"
    and plain: "\<forall>l\<in>set ls. plain_line l" "plain_line (n @ '':'' @ h @ u @ '':'' @ get_hash p)"
    and names: "good_name n" "good_name u" "u \<notin> fst ` set (file_pairs (bytes_of file))"
    and "appendable file" and now: "mtime_of file \<noteq> Some now"
  shows "\<exists>state' file'. htpasswd_adduser state file now u p = Some (AUTH_USERADDED, state', file') \<and>
    (\<forall>q. fst (htpasswd_auth state' file' (Some u) (Some q)) = AUTH_FAILED)"
proof -
  let ?file = "file\<lparr>bytes_of := bytes_of file @ u @ '':'' @ get_hash p @ [LF], mtime_of := Some now, readable := True\<rparr>"
  let ?st = "htpasswd_recheckfile state file" and ?l = "n @ '':'' @ h @ u @ '':'' @ get_hash p"
  have old: "file_users (bytes_of file) = List.map_filter parse_user_line ls @ [\<lparr>uname = n, upass = h\<rparr>]"
  proof -
    have "plain_line (n @ '':'' @ h)" using plain(2) by (auto simp: plain_line_def is_cstr_def)
    then have "file_lines (bytes_of file) = ls @ [n @ '':'' @ h]"
      unfolding bytes file_lines_append [OF plain(1)] using file_lines_last [of "n @ '':'' @ h"] by simp
    then show ?thesis using parse_user_line_entry [OF names(1), of h] by (simp add: file_users_def List.map_filter_def)
  qed
  have "bytes_of ?file = print_lines (ls @ [?l])" by (simp add: bytes print_lines_def)
  moreover have "\<forall>l\<in>set (ls @ [?l]). plain_line l" using plain by auto
  ultimately have "file_users (bytes_of ?file) = List.map_filter parse_user_line (ls @ [?l])"
    by (simp only: file_users_def file_lines_print)
  also have "\<dots> = List.map_filter parse_user_line ls @ [\<lparr>uname = n, upass = h @ u @ '':'' @ get_hash p\<rparr>]"
    using parse_user_line_entry [OF names(1), of "h @ u @ '':'' @ get_hash p"] by (simp add: List.map_filter_def)
  finally have "\<forall>x\<in>set (file_users (bytes_of ?file)). uname x \<noteq> u"
    using names(3) old by (auto simp: file_pairs_def image_image)
  then have "avl_get_by_key (read_users (bytes_of ?file)) \<lparr>uname = u, upass = []\<rparr> = None"
    using tree_build_lookup [OF compare_users_ok, of "file_users (bytes_of ?file)" "\<lparr>uname = u, upass = []\<rparr>"]
    by (auto simp: read_users_def compare_users_def split: option.splits)
  moreover have "cache_ok ?st ?file" using recheck_users [OF cache] now by (auto simp: cache_ok_def)
  note recheck_users [OF this]
  ultimately have "fst (htpasswd_auth ?st ?file (Some u) (Some q)) = AUTH_FAILED" for q
    by (auto simp: htpasswd_auth_def Let_def)
  then show ?thesis using htpasswd_adduser_adds [OF cache assms(8) names(3), of now p] by blast
qed

text \<open>
  When the file exists but cannot be opened and no users were read before, adding a user hands a
  null tree to the lookup: the check after the re-read tests the file name a second time.
\<close>

lemma htpasswd_adduser_null_users:
  "filename state = Some f \<Longrightarrow> users state = None \<Longrightarrow> mtime_of file = Some m \<Longrightarrow> m \<noteq> mtime state \<Longrightarrow>
   \<not> readable file \<Longrightarrow> htpasswd_adduser state file now u p = None"
  by (simp add: htpasswd_adduser_def htpasswd_recheckfile_def)

text \<open>A deletion whose file operations fail is reported as done.\<close>

lemma htpasswd_deleteuser_unchecked:
  "filename state = Some f \<Longrightarrow> users state = Some t \<Longrightarrow> readable file \<Longrightarrow> replaceable file \<Longrightarrow>
   \<exists>state' file'. htpasswd_deleteuser Remove_failed state file now u = (AUTH_USERDELETED, state', file') \<and> bytes_of file' = bytes_of file"
  by (simp add: htpasswd_deleteuser_def replace_file_def Let_def)

end
