(* ===== verification/Auth.thy ===== *)
theory Auth
  imports Source Htpasswd
begin

text \<open>
  Authentication of listeners and sources (\<open>auth.c\<close>, and \<open>client_destroy\<close> and
  \<open>client_check_source_auth\<close> of \<open>client.c\<close>): authenticators with their reference counts and their
  queues of waiting clients, the jobs the authentication thread runs, and the way of a listener
  to a source or to the file server. Authenticators live in a store; following a freed or null
  pointer is the value \<open>None\<close>. The queue of an authenticator is a list (its links are those of
  \<open>Conn_Queue\<close>). What the program hands to another part of itself is recorded as an event.
\<close>

section \<open>State\<close>

datatype auth_process = New_listener | Remove_listener | Stream_auth | Stream_start | Stream_end

record auth_client =
  amount :: string
  aclient :: "client option"
  process :: auth_process

text \<open>The callbacks of an authenticator are set or null.\<close>

record auth_t =
  has_authenticate :: bool
  has_release_listener :: bool
  has_stream_auth :: bool
  has_stream_start :: bool
  has_stream_end :: bool
  arunning :: bool
  refcount :: int
  allow_duplicate_users :: int
  aqueue :: "auth_client list"
  pending_count :: int

type_synonym auths = "nat \<Rightarrow> auth_t option"

datatype event =
    Replied fate
  | Xslt client string
  | Serve_file client string
  | Admin_request client string
  | Start_source client string
  | Closed client bool
  | Joined nat

record world =
  wconfig :: ice_config
  wregistry :: source_registry
  wauths :: auths
  wglobal :: ice_global
  wevents :: "event list"

text \<open>What the outside decides: pattern matching, the clock, the socket, and the callbacks.\<close>

record env =
  fnmatch :: "string \<Rightarrow> string \<Rightarrow> bool"
  date_line :: string
  taken :: nat
  now :: int
  connected :: "client \<Rightarrow> bool"
  authenticate :: "nat \<Rightarrow> client \<Rightarrow> auth_result \<times> client"
  stream_auth :: "nat \<Rightarrow> client \<Rightarrow> client"

definition emit :: "event \<Rightarrow> world \<Rightarrow> world" where
  "emit e w = w\<lparr>wevents := wevents w @ [e]\<rparr>"

definition send_401 :: "env \<Rightarrow> client \<Rightarrow> world \<Rightarrow> world" where
  "send_401 env c w = emit (Replied (client_send_401 (fnmatch env) (wconfig w) (date_line env) (taken env) c)) w"

definition send_403 :: "env \<Rightarrow> client \<Rightarrow> string \<Rightarrow> world \<Rightarrow> world" where
  "send_403 env c msg w = emit (Replied (client_send_403 (fnmatch env) (wconfig w) (date_line env) (taken env) c msg)) w"

section \<open>Credentials and queues\<close>

definition basic_auth :: "string option \<Rightarrow> (string \<times> string) option" where
  "basic_auth header =
     (case header of
        None \<Rightarrow> None
      | Some h \<Rightarrow>
          if strncmp h ''Basic '' 6 = 0 then
            (case util_base64_decode (drop 6 h) of
               None \<Rightarrow> None
             | Some userpass \<Rightarrow>
                 (case strchr userpass (CHR '':'') of
                    None \<Rightarrow> None
                  | Some tmp \<Rightarrow> Some (take tmp userpass, drop (tmp + 1) userpass)))
          else None)"

text \<open>\<open>None\<close>: the client has no parser.\<close>

definition auth_client_setup :: "auth_process \<Rightarrow> string \<Rightarrow> client \<Rightarrow> auth_client option" where
  "auth_client_setup proc mount client =
     (case parser client of
        None \<Rightarrow> None
      | Some p \<Rightarrow>
          let client = (case basic_auth (httpp_getvar p ''authorization'') of
                None \<Rightarrow> client
              | Some (u, w) \<Rightarrow> client\<lparr>cusername := Some u, cpassword := Some w\<rparr>)
          in Some \<lparr>amount = mount, aclient = Some client, process = proc\<rparr>)"

definition push_job :: "nat \<Rightarrow> int \<Rightarrow> auth_client \<Rightarrow> auths \<Rightarrow> auths option" where
  "push_job i refs u as =
     (case as i of
        None \<Rightarrow> None
      | Some a \<Rightarrow> Some (as(i \<mapsto> a\<lparr>refcount := refcount a + refs, aqueue := aqueue a @ [u], pending_count := pending_count a + 1\<rparr>)))"

text \<open>\<open>mountauth\<close> is the authenticator of the mount when one is given.\<close>

definition queue_auth_client :: "auth_client \<Rightarrow> nat option \<Rightarrow> auths \<Rightarrow> auths option" where
  "queue_auth_client u mountauth as =
     (case mountauth of
        Some i \<Rightarrow> push_job i 1 (u\<lparr>aclient := map_option (\<lambda>c. c\<lparr>cauth := Some i\<rparr>) (aclient u)\<rparr>) as
      | None \<Rightarrow>
          (case Option.bind (aclient u) cauth of
             None \<Rightarrow> Some as
           | Some i \<Rightarrow> push_job i 0 u as))"

text \<open>
  Dropping a reference. The last one ends the authentication thread, waits for it (the event
  \<open>Joined\<close>) and frees the authenticator.
\<close>

definition auth_release :: "nat option \<Rightarrow> world \<Rightarrow> world option" where
  "auth_release ref w =
     (case ref of
        None \<Rightarrow> Some w
      | Some i \<Rightarrow>
          (case wauths w i of
             None \<Rightarrow> None
           | Some a \<Rightarrow>
               let a = a\<lparr>refcount := refcount a - 1\<rparr>
               in if refcount a \<noteq> 0 then Some (w\<lparr>wauths := (wauths w)(i \<mapsto> a)\<rparr>)
                  else Some (emit (Joined i) (w\<lparr>wauths := (wauths w)(i := None)\<rparr>))))"

section \<open>The end of a client\<close>

definition auth_release_listener :: "client \<Rightarrow> world \<Rightarrow> (bool \<times> client \<times> world) option" where
  "auth_release_listener client w =
     (if authenticated client then
        (case parser client of
           None \<Rightarrow> None
         | Some p \<Rightarrow>
             let client = client_set_queue client None
             in (case (httpp_getvar p HTTPP_VAR_URI, cauth client) of
                   (Some mount, Some i) \<Rightarrow>
                     (case wauths w i of
                        None \<Rightarrow> None
                      | Some a \<Rightarrow>
                          if has_release_listener a then
                            (case auth_client_setup Remove_listener mount client of
                               None \<Rightarrow> None
                             | Some u \<Rightarrow> map_option (\<lambda>as. (True, client, w\<lparr>wauths := as\<rparr>)) (queue_auth_client u None (wauths w)))
                          else Some (False, client\<lparr>authenticated := False\<rparr>, w))
                 | _ \<Rightarrow> Some (False, client\<lparr>authenticated := False\<rparr>, w)))
      else Some (False, client, w))"

definition client_destroy :: "client \<Rightarrow> world \<Rightarrow> world option" where
  "client_destroy client w =
     (case auth_release_listener (client\<lparr>rdata := [], rlen := 0\<rparr>) w of
        None \<Rightarrow> None
      | Some (True, client, w) \<Rightarrow> Some w
      | Some (False, client, w) \<Rightarrow>
          let w = emit (Closed client (respcode client \<noteq> 0 \<and> parser client \<noteq> None)) w
          in Some (w\<lparr>wglobal := (wglobal w)\<lparr>clients := clients (wglobal w) - 1\<rparr>\<rparr>))"

definition auth_client_free :: "env \<Rightarrow> auth_client \<Rightarrow> world \<Rightarrow> world option" where
  "auth_client_free env u w =
     (case aclient u of
        None \<Rightarrow> Some w
      | Some c \<Rightarrow> if respcode c \<noteq> 0 then client_destroy c w else Some (send_401 env c w))"

section \<open>Listeners and sources\<close>

definition tree_walk :: "'a avl_tree \<Rightarrow> 'a list" where
  "tree_walk t = cursor_walk (Suc (length (inorder (root t)))) (avl_get_first t)"

definition check_duplicate_logins :: "source \<Rightarrow> client \<Rightarrow> auth_t option \<Rightarrow> bool" where
  "check_duplicate_logins source client authr =
     (case (cusername client, authr) of
        (Some u, Some a) \<Rightarrow>
          if allow_duplicate_users a = 0 then
            if list_ex (\<lambda>c. cusername c = Some u) (tree_walk (client_tree source)) then False
            else \<not> list_ex (\<lambda>c. cusername c = Some u) (tree_walk (pending_tree source))
          else True
      | _ \<Rightarrow> True)"

text \<open>The source with room for a listener, following the fallbacks of full ones \<open>loop\<close> times at most.\<close>

fun listener_target :: "(string \<Rightarrow> string \<Rightarrow> bool) \<Rightarrow> ice_config \<Rightarrow> source_registry \<Rightarrow> nat \<Rightarrow> nat \<Rightarrow> nat option" where
  "listener_target fnm config reg loop a =
     (case sheap reg a of
        None \<Rightarrow> None
      | Some s \<Rightarrow>
          if smax_listeners s = -1 then Some a
          else if slisteners s < word_of_int (smax_listeners s) then Some a
          else
            (case loop of
               0 \<Rightarrow> None
             | Suc loop' \<Rightarrow>
                 if sfallback_when_full s \<and> sfallback_mount s \<noteq> None then
                   (case source_find_mount fnm config reg (sfallback_mount s) of
                      None \<Rightarrow> None
                    | Some a' \<Rightarrow> listener_target fnm config reg loop' a')
                 else None))"

declare listener_target.simps [simp del]

definition add_listener_to_source ::
  "(string \<Rightarrow> string \<Rightarrow> bool) \<Rightarrow> ice_config \<Rightarrow> nat \<Rightarrow> client \<Rightarrow> source_registry \<Rightarrow> int \<times> source_registry" where
  "add_listener_to_source fnm config a client reg =
     (case listener_target fnm config reg 10 a of
        None \<Rightarrow> (-1, reg)
      | Some a \<Rightarrow>
          (case sheap reg a of
             None \<Rightarrow> (-1, reg)
           | Some s \<Rightarrow>
               let client = client\<lparr>check_buffer := Some format_check_http_buffer, rlen := PER_CLIENT_REFBUF_SIZE,
                                   rdata := replicate PER_CLIENT_REFBUF_SIZE NUL\<rparr>;
                   s = s\<lparr>pending_tree := tree_insert (pending_tree s) client\<rparr>;
                   s = (if \<not> srunning s \<and> on_demand s then s\<lparr>on_demand_req := True\<rparr> else s)
               in (0, reg\<lparr>sheap := (sheap reg)(a \<mapsto> s)\<rparr>)))"

definition add_authenticated_listener ::
  "env \<Rightarrow> string \<Rightarrow> mount_proxy option \<Rightarrow> client \<Rightarrow> world \<Rightarrow> int \<times> client \<times> world" where
  "add_authenticated_listener env mount mountinfo client w =
     (let client = client\<lparr>authenticated := True\<rparr>
      in if util_check_valid_extension (Some mount) = XSLT_CONTENT then (0, client, emit (Xslt client mount) w)
         else
           (case source_find_mount (fnmatch env) (wconfig w) (wregistry w) (Some mount) of
              None \<Rightarrow> (0, client, emit (Serve_file client mount) w)
            | Some a \<Rightarrow>
                (case sheap (wregistry w) a of
                   None \<Rightarrow> (-1, client, w)
                 | Some s \<Rightarrow>
                     if (case mountinfo of
                           None \<Rightarrow> False
                         | Some m \<Rightarrow> \<not> check_duplicate_logins s client (Option.bind (auth m) (wauths w)))
                     then (-1, client, w)
                     else
                       let client = (case mountinfo of
                             None \<Rightarrow> client
                           | Some m \<Rightarrow>
                               if max_listener_duration m \<noteq> 0 \<and> discon_time (con client) = 0 then
                                 client\<lparr>con := (con client)\<lparr>discon_time := now env + int (max_listener_duration m)\<rparr>\<rparr>
                               else client);
                           (ret, reg) = add_listener_to_source (fnmatch env) (wconfig w) a client (wregistry w)
                       in (ret, client, w\<lparr>wregistry := reg\<rparr>))))"

section \<open>Jobs of the authentication thread\<close>

definition mount_settings :: "env \<Rightarrow> world \<Rightarrow> string \<Rightarrow> mount_proxy option" where
  "mount_settings env w mount = config_find_mount (fnmatch env) (wconfig w) (Some mount) MOUNT_TYPE_NORMAL"

text \<open>
  \<open>auth_new_listener\<close> with \<open>auth_postprocess_listener\<close>: the job afterwards and the world. When the
  listener cannot be added, the reply is queued first and the client's authenticator is cleared
  after that; both happen to the same client.
\<close>

definition auth_new_listener :: "env \<Rightarrow> nat \<Rightarrow> auth_client \<Rightarrow> world \<Rightarrow> (auth_client \<times> world) option" where
  "auth_new_listener env i u w =
     (case (aclient u, wauths w i) of
        (Some client, Some a) \<Rightarrow>
          if \<not> connected env client then
            map_option (Pair (u\<lparr>aclient := Some (client\<lparr>respcode := 400, cauth := None\<rparr>)\<rparr>)) (auth_release (cauth client) w)
          else
            let (res, client) = (if has_authenticate a then authenticate env i client else (AUTH_OK, client))
            in if res \<noteq> AUTH_OK then
                 map_option (Pair (u\<lparr>aclient := Some (client\<lparr>cauth := None\<rparr>)\<rparr>)) (auth_release (cauth client) w)
               else
                 let (ret, client, w) = add_authenticated_listener env (amount u) (mount_settings env w (amount u)) client w
                 in if ret < 0 then
                      map_option (Pair (u\<lparr>aclient := None\<rparr>))
                        (auth_release (cauth client) (send_401 env (client\<lparr>cauth := None\<rparr>) w))
                    else Some (u\<lparr>aclient := None\<rparr>, w)
      | _ \<Rightarrow> None)"

definition auth_remove_listener :: "auth_client \<Rightarrow> world \<Rightarrow> (auth_client \<times> world) option" where
  "auth_remove_listener u w =
     (case aclient u of
        None \<Rightarrow> None
      | Some client \<Rightarrow>
          (case cauth client of
             None \<Rightarrow> None
           | Some i \<Rightarrow>
               map_option (Pair (u\<lparr>aclient := Some (client\<lparr>cauth := None, authenticated := False\<rparr>)\<rparr>)) (auth_release (Some i) w)))"

definition auth_postprocess_source :: "string \<Rightarrow> client \<Rightarrow> world \<Rightarrow> world option" where
  "auth_postprocess_source mount client w =
     (case Option.bind (parser client) (\<lambda>p. httpp_getvar p HTTPP_VAR_URI) of
        None \<Rightarrow> None
      | Some req \<Rightarrow>
          let client = client\<lparr>authenticated := True\<rparr>
          in if strcmp req ''/admin.cgi'' = 0 \<or> strncmp ''/admin/metadata'' req 15 = 0 then
               Some (emit (Admin_request client ''/admin/metadata'') w)
             else Some (emit (Start_source client mount) w))"

definition auth_stream_auth_callback :: "env \<Rightarrow> nat \<Rightarrow> auth_client \<Rightarrow> world \<Rightarrow> (auth_client \<times> world) option" where
  "auth_stream_auth_callback env i u w =
     (case (aclient u, wauths w i) of
        (Some client, Some a) \<Rightarrow>
          let client = (if has_stream_auth a then stream_auth env i client else client)
          in (case auth_release (Some i) w of
                None \<Rightarrow> None
              | Some w \<Rightarrow>
                  let client = client\<lparr>cauth := None\<rparr>
                  in if authenticated client then map_option (Pair (u\<lparr>aclient := None\<rparr>)) (auth_postprocess_source (amount u) client w)
                     else Some (u\<lparr>aclient := Some client\<rparr>, w))
      | _ \<Rightarrow> None)"

text \<open>Stream start and end: the callback talks to an outside server; then the reference is dropped.\<close>

definition stream_event_callback :: "nat \<Rightarrow> auth_client \<Rightarrow> world \<Rightarrow> (auth_client \<times> world) option" where
  "stream_event_callback i u w = map_option (Pair u) (auth_release (Some i) w)"

definition run_job :: "env \<Rightarrow> nat \<Rightarrow> auth_client \<Rightarrow> world \<Rightarrow> (auth_client \<times> world) option" where
  "run_job env i u w =
     (case process u of
        New_listener \<Rightarrow> auth_new_listener env i u w
      | Remove_listener \<Rightarrow> auth_remove_listener u w
      | Stream_auth \<Rightarrow> auth_stream_auth_callback env i u w
      | Stream_start \<Rightarrow> stream_event_callback i u w
      | Stream_end \<Rightarrow> stream_event_callback i u w)"

text \<open>One round of \<open>auth_run_thread\<close> of authenticator \<open>i\<close>.\<close>

definition auth_run_thread :: "env \<Rightarrow> nat \<Rightarrow> world \<Rightarrow> world option" where
  "auth_run_thread env i w =
     (case wauths w i of
        None \<Rightarrow> None
      | Some a \<Rightarrow>
          (case aqueue a of
             [] \<Rightarrow> Some w
           | u # us \<Rightarrow>
               let w = w\<lparr>wauths := (wauths w)(i \<mapsto> a\<lparr>aqueue := us, pending_count := pending_count a - 1\<rparr>)\<rparr>
               in (case run_job env i u w of
                     None \<Rightarrow> None
                   | Some (u, w) \<Rightarrow> auth_client_free env u w)))"

section \<open>Entry points\<close>

definition auth_add_listener :: "env \<Rightarrow> string \<Rightarrow> client \<Rightarrow> world \<Rightarrow> world option" where
  "auth_add_listener env mount client w =
     (let mountinfo = mount_settings env w mount
      in if (case mountinfo of None \<Rightarrow> False | Some m \<Rightarrow> no_mount m \<noteq> 0) then
           Some (send_403 env client ''mountpoint unavailable'' w)
         else
           (case Option.bind mountinfo auth of
              Some i \<Rightarrow>
                (case wauths w i of
                   None \<Rightarrow> None
                 | Some a \<Rightarrow>
                     if pending_count a > 100 then Some (send_403 env client ''busy, please try again later'' w)
                     else
                       (case auth_client_setup New_listener mount client of
                          None \<Rightarrow> None
                        | Some u \<Rightarrow> map_option (\<lambda>as. w\<lparr>wauths := as\<rparr>) (queue_auth_client u (Some i) (wauths w))))
            | None \<Rightarrow>
                let (ret, client, w) = add_authenticated_listener env mount mountinfo client w
                in if ret < 0 then Some (send_403 env client ''max listeners reached'' w) else Some w))"

definition auth_stream_authenticate :: "client \<Rightarrow> string \<Rightarrow> mount_proxy option \<Rightarrow> world \<Rightarrow> (int \<times> world) option" where
  "auth_stream_authenticate client mount mountinfo w =
     (case Option.bind mountinfo auth of
        None \<Rightarrow> Some (0, w)
      | Some i \<Rightarrow>
          (case wauths w i of
             None \<Rightarrow> None
           | Some a \<Rightarrow>
               if has_stream_auth a then
                 (case auth_client_setup Stream_auth mount client of
                    None \<Rightarrow> None
                  | Some u \<Rightarrow> map_option (\<lambda>as. (1, w\<lparr>wauths := as\<rparr>)) (queue_auth_client u (Some i) (wauths w)))
               else Some (0, w)))"

definition auth_stream_event :: "(auth_t \<Rightarrow> bool) \<Rightarrow> auth_process \<Rightarrow> mount_proxy option \<Rightarrow> string \<Rightarrow> world \<Rightarrow> world option" where
  "auth_stream_event callback proc mountinfo mount w =
     (case Option.bind mountinfo auth of
        None \<Rightarrow> Some w
      | Some i \<Rightarrow>
          (case wauths w i of
             None \<Rightarrow> None
           | Some a \<Rightarrow>
               if callback a then
                 map_option (\<lambda>as. w\<lparr>wauths := as\<rparr>)
                   (queue_auth_client \<lparr>amount = mount, aclient = None, process = proc\<rparr> (Some i) (wauths w))
               else Some w))"

definition auth_stream_start :: "mount_proxy option \<Rightarrow> string \<Rightarrow> world \<Rightarrow> world option" where
  "auth_stream_start = auth_stream_event has_stream_start Stream_start"

definition auth_stream_end :: "mount_proxy option \<Rightarrow> string \<Rightarrow> world \<Rightarrow> world option" where
  "auth_stream_end = auth_stream_event has_stream_end Stream_end"

text \<open>-1 for failed, 0 for authenticated, 1 for pending.\<close>

definition client_check_source_auth :: "env \<Rightarrow> client \<Rightarrow> string \<Rightarrow> world \<Rightarrow> (int \<times> world) option" where
  "client_check_source_auth env client mount w =
     (case parser client of
        None \<Rightarrow> None
      | Some p \<Rightarrow>
          let check = (\<lambda>user pass. if connection_check_pass (wconfig w) p user pass > 0 then 0 else -1)
          in (case mount_settings env w mount of
                None \<Rightarrow> Some (check ''source'' (source_password (wconfig w)), w)
              | Some m \<Rightarrow>
                  (case auth_stream_authenticate client mount (Some m) w of
                     None \<Rightarrow> None
                   | Some (res, w) \<Rightarrow>
                       if res > 0 then Some (1, w)
                       else Some (check (case username m of None \<Rightarrow> ''source'' | Some n \<Rightarrow> n)
                              (case password m of None \<Rightarrow> source_password (wconfig w) | Some s \<Rightarrow> Some s), w))))"

text \<open>Setting up an authenticator from its type and options; its thread starts with one reference held.\<close>

definition get_authenticator :: "(auth_t \<Rightarrow> (string \<times> string) list \<Rightarrow> auth_t option) \<Rightarrow> string option \<Rightarrow> (string \<times> string) list \<Rightarrow> auth_t option" where
  "get_authenticator auth_get_url_auth type options =
     (let new = \<lparr>has_authenticate = False, has_release_listener = False, has_stream_auth = False, has_stream_start = False,
            has_stream_end = False, arunning = True, refcount = 1, allow_duplicate_users = 0, aqueue = [], pending_count = 0\<rparr>;
          base = (case type of
              None \<Rightarrow> None
            | Some t \<Rightarrow>
                if strcmp t ''url'' = 0 then auth_get_url_auth new options
                else if strcmp t ''htpasswd'' = 0 then Some (new\<lparr>has_authenticate := True\<rparr>)
                else None)
      in map_option (\<lambda>a. fold (\<lambda>(n, v) a. if strcmp n ''allow_duplicate_users'' = 0 then a\<lparr>allow_duplicate_users := atoi v\<rparr> else a) options a) base)"

section \<open>Queues stay consistent\<close>

definition queue_inv :: "auth_t \<Rightarrow> bool" where
  "queue_inv a \<longleftrightarrow> pending_count a = int (length (aqueue a)) \<and> length (filter (\<lambda>u. process u = New_listener) (aqueue a)) \<le> 101"

definition auths_inv :: "world \<Rightarrow> bool" where
  "auths_inv w \<longleftrightarrow> (\<forall>i a. wauths w i = Some a \<longrightarrow> queue_inv a)"

lemma emit_simps [simp]: "wauths (emit e w) = wauths w" "wconfig (emit e w) = wconfig w" "wregistry (emit e w) = wregistry w"
  "wglobal (emit e w) = wglobal w" "wevents (emit e w) = wevents w @ [e]"
  by (simp_all add: emit_def)

lemma send_simps [simp]: "wauths (send_401 env c w) = wauths w" "wauths (send_403 env c m w) = wauths w"
  by (simp_all add: send_401_def send_403_def)

lemma auths_inv_same: "wauths w' = wauths w \<Longrightarrow> auths_inv w' = auths_inv w"
  by (simp add: auths_inv_def)

lemma push_job_inv:
  assumes "auths_inv w" "push_job i r u (wauths w) = Some as"
    and "process u = New_listener \<Longrightarrow> \<exists>a. wauths w i = Some a \<and> pending_count a \<le> 100"
  shows "auths_inv (w\<lparr>wauths := as\<rparr>)"
proof -
  obtain a where a: "wauths w i = Some a"
    "as = (wauths w)(i \<mapsto> a\<lparr>refcount := refcount a + r, aqueue := aqueue a @ [u], pending_count := pending_count a + 1\<rparr>)"
    using assms(2) by (auto simp: push_job_def split: option.splits)
  have inv: "queue_inv a" using assms(1) a(1) by (simp add: auths_inv_def)
  have le: "length (filter (\<lambda>u. process u = New_listener) (aqueue a)) \<le> length (aqueue a)" by simp
  have "length (filter (\<lambda>u. process u = New_listener) (aqueue a)) \<le> 100" if "process u = New_listener"
  proof -
    have "pending_count a \<le> 100" using assms(3) [OF that] a(1) by simp
    then show ?thesis using inv le unfolding queue_inv_def by linarith
  qed
  with inv a have "queue_inv (a\<lparr>refcount := refcount a + r, aqueue := aqueue a @ [u], pending_count := pending_count a + 1\<rparr>)"
    by (auto simp: queue_inv_def)
  with assms(1) a(2) show ?thesis by (auto simp: auths_inv_def)
qed

lemma auth_release_inv: "auths_inv w \<Longrightarrow> auth_release r w = Some w' \<Longrightarrow> auths_inv w'"
  by (auto simp: auth_release_def auths_inv_def queue_inv_def Let_def split: option.splits if_splits)

lemma queue_auth_client_inv:
  assumes "auths_inv w" "queue_auth_client u m (wauths w) = Some as"
    and "process u = New_listener \<Longrightarrow> \<exists>i a. m = Some i \<and> wauths w i = Some a \<and> pending_count a \<le> 100"
  shows "auths_inv (w\<lparr>wauths := as\<rparr>)"
proof (cases m)
  case None
  then have np: "process u \<noteq> New_listener" using assms(3) by auto
  show ?thesis
  proof (cases "Option.bind (aclient u) cauth")
    case None
    with \<open>m = None\<close> assms have "as = wauths w" by (simp add: queue_auth_client_def)
    with assms(1) show ?thesis by (simp add: auths_inv_def)
  next
    case (Some i)
    with \<open>m = None\<close> have "push_job i 0 u (wauths w) = Some as" using assms(2) by (simp add: queue_auth_client_def)
    from push_job_inv [OF assms(1) this] np show ?thesis by blast
  qed
next
  case (Some i)
  then have j: "push_job i 1 (u\<lparr>aclient := map_option (\<lambda>c. c\<lparr>cauth := Some i\<rparr>) (aclient u)\<rparr>) (wauths w) = Some as"
    using assms(2) by (simp add: queue_auth_client_def)
  show ?thesis by (rule push_job_inv [OF assms(1) j]) (use assms(3) Some in auto)
qed

lemma setup_process: "auth_client_setup proc mount c = Some u \<Longrightarrow> process u = proc"
  by (auto simp: auth_client_setup_def Let_def split: option.splits)

lemma add_listener_auths: "add_authenticated_listener env mount m c w = (ret, c', w') \<Longrightarrow> wauths w' = wauths w"
  by (auto simp: add_authenticated_listener_def Let_def split: option.splits if_splits prod.splits)

lemma auth_add_listener_inv:
  assumes inv: "auths_inv w" and add: "auth_add_listener env mount c w = Some w'"
  shows "auths_inv w'"
proof (cases "Option.bind (mount_settings env w mount) auth")
  case None
  obtain ret c1 w1 where a: "add_authenticated_listener env mount (mount_settings env w mount) c w = (ret, c1, w1)" by (metis prod.exhaust)
  have "wauths w' = wauths w"
    using add None add_listener_auths [OF a] a by (auto simp: auth_add_listener_def Let_def split: if_splits)
  then show ?thesis using inv auths_inv_same by blast
next
  case (Some i)
  show ?thesis
  proof (cases "\<exists>as u a. w' = w\<lparr>wauths := as\<rparr> \<and> auth_client_setup New_listener mount c = Some u \<and>
      queue_auth_client u (Some i) (wauths w) = Some as \<and> wauths w i = Some a \<and> pending_count a \<le> 100")
    case True
    then show ?thesis using queue_auth_client_inv [OF inv] by metis
  next
    case False
    then have "wauths w' = wauths w" using add Some by (auto simp: auth_add_listener_def Let_def split: option.splits if_splits)
    then show ?thesis using inv auths_inv_same by blast
  qed
qed

lemma client_destroy_inv:
  assumes inv: "auths_inv w" and d: "client_destroy c w = Some w'"
  shows "auths_inv w'"
proof -
  obtain b c1 w1 where r: "auth_release_listener (c\<lparr>rdata := [], rlen := 0\<rparr>) w = Some (b, c1, w1)"
    using d by (auto simp: client_destroy_def split: option.splits)
  have "auths_inv w1"
  proof (cases "wauths w1 = wauths w")
    case True then show ?thesis using inv auths_inv_same by blast
  next
    case False
    with r obtain u m p c2 as where "w1 = w\<lparr>wauths := as\<rparr>" "auth_client_setup Remove_listener m c2 = Some u" "queue_auth_client u None (wauths w) = Some as"
      by (auto simp: auth_release_listener_def Let_def split: option.splits if_splits)
    then show ?thesis using queue_auth_client_inv [OF inv, of u None as] setup_process by fastforce
  qed
  moreover have "wauths w' = wauths w1" using d r by (cases b) (auto simp: client_destroy_def Let_def)
  ultimately show ?thesis using auths_inv_same by blast
qed

lemma auth_client_free_inv: "auths_inv w \<Longrightarrow> auth_client_free env u w = Some w' \<Longrightarrow> auths_inv w'"
  using client_destroy_inv auths_inv_same [of "send_401 env _ w" w]
  by (auto simp: auth_client_free_def split: option.splits if_splits)

lemma auth_new_listener_inv:
  assumes inv: "auths_inv w" and run: "auth_new_listener env i u w = Some (u', w')"
  shows "auths_inv w'"
proof -
  obtain c a where c: "aclient u = Some c" "wauths w i = Some a" using run by (auto simp: auth_new_listener_def split: option.splits)
  obtain res c1 where res: "(if has_authenticate a then authenticate env i c else (AUTH_OK, c)) = (res, c1)" by (rule prod.exhaust)
  obtain ret c2 w2 where add: "add_authenticated_listener env (amount u) (mount_settings env w (amount u)) c1 w = (ret, c2, w2)" by (metis prod.exhaust)
  have w2: "auths_inv w2" using inv auths_inv_same add_listener_auths [OF add] by blast
  then have w3: "auths_inv (send_401 env x w2)" for x using auths_inv_same [of "send_401 env x w2" w2] by simp
  show ?thesis
    using run c res add inv w2 auth_release_inv [OF inv] auth_release_inv [OF w3]
    by (auto simp: auth_new_listener_def split: if_splits)
qed

lemma run_job_inv:
  assumes inv: "auths_inv w" and run: "run_job env i u w = Some (u', w')"
  shows "auths_inv w'"
proof (cases "process u")
  case New_listener
  then show ?thesis using run auth_new_listener_inv [OF inv] by (simp add: run_job_def)
next
  case Remove_listener
  then show ?thesis using run auth_release_inv [OF inv] by (auto simp: run_job_def auth_remove_listener_def split: option.splits)
next
  case Stream_auth
  then obtain w1 where r: "auth_release (Some i) w = Some w1" "wauths w' = wauths w1"
    using run by (auto simp: run_job_def auth_stream_auth_callback_def auth_postprocess_source_def Let_def split: option.splits if_splits)
  with auth_release_inv [OF inv] show ?thesis using auths_inv_same by blast
next
  case Stream_start
  then show ?thesis using run auth_release_inv [OF inv] by (auto simp: run_job_def stream_event_callback_def)
next
  case Stream_end
  then show ?thesis using run auth_release_inv [OF inv] by (auto simp: run_job_def stream_event_callback_def)
qed

lemma auth_run_thread_inv:
  assumes inv: "auths_inv w" and run: "auth_run_thread env i w = Some w'"
  shows "auths_inv w'"
proof -
  obtain a where a: "wauths w i = Some a" using run by (auto simp: auth_run_thread_def split: option.splits)
  show ?thesis
  proof (cases "aqueue a")
    case Nil
    then show ?thesis using run a inv by (simp add: auth_run_thread_def)
  next
    case (Cons u us)
    define w1 where "w1 = w\<lparr>wauths := (wauths w)(i \<mapsto> a\<lparr>aqueue := us, pending_count := pending_count a - 1\<rparr>)\<rparr>"
    have "queue_inv a" using inv a by (simp add: auths_inv_def)
    then have "queue_inv (a\<lparr>aqueue := us, pending_count := pending_count a - 1\<rparr>)" using Cons by (auto simp: queue_inv_def split: if_splits)
    then have "auths_inv w1" using inv by (simp add: auths_inv_def w1_def)
    moreover obtain u1 w2 where "run_job env i u w1 = Some (u1, w2)" "auth_client_free env u1 w2 = Some w'"
      using run a Cons by (auto simp: auth_run_thread_def w1_def Let_def split: option.splits)
    ultimately show ?thesis using run_job_inv auth_client_free_inv by blast
  qed
qed

lemma auth_stream_event_inv: "auths_inv w \<Longrightarrow> p \<noteq> New_listener \<Longrightarrow> auth_stream_event cb p m mount w = Some w' \<Longrightarrow> auths_inv w'"
  using queue_auth_client_inv [of w "\<lparr>amount = mount, aclient = None, process = p\<rparr>"]
  by (auto simp: auth_stream_event_def split: option.splits if_splits)

lemma client_check_source_auth_inv:
  assumes inv: "auths_inv w" and chk: "client_check_source_auth env c mount w = Some (r, w')"
  shows "auths_inv w'"
proof (cases "mount_settings env w mount")
  case None
  then show ?thesis using chk inv by (auto simp: client_check_source_auth_def Let_def split: option.splits)
next
  case (Some m)
  then obtain res where "auth_stream_authenticate c mount (Some m) w = Some (res, w')"
    using chk by (auto simp: client_check_source_auth_def Let_def split: option.splits if_splits)
  then show ?thesis
    using inv queue_auth_client_inv [OF inv] setup_process
    by (fastforce simp: auth_stream_authenticate_def split: option.splits if_splits)
qed

section \<open>Steps\<close>

text \<open>The calls into this component: listeners and sources arrive, clients end, streams start and end,
  an authenticator's thread runs, and a reload of the configuration drops its references.\<close>

inductive auth_step :: "env \<Rightarrow> world \<Rightarrow> world \<Rightarrow> bool" for env where
  listener: "auth_add_listener env mount c w = Some w' \<Longrightarrow> auth_step env w w'"
| source: "client_check_source_auth env c mount w = Some (r, w') \<Longrightarrow> auth_step env w w'"
| destroy: "client_destroy c w = Some w' \<Longrightarrow> auth_step env w w'"
| start: "auth_stream_start m mount w = Some w' \<Longrightarrow> auth_step env w w'"
| stop: "auth_stream_end m mount w = Some w' \<Longrightarrow> auth_step env w w'"
| thread: "auth_run_thread env i w = Some w' \<Longrightarrow> auth_step env w w'"
| reload: "auth_release (Some i) w = Some w' \<Longrightarrow> auth_step env w w'"

inductive auth_steps :: "env \<Rightarrow> world \<Rightarrow> world \<Rightarrow> bool" for env where
  refl: "auth_steps env w w"
| step: "auth_steps env w w' \<Longrightarrow> auth_step env w' w'' \<Longrightarrow> auth_steps env w w''"

lemma auth_step_inv: "auth_step env w w' \<Longrightarrow> auths_inv w \<Longrightarrow> auths_inv w'"
  by (induction rule: auth_step.induct)
    (auto simp: auth_stream_start_def auth_stream_end_def intro: auth_add_listener_inv client_check_source_auth_inv
      client_destroy_inv auth_stream_event_inv auth_run_thread_inv auth_release_inv)

section \<open>Room for a listener\<close>

definition has_room :: "source \<Rightarrow> bool" where
  "has_room s \<longleftrightarrow> smax_listeners s = -1 \<or> slisteners s < word_of_int (smax_listeners s)"

lemma listener_target_room:
  "listener_target fnm config reg n a = Some a' \<Longrightarrow> \<exists>s. sheap reg a' = Some s \<and> has_room s"
proof (induction n arbitrary: a)
  case 0
  then show ?case by (subst (asm) listener_target.simps) (auto simp: has_room_def split: option.splits if_splits)
next
  case (Suc n)
  then show ?case by (subst (asm) listener_target.simps) (auto simp: has_room_def split: option.splits if_splits)
qed

lemma listener_target_first: "sheap reg a = Some s \<Longrightarrow> has_room s \<Longrightarrow> listener_target fnm config reg n a = Some a"
  by (subst listener_target.simps) (auto simp: has_room_def)

definition pending_trees_ok :: "source_registry \<Rightarrow> bool" where
  "pending_trees_ok reg \<longleftrightarrow>
     (\<forall>b s. sheap reg b = Some s \<longrightarrow> avl_invar (pending_tree s) \<and> compare_fun (pending_tree s) = compare_clients)"

definition queued_listener :: "client \<Rightarrow> client" where
  "queued_listener c = c\<lparr>check_buffer := Some format_check_http_buffer, rlen := PER_CLIENT_REFBUF_SIZE, rdata := replicate PER_CLIENT_REFBUF_SIZE NUL\<rparr>"

lemma tree_insert_mset:
  assumes "avl_invar t" "compare_fun t = compare_clients"
  shows "mset (inorder (root (tree_insert t c))) = add_mset c (mset (inorder (root t)))"
proof -
  obtain res t' where ins: "avl_insert True t c = (res, t')" by fastforce
  have "key_compare (compare_fun t)" using assms(2) compare_clients_ok by simp
  from avl_insert_correct(4) [OF this assms(1) ins] ins show ?thesis by (simp add: tree_insert_def mset_list_insert)
qed

section \<open>Properties\<close>

text \<open>
  C14: Whatever sequence of arrivals, departures, stream events, thread rounds and reloads happens, the
  count of pending clients of an authenticator is the length of its queue, and at most 101
  listeners wait in it.
\<close>

theorem auth_queue_invariant:
  assumes "auth_steps env w w'" and "auths_inv w" and "wauths w' i = Some a"
  shows "pending_count a = int (length (aqueue a)) \<and> length (filter (\<lambda>u. process u = New_listener) (aqueue a)) \<le> 101"
proof -
  have "auths_inv w'" using assms(1,2) by (induction rule: auth_steps.induct) (auto intro: auth_step_inv)
  then show ?thesis using assms(3) by (simp add: auths_inv_def queue_inv_def)
qed

definition demo_auth :: auth_t where
  "demo_auth =
     \<lparr>has_authenticate = True, has_release_listener = False, has_stream_auth = False, has_stream_start = True, has_stream_end = False,
      arunning = True, refcount = 1, allow_duplicate_users = 0, aqueue = [], pending_count = 0\<rparr>"

definition demo_mount :: mount_proxy where
  "demo_mount =
     \<lparr>mountname = Some ''/live'', mounttype = MOUNT_TYPE_NORMAL, username = None, password = None, dumpfile = None, intro_filename = None,
      fallback_when_full = 0, max_listeners = -1, fallback_mount = None, fallback_override = 0, no_mount = 0, burst_size = -1,
      queue_size_limit = 0, hidden = 0, source_timeout = 0, charset = None, mp3_meta_interval = -1, http_headers = [],
      auth_type = Some ''htpasswd'', auth = Some 0, cluster_password = None, on_connect = None, on_disconnect = None,
      max_listener_duration = 0, stream_name = None, stream_description = None, stream_url = None, stream_genre = None,
      bitrate = None, type_of_stream = None, subtype = None, yp_public = -1\<rparr>"

definition demo_world :: world where
  "demo_world =
     \<lparr>wconfig = demo_config\<lparr>mounts := [demo_mount]\<rparr>, wregistry = empty_registry, wauths = [0 \<mapsto> demo_auth],
      wglobal = global_initialize, wevents = []\<rparr>"

definition demo_env :: "bool \<Rightarrow> env" where
  "demo_env up =
     \<lparr>fnmatch = literal_match, date_line = [], taken = 0, now = 0, connected = (\<lambda>_. up), authenticate = (\<lambda>_ c. (AUTH_OK, c)),
      stream_auth = (\<lambda>_ c. c)\<rparr>"

theorem auth_queue_invariant_witness:
  "\<exists>w' a. auth_steps (demo_env True) demo_world w' \<and> wauths w' 0 = Some a \<and> length (aqueue a) = 1 \<and> pending_count a = 1"
proof -
  obtain w' a where w': "auth_stream_start (Some demo_mount) ''/live'' demo_world = Some w'" "wauths w' 0 = Some a" "length (aqueue a) = 1"
    by (simp add: auth_stream_start_def auth_stream_event_def demo_mount_def demo_world_def demo_auth_def queue_auth_client_def push_job_def)
  then have st: "auth_steps (demo_env True) demo_world w'" by (meson auth_step.start auth_steps.step auth_steps.refl)
  have "auths_inv demo_world" by (simp add: auths_inv_def demo_world_def demo_auth_def queue_inv_def)
  from auth_queue_invariant [OF st this w'(2)] st w' show ?thesis by auto
qed

text \<open>
  An authenticator that has no release callback, as the htpasswd one, loses a reference with every
  listener: after a listener has logged in, was served and is gone, the count is higher by one
  although nobody refers to the authenticator any more than before.
\<close>

lemma listener_reference_leak:
  assumes "mount_settings env w mount = Some m" "no_mount m = 0" "auth m = Some i" "wauths w i = Some a"
    and "aqueue a = []" "pending_count a = 0" "\<not> has_release_listener a"
    and "parser client = Some p" "httpp_getvar p HTTPP_VAR_URI = Some u"
    and "\<And>c. connected env c" "\<And>c. authenticate env i c = (AUTH_OK, c)"
    and "util_check_valid_extension (Some mount) \<noteq> XSLT_CONTENT"
    and "source_find_mount (fnmatch env) (wconfig w) (wregistry w) (Some mount) = None"
  shows "\<exists>w1 w2 c w3. auth_add_listener env mount client w = Some w1 \<and> auth_run_thread env i w1 = Some w2 \<and>
    wevents w2 = wevents w @ [Serve_file c mount] \<and> client_destroy c w2 = Some w3 \<and>
    wauths w3 i = Some (a\<lparr>refcount := refcount a + 1\<rparr>) \<and> wevents w3 = wevents w2 @ [Closed (c\<lparr>rdata := [], rlen := 0, pos := 0, authenticated := False\<rparr>) (respcode c \<noteq> 0)]"
proof -
  obtain j where j: "auth_client_setup New_listener mount client = Some j" "process j = New_listener" "amount j = mount"
    "\<exists>c. aclient j = Some c \<and> parser c = Some p"
    using assms(8) by (auto simp: auth_client_setup_def Let_def split: option.splits)
  then obtain c0 where c0: "aclient j = Some c0" "parser c0 = Some p" by blast
  define j1 where "j1 = j\<lparr>aclient := Some (c0\<lparr>cauth := Some i\<rparr>)\<rparr>"
  define w1 where "w1 = w\<lparr>wauths := (wauths w)(i \<mapsto> a\<lparr>refcount := refcount a + 1, aqueue := [j1], pending_count := 1\<rparr>)\<rparr>"
  have s1: "auth_add_listener env mount client w = Some w1"
    using assms(1-6) j(1) c0(1) by (simp add: auth_add_listener_def queue_auth_client_def push_job_def w1_def j1_def)
  define c where "c = c0\<lparr>cauth := Some i, authenticated := True\<rparr>"
  define a1 where "a1 = a\<lparr>refcount := refcount a + 1\<rparr>"
  define w1' where "w1' = w\<lparr>wauths := (wauths w)(i \<mapsto> a1)\<rparr>"
  have pop: "w1\<lparr>wauths := (wauths w1)(i \<mapsto> a\<lparr>refcount := refcount a + 1, aqueue := [], pending_count := 1 - 1\<rparr>)\<rparr> = w1'"
  proof -
    have "a\<lparr>refcount := refcount a + 1, aqueue := [], pending_count := 0\<rparr> = a1" using assms(5,6) by (cases a) (simp add: a1_def)
    then show ?thesis by (simp add: w1_def w1'_def)
  qed
  have add: "add_authenticated_listener env mount x (c0\<lparr>cauth := Some i\<rparr>) w1' = (0, c, emit (Serve_file c mount) w1')" for x
    using assms(12,13) by (simp add: add_authenticated_listener_def w1'_def c_def Let_def)
  have job: "run_job env i j1 w1' = Some (j1\<lparr>aclient := None\<rparr>, emit (Serve_file c mount) w1')"
    using assms(10,11) j(2,3) add by (simp add: run_job_def auth_new_listener_def j1_def w1'_def)
  have s2: "auth_run_thread env i w1 = Some (emit (Serve_file c mount) w1')"
    using job pop unfolding auth_run_thread_def by (simp add: w1_def auth_client_free_def)
  have "client_destroy c (emit (Serve_file c mount) w1') =
      Some ((emit (Closed (c\<lparr>rdata := [], rlen := 0, pos := 0, authenticated := False\<rparr>) (respcode c \<noteq> 0)) (emit (Serve_file c mount) w1'))
        \<lparr>wglobal := (wglobal w)\<lparr>clients := clients (wglobal w) - 1\<rparr>\<rparr>)"
    using assms(7,9) c0(2) by (simp add: client_destroy_def auth_release_listener_def c_def w1'_def a1_def client_set_queue_def)
  then show ?thesis using s1 s2 by (simp add: w1'_def a1_def)
qed

definition demo_listener_client :: client where
  "demo_listener_client = demo_client\<lparr>parser := Some (httpp_setvar (httpp_initialize []) HTTPP_VAR_URI ''/live'')\<rparr>"

lemma demo_world_facts:
  "mount_settings (demo_env up) demo_world ''/live'' = Some demo_mount"
  "wauths demo_world 0 = Some demo_auth"
  "httpp_getvar (httpp_setvar (httpp_initialize []) HTTPP_VAR_URI ''/live'') HTTPP_VAR_URI = Some ''/live''"
  "source_find_mount literal_match c empty_registry m = None"
proof -
  show "mount_settings (demo_env up) demo_world ''/live'' = Some demo_mount"
    by (simp add: mount_settings_def demo_env_def demo_world_def config_find_mount_def mount_matches_def demo_mount_def)
  show "wauths demo_world 0 = Some demo_auth" by (simp add: demo_world_def)
  show "httpp_getvar (httpp_setvar (httpp_initialize []) HTTPP_VAR_URI ''/live'') HTTPP_VAR_URI = Some ''/live''"
    by (simp add: httpp_getvar_setvar initialize_ok)
  have "first_active empty_registry ms = None" for ms
    by (induction ms) (simp_all add: first_active_simps source_find_mount_raw_def empty_registry_def avl_tree_new_def)
  then show "source_find_mount literal_match c empty_registry m = None" by (simp add: source_find_mount_def find_mount_chain)
qed

text \<open>
  When the configuration drops its reference while a client is still queued, and that client turns
  out to be gone, the authentication thread drops the last reference itself and waits for
  itself to end.
\<close>

lemma auth_thread_joins_itself:
  assumes "mount_settings env w mount = Some m" "no_mount m = 0" "auth m = Some i" "wauths w i = Some a"
    and "aqueue a = []" "pending_count a = 0" "refcount a = 1" and "parser client = Some p" and "\<And>c. \<not> connected env c"
  shows "\<exists>w1 w2. auth_add_listener env mount client w = Some w1 \<and> auth_release (Some i) w1 = Some w2 \<and> Joined i \<notin> set (drop (length (wevents w)) (wevents w2)) \<and>
    (\<forall>w3. auth_run_thread env i w2 = Some w3 \<longrightarrow> Joined i \<in> set (drop (length (wevents w)) (wevents w3)) \<and> wauths w3 i = None) \<and>
    auth_run_thread env i w2 \<noteq> None"
proof -
  obtain j where j: "auth_client_setup New_listener mount client = Some j" "process j = New_listener" "\<exists>c. aclient j = Some c"
    using assms(8) by (auto simp: auth_client_setup_def Let_def split: option.splits)
  then obtain c0 where c0: "aclient j = Some c0" by blast
  define j1 where "j1 = j\<lparr>aclient := Some (c0\<lparr>cauth := Some i\<rparr>)\<rparr>"
  define w1 where "w1 = w\<lparr>wauths := (wauths w)(i \<mapsto> a\<lparr>refcount := 2, aqueue := [j1], pending_count := 1\<rparr>)\<rparr>"
  define w2 where "w2 = w\<lparr>wauths := (wauths w)(i \<mapsto> a\<lparr>refcount := 1, aqueue := [j1], pending_count := 1\<rparr>)\<rparr>"
  define c where "c = c0\<lparr>respcode := 400, cauth := None\<rparr>"
  have s1: "auth_add_listener env mount client w = Some w1"
    using assms(1-7) j(1) c0 by (simp add: auth_add_listener_def queue_auth_client_def push_job_def w1_def j1_def)
  have s2: "auth_release (Some i) w1 = Some w2" by (cases a) (simp add: auth_release_def w1_def w2_def)
  define w3 where "w3 = emit (Joined i) (w\<lparr>wauths := (wauths w)(i := None)\<rparr>)"
  have s3: "auth_run_thread env i w2 = client_destroy c w3"
    using assms(9) j(2) by (simp add: auth_run_thread_def w2_def run_job_def auth_new_listener_def j1_def auth_release_def
        auth_client_free_def c_def w3_def)
  have rel: "auth_release_listener (c\<lparr>rdata := [], rlen := 0\<rparr>) w3 \<noteq> None \<and>
      (\<forall>b c' w'. auth_release_listener (c\<lparr>rdata := [], rlen := 0\<rparr>) w3 = Some (b, c', w') \<longrightarrow> \<not> b \<and> w' = w3)"
    using j(1) assms(8) c0 by (auto simp: auth_release_listener_def c_def client_set_queue_def auth_client_setup_def Let_def split: option.splits)
  then have "client_destroy c w3 \<noteq> None \<and> (\<forall>w'. client_destroy c w3 = Some w' \<longrightarrow>
      Joined i \<in> set (drop (length (wevents w)) (wevents w')) \<and> wauths w' i = None)"
    by (auto simp: client_destroy_def w3_def Let_def split: option.splits bool.splits)
  then show ?thesis using s1 s2 s3 by (auto simp: w2_def)
qed



end
