(* ===== verification/Conn_Queue.thy ===== *)
theory Conn_Queue
  imports Prelude
begin

text \<open>
  The two queues of \<open>connection.c\<close>: requests whose headers are being read (\<open>_req_queue\<close>) and clients
  whose headers are complete (\<open>_con_queue\<close>). Each is a chain of \<open>client_queue_t\<close> nodes with a head
  pointer and a pointer to the last \<open>next\<close> field. The nodes live in a store shared by the queues,
  and a \<open>client_queue_t **\<close> is either the head variable or the \<open>next\<close> field of a node. The
  interface \<open>fifo\<close> says what clients of a queue rely on.
\<close>

section \<open>Nodes and references\<close>

record 'a qnode =
  payload :: 'a
  link :: "nat option"

type_synonym 'a nodes = "nat \<Rightarrow> 'a qnode option"

datatype qref = Head | Next nat

record queue =
  head :: "nat option"
  tailp :: qref

definition queue_new :: queue where
  "queue_new = \<lparr>head = None, tailp = Head\<rparr>"

text \<open>Reading and writing through a \<open>client_queue_t **\<close>.\<close>

definition deref :: "'a nodes \<Rightarrow> queue \<Rightarrow> qref \<Rightarrow> nat option" where
  "deref ns q r = (case r of Head \<Rightarrow> head q | Next a \<Rightarrow> Option.bind (ns a) link)"

definition assign :: "'a nodes \<Rightarrow> queue \<Rightarrow> qref \<Rightarrow> nat option \<Rightarrow> 'a nodes \<times> queue" where
  "assign ns q r v =
     (case r of
        Head \<Rightarrow> (ns, q\<lparr>head := v\<rparr>)
      | Next a \<Rightarrow> (ns(a := map_option (\<lambda>n. n\<lparr>link := v\<rparr>) (ns a)), q))"

section \<open>Operations\<close>

text \<open>\<open>_add_request_queue\<close> and \<open>_add_connection\<close>, the same two assignments on either queue.\<close>

definition add_node :: "'a nodes \<Rightarrow> queue \<Rightarrow> nat \<Rightarrow> 'a nodes \<times> queue" where
  "add_node ns q a =
     (let (ns', q') = assign ns q (tailp q) (Some a)
      in (ns', q'\<lparr>tailp := Next a\<rparr>))"

definition get_connection :: "'a nodes \<Rightarrow> queue \<Rightarrow> nat option \<times> 'a nodes \<times> queue" where
  "get_connection ns q =
     (case head q of
        None \<Rightarrow> (None, ns, q)
      | Some a \<Rightarrow>
          let rest = Option.bind (ns a) link;
              q' = q\<lparr>head := rest, tailp := (if rest = None then Head else tailp q)\<rparr>
          in (Some a, ns(a := map_option (\<lambda>n. n\<lparr>link := None\<rparr>) (ns a)), q'))"

text \<open>Taking the node at \<open>*node_ref\<close> out of the request queue, wherever it is.\<close>

definition unlink_node :: "'a nodes \<Rightarrow> queue \<Rightarrow> qref \<Rightarrow> nat \<Rightarrow> 'a nodes \<times> queue" where
  "unlink_node ns q r a =
     (let q' = (if tailp q = Next a then q\<lparr>tailp := r\<rparr> else q)
      in assign ns q' r (Option.bind (ns a) link))"

text \<open>
  The walk of \<open>process_request_queue\<close> along the request queue. What happens to a node is decided by
  its content: it stays, its headers are complete and it moves to the connection queue, or it is
  dropped. The fuel bounds the number of nodes visited; \<open>None\<close> is an unfinished walk.
\<close>

datatype 'a verdict = Stay 'a | Pass 'a | Drop

record 'a queues =
  nodes :: "'a nodes"
  req_queue :: queue
  con_queue :: queue

fun process_queue :: "nat \<Rightarrow> (nat \<Rightarrow> 'a \<Rightarrow> 'a verdict) \<Rightarrow> qref \<Rightarrow> 'a queues \<Rightarrow> 'a queues option" where
  "process_queue 0 f r st = None"
| "process_queue (Suc fuel) f r st =
     (case deref (nodes st) (req_queue st) r of
        None \<Rightarrow> Some st
      | Some a \<Rightarrow>
          (case nodes st a of
             None \<Rightarrow> None
           | Some n \<Rightarrow>
               (case f a (payload n) of
                  Stay p \<Rightarrow>
                    process_queue fuel f (Next a) (st\<lparr>nodes := (nodes st)(a \<mapsto> n\<lparr>payload := p\<rparr>)\<rparr>)
                | Pass p \<Rightarrow>
                    let (ns, rq) = unlink_node ((nodes st)(a \<mapsto> n\<lparr>payload := p\<rparr>)) (req_queue st) r a;
                        ns = ns(a := map_option (\<lambda>n. n\<lparr>link := None\<rparr>) (ns a));
                        (ns, cq) = add_node ns (con_queue st) a
                    in process_queue fuel f r \<lparr>nodes = ns, req_queue = rq, con_queue = cq\<rparr>
                | Drop \<Rightarrow>
                    let (ns, rq) = unlink_node (nodes st) (req_queue st) r a
                    in process_queue fuel f r (st\<lparr>nodes := ns(a := None), req_queue := rq\<rparr>))))"

section \<open>Chains\<close>

text \<open>The addresses from a pointer on, along the \<open>next\<close> fields, and the reference behind a prefix.\<close>

fun chain :: "'a nodes \<Rightarrow> nat option \<Rightarrow> nat list \<Rightarrow> bool" where
  "chain ns p [] \<longleftrightarrow> p = None"
| "chain ns p (a # as) \<longleftrightarrow> p = Some a \<and> (case ns a of None \<Rightarrow> False | Some n \<Rightarrow> chain ns (link n) as)"

definition ref_of :: "nat list \<Rightarrow> qref" where
  "ref_of as = (if as = [] then Head else Next (last as))"

definition queue_ok :: "'a nodes \<Rightarrow> queue \<Rightarrow> nat list \<Rightarrow> bool" where
  "queue_ok ns q as \<longleftrightarrow> chain ns (head q) as \<and> distinct as \<and> tailp q = ref_of as"

definition entries :: "'a nodes \<Rightarrow> nat list \<Rightarrow> (nat \<times> 'a) list" where
  "entries ns as = map (\<lambda>a. (a, payload (the (ns a)))) as"

lemma chain_nodes: "chain ns p as \<Longrightarrow> a \<in> set as \<Longrightarrow> \<exists>n. ns a = Some n"
  by (induction as arbitrary: p) (auto split: option.splits)

lemma chain_cong:
  "(\<And>a. a \<in> set as \<Longrightarrow> map_option link (ns' a) = map_option link (ns a)) \<Longrightarrow> chain ns' p as = chain ns p as"
proof (induction as arbitrary: p)
  case (Cons a as)
  have "map_option link (ns' a) = map_option link (ns a)" by (rule Cons.prems) simp
  moreover have "chain ns' p as = chain ns p as" for p by (rule Cons.IH) (rule Cons.prems, simp)
  ultimately show ?case by (cases "ns' a"; cases "ns a") simp_all
qed simp

lemma chain_upd [simp]: "a \<notin> set as \<Longrightarrow> chain (ns(a := x)) p as = chain ns p as"
  by (rule chain_cong) auto

lemma entries_upd [simp]: "a \<notin> set as \<Longrightarrow> entries (ns(a := x)) as = entries ns as"
  by (auto simp: entries_def)

lemma entries_link [simp]: "entries (ns(b := map_option (\<lambda>n. n\<lparr>link := v\<rparr>) (ns b))) as = entries ns as" if "\<forall>a\<in>set as. ns a \<noteq> None"
  using that by (auto simp: entries_def)

lemma chain_split: "chain ns p (as @ bs) \<Longrightarrow> as \<noteq> [] \<Longrightarrow> \<exists>n. ns (last as) = Some n \<and> chain ns (link n) bs"
  by (induction as arbitrary: p) (auto split: option.splits if_splits)

lemma chain_replace:
  "chain ns p (as @ bs) \<Longrightarrow> as \<noteq> [] \<Longrightarrow> distinct as \<Longrightarrow> chain ns v cs \<Longrightarrow> last as \<notin> set cs \<Longrightarrow>
   chain (ns(last as := map_option (\<lambda>n. n\<lparr>link := v\<rparr>) (ns (last as)))) p (as @ cs)"
proof (induction as arbitrary: p)
  case (Cons a as)
  then obtain n where n: "ns a = Some n" "chain ns (link n) (as @ bs)" "p = Some a" by (auto split: option.splits)
  show ?case
  proof (cases "as = []")
    case True
    then have "a \<notin> set cs" using Cons.prems(5) by simp
    with True Cons.prems(4) n show ?thesis by (simp del: fun_upd_apply add: chain_upd) (simp add: n)
  next
    case False
    then have "last as \<noteq> a" using Cons.prems(3) last_in_set [of as] by auto
    with False Cons.IH [OF n(2) False _ Cons.prems(4)] Cons.prems n show ?thesis by simp
  qed
qed simp

lemma deref_ref_of: "chain ns (head q) (as @ bs) \<Longrightarrow> chain ns (deref ns q (ref_of as)) bs"
  using chain_split [of ns "head q" as bs] by (auto simp: deref_def ref_of_def)

lemma assign_chain:
  assumes "chain ns (head q) (as @ bs)" "distinct as" "chain ns v cs" "set as \<inter> set cs = {}" "assign ns q (ref_of as) v = (ns', q')"
  shows "chain ns' (head q') (as @ cs)" "tailp q' = tailp q" "\<And>b. b \<notin> set as \<Longrightarrow> ns' b = ns b"
    "\<And>ds. \<forall>a\<in>set ds. ns a \<noteq> None \<Longrightarrow> entries ns' ds = entries ns ds"
    "\<And>b. ns' b = None \<longleftrightarrow> ns b = None"
proof -
  have "as \<noteq> [] \<Longrightarrow> last as \<notin> set cs" using assms(4) last_in_set [of as] by blast
  then show "chain ns' (head q') (as @ cs)"
    using assms chain_replace [of ns "head q" as bs v cs] by (auto simp: assign_def ref_of_def split: if_splits)
  show "tailp q' = tailp q" "\<And>b. b \<notin> set as \<Longrightarrow> ns' b = ns b" "\<And>b. ns' b = None \<longleftrightarrow> ns b = None"
    using assms(5) by (auto simp: assign_def ref_of_def split: if_splits)
  show "\<And>ds. \<forall>a\<in>set ds. ns a \<noteq> None \<Longrightarrow> entries ns' ds = entries ns ds"
    using assms(5) by (auto simp: assign_def ref_of_def split: if_splits)
qed

section \<open>The queue operations on lists\<close>

lemma add_node_ok:
  assumes ok: "queue_ok ns q as" and a: "a \<notin> set as" "ns a = Some n" "link n = None" and add: "add_node ns q a = (ns', q')"
  shows "queue_ok ns' q' (as @ [a])" "\<And>b. b \<notin> set as \<Longrightarrow> ns' b = ns b" "\<And>b. ns' b = None \<longleftrightarrow> ns b = None"
    "\<And>ds. \<forall>a\<in>set ds. ns a \<noteq> None \<Longrightarrow> entries ns' ds = entries ns ds"
proof -
  obtain q1 where q1: "assign ns q (ref_of as) (Some a) = (ns', q1)" "q' = q1\<lparr>tailp := Next a\<rparr>"
    using ok add by (auto simp: add_node_def queue_ok_def split: prod.splits)
  have "chain ns (head q) (as @ [])" "distinct as" "chain ns (Some a) [a]" "set as \<inter> set [a] = {}"
    using ok a by (auto simp: queue_ok_def)
  note r = assign_chain [OF this q1(1)]
  show "queue_ok ns' q' (as @ [a])" using r(1) q1(2) ok a by (simp add: queue_ok_def ref_of_def)
  show "\<And>b. b \<notin> set as \<Longrightarrow> ns' b = ns b" "\<And>b. ns' b = None \<longleftrightarrow> ns b = None"
    "\<And>ds. \<forall>a\<in>set ds. ns a \<noteq> None \<Longrightarrow> entries ns' ds = entries ns ds"
    using r(3-5) by auto
qed

lemma get_connection_empty: "queue_ok ns q [] \<Longrightarrow> get_connection ns q = (None, ns, q)"
  by (simp add: queue_ok_def get_connection_def)

lemma get_connection_ok:
  assumes "queue_ok ns q (a # as)" "get_connection ns q = (x, ns', q')"
  shows "x = Some a" "queue_ok ns' q' as" "\<And>b. b \<noteq> a \<Longrightarrow> ns' b = ns b"
    "ns' a = map_option (\<lambda>n. n\<lparr>link := None\<rparr>) (ns a)"
  using assms by (cases as; auto simp: queue_ok_def get_connection_def ref_of_def split: option.splits)+

lemma unlink_node_ok:
  assumes ok: "queue_ok ns q (as @ a # bs)" and un: "unlink_node ns q (ref_of as) a = (ns', q')"
  shows "queue_ok ns' q' (as @ bs)" "\<And>b. b \<notin> set as \<Longrightarrow> ns' b = ns b" "\<And>b. ns' b = None \<longleftrightarrow> ns b = None"
    "\<And>ds. \<forall>a\<in>set ds. ns a \<noteq> None \<Longrightarrow> entries ns' ds = entries ns ds"
proof -
  define q0 where "q0 = (if tailp q = Next a then q\<lparr>tailp := ref_of as\<rparr> else q)"
  have "chain ns (deref ns q (ref_of as)) (a # bs)" by (rule deref_ref_of) (use ok in \<open>simp add: queue_ok_def\<close>)
  then obtain n where n: "ns a = Some n" "chain ns (link n) bs" by (auto split: option.splits)
  have "chain ns (head q0) (as @ a # bs)" "distinct as" "set as \<inter> set bs = {}" "distinct (as @ bs)"
    using ok by (auto simp: queue_ok_def q0_def)
  moreover have un0: "assign ns q0 (ref_of as) (link n) = (ns', q')"
    using un n by (simp add: unlink_node_def q0_def)
  ultimately have r: "chain ns' (head q') (as @ bs)" "tailp q' = tailp q0" "\<And>b. b \<notin> set as \<Longrightarrow> ns' b = ns b"
    "\<And>ds. \<forall>a\<in>set ds. ns a \<noteq> None \<Longrightarrow> entries ns' ds = entries ns ds" "\<And>b. ns' b = None \<longleftrightarrow> ns b = None"
    using assign_chain [OF _ _ n(2) _ un0] by blast+
  have "tailp q0 = ref_of (as @ bs)"
    using ok by (cases "bs = []") (auto simp: queue_ok_def q0_def ref_of_def)
  then show "queue_ok ns' q' (as @ bs)" using r(1,2) \<open>distinct (as @ bs)\<close> by (simp add: queue_ok_def)
  show "\<And>b. b \<notin> set as \<Longrightarrow> ns' b = ns b" "\<And>b. ns' b = None \<longleftrightarrow> ns b = None"
    "\<And>ds. \<forall>a\<in>set ds. ns a \<noteq> None \<Longrightarrow> entries ns' ds = entries ns ds"
    using r(3-5) by auto
qed

section \<open>The walk along the request queue\<close>

definition queues_ok :: "'a queues \<Rightarrow> nat list \<Rightarrow> nat list \<Rightarrow> bool" where
  "queues_ok st rs cs \<longleftrightarrow> queue_ok (nodes st) (req_queue st) rs \<and> queue_ok (nodes st) (con_queue st) cs \<and> set rs \<inter> set cs = {}"

text \<open>What the walk promises, on lists: the requests that stay and those that are passed on.\<close>

definition staying :: "(nat \<Rightarrow> 'a \<Rightarrow> 'a verdict) \<Rightarrow> (nat \<times> 'a) list \<Rightarrow> (nat \<times> 'a) list" where
  "staying f = List.map_filter (\<lambda>(a, p). case f a p of Stay p' \<Rightarrow> Some (a, p') | _ \<Rightarrow> None)"

definition passing :: "(nat \<Rightarrow> 'a \<Rightarrow> 'a verdict) \<Rightarrow> (nat \<times> 'a) list \<Rightarrow> (nat \<times> 'a) list" where
  "passing f = List.map_filter (\<lambda>(a, p). case f a p of Pass p' \<Rightarrow> Some (a, p') | _ \<Rightarrow> None)"

lemma walk_Nil [simp]: "staying f [] = []" "passing f [] = []"
  by (simp_all add: staying_def passing_def List.map_filter_simps)

lemma staying_Cons: "staying f ((a, p) # xs) = (case f a p of Stay p' \<Rightarrow> (a, p') # staying f xs | _ \<Rightarrow> staying f xs)"
  by (simp add: staying_def List.map_filter_simps split: verdict.split)

lemma passing_Cons: "passing f ((a, p) # xs) = (case f a p of Pass p' \<Rightarrow> (a, p') # passing f xs | _ \<Rightarrow> passing f xs)"
  by (simp add: passing_def List.map_filter_simps split: verdict.split)

lemma queue_ok_upd [simp]: "a \<notin> set as \<Longrightarrow> queue_ok (ns(a := x)) q as = queue_ok ns q as"
  by (simp add: queue_ok_def)

lemma queue_ok_cong: "queue_ok ns q as \<Longrightarrow> (\<And>a. a \<in> set as \<Longrightarrow> map_option link (ns' a) = map_option link (ns a)) \<Longrightarrow> queue_ok ns' q as"
  unfolding queue_ok_def using chain_cong [of as ns' ns] by metis

lemma queue_ok_nodes: "queue_ok ns q as \<Longrightarrow> a \<in> set as \<Longrightarrow> \<exists>n. ns a = Some n"
  unfolding queue_ok_def using chain_nodes by metis

lemma entries_append [simp]: "entries ns (as @ bs) = entries ns as @ entries ns bs"
  by (simp add: entries_def)

lemma entries_Cons: "ns a = Some n \<Longrightarrow> entries ns (a # as) = (a, payload n) # entries ns as"
  by (simp add: entries_def)

lemma entries_Nil [simp]: "entries ns [] = []"
  by (simp add: entries_def)

lemma entries_cong: "(\<And>a. a \<in> set as \<Longrightarrow> ns' a = ns a) \<Longrightarrow> entries ns' as = entries ns as"
  by (simp add: entries_def)

text \<open>One node of the walk, for each of the three verdicts.\<close>

lemma step_stay:
  assumes ok: "queues_ok st (ks @ a # rs) cs" and a: "nodes st a = Some n"
    and st': "st' = st\<lparr>nodes := (nodes st)(a \<mapsto> n\<lparr>payload := p\<rparr>)\<rparr>"
  shows "queues_ok st' ((ks @ [a]) @ rs) cs"
    "entries (nodes st') (ks @ [a]) = entries (nodes st) ks @ [(a, p)]"
    "entries (nodes st') rs = entries (nodes st) rs"
    "entries (nodes st') cs = entries (nodes st) cs"
proof -
  have d: "a \<notin> set ks" "a \<notin> set rs" "a \<notin> set cs" using ok by (auto simp: queues_ok_def queue_ok_def)
  have "queue_ok (nodes st') (req_queue st) (ks @ a # rs)"
    by (rule queue_ok_cong [of "nodes st"]) (use ok a st' in \<open>auto simp: queues_ok_def\<close>)
  with ok d st' show "queues_ok st' ((ks @ [a]) @ rs) cs" by (simp add: queues_ok_def)
  show "entries (nodes st') (ks @ [a]) = entries (nodes st) ks @ [(a, p)]"
    "entries (nodes st') rs = entries (nodes st) rs"
    "entries (nodes st') cs = entries (nodes st) cs"
    using d st' by (simp_all add: entries_Cons del: fun_upd_apply) (simp_all add: entries_Cons)
qed

lemma step_drop:
  assumes ok: "queues_ok st (ks @ a # rs) cs" and un: "unlink_node (nodes st) (req_queue st) (ref_of ks) a = (ns, rq)"
    and st': "st' = st\<lparr>nodes := ns(a := None), req_queue := rq\<rparr>"
  shows "queues_ok st' (ks @ rs) cs" "nodes st' a = None"
    "entries (nodes st') ks = entries (nodes st) ks"
    "entries (nodes st') rs = entries (nodes st) rs"
    "entries (nodes st') cs = entries (nodes st) cs"
    "\<And>b. b \<noteq> a \<Longrightarrow> nodes st' b = None \<longleftrightarrow> nodes st b = None"
proof -
  have ok1: "queue_ok (nodes st) (req_queue st) (ks @ a # rs)" and ok2: "queue_ok (nodes st) (con_queue st) cs"
    and d: "set (ks @ a # rs) \<inter> set cs = {}" "a \<notin> set ks" "a \<notin> set rs" "a \<notin> set cs" "set ks \<inter> set rs = {}"
    using ok by (auto simp: queues_ok_def queue_ok_def)
  note r = unlink_node_ok [OF ok1 un]
  have "\<And>b. b \<in> set cs \<Longrightarrow> b \<notin> set ks" using d(1) by auto
  then have "queue_ok ns (con_queue st) cs" by (intro queue_ok_cong [OF ok2]) (simp add: r(2))
  with r(1) d st' show "queues_ok st' (ks @ rs) cs" by (auto simp: queues_ok_def simp del: fun_upd_apply)
  have nodes: "\<forall>b\<in>set ks. nodes st b \<noteq> None" "\<forall>b\<in>set rs. nodes st b \<noteq> None" "\<forall>b\<in>set cs. nodes st b \<noteq> None"
    using queue_ok_nodes [OF ok1] queue_ok_nodes [OF ok2] by auto
  show "entries (nodes st') ks = entries (nodes st) ks"
    "entries (nodes st') rs = entries (nodes st) rs"
    "entries (nodes st') cs = entries (nodes st) cs"
    using d st' r(4) nodes by (simp_all del: fun_upd_apply)
  show "nodes st' a = None" "\<And>b. b \<noteq> a \<Longrightarrow> nodes st' b = None \<longleftrightarrow> nodes st b = None"
    using st' r(3) by simp_all
qed

text \<open>Passing a node on is dropping it from the request queue and adding it to the connection queue.\<close>

lemma step_pass:
  assumes ok: "queues_ok st (ks @ a # rs) cs" and a: "nodes st a = Some n"
    and un: "unlink_node ((nodes st)(a \<mapsto> n\<lparr>payload := p\<rparr>)) (req_queue st) (ref_of ks) a = (ns, rq)"
    and add: "add_node (ns(a := map_option (\<lambda>n. n\<lparr>link := None\<rparr>) (ns a))) (con_queue st) a = (ns', cq)"
    and st': "st' = \<lparr>nodes = ns', req_queue = rq, con_queue = cq\<rparr>"
  shows "queues_ok st' (ks @ rs) (cs @ [a])"
    "entries (nodes st') ks = entries (nodes st) ks"
    "entries (nodes st') rs = entries (nodes st) rs"
    "entries (nodes st') (cs @ [a]) = entries (nodes st) cs @ [(a, p)]"
    "\<And>b. nodes st' b = None \<longleftrightarrow> nodes st b = None"
proof -
  define st1 where "st1 = st\<lparr>nodes := (nodes st)(a \<mapsto> n\<lparr>payload := p\<rparr>)\<rparr>"
  note s1 = step_stay [OF ok a st1_def]
  have d: "a \<notin> set ks" "a \<notin> set rs" "a \<notin> set cs" "set (ks @ rs) \<inter> set cs = {}"
    using ok by (auto simp: queues_ok_def queue_ok_def)
  have ok1: "queue_ok (nodes st1) (req_queue st) (ks @ a # rs)" and ok2: "queue_ok (nodes st1) (con_queue st) cs"
    using s1(1) by (simp_all add: queues_ok_def st1_def)
  have un1: "unlink_node (nodes st1) (req_queue st) (ref_of ks) a = (ns, rq)" using un by (simp add: st1_def)
  note r = unlink_node_ok [OF ok1 un1]
  define ns2 where "ns2 = ns(a := map_option (\<lambda>n. n\<lparr>link := None\<rparr>) (ns a))"
  have "\<And>b. b \<in> set cs \<Longrightarrow> b \<notin> set ks" using d(4) by auto
  then have "\<And>b. b \<in> set cs \<Longrightarrow> ns2 b = nodes st1 b" using r(2) d(3) unfolding ns2_def by auto
  then have c2: "queue_ok ns2 (con_queue st) cs" by (intro queue_ok_cong [OF ok2]) simp
  have nsa: "ns a = Some (n\<lparr>payload := p\<rparr>)" using r(2) [OF d(1)] by (simp add: st1_def)
  then have na: "ns2 a = Some (n\<lparr>payload := p, link := None\<rparr>)" by (simp add: ns2_def)
  have add2: "add_node ns2 (con_queue st) a = (ns', cq)" using add by (simp add: ns2_def)
  have "link (n\<lparr>payload := p, link := None\<rparr>) = None" by simp
  note t = add_node_ok [OF c2 d(3) na this add2]
  have q2: "queue_ok ns2 rq (ks @ rs)" using r(1) d unfolding ns2_def by (simp del: fun_upd_apply)
  have "\<And>b. b \<in> set (ks @ rs) \<Longrightarrow> b \<notin> set cs" using d(4) by auto
  then have "queue_ok ns' rq (ks @ rs)" by (intro queue_ok_cong [OF q2]) (simp add: t(2))
  with t(1) d st' show "queues_ok st' (ks @ rs) (cs @ [a])" by (auto simp: queues_ok_def)
  have nn: "\<forall>b\<in>set ks. nodes st1 b \<noteq> None" "\<forall>b\<in>set rs. nodes st1 b \<noteq> None" "\<forall>b\<in>set cs. nodes st1 b \<noteq> None"
    using queue_ok_nodes [OF ok1] queue_ok_nodes [OF ok2] by auto
  have n2: "\<And>b. ns2 b = None \<longleftrightarrow> nodes st1 b = None" using r(3) by (auto simp: ns2_def)
  have e: "\<And>ds. \<forall>b\<in>set ds. nodes st1 b \<noteq> None \<Longrightarrow> a \<notin> set ds \<Longrightarrow> entries ns' ds = entries (nodes st1) ds"
  proof -
    fix ds assume ds: "\<forall>b\<in>set ds. nodes st1 b \<noteq> None" "a \<notin> set ds"
    have "entries ns' ds = entries ns2 ds" by (rule t(4)) (use ds(1) n2 in simp)
    also have "\<dots> = entries ns ds" unfolding ns2_def by (rule entries_upd [OF ds(2)])
    also have "\<dots> = entries (nodes st1) ds" by (rule r(4) [OF ds(1)])
    finally show "entries ns' ds = entries (nodes st1) ds" .
  qed
  have k1: "entries (nodes st1) ks = entries (nodes st) ks" using d by (simp add: st1_def del: fun_upd_apply)
  have ea: "entries ns' [a] = [(a, p)]" using t(4) [of "[a]"] na by (simp add: entries_Cons)
  show "entries (nodes st') ks = entries (nodes st) ks" "entries (nodes st') rs = entries (nodes st) rs"
    using e [OF nn(1)] e [OF nn(2)] d k1 s1(3) st' by simp_all
  show "entries (nodes st') (cs @ [a]) = entries (nodes st) cs @ [(a, p)]"
    using e [OF nn(3)] d s1(4) st' ea by simp
  show "\<And>b. nodes st' b = None \<longleftrightarrow> nodes st b = None"
    using t(3) n2 st' a by (simp add: st1_def)
qed

text \<open>The walk returns, given a node of fuel per request and one more, and does what it promises.\<close>

lemma process_queue_run:
  assumes "queues_ok st (ks @ rs) cs" "length rs < fuel"
  shows "\<exists>st' rs' cs'. process_queue fuel f (ref_of ks) st = Some st' \<and> queues_ok st' rs' cs' \<and>
     entries (nodes st') rs' = entries (nodes st) ks @ staying f (entries (nodes st) rs) \<and>
     entries (nodes st') cs' = entries (nodes st) cs @ passing f (entries (nodes st) rs) \<and>
     (\<forall>(a, p)\<in>set (entries (nodes st) rs). f a p = Drop \<longrightarrow> nodes st' a = None) \<and>
     (\<forall>b. nodes st b = None \<longrightarrow> nodes st' b = None)"
  using assms
proof (induction fuel arbitrary: ks rs cs st)
  case (Suc fuel)
  have ch: "chain (nodes st) (deref (nodes st) (req_queue st) (ref_of ks)) rs"
    by (rule deref_ref_of) (use Suc.prems in \<open>simp add: queues_ok_def queue_ok_def\<close>)
  show ?case
  proof (cases rs)
    case Nil
    with ch Suc.prems show ?thesis by auto
  next
    case (Cons a rs')
    with ch obtain n where n: "deref (nodes st) (req_queue st) (ref_of ks) = Some a" "nodes st a = Some n"
      by (auto split: option.splits)
    have ok: "queues_ok st (ks @ a # rs') cs" and len: "length rs' < fuel" using Suc.prems Cons by auto
    have ra: "ref_of (ks @ [a]) = Next a" by (simp add: ref_of_def)
    have en: "entries (nodes st) rs = (a, payload n) # entries (nodes st) rs'" using Cons n by (simp add: entries_Cons)
    show ?thesis
    proof (cases "f a (payload n)")
      case (Stay p)
      define st1 where "st1 = st\<lparr>nodes := (nodes st)(a \<mapsto> n\<lparr>payload := p\<rparr>)\<rparr>"
      note s1 = step_stay [OF ok n(2) st1_def]
      have run: "process_queue (Suc fuel) f (ref_of ks) st = process_queue fuel f (ref_of (ks @ [a])) st1"
        using n Stay by (simp add: st1_def ra)
      have mono: "\<forall>b. nodes st b = None \<longrightarrow> nodes st1 b = None" using n by (auto simp: st1_def)
      show ?thesis
        using Suc.IH [OF s1(1) len] unfolding run en s1(2-4) staying_Cons passing_Cons
        apply (elim exE)
        subgoal for st' rs1 cs1 using Stay mono by (intro exI [of _ st'] exI [of _ rs1] exI [of _ cs1]) auto
        done
    next
      case (Pass p)
      obtain ns rq where un: "unlink_node ((nodes st)(a \<mapsto> n\<lparr>payload := p\<rparr>)) (req_queue st) (ref_of ks) a = (ns, rq)"
        by (rule prod.exhaust)
      obtain ns' cq where add: "add_node (ns(a := map_option (\<lambda>n. n\<lparr>link := None\<rparr>) (ns a))) (con_queue st) a = (ns', cq)"
        by (rule prod.exhaust)
      define st1 where "st1 = \<lparr>nodes = ns', req_queue = rq, con_queue = cq\<rparr>"
      note s1 = step_pass [OF ok n(2) un add st1_def]
      have run: "process_queue (Suc fuel) f (ref_of ks) st = process_queue fuel f (ref_of ks) st1"
        using n Pass un add by (simp add: st1_def)
      show ?thesis
        using Suc.IH [OF s1(1) len] unfolding run en s1(2-5) staying_Cons passing_Cons
        apply (elim exE)
        subgoal for st' rs1 cs1 using Pass by (intro exI [of _ st'] exI [of _ rs1] exI [of _ cs1]) auto
        done
    next
      case Drop
      obtain ns rq where un: "unlink_node (nodes st) (req_queue st) (ref_of ks) a = (ns, rq)"
        by (rule prod.exhaust)
      define st1 where "st1 = st\<lparr>nodes := ns(a := None), req_queue := rq\<rparr>"
      note s1 = step_drop [OF ok un st1_def]
      have run: "process_queue (Suc fuel) f (ref_of ks) st = process_queue fuel f (ref_of ks) st1"
        using n Drop un by (simp add: st1_def)
      have mono: "\<forall>b. nodes st b = None \<longrightarrow> nodes st1 b = None" using s1(2,6) by metis
      show ?thesis
        using Suc.IH [OF s1(1) len] unfolding run en s1(3-5) staying_Cons passing_Cons
        apply (elim exE)
        subgoal for st' rs1 cs1 using Drop mono s1(2) by (intro exI [of _ st'] exI [of _ rs1] exI [of _ cs1]) auto
        done
    qed
  qed
qed simp

section \<open>First in, first out\<close>

text \<open>
  What a user of a queue relies on: the state represents a list, an element that is ready and not
  in the list can be appended, and the first element can be taken.
\<close>

locale fifo =
  fixes rep :: "'s \<Rightarrow> 'e list \<Rightarrow> bool"
    and ready :: "'e \<Rightarrow> 's \<Rightarrow> bool"
    and push :: "'e \<Rightarrow> 's \<Rightarrow> 's"
    and pop :: "'s \<Rightarrow> 'e option \<times> 's"
  assumes push_rep: "rep s xs \<Longrightarrow> ready e s \<Longrightarrow> e \<notin> set xs \<Longrightarrow> rep (push e s) (xs @ [e])"
    and push_ready: "rep s xs \<Longrightarrow> ready e s \<Longrightarrow> e \<notin> set xs \<Longrightarrow> ready d s \<Longrightarrow> d \<notin> set xs \<Longrightarrow> ready d (push e s)"
    and pop_empty: "rep s [] \<Longrightarrow> pop s = (None, s)"
    and pop_first: "rep s (x # xs) \<Longrightarrow> \<exists>s'. pop s = (Some x, s') \<and> rep s' xs"

primrec drain :: "('s \<Rightarrow> 'e option \<times> 's) \<Rightarrow> nat \<Rightarrow> 's \<Rightarrow> 'e list" where
  "drain pop 0 s = []"
| "drain pop (Suc n) s = (case pop s of (None, s') \<Rightarrow> [] | (Some x, s') \<Rightarrow> x # drain pop n s')"

context fifo begin

lemma push_all:
  "rep s xs \<Longrightarrow> distinct (xs @ es) \<Longrightarrow> \<forall>e\<in>set es. ready e s \<Longrightarrow> rep (fold push es s) (xs @ es)"
proof (induction es arbitrary: s xs)
  case (Cons e es)
  have e: "rep s xs" "ready e s" "e \<notin> set xs" using Cons.prems by auto
  have "\<forall>d\<in>set es. ready d (push e s)" using push_ready [OF e] Cons.prems by auto
  with Cons.IH [OF push_rep [OF e]] Cons.prems show ?case by simp
qed simp

lemma drain_all: "rep s xs \<Longrightarrow> length xs \<le> n \<Longrightarrow> drain pop n s = xs"
proof (induction n arbitrary: s xs)
  case (Suc n)
  show ?case
  proof (cases xs)
    case Nil with Suc.prems pop_empty show ?thesis by simp
  next
    case (Cons x ys)
    with Suc.prems pop_first obtain s' where "pop s = (Some x, s')" "rep s' ys" by blast
    with Suc Cons show ?thesis by simp
  qed
qed simp

lemma first_in_first_out:
  "rep s [] \<Longrightarrow> distinct es \<Longrightarrow> \<forall>e\<in>set es. ready e s \<Longrightarrow> length es \<le> n \<Longrightarrow> drain pop n (fold push es s) = es"
  using push_all [of s "[]" es] drain_all by simp

end

text \<open>The queues of the server are such queues, of addresses of nodes.\<close>

definition add_to :: "nat \<Rightarrow> 'a nodes \<times> queue \<Rightarrow> 'a nodes \<times> queue" where
  "add_to a s = add_node (fst s) (snd s) a"

definition take_from :: "'a nodes \<times> queue \<Rightarrow> nat option \<times> 'a nodes \<times> queue" where
  "take_from s = get_connection (fst s) (snd s)"

definition holds :: "'a nodes \<times> queue \<Rightarrow> nat list \<Rightarrow> bool" where
  "holds s as \<longleftrightarrow> queue_ok (fst s) (snd s) as"

definition unlinked :: "nat \<Rightarrow> 'a nodes \<times> queue \<Rightarrow> bool" where
  "unlinked a s \<longleftrightarrow> map_option link (fst s a) = Some None"

interpretation cq: fifo "holds :: 'a nodes \<times> queue \<Rightarrow> nat list \<Rightarrow> bool" unlinked add_to take_from
proof
  fix s :: "'a nodes \<times> queue" and xs e assume a: "holds s xs" "unlinked e s" "e \<notin> set xs"
  obtain ns' q' where add: "add_node (fst s) (snd s) e = (ns', q')" by (rule prod.exhaust)
  from a(2) obtain n where n: "fst s e = Some n" "link n = None" by (auto simp: unlinked_def)
  note r = add_node_ok [OF a(1) [unfolded holds_def] a(3) n add]
  show "holds (add_to e s) (xs @ [e])" using r(1) add by (simp add: holds_def add_to_def)
  fix d assume "unlinked d s" "d \<notin> set xs"
  with r(2) add show "unlinked d (add_to e s)" by (simp add: unlinked_def add_to_def)
next
  fix s :: "'a nodes \<times> queue"
  assume "holds s []"
  then show "take_from s = (None, s)" by (simp add: holds_def take_from_def get_connection_empty)
next
  fix s :: "'a nodes \<times> queue" and x xs assume h: "holds s (x # xs)"
  obtain y ns' q' where g: "get_connection (fst s) (snd s) = (y, ns', q')" by (metis prod.exhaust)
  note r = get_connection_ok [OF h [unfolded holds_def] g]
  show "\<exists>s'. take_from s = (Some x, s') \<and> holds s' xs" using r g by (simp add: take_from_def holds_def)
qed

section \<open>Properties\<close>

text \<open>
  Clients are handed to the connection handler in the order in which their requests were
  completed: nodes added to an empty queue come out first in, first out, and then the queue is empty.
\<close>

lemma connection_queue_order:
  fixes ns :: "'a nodes"
  assumes "distinct as" and "\<forall>a\<in>set as. \<exists>p. ns a = Some \<lparr>payload = p, link = None\<rparr>" and "length as \<le> n"
  shows "drain take_from n (fold add_to as (ns, queue_new)) = as"
proof (rule cq.first_in_first_out)
  show "holds (ns, queue_new) []" by (simp add: holds_def queue_ok_def queue_new_def ref_of_def)
  show "\<forall>a\<in>set as. unlinked a (ns, queue_new)" using assms(2) by (auto simp: unlinked_def)
qed (use assms in auto)

definition demo_nodes :: "char nodes" where
  "demo_nodes = [3 \<mapsto> \<lparr>payload = CHR ''a'', link = None\<rparr>, 7 \<mapsto> \<lparr>payload = CHR ''b'', link = None\<rparr>]"

text \<open>
  C15: The walk along the request queue returns when given one step per request and one more. It
  keeps both queues well formed, leaves the unfinished requests in the queue in their order, moves
  the finished ones to the end of the connection queue in their order, and frees those it drops.
\<close>

theorem process_queue_spec:
  assumes "queues_ok st rs cs" and "length rs < fuel"
  shows "\<exists>st' rs' cs'. process_queue fuel f Head st = Some st' \<and> queues_ok st' rs' cs' \<and>
     entries (nodes st') rs' = staying f (entries (nodes st) rs) \<and>
     entries (nodes st') cs' = entries (nodes st) cs @ passing f (entries (nodes st) rs) \<and>
     (\<forall>(a, p)\<in>set (entries (nodes st) rs). f a p = Drop \<longrightarrow> nodes st' a = None)"
  using process_queue_run [of st "[]" rs cs fuel f] assms by (auto simp: ref_of_def)

definition demo_queues :: "nat queues" where
  "demo_queues =
     \<lparr>nodes = [1 \<mapsto> \<lparr>payload = 0, link = Some 2\<rparr>, 2 \<mapsto> \<lparr>payload = 1, link = Some 3\<rparr>, 3 \<mapsto> \<lparr>payload = 2, link = None\<rparr>],
      req_queue = \<lparr>head = Some 1, tailp = Next 3\<rparr>, con_queue = queue_new\<rparr>"

definition demo_verdict :: "nat \<Rightarrow> nat \<Rightarrow> nat verdict" where
  "demo_verdict a p = (if p = 0 then Stay 9 else if p = 1 then Drop else Pass 5)"

theorem process_queue_spec_witness:
  "\<exists>st' rs' cs'. process_queue 4 demo_verdict Head demo_queues = Some st' \<and> queues_ok st' rs' cs' \<and>
     entries (nodes st') rs' = [(1, 9)] \<and> entries (nodes st') cs' = [(3, 5)] \<and> nodes st' 2 = None"
  using process_queue_spec [of demo_queues "[1, 2, 3]" "[]" 4 demo_verdict]
  by (simp add: queues_ok_def queue_ok_def demo_queues_def queue_new_def ref_of_def entries_def
      staying_Cons passing_Cons demo_verdict_def del: process_queue.simps)

end
