(* ===== verification/Refbuf.thy ===== *)
theory Refbuf
  imports C_String "HOL-Library.Multiset"
begin

text \<open>
  Reference counted buffers (\<open>refbuf.c\<close>) in an explicit store. A freed buffer is gone from the
  store, and an operation on it gives \<open>None\<close>. The invariant \<open>heap_ok\<close> says of every buffer that its
  count is the number of references to it: those held outside, collected in a multiset, and
  those of other buffers that have it as their associated buffer.
\<close>

section \<open>State and operations\<close>

text \<open>
  \<open>blen\<close> is the number of bytes of \<open>bdata\<close> in use. Counts are natural numbers, as 2 to the 32
  references do not fit in memory; lowering a count of 0 is an error rather than a wrap.
\<close>

record refbuf =
  blen :: nat
  rcount :: nat
  bdata :: string
  associated :: "nat option"
  bnext :: "nat option"
  sync_point :: bool

type_synonym buffers = "nat \<Rightarrow> refbuf option"

text \<open>
  A new buffer is zero filled and has its whole size in use. A size of 0, which would leave the
  length unset, is never asked for.
\<close>

definition refbuf_new :: "nat \<Rightarrow> refbuf" where
  "refbuf_new sz =
     \<lparr>blen = sz, rcount = 1, bdata = replicate sz NUL, associated = None, bnext = None, sync_point = False\<rparr>"

text \<open>The length of a buffer is set to that of the string in it.\<close>

definition refbuf_widen :: "refbuf \<Rightarrow> refbuf" where
  "refbuf_widen r = r\<lparr>blen := length (c_str (bdata r) 0)\<rparr>"

definition refbuf_addref :: "buffers \<Rightarrow> nat \<Rightarrow> buffers option" where
  "refbuf_addref h a = map_option (\<lambda>b. h(a \<mapsto> b\<lparr>rcount := rcount b + 1\<rparr>)) (h a)"

text \<open>
  Releasing a buffer releases, when it is the last reference, the chain of associated buffers
  first. The fuel bounds the buffers followed this way.
\<close>

fun release :: "nat \<Rightarrow> buffers \<Rightarrow> nat \<Rightarrow> buffers option"
  and refbuf_release_associated :: "nat \<Rightarrow> buffers \<Rightarrow> nat option \<Rightarrow> buffers option" where
  "release 0 h a = None"
| "release (Suc n) h a =
     (case h a of
        None \<Rightarrow> None
      | Some b \<Rightarrow>
          if rcount b = 0 then None
          else
            let h = h(a \<mapsto> b\<lparr>rcount := rcount b - 1\<rparr>)
            in if rcount b - 1 = 0 then
                 map_option (\<lambda>h. h(a := None)) (refbuf_release_associated n h (associated b))
               else Some h)"
| "refbuf_release_associated n h None = Some h"
| "refbuf_release_associated 0 h (Some a) = None"
| "refbuf_release_associated (Suc n) h (Some a) =
     (case h a of
        None \<Rightarrow> None
      | Some b \<Rightarrow>
          let h = (if rcount b = 1 then h(a \<mapsto> b\<lparr>bnext := None\<rparr>) else h)
          in (case release n h a of
                None \<Rightarrow> None
              | Some h \<Rightarrow> refbuf_release_associated n h (bnext b)))"

definition RELEASE_FUEL :: nat where
  "RELEASE_FUEL = 100"

definition refbuf_release :: "buffers \<Rightarrow> nat option \<Rightarrow> buffers option" where
  "refbuf_release h self = (case self of None \<Rightarrow> Some h | Some a \<Rightarrow> release RELEASE_FUEL h a)"

section \<open>Counted stores\<close>

definition assoc_refs :: "buffers \<Rightarrow> nat \<Rightarrow> nat" where
  "assoc_refs h a = card {x. \<exists>b. h x = Some b \<and> associated b = Some a}"

text \<open>
  Associated buffers stand alone, as the metadata of a stream: they are not linked and have no
  associated buffer of their own.
\<close>

definition heap_ok :: "buffers \<Rightarrow> nat multiset \<Rightarrow> bool" where
  "heap_ok h R \<longleftrightarrow> finite (dom h) \<and>
     (\<forall>a. case h a of
        None \<Rightarrow> count R a = 0 \<and> assoc_refs h a = 0
      | Some b \<Rightarrow> rcount b = count R a + assoc_refs h a \<and> 0 < rcount b) \<and>
     (\<forall>x b m c. h x = Some b \<longrightarrow> associated b = Some m \<longrightarrow> h m = Some c \<longrightarrow> associated c = None \<and> bnext c = None)"

text \<open>What a store keeps of another: buffers may be gone and counts may differ.\<close>

definition kept :: "buffers \<Rightarrow> buffers \<Rightarrow> bool" where
  "kept h h' \<longleftrightarrow> (\<forall>x b'. h' x = Some b' \<longrightarrow> (\<exists>b n. h x = Some b \<and> b' = b\<lparr>rcount := n\<rparr>))"

lemma kept_refl [simp]: "kept h h"
proof -
  have "b = b\<lparr>rcount := rcount b\<rparr>" for b :: refbuf by simp
  then show ?thesis unfolding kept_def by blast
qed

lemma kept_trans:
  assumes "kept h1 h2" "kept h2 h3"
  shows "kept h1 h3"
  unfolding kept_def
proof (intro allI impI)
  fix x b3 assume "h3 x = Some b3"
  then obtain b2 n where "h2 x = Some b2" and b3: "b3 = b2\<lparr>rcount := n\<rparr>" using assms(2) unfolding kept_def by blast
  then obtain b1 m where "h1 x = Some b1" "b2 = b1\<lparr>rcount := m\<rparr>" using assms(1) unfolding kept_def by blast
  with b3 show "\<exists>b n. h1 x = Some b \<and> b3 = b\<lparr>rcount := n\<rparr>" by auto
qed

lemma kept_count: "h a = Some b \<Longrightarrow> kept h (h(a \<mapsto> b\<lparr>rcount := n\<rparr>))"
  using kept_refl [of h] unfolding kept_def by auto

lemma kept_free: "kept h h' \<Longrightarrow> kept h (h'(a := None))"
  unfolding kept_def by auto

lemma kept_fields:
  assumes "kept h h'" "h' x = Some b'"
  obtains b where "h x = Some b" "blen b' = blen b" "bdata b' = bdata b" "associated b' = associated b"
    "bnext b' = bnext b" "sync_point b' = sync_point b"
proof -
  obtain b n where "h x = Some b" "b' = b\<lparr>rcount := n\<rparr>" using assms unfolding kept_def by blast
  with that show thesis by simp
qed

lemma heap_okD:
  assumes "heap_ok h R"
  shows "finite (dom h)" "h a = Some b \<Longrightarrow> rcount b = count R a + assoc_refs h a"
    "h a = Some b \<Longrightarrow> 0 < rcount b" "h a = None \<Longrightarrow> count R a = 0" "h a = None \<Longrightarrow> assoc_refs h a = 0"
    "h x = Some b \<Longrightarrow> associated b = Some m \<Longrightarrow> h m = Some c \<Longrightarrow> associated c = None \<and> bnext c = None"
proof -
  have c: "case h a of None \<Rightarrow> count R a = 0 \<and> assoc_refs h a = 0 | Some b \<Rightarrow> rcount b = count R a + assoc_refs h a \<and> 0 < rcount b"
    using assms unfolding heap_ok_def by blast
  show "finite (dom h)" using assms unfolding heap_ok_def by blast
  show "h a = Some b \<Longrightarrow> rcount b = count R a + assoc_refs h a" "h a = Some b \<Longrightarrow> 0 < rcount b"
    "h a = None \<Longrightarrow> count R a = 0" "h a = None \<Longrightarrow> assoc_refs h a = 0"
    using c by auto
  show "h x = Some b \<Longrightarrow> associated b = Some m \<Longrightarrow> h m = Some c \<Longrightarrow> associated c = None \<and> bnext c = None"
    using assms unfolding heap_ok_def by blast
qed

lemma heap_ok_live: "heap_ok h R \<Longrightarrow> a \<in># R \<Longrightarrow> \<exists>b. h a = Some b"
  using heap_okD(4) by (metis count_greater_zero_iff less_numeral_extra(3) not_None_eq)

lemma finite_assoc: "finite (dom h) \<Longrightarrow> finite {x. \<exists>b. h x = Some b \<and> associated b = Some a}"
  by (rule finite_subset [of _ "dom h"]) auto

lemma assoc_refs_upd:
  "finite (dom h) \<Longrightarrow> h x = Some b \<Longrightarrow> associated b' = associated b \<Longrightarrow> assoc_refs (h(x \<mapsto> b')) a = assoc_refs h a"
  by (auto simp: assoc_refs_def intro!: arg_cong [where f = card] split: if_splits)

lemma assoc_refs_new:
  assumes "finite (dom h)" "h x = None"
  shows "assoc_refs (h(x \<mapsto> b)) a = assoc_refs h a + (if associated b = Some a then 1 else 0)"
proof -
  let ?S = "{y. \<exists>b. h y = Some b \<and> associated b = Some a}"
  have "{y. \<exists>c. (h(x \<mapsto> b)) y = Some c \<and> associated c = Some a} = (if associated b = Some a then insert x ?S else ?S)"
    using assms(2) by auto
  with finite_assoc [OF assms(1)] assms(2) show ?thesis by (auto simp: assoc_refs_def)
qed

lemma assoc_refs_del:
  assumes "finite (dom h)" "h x = Some b"
  shows "assoc_refs (h(x := None)) a = assoc_refs h a - (if associated b = Some a then 1 else 0)"
proof -
  let ?S = "{y. \<exists>b. h y = Some b \<and> associated b = Some a}"
  have "{y. \<exists>c. (h(x := None)) y = Some c \<and> associated c = Some a} = ?S - {x}" using assms(2) by auto
  moreover have "x \<in> ?S \<longleftrightarrow> associated b = Some a" using assms(2) by auto
  ultimately show ?thesis by (simp add: assoc_refs_def card_Diff_singleton_if)
qed

lemma assoc_refs_pos: "finite (dom h) \<Longrightarrow> h x = Some b \<Longrightarrow> associated b = Some a \<Longrightarrow> 0 < assoc_refs h a"
  unfolding assoc_refs_def card_gt_0_iff by (auto dest: finite_assoc)

text \<open>Taking a reference, and a new buffer.\<close>

lemma heap_okI:
  assumes "finite (dom h)" "\<And>a. h a = None \<Longrightarrow> count R a = 0 \<and> assoc_refs h a = 0"
    "\<And>a b. h a = Some b \<Longrightarrow> rcount b = count R a + assoc_refs h a \<and> 0 < rcount b"
    "\<And>x b m c. h x = Some b \<Longrightarrow> associated b = Some m \<Longrightarrow> h m = Some c \<Longrightarrow> associated c = None \<and> bnext c = None"
  shows "heap_ok h R"
proof -
  have "case h a of None \<Rightarrow> count R a = 0 \<and> assoc_refs h a = 0 | Some b \<Rightarrow> rcount b = count R a + assoc_refs h a \<and> 0 < rcount b" for a
  proof (cases "h a")
    case None
    show ?thesis unfolding None option.case by (rule assms(2) [OF None])
  next
    case (Some b)
    show ?thesis unfolding Some option.case by (rule assms(3) [OF Some])
  qed
  with assms(1,4) show ?thesis unfolding heap_ok_def by blast
qed

lemma heap_ok_count:
  assumes "heap_ok h R" "h a = Some b" "n = count R' a + assoc_refs h a" "0 < n" "\<And>x. x \<noteq> a \<Longrightarrow> count R' x = count R x"
  shows "heap_ok (h(a \<mapsto> b\<lparr>rcount := n\<rparr>)) R'"
proof (rule heap_okI)
  note fin = heap_okD(1) [OF assms(1)]
  have as: "assoc_refs (h(a \<mapsto> b\<lparr>rcount := n\<rparr>)) x = assoc_refs h x" for x
    by (rule assoc_refs_upd [OF fin assms(2)]) simp
  show "finite (dom (h(a \<mapsto> b\<lparr>rcount := n\<rparr>)))" using fin by simp
  show "count R' x = 0 \<and> assoc_refs (h(a \<mapsto> b\<lparr>rcount := n\<rparr>)) x = 0" if "(h(a \<mapsto> b\<lparr>rcount := n\<rparr>)) x = None" for x
    using that heap_okD(4,5) [OF assms(1), of x] assms(5) [of x] unfolding as by (auto split: if_splits)
  show "rcount c = count R' x + assoc_refs (h(a \<mapsto> b\<lparr>rcount := n\<rparr>)) x \<and> 0 < rcount c"
    if "(h(a \<mapsto> b\<lparr>rcount := n\<rparr>)) x = Some c" for x c
    using that heap_okD(2,3) [OF assms(1), of x c] assms(3,4) assms(5) [of x] unfolding as by (auto split: if_splits)
  show "associated c = None \<and> bnext c = None"
    if "(h(a \<mapsto> b\<lparr>rcount := n\<rparr>)) x = Some d" "associated d = Some m" "(h(a \<mapsto> b\<lparr>rcount := n\<rparr>)) m = Some c" for x d m c
  proof -
    have k: "kept h (h(a \<mapsto> b\<lparr>rcount := n\<rparr>))" using assms(2) by (rule kept_count)
    note kx = kept_fields [OF k that(1)] and km = kept_fields [OF k that(3)] and dm = that(2)
    obtain d' where "h x = Some d'" "associated d' = Some m" using kx dm by metis
    moreover obtain c' where "h m = Some c'" "associated c = associated c'" "bnext c = bnext c'" using km by metis
    ultimately show ?thesis using heap_okD(6) [OF assms(1)] by metis
  qed
qed

lemma refbuf_addref_ok:
  assumes "heap_ok h R" "h a = Some b"
  shows "\<exists>h'. refbuf_addref h a = Some h' \<and> heap_ok h' (add_mset a R) \<and> kept h h' \<and> dom h' = dom h"
proof -
  have "heap_ok (h(a \<mapsto> b\<lparr>rcount := rcount b + 1\<rparr>)) (add_mset a R)"
    using heap_okD(2) [OF assms] by (intro heap_ok_count [OF assms]) auto
  with assms(2) kept_count [where h = h, OF assms(2)] show ?thesis by (auto simp: refbuf_addref_def)
qed

lemma heap_ok_new:
  assumes "heap_ok h R" "h a = None" "rcount b = 1" "associated b = None"
  shows "heap_ok (h(a \<mapsto> b)) (add_mset a R)"
proof (rule heap_okI)
  note fin = heap_okD(1) [OF assms(1)]
  have as: "assoc_refs (h(a \<mapsto> b)) x = assoc_refs h x" for x
    using assoc_refs_new [OF fin assms(2), of b x] assms(4) by simp
  show "finite (dom (h(a \<mapsto> b)))" using fin by simp
  show "count (add_mset a R) x = 0 \<and> assoc_refs (h(a \<mapsto> b)) x = 0" if "(h(a \<mapsto> b)) x = None" for x
    using that heap_okD(4,5) [OF assms(1), of x] unfolding as by (auto split: if_splits)
  show "rcount c = count (add_mset a R) x + assoc_refs (h(a \<mapsto> b)) x \<and> 0 < rcount c" if "(h(a \<mapsto> b)) x = Some c" for x c
    using that heap_okD(2,3) [OF assms(1), of x c] heap_okD(4,5) [OF assms(1,2)] assms(3) unfolding as by (auto split: if_splits)
  show "associated c = None \<and> bnext c = None"
    if "(h(a \<mapsto> b)) x = Some d" "associated d = Some m" "(h(a \<mapsto> b)) m = Some c" for x d m c
  proof -
    have d: "h x = Some d" using that(1,2) assms(4) by (auto split: if_splits)
    have "0 < assoc_refs h m" by (rule assoc_refs_pos [OF fin d that(2)])
    then have "m \<noteq> a" using heap_okD(5) [OF assms(1,2)] by auto
    with that(3) have "h m = Some c" by simp
    with d that(2) show ?thesis using heap_okD(6) [OF assms(1)] by blast
  qed
qed

lemma heap_ok_free:
  assumes "heap_ok h R" "h a = Some b" "rcount b = 1" "count R a = 1" "associated b = None"
  shows "heap_ok (h(a := None)) (R - {#a#})"
proof (rule heap_okI)
  note fin = heap_okD(1) [OF assms(1)]
  have as: "assoc_refs (h(a := None)) x = assoc_refs h x" for x
    using assoc_refs_del [OF fin assms(2), of x] assms(5) by simp
  have a0: "assoc_refs h a = 0" using heap_okD(2) [OF assms(1,2)] assms(3,4) by simp
  show "finite (dom (h(a := None)))" using fin by simp
  show "count (R - {#a#}) x = 0 \<and> assoc_refs (h(a := None)) x = 0" if "(h(a := None)) x = None" for x
    using that heap_okD(4,5) [OF assms(1), of x] a0 assms(4) unfolding as by (auto split: if_splits)
  show "rcount c = count (R - {#a#}) x + assoc_refs (h(a := None)) x \<and> 0 < rcount c" if "(h(a := None)) x = Some c" for x c
    using that heap_okD(2,3) [OF assms(1), of x c] unfolding as by (auto split: if_splits)
  show "associated c = None \<and> bnext c = None"
    if "(h(a := None)) x = Some d" "associated d = Some m" "(h(a := None)) m = Some c" for x d m c
    using that heap_okD(6) [OF assms(1), of x d m c] by (simp split: if_splits)
qed

text \<open>
  The reference of a buffer to its associated one can be taken over: clearing the field leaves
  the reference to whoever cleared it.
\<close>

lemma heap_ok_detach:
  assumes "heap_ok h R" "h a = Some b" "associated b = Some m"
  shows "heap_ok (h(a \<mapsto> b\<lparr>associated := None\<rparr>)) (add_mset m R)"
proof (rule heap_okI)
  let ?h = "h(a \<mapsto> b\<lparr>associated := None\<rparr>)"
  note fin = heap_okD(1) [OF assms(1)]
  have "assoc_refs ?h x = assoc_refs ((h(a := None))(a \<mapsto> b\<lparr>associated := None\<rparr>)) x" for x by simp
  also have "\<dots> x = assoc_refs h x - (if m = x then 1 else 0)" for x
    using assoc_refs_new [of "h(a := None)" a "b\<lparr>associated := None\<rparr>" x] assoc_refs_del [OF fin assms(2), of x] fin assms(3) by simp
  finally have as: "assoc_refs ?h x = assoc_refs h x - (if m = x then 1 else 0)" for x .
  have m: "0 < assoc_refs h m" by (rule assoc_refs_pos [OF fin assms(2,3)])
  show "finite (dom ?h)" using fin by simp
  show "count (add_mset m R) x = 0 \<and> assoc_refs ?h x = 0" if "?h x = None" for x
    using that heap_okD(4,5) [OF assms(1), of x] m unfolding as by (auto split: if_splits)
  show "rcount c = count (add_mset m R) x + assoc_refs ?h x \<and> 0 < rcount c" if "?h x = Some c" for x c
    using that heap_okD(2,3) [OF assms(1), of x] assms(2) m unfolding as by (auto split: if_splits)
  show "associated c = None \<and> bnext c = None"
    if "?h x = Some d" "associated d = Some m'" "?h m' = Some c" for x d m' c
  proof -
    note dm = that(2) and c = that(3)
    have "h x = Some d" using that(1,2) by (auto split: if_splits)
    moreover obtain c' where "h m' = Some c'" "bnext c = bnext c'" "associated c' = None \<longrightarrow> associated c = None"
      using c assms(2) by (cases "m' = a") auto
    ultimately show ?thesis using heap_okD(6) [OF assms(1)] dm by metis
  qed
qed

lemma heap_ok_released:
  assumes "heap_ok h R" "h a = Some b" "a \<in># R" "rcount b \<noteq> 1"
  shows "heap_ok (h(a \<mapsto> b\<lparr>rcount := rcount b - 1\<rparr>)) (R - {#a#})"
proof (rule heap_ok_count [OF assms(1,2)])
  have "0 < count R a" using assms(3) by simp
  then show "rcount b - 1 = count (R - {#a#}) a + assoc_refs h a" using heap_okD(2) [OF assms(1,2)] by simp
  show "0 < rcount b - 1" using heap_okD(3) [OF assms(1,2)] assms(4) by simp
qed auto

text \<open>Releasing a buffer without an associated one, and then any buffer.\<close>

lemma release_flat:
  "h a = Some b \<Longrightarrow> associated b = None \<Longrightarrow> 0 < rcount b \<Longrightarrow>
   release (Suc n) h a = Some (if rcount b = 1 then h(a := None) else h(a \<mapsto> b\<lparr>rcount := rcount b - 1\<rparr>))"
  by simp

lemma release_flat_ok:
  assumes "heap_ok h R" "h a = Some b" "a \<in># R" "associated b = None"
  shows "heap_ok (if rcount b = 1 then h(a := None) else h(a \<mapsto> b\<lparr>rcount := rcount b - 1\<rparr>)) (R - {#a#})"
proof (cases "rcount b = 1")
  case True
  have "0 < count R a" using assms(3) by simp
  then have "count R a = 1" using heap_okD(2) [OF assms(1,2)] True by linarith
  from heap_ok_free [OF assms(1,2) True this assms(4)] True show ?thesis by simp
next
  case False
  from heap_ok_released [OF assms(1-3) False] False show ?thesis by simp
qed

lemma release_ok:
  assumes ok: "heap_ok h R" and a: "a \<in># R"
  shows "\<exists>h'. release (Suc (Suc (Suc n))) h a = Some h' \<and> heap_ok h' (R - {#a#}) \<and> kept h h'"
proof -
  obtain b where b: "h a = Some b" using heap_ok_live [OF ok a] by auto
  note c = heap_okD(2,3) [OF ok b]
  have R: "0 < count R a" using a by simp
  consider "rcount b \<noteq> 1" | "associated b = None" | m where "rcount b = 1" "associated b = Some m" by fastforce
  then show ?thesis
  proof cases
    case 1
    from heap_ok_released [OF ok b a 1] 1 c(2) b kept_count [where h = h, OF b] show ?thesis by simp
  next
    case 2
    from release_flat [where h = h and a = a and b = b, OF b 2 c(2)] release_flat_ok [OF ok b a 2] kept_count [where h = h, OF b] kept_free [OF kept_refl, of h a]
    show ?thesis by auto
  next
    case (3 m)
    have Ra: "count R a = 1" "assoc_refs h a = 0" using c R 3(1) by linarith+
    have ma: "m \<noteq> a" using assoc_refs_pos [OF heap_okD(1) [OF ok] b 3(2)] Ra(2) by auto
    obtain d where d: "h m = Some d" using assoc_refs_pos [OF heap_okD(1) [OF ok] b 3(2)] heap_okD(5) [OF ok, of m] by fastforce
    have flat: "associated d = None" "bnext d = None" using heap_okD(6) [OF ok b 3(2) d] by auto
    let ?g = "h(a := None)"
    have "heap_ok (h(a \<mapsto> b\<lparr>associated := None\<rparr>)) (add_mset m R)" by (rule heap_ok_detach [OF ok b 3(2)])
    from heap_ok_free [OF this, of a "b\<lparr>associated := None\<rparr>"] 3(1) Ra(1) ma
    have g: "heap_ok ?g (add_mset m (R - {#a#}))" by simp
    have gm: "?g m = Some d" using d ma by simp
    let ?r = "\<lambda>k. if rcount d = 1 then k(m := None) else k(m \<mapsto> d\<lparr>rcount := rcount d - 1\<rparr>)"
    have r: "heap_ok (?r ?g) (R - {#a#})" using release_flat_ok [OF g gm _ flat(1)] by simp
    let ?h = "h(a \<mapsto> b\<lparr>rcount := rcount b - 1\<rparr>)"
    have d1: "d\<lparr>bnext := None\<rparr> = d" using flat(2) by simp
    have dc: "0 < rcount d" by (rule heap_okD(3) [OF ok d])
    have "release (Suc n) ?h m = Some (?r ?h)" by (rule release_flat) (use d ma flat dc in auto)
    then have "release (Suc (Suc (Suc n))) h a = Some ((?r ?h)(a := None))"
      using b 3 d ma flat d1 by (simp add: fun_upd_idem fun_upd_twist)
    moreover have "(?r ?h)(a := None) = ?r ?g" using ma by (auto simp: fun_upd_twist)
    moreover have "kept h (?r ?g)"
      using kept_free [OF kept_free [OF kept_refl, of h a], of m]
        kept_free [OF kept_count [where h = h and n = "rcount d - 1", OF d], of a] ma
      by (auto simp: fun_upd_twist)
    ultimately show ?thesis using r by auto
  qed
qed

lemma refbuf_release_ok:
  assumes "heap_ok h (add_mset a R)"
  shows "\<exists>h'. refbuf_release h (Some a) = Some h' \<and> heap_ok h' R \<and> kept h h'"
proof -
  have "RELEASE_FUEL = Suc (Suc (Suc 97))" by (simp add: RELEASE_FUEL_def)
  with release_ok [OF assms, of a 97] show ?thesis by (simp add: refbuf_release_def)
qed

end
