(* ===== verification/Streaming.thy ===== *)
theory Streaming
  imports Client Refbuf
begin

text \<open>
  The streaming loop of a source (\<open>source.c\<close>) with the generic part of the stream formats
  (\<open>format.c\<close>): buffers from the source are appended to a shared queue, listeners are moved along
  it and written to, and buffers nobody refers to are dropped at its head. Buffers live in the
  store of \<open>Refbuf\<close>. Trees of clients are represented by their sequences in the order of
  traversal, which is what insertion, deletion and traversal of the AVL trees amount to.
  \<open>None\<close> stands for a null or freed buffer that is followed, and for fuel that ran out.
\<close>

section \<open>Listeners\<close>

text \<open>
  A client as the source thread sees it: the buffer is a pointer. \<open>plugin_write\<close> says that
  \<open>write_to_client\<close> is the function of the format, \<open>lformat\<close> is the format's data, and
  \<open>received\<close> records the bytes the socket took.
\<close>

record 'f lclient =
  lcon :: connection
  lparser :: http_parser
  lrespcode :: int
  lrefbuf :: "nat option"
  lpos :: nat
  lintro :: int
  lcheck :: check_fun
  plugin_write :: bool
  lformat :: 'f
  received :: string

text \<open>What a socket does with a write: an error that is recoverable or not, or a number of bytes it takes.\<close>

type_synonym tx = "bool + nat"

definition client_send_bytes :: "'f lclient \<Rightarrow> string \<Rightarrow> tx \<Rightarrow> int \<times> 'f lclient" where
  "client_send_bytes client data t =
     (let (bytes, recoverable) = (case t of Inl r \<Rightarrow> (-1, r) | Inr n \<Rightarrow> (int (min n (length data)), True));
          (ret, c) = connection_send (lcon client) bytes recoverable
      in (ret, client\<lparr>lcon := c, received := received client @ take (nat ret) data\<rparr>))"

definition set_queue :: "buffers \<Rightarrow> 'f lclient \<Rightarrow> nat option \<Rightarrow> (buffers \<times> 'f lclient) option" where
  "set_queue h client refbuf =
     (case (case refbuf of None \<Rightarrow> Some h | Some a \<Rightarrow> refbuf_addref h a) of
        None \<Rightarrow> None
      | Some h \<Rightarrow> map_option (\<lambda>h. (h, client\<lparr>lrefbuf := refbuf, lpos := 0\<rparr>)) (refbuf_release h (lrefbuf client)))"

section \<open>Formats and sources\<close>

text \<open>
  The functions of a format: reading a buffer from the source, which may end the stream (the last
  result is false then), writing to a client, the headers of a client, and freeing the format. \<open>plugin_holds\<close> lists the
  references the state of the format keeps. The headers are those of \<open>format_prepare_headers\<close>, which destroys the client
  when it fails half way; that is \<open>None\<close> here, as the caller goes on to use the client.
\<close>

record ('s, 'f) format_plugin =
  get_buffer :: "'s \<Rightarrow> buffers \<Rightarrow> (bool + string) \<Rightarrow> ('s \<times> buffers \<times> nat option \<times> bool) option"
  write_buf_to_client :: "buffers \<Rightarrow> nat \<Rightarrow> 'f lclient \<Rightarrow> (nat \<Rightarrow> tx) \<Rightarrow> (int \<times> 'f lclient) option"
  prepare_headers :: "'s \<Rightarrow> refbuf \<Rightarrow> 'f lclient \<Rightarrow> (int \<times> refbuf \<times> 'f lclient) option"
  free_plugin :: "'s \<Rightarrow> buffers \<Rightarrow> buffers option"
  plugin_holds :: "'s \<Rightarrow> nat list"

record ('s, 'f) stream =
  bufs :: buffers
  stream_data :: "nat option"
  stream_data_tail :: "nat option"
  burst_point :: "nat option"
  queue_size :: nat
  queue_size_limit :: nat
  burst_size :: nat
  burst_offset :: nat
  st_running :: bool
  short_delay :: bool
  has_client :: bool
  st_on_demand :: bool
  intro_file :: "string option"
  last_read :: int
  st_timeout :: int
  st_listeners :: u64
  prev_listeners :: u64
  peak_listeners :: u64
  st_max_listeners :: int
  st_clients :: "'f lclient list"
  st_pending :: "'f lclient list"
  handed :: "'f lclient list"
  st_format :: 's

section \<open>Moving a client along the queue\<close>

text \<open>
  \<open>find_client_start\<close>: the loop that skips the bytes of the burst already covered by the intro
  file, with its 64-bit counter, and the loop that looks for a sync point.
\<close>

fun skip_loop :: "nat \<Rightarrow> buffers \<Rightarrow> u64 \<Rightarrow> nat option \<Rightarrow> nat option option" where
  "skip_loop 0 h sz p = None"
| "skip_loop (Suc n) h sz None = Some None"
| "skip_loop (Suc n) h sz (Some a) =
     (case h a of
        None \<Rightarrow> None
      | Some b \<Rightarrow>
          if sz > 0 \<and> bnext b \<noteq> None then skip_loop n h (sz - of_nat (blen b)) (bnext b)
          else Some (Some a))"

fun sync_loop :: "nat \<Rightarrow> buffers \<Rightarrow> nat option \<Rightarrow> nat option option" where
  "sync_loop 0 h p = None"
| "sync_loop (Suc n) h None = Some None"
| "sync_loop (Suc n) h (Some a) =
     (case h a of None \<Rightarrow> None | Some b \<Rightarrow> if sync_point b then Some (Some a) else sync_loop n h (bnext b))"

definition start_point :: "nat \<Rightarrow> ('s, 'f) stream \<Rightarrow> int \<Rightarrow> nat option option" where
  "start_point fuel st off =
     (let skip = skip_loop fuel (bufs st) (word_of_int off) (burst_point st)
      in case stream_data_tail st of
           None \<Rightarrow> skip
         | Some t \<Rightarrow>
             if off = -1 then
               (case bufs st t of None \<Rightarrow> None | Some b \<Rightarrow> if sync_point b then Some (Some t) else skip)
             else skip)"

definition find_client_start :: "nat \<Rightarrow> ('s, 'f) stream \<Rightarrow> 'f lclient \<Rightarrow> (('s, 'f) stream \<times> 'f lclient) option" where
  "find_client_start fuel st client =
     (case start_point fuel st (lintro client) of
        None \<Rightarrow> None
      | Some p \<Rightarrow>
          (case sync_loop fuel (bufs st) p of
             None \<Rightarrow> None
           | Some None \<Rightarrow> Some (st, client)
           | Some (Some a) \<Rightarrow>
               map_option (\<lambda>(h, c). (st\<lparr>bufs := h\<rparr>, c\<lparr>lcheck := format_advance_queue, plugin_write := True, lintro := -1\<rparr>))
                 (set_queue (bufs st) client (Some a))))"

definition get_file_data :: "string option \<Rightarrow> int \<Rightarrow> refbuf \<Rightarrow> refbuf option" where
  "get_file_data intro offset refbuf =
     (case intro of
        None \<Rightarrow> None
      | Some file_text \<Rightarrow>
          if offset < 0 then None
          else
            let bytes = take 4096 (drop (nat offset) file_text)
            in if bytes = [] then None
               else Some (refbuf\<lparr>bdata := bytes @ drop (length bytes) (bdata refbuf), blen := length bytes\<rparr>))"

text \<open>The second half of \<open>format_check_file_buffer\<close>, once the client has a buffer.\<close>

definition file_buffer :: "nat \<Rightarrow> ('s, 'f) stream \<Rightarrow> 'f lclient \<Rightarrow> nat \<Rightarrow> (int \<times> ('s, 'f) stream \<times> 'f lclient) option" where
  "file_buffer fuel st client a =
     (case bufs st a of
        None \<Rightarrow> None
      | Some b \<Rightarrow>
          if lpos client = blen b then
            (case get_file_data (intro_file st) (lintro client) b of
               Some b' \<Rightarrow> Some (0, st\<lparr>bufs := (bufs st)(a \<mapsto> b')\<rparr>, client\<lparr>lpos := 0, lintro := lintro client + int (blen b')\<rparr>)
             | None \<Rightarrow>
                 if stream_data_tail st \<noteq> None then
                   (case set_queue (bufs st) client None of
                      None \<Rightarrow> None
                    | Some (h, c) \<Rightarrow> map_option (\<lambda>(st, c). (-1, st, c)) (find_client_start fuel (st\<lparr>bufs := h\<rparr>) c))
                 else Some (-1, st, client\<lparr>lintro := 0\<rparr>))
          else Some (0, st, client))"

definition check_file_buffer ::
  "(buffers \<Rightarrow> nat) \<Rightarrow> nat \<Rightarrow> ('s, 'f) stream \<Rightarrow> 'f lclient \<Rightarrow> (int \<times> ('s, 'f) stream \<times> 'f lclient) option" where
  "check_file_buffer malloc fuel st client =
     (case lrefbuf client of
        Some a \<Rightarrow> file_buffer fuel st client a
      | None \<Rightarrow>
          if has_client st then map_option (\<lambda>(st, c). (-1, st, c)) (find_client_start fuel st client)
          else
            let a = malloc (bufs st); b = refbuf_new PER_CLIENT_REFBUF_SIZE
            in file_buffer fuel (st\<lparr>bufs := (bufs st)(a \<mapsto> b)\<rparr>) (client\<lparr>lrefbuf := Some a, lpos := blen b, lintro := 0\<rparr>) a)"

definition http_sent :: "('s, 'f) stream \<Rightarrow> 'f lclient \<Rightarrow> nat \<Rightarrow> (int \<times> ('s, 'f) stream \<times> 'f lclient) option" where
  "http_sent st client a =
     (case bufs st a of
        None \<Rightarrow> None
      | Some b \<Rightarrow>
          if lpos client = blen b then
            Some (-1, st\<lparr>bufs := (bufs st)(a \<mapsto> b\<lparr>blen := 4096\<rparr>)\<rparr>,
                  client\<lparr>plugin_write := True, lcheck := format_check_file_buffer, lintro := 0, lpos := 4096\<rparr>)
          else Some (0, st, client))"

definition check_http_buffer ::
  "('s, 'f) format_plugin \<Rightarrow> ('s, 'f) stream \<Rightarrow> 'f lclient \<Rightarrow> (int \<times> ('s, 'f) stream \<times> 'f lclient) option" where
  "check_http_buffer fmt st client =
     (case lrefbuf client of
        None \<Rightarrow> Some (-1, st, client)
      | Some a \<Rightarrow>
          if lrespcode client = 0 then
            (case bufs st a of
               None \<Rightarrow> None
             | Some b \<Rightarrow>
                 (case prepare_headers fmt (st_format st) b client of
                    None \<Rightarrow> None
                  | Some (ret, b, client) \<Rightarrow>
                      let st = st\<lparr>bufs := (bufs st)(a \<mapsto> b)\<rparr>
                      in if ret < 0 then Some (-1, st, client\<lparr>lcon := (lcon client)\<lparr>con_error := True\<rparr>\<rparr>)
                         else http_sent st (client\<lparr>lrespcode := 200\<rparr>) a))
          else http_sent st client a)"

definition advance_queue :: "('s, 'f) stream \<Rightarrow> 'f lclient \<Rightarrow> (int \<times> ('s, 'f) stream \<times> 'f lclient) option" where
  "advance_queue st client =
     (case lrefbuf client of
        None \<Rightarrow> Some (-1, st, client)
      | Some a \<Rightarrow>
          (case bufs st a of
             None \<Rightarrow> None
           | Some b \<Rightarrow>
               if lpos client = blen b then
                 (case bnext b of
                    None \<Rightarrow> Some (-1, st, client)
                  | Some n \<Rightarrow> map_option (\<lambda>(h, c). (0, st\<lparr>bufs := h\<rparr>, c)) (set_queue (bufs st) client (Some n)))
               else Some (0, st, client)))"

section \<open>Writing to a client\<close>

definition generic_write_to_client :: "buffers \<Rightarrow> nat \<Rightarrow> 'f lclient \<Rightarrow> tx \<Rightarrow> (int \<times> 'f lclient) option" where
  "generic_write_to_client h a client t =
     (case h a of
        None \<Rightarrow> None
      | Some b \<Rightarrow>
          let (ret, client) = client_send_bytes client (drop (lpos client) (take (blen b) (bdata b))) t
          in Some (ret, if ret > 0 then client\<lparr>lpos := lpos client + nat ret\<rparr> else client))"

definition check_client ::
  "('s, 'f) format_plugin \<Rightarrow> (buffers \<Rightarrow> nat) \<Rightarrow> nat \<Rightarrow> ('s, 'f) stream \<Rightarrow> 'f lclient \<Rightarrow> (int \<times> ('s, 'f) stream \<times> 'f lclient) option" where
  "check_client fmt malloc fuel st client =
     (case lcheck client of
        format_check_http_buffer \<Rightarrow> check_http_buffer fmt st client
      | format_check_file_buffer \<Rightarrow> check_file_buffer malloc fuel st client
      | format_advance_queue \<Rightarrow> advance_queue st client)"

definition write_client ::
  "('s, 'f) format_plugin \<Rightarrow> ('s, 'f) stream \<Rightarrow> 'f lclient \<Rightarrow> (nat \<Rightarrow> tx) \<Rightarrow> (int \<times> 'f lclient) option" where
  "write_client fmt st client out =
     (case lrefbuf client of
        None \<Rightarrow> None
      | Some a \<Rightarrow>
          if plugin_write client then write_buf_to_client fmt (bufs st) a client out
          else generic_write_to_client (bufs st) a client (out 0))"

text \<open>
  The loop of \<open>send_to_listener\<close>, at most ten rounds. \<open>out k j\<close> is what the socket does with the
  \<open>j\<close>-th write when \<open>k\<close> rounds are left, \<open>now k\<close> the time then.
\<close>

definition time_limit :: "int \<Rightarrow> 'f lclient \<Rightarrow> 'f lclient" where
  "time_limit time client =
     (if discon_time (lcon client) \<noteq> 0 \<and> time \<ge> discon_time (lcon client)
      then client\<lparr>lcon := (lcon client)\<lparr>con_error := True\<rparr>\<rparr> else client)"

fun send_loop ::
  "('s, 'f) format_plugin \<Rightarrow> (buffers \<Rightarrow> nat) \<Rightarrow> nat \<Rightarrow> (nat \<Rightarrow> int) \<Rightarrow> (nat \<Rightarrow> nat \<Rightarrow> tx) \<Rightarrow> nat \<Rightarrow> int \<Rightarrow>
   ('s, 'f) stream \<Rightarrow> 'f lclient \<Rightarrow> (('s, 'f) stream \<times> 'f lclient) option" where
  "send_loop fmt malloc fuel now out loop total_written st client =
     (let client = time_limit (now loop) client
      in if con_error (lcon client) then Some (st, client)
         else if total_written > 20000 \<or> loop = 0 then
           Some (if lcheck client \<noteq> format_check_file_buffer then st\<lparr>short_delay := True\<rparr> else st, client)
         else
           (case loop of
              0 \<Rightarrow> None
            | Suc loop' \<Rightarrow>
                (case check_client fmt malloc fuel st client of
                   None \<Rightarrow> None
                 | Some (ret, st, client) \<Rightarrow>
                     if ret < 0 then Some (st, client)
                     else
                       (case write_client fmt st client (out loop) of
                          None \<Rightarrow> None
                        | Some (bytes, client) \<Rightarrow>
                            if bytes \<le> 0 then Some (st, client)
                            else send_loop fmt malloc fuel now out loop' (total_written + bytes) st client))))"

declare send_loop.simps [simp del]

definition send_to_listener ::
  "('s, 'f) format_plugin \<Rightarrow> (buffers \<Rightarrow> nat) \<Rightarrow> nat \<Rightarrow> (nat \<Rightarrow> int) \<Rightarrow> (nat \<Rightarrow> nat \<Rightarrow> tx) \<Rightarrow> bool \<Rightarrow>
   ('s, 'f) stream \<Rightarrow> 'f lclient \<Rightarrow> (('s, 'f) stream \<times> 'f lclient) option" where
  "send_to_listener fmt malloc fuel now out deletion_expected st client =
     map_option (\<lambda>(st, client).
         (st, if deletion_expected \<and> lrefbuf client \<noteq> None \<and> lrefbuf client = stream_data st
              then client\<lparr>lcon := (lcon client)\<lparr>con_error := True\<rparr>\<rparr> else client))
       (send_loop fmt malloc fuel now out 10 0 st client)"

section \<open>A round of the source thread\<close>

text \<open>
  What a wait for the source's socket gives: the result of the poll, the time, whether an error of
  the poll is recoverable, what the socket then delivers and whether the connection has failed.
\<close>

record poll =
  fds :: int
  current :: int
  recoverable :: bool
  rx :: "bool + string"
  failed :: bool

fun get_next_buffer ::
  "('s, 'f) format_plugin \<Rightarrow> poll list \<Rightarrow> nat option \<Rightarrow> ('s, 'f) stream \<Rightarrow> (nat option \<times> ('s, 'f) stream) option" where
  "get_next_buffer fmt [] refbuf st = Some (refbuf, st)"
| "get_next_buffer fmt (p # ps) refbuf st =
     (if \<not> st_running st then Some (refbuf, st)
      else
        let st = (if has_client st then st else st\<lparr>last_read := current p\<rparr>);
            n = (if has_client st then fds p else 0)
        in if n < 0 then Some (refbuf, if recoverable p then st else st\<lparr>st_running := False\<rparr>)
           else if n = 0 then
             Some (refbuf, if last_read st + st_timeout st < current p then st\<lparr>st_running := False\<rparr> else st)
           else
             (case get_buffer fmt (st_format st) (bufs st) (rx p) of
                None \<Rightarrow> None
              | Some (s, h, refbuf, running) \<Rightarrow>
                  let st = st\<lparr>last_read := current p, st_format := s, bufs := h, st_running := running\<rparr>
                  in if failed p then get_next_buffer fmt ps refbuf (st\<lparr>st_running := False\<rparr>)
                     else if refbuf \<noteq> None then Some (refbuf, st)
                     else get_next_buffer fmt ps refbuf st))"

fun burst_loop :: "nat \<Rightarrow> ('s, 'f) stream \<Rightarrow> ('s, 'f) stream option" where
  "burst_loop 0 st = None"
| "burst_loop (Suc n) st =
     (if burst_offset st > burst_size st then
        (case burst_point st of
           None \<Rightarrow> None
         | Some to_release \<Rightarrow>
             (case bufs st to_release of
                None \<Rightarrow> None
              | Some b \<Rightarrow>
                  (case bnext b of
                     None \<Rightarrow> Some st
                   | Some nxt \<Rightarrow>
                       (case refbuf_release (bufs st) (Some to_release) of
                          None \<Rightarrow> None
                        | Some h \<Rightarrow>
                            burst_loop n (st\<lparr>burst_point := Some nxt, burst_offset := burst_offset st - blen b, bufs := h\<rparr>)))))
      else Some st)"

text \<open>Appending a buffer to the queue, with a reference for the burst.\<close>

definition append_buffer :: "nat \<Rightarrow> ('s, 'f) stream \<Rightarrow> nat \<Rightarrow> ('s, 'f) stream option" where
  "append_buffer fuel st refbuf =
     (let st = (if stream_data st = None then st\<lparr>stream_data := Some refbuf, burst_point := Some refbuf\<rparr> else st);
          linked = (case stream_data_tail st of
              None \<Rightarrow> Some (bufs st)
            | Some t \<Rightarrow> map_option (\<lambda>b. (bufs st)(t \<mapsto> b\<lparr>bnext := Some refbuf\<rparr>)) (bufs st t))
      in case linked of
           None \<Rightarrow> None
         | Some h \<Rightarrow>
             (case h refbuf of
                None \<Rightarrow> None
              | Some b \<Rightarrow>
                  (case refbuf_addref h refbuf of
                     None \<Rightarrow> None
                   | Some h \<Rightarrow>
                       burst_loop fuel (st\<lparr>stream_data_tail := Some refbuf, queue_size := queue_size st + blen b,
                                           burst_offset := burst_offset st + blen b, bufs := h\<rparr>))))"

text \<open>
  \<open>_free_client\<close>: a client without a response gets one and goes to the file server with its
  buffer (\<open>client_send_404\<close> prints into it), another one is destroyed.
\<close>

definition free_client :: "('s, 'f) stream \<Rightarrow> 'f lclient \<Rightarrow> ('s, 'f) stream option" where
  "free_client st client =
     (if lrespcode client = 0 then
        if lrefbuf client = None then None else Some (st\<lparr>handed := handed st @ [client]\<rparr>)
      else map_option (\<lambda>h. st\<lparr>bufs := h\<rparr>) (refbuf_release (bufs st) (lrefbuf client)))"

fun serve_clients ::
  "('s, 'f) format_plugin \<Rightarrow> (buffers \<Rightarrow> nat) \<Rightarrow> nat \<Rightarrow> (nat \<Rightarrow> int) \<Rightarrow> (u64 \<Rightarrow> nat \<Rightarrow> nat \<Rightarrow> tx) \<Rightarrow> bool \<Rightarrow>
   'f lclient list \<Rightarrow> ('s, 'f) stream \<Rightarrow> ('f lclient list \<times> ('s, 'f) stream) option" where
  "serve_clients fmt malloc fuel now out remove_from_q [] st = Some ([], st)"
| "serve_clients fmt malloc fuel now out remove_from_q (c # cs) st =
     (case send_to_listener fmt malloc fuel now (out (con_id (lcon c))) remove_from_q st c of
        None \<Rightarrow> None
      | Some (st, c) \<Rightarrow>
          if con_error (lcon c) then
            (case free_client st c of
               None \<Rightarrow> None
             | Some st \<Rightarrow> serve_clients fmt malloc fuel now out remove_from_q cs (st\<lparr>st_listeners := st_listeners st - 1\<rparr>))
          else map_option (\<lambda>(cs, st). (c # cs, st)) (serve_clients fmt malloc fuel now out remove_from_q cs st))"

definition compare_listeners :: "'f lclient \<Rightarrow> 'f lclient \<Rightarrow> int" where
  "compare_listeners a b =
     (if con_id (lcon a) < con_id (lcon b) then -1 else if con_id (lcon a) > con_id (lcon b) then 1 else 0)"

fun add_pending :: "'f lclient list \<Rightarrow> ('s, 'f) stream \<Rightarrow> ('s, 'f) stream option" where
  "add_pending [] st = Some st"
| "add_pending (c # cs) st =
     (if st_max_listeners st \<noteq> -1 \<and> st_listeners st \<ge> word_of_int (st_max_listeners st) then
        (case free_client st c of None \<Rightarrow> None | Some st \<Rightarrow> add_pending cs st)
      else
        add_pending cs (st\<lparr>st_clients := list_insert compare_listeners c (st_clients st), st_listeners := st_listeners st + 1\<rparr>))"

definition update_listeners :: "('s, 'f) stream \<Rightarrow> ('s, 'f) stream" where
  "update_listeners st =
     (if st_listeners st \<noteq> prev_listeners st then
        st\<lparr>prev_listeners := st_listeners st,
           peak_listeners := (if st_listeners st > peak_listeners st then st_listeners st else peak_listeners st),
           st_running := (if st_listeners st = 0 \<and> st_on_demand st then False else st_running st)\<rparr>
      else st)"

text \<open>Dropping what nobody refers to at the head of the queue.\<close>

fun reduce_queue :: "nat \<Rightarrow> ('s, 'f) stream \<Rightarrow> ('s, 'f) stream option" where
  "reduce_queue 0 st = None"
| "reduce_queue (Suc n) st =
     (case stream_data st of
        None \<Rightarrow> None
      | Some to_go \<Rightarrow>
          (case bufs st to_go of
             None \<Rightarrow> None
           | Some b \<Rightarrow>
               if rcount b = 1 then
                 if bnext b = None \<or> burst_point st = Some to_go then Some (st\<lparr>st_running := False\<rparr>)
                 else
                   (case refbuf_release ((bufs st)(to_go \<mapsto> b\<lparr>bnext := None\<rparr>)) (Some to_go) of
                      None \<Rightarrow> None
                    | Some h \<Rightarrow>
                        reduce_queue n (st\<lparr>stream_data := bnext b, queue_size := queue_size st - blen b, bufs := h\<rparr>))
               else Some st))"

definition source_round ::
  "('s, 'f) format_plugin \<Rightarrow> (buffers \<Rightarrow> nat) \<Rightarrow> nat \<Rightarrow> poll list \<Rightarrow> (nat \<Rightarrow> int) \<Rightarrow> (u64 \<Rightarrow> nat \<Rightarrow> nat \<Rightarrow> tx) \<Rightarrow>
   ('s, 'f) stream \<Rightarrow> ('s, 'f) stream option" where
  "source_round fmt malloc fuel polls now out st =
     (case get_next_buffer fmt polls None st of
        None \<Rightarrow> None
      | Some (refbuf, st) \<Rightarrow>
          let st = st\<lparr>short_delay := False\<rparr>
          in (case (case refbuf of None \<Rightarrow> Some st | Some a \<Rightarrow> append_buffer fuel st a) of
                None \<Rightarrow> None
              | Some st \<Rightarrow>
                  let remove_from_q = queue_size st > queue_size_limit st
                  in (case serve_clients fmt malloc fuel now out remove_from_q (st_clients st) st of
                        None \<Rightarrow> None
                      | Some (cs, st) \<Rightarrow>
                          (case add_pending (st_pending st) (st\<lparr>st_clients := cs\<rparr>) of
                             None \<Rightarrow> None
                           | Some st \<Rightarrow>
                               let st = update_listeners (st\<lparr>st_pending := []\<rparr>)
                               in if stream_data st = None then Some st else reduce_queue fuel st))))"

text \<open>The loop of \<open>source_main\<close>, for a list with what the sockets and the clock do in every round.\<close>

fun source_run ::
  "('s, 'f) format_plugin \<Rightarrow> (buffers \<Rightarrow> nat) \<Rightarrow> nat \<Rightarrow> (poll list \<times> (nat \<Rightarrow> int) \<times> (u64 \<Rightarrow> nat \<Rightarrow> nat \<Rightarrow> tx)) list \<Rightarrow>
   ('s, 'f) stream \<Rightarrow> ('s, 'f) stream option" where
  "source_run fmt malloc fuel [] st = Some st"
| "source_run fmt malloc fuel ((polls, now, out) # ins) st =
     (if st_running st then
        (case source_round fmt malloc fuel polls now out st of
           None \<Rightarrow> None
         | Some st \<Rightarrow> source_run fmt malloc fuel ins st)
      else Some st)"

section \<open>Clearing a source\<close>

text \<open>\<open>avl_delete\<close> with \<open>_free_client\<close> until the tree is empty.\<close>

fun free_clients :: "'f lclient list \<Rightarrow> ('s, 'f) stream \<Rightarrow> ('s, 'f) stream option" where
  "free_clients [] st = Some st"
| "free_clients (c # cs) st = (case free_client st c of None \<Rightarrow> None | Some st \<Rightarrow> free_clients cs st)"

text \<open>A buffer is released until its last reference is gone.\<close>

fun release_all :: "nat \<Rightarrow> buffers \<Rightarrow> nat \<Rightarrow> buffers option" where
  "release_all 0 h p = None"
| "release_all (Suc n) h p =
     (case h p of
        None \<Rightarrow> None
      | Some b \<Rightarrow>
          if rcount b > 1 then
            (case refbuf_release h (Some p) of None \<Rightarrow> None | Some h \<Rightarrow> release_all n h p)
          else refbuf_release h (Some p))"

fun clear_queue :: "nat \<Rightarrow> buffers \<Rightarrow> nat option \<Rightarrow> buffers option" where
  "clear_queue n h None = Some h"
| "clear_queue 0 h (Some p) = None"
| "clear_queue (Suc n) h (Some p) =
     (case h p of
        None \<Rightarrow> None
      | Some b \<Rightarrow>
          (case release_all n (h(p \<mapsto> b\<lparr>bnext := None\<rparr>)) p of
             None \<Rightarrow> None
           | Some h \<Rightarrow> clear_queue n h (bnext b)))"

definition source_clear_source :: "('s, 'f) format_plugin \<Rightarrow> nat \<Rightarrow> ('s, 'f) stream \<Rightarrow> ('s, 'f) stream option" where
  "source_clear_source fmt fuel st =
     (let st = st\<lparr>has_client := False\<rparr>
      in case free_clients (st_clients st) st of
           None \<Rightarrow> None
         | Some st \<Rightarrow>
             (case free_clients (st_pending st) (st\<lparr>st_clients := []\<rparr>) of
                None \<Rightarrow> None
              | Some st \<Rightarrow>
                  (case free_plugin fmt (st_format st) (bufs st) of
                     None \<Rightarrow> None
                   | Some h \<Rightarrow>
                       (case clear_queue fuel h (stream_data st) of
                          None \<Rightarrow> None
                        | Some h \<Rightarrow>
                            Some (st\<lparr>bufs := h, st_pending := [], stream_data := None, stream_data_tail := None, burst_point := None,
                                     burst_size := 0, burst_offset := 0, queue_size := 0, queue_size_limit := 0, st_listeners := 0,
                                     st_max_listeners := -1, prev_listeners := 0, intro_file := None\<rparr>)))))"

end
