(* ===== verification/Mp3.thy ===== *)
theory Mp3
  imports Streaming
begin

text \<open>
  The generic stream format (\<open>format_mp3.c\<close>) and the headers of a listener (\<open>format.c\<close>). Audio is read in
  blocks of 1400 bytes; metadata inside the source's stream is taken out, and sent to the listeners
  that ask for it at the interval they are told. \<open>None\<close> stands for an access outside a buffer, to a
  freed buffer, or for a client that is used after it was destroyed.
\<close>

section \<open>State\<close>

definition REFBUF_SIZE :: nat where "REFBUF_SIZE = 1400"
definition ICY_METADATA_INTERVAL :: int where "ICY_METADATA_INTERVAL = 16000"
definition MAX_META_LEN :: nat where "MAX_META_LEN = 255 * 16"

text \<open>
  \<open>inline_url\<close> points into a metadata buffer: its address and an offset. \<open>src\<close> is the client of the
  source, and \<open>filtering\<close> says that \<open>get_buffer\<close> is the function that takes out metadata.
\<close>

record mp3_state =
  src :: client
  inline_metadata_interval :: int
  m_offset :: int
  m_interval :: int
  url_artist :: "string option"
  url_title :: "string option"
  url :: "string option"
  inline_url :: "(nat \<times> nat) option"
  update_metadata :: bool
  metadata :: nat
  read_data :: "nat option"
  read_count :: nat
  build_metadata_len :: nat
  build_metadata_offset :: nat
  build_metadata :: string
  filtering :: bool
  m_charset :: "string option"

record mp3_client_data =
  interval :: nat
  metadata_offset :: nat
  since_meta_block :: nat
  in_metadata :: bool
  cassociated :: "nat option"

definition QUOTE :: char where "QUOTE = CHR 0x27"

definition empty_metadata :: string where
  "empty_metadata = char_of (1 :: nat) # ''StreamTitle='' @ [QUOTE, QUOTE] @ '';'' @ [NUL]"

section \<open>Setting up the format\<close>

text \<open>The store with the blank metadata in it, the content type and the state.\<close>

definition format_mp3_get_plugin :: "(buffers \<Rightarrow> nat) \<Rightarrow> buffers \<Rightarrow> client \<Rightarrow> http_parser \<Rightarrow> buffers \<times> string \<times> mp3_state" where
  "format_mp3_get_plugin malloc h client p =
     (let a = malloc h;
          meta = (refbuf_new 17)\<lparr>bdata := empty_metadata\<rparr>;
          n = (case httpp_getvar p ''icy-metaint'' of None \<Rightarrow> 0 | Some v \<Rightarrow> atoi v)
      in (h(a \<mapsto> meta),
          case httpp_getvar p ''content-type'' of None \<Rightarrow> ''audio/mpeg'' | Some t \<Rightarrow> t,
          \<lparr>src = client, inline_metadata_interval = n, m_offset = 0, m_interval = (if n > 0 then n else -1),
           url_artist = None, url_title = None, url = None, inline_url = None, update_metadata = False, metadata = a,
           read_data = None, read_count = 0, build_metadata_len = 0, build_metadata_offset = 0,
           build_metadata = replicate 4081 NUL, filtering = n > 0, m_charset = None\<rparr>))"

text \<open>\<open>conv\<close> is the character set conversion (value, from, to), which may fail.\<close>

definition mp3_set_tag ::
  "(string \<Rightarrow> string option \<Rightarrow> string option \<Rightarrow> string option) \<Rightarrow> string option \<Rightarrow> string option \<Rightarrow> string option \<Rightarrow> mp3_state \<Rightarrow> mp3_state" where
  "mp3_set_tag conv tag in_value cset s =
     (case tag of
        None \<Rightarrow> s\<lparr>update_metadata := True\<rparr>
      | Some t \<Rightarrow>
          let v = (case in_value of None \<Rightarrow> None | Some x \<Rightarrow> Some (case conv x cset (m_charset s) of None \<Rightarrow> x | Some y \<Rightarrow> y))
          in if strcmp t ''title'' = 0 \<or> strcmp t ''song'' = 0 then s\<lparr>url_title := v\<rparr>
             else if strcmp t ''artist'' = 0 then s\<lparr>url_artist := v\<rparr>
             else if strcmp t ''url'' = 0 then s\<lparr>url := v\<rparr>
             else s)"

definition format_mp3_apply_settings :: "http_parser \<Rightarrow> mount_proxy option \<Rightarrow> mp3_state \<Rightarrow> mp3_state" where
  "format_mp3_apply_settings p mount s =
     (let n = (case mount of None \<Rightarrow> -1 | Some m \<Rightarrow> if mp3_meta_interval m \<ge> 0 then mp3_meta_interval m else -1);
          n = (if n < 0 then
                 (case httpp_getvar p ''icy-metaint'' of
                    None \<Rightarrow> ICY_METADATA_INTERVAL
                  | Some v \<Rightarrow> if atoi v > 0 then atoi v else ICY_METADATA_INTERVAL)
               else n);
          cs = Option.bind mount charset
      in s\<lparr>m_interval := n, m_charset := (case cs of None \<Rightarrow> Some ''ISO8859-1'' | Some c \<Rightarrow> Some c)\<rparr>)"

section \<open>New metadata\<close>

text \<open>The string an inline URL points to.\<close>

definition inline_text :: "buffers \<Rightarrow> nat \<times> nat \<Rightarrow> string option" where
  "inline_text h p = map_option (\<lambda>b. c_str (bdata b) (snd p)) (h (fst p))"

definition title_text :: "mp3_state \<Rightarrow> string" where
  "title_text s =
     ''StreamTitle='' @ [QUOTE] @
     (case (url_artist s, url_title s) of
        (Some a, Some t) \<Rightarrow> a @ '' - '' @ t
      | (_, Some t) \<Rightarrow> t
      | (_, None) \<Rightarrow> ''(null)'') @
     [QUOTE] @ '';''"

definition opt_len :: "string option \<Rightarrow> nat" where
  "opt_len x = (case x of None \<Rightarrow> 0 | Some s \<Rightarrow> length s)"

text \<open>The room that is worked out for the message, its terminator included.\<close>

definition meta_len :: "mp3_state \<Rightarrow> string option \<Rightarrow> nat" where
  "meta_len s inline =
     16 + opt_len (url_artist s) + opt_len (url_title s) +
     (if url_artist s \<noteq> None \<and> url_title s \<noteq> None then 3 else 0) +
     (case inline of
        Some u \<Rightarrow> (case strstr u (QUOTE # '';'') of None \<Rightarrow> 0 | Some e \<Rightarrow> e + 2)
      | None \<Rightarrow> (case url s of None \<Rightarrow> 0 | Some u \<Rightarrow> length u + 13))"

definition url_text :: "string \<Rightarrow> string" where
  "url_text u = ''StreamUrl='' @ [QUOTE] @ u @ [QUOTE] @ '';''"

text \<open>
  The block: a byte for its length in units of 16, the title, and the URL if there is room, padded
  with NUL characters. \<open>r\<close> is the result of the first \<open>snprintf\<close>.
\<close>

definition pad :: "nat \<Rightarrow> string \<Rightarrow> string" where
  "pad n s = take n s @ replicate (n - length s) NUL"

definition meta_block :: "mp3_state \<Rightarrow> string option \<Rightarrow> nat \<Rightarrow> string option" where
  "meta_block s inline len =
     (let len_byte = (len - 1) div 16 + 1;
          sz = len_byte * 16 + 1;
          t = char_of len_byte # title_text s;
          r = length t;
          first = fst (snprintf sz t)
      in case inline of
           Some u \<Rightarrow>
             let urllen = (case strstr u (QUOTE # '';'') of None \<Rightarrow> sz | Some e \<Rightarrow> e + 2)
             in if int sz - int r > int urllen then Some (pad sz (first @ fst (snprintf (sz - r) (url_text (drop 11 u)))))
                else Some (pad sz first)
         | None \<Rightarrow>
             (case url s of
                None \<Rightarrow> Some (pad sz first)
              | Some u \<Rightarrow> if r < sz then Some (pad sz (first @ fst (snprintf (sz - r) (url_text u)))) else None))"

definition mp3_set_title :: "(buffers \<Rightarrow> nat) \<Rightarrow> mp3_state \<Rightarrow> buffers \<Rightarrow> (mp3_state \<times> buffers) option" where
  "mp3_set_title malloc s h =
     (case (case inline_url s of None \<Rightarrow> Some None | Some p \<Rightarrow> map_option Some (inline_text h p)) of
        None \<Rightarrow> None
      | Some inline \<Rightarrow>
          let len = meta_len s inline
          in if len > MAX_META_LEN then Some (s, h)
             else
               (case meta_block s inline len of
                  None \<Rightarrow> None
                | Some text \<Rightarrow>
                    let p = malloc h;
                        h = h(p \<mapsto> (refbuf_new (length text))\<lparr>bdata := text\<rparr>)
                    in map_option (\<lambda>h. (s\<lparr>metadata := p\<rparr>, h)) (refbuf_release h (Some (metadata s)))))"

section \<open>Reading from the source\<close>

text \<open>\<open>memcpy\<close> into a buffer at an offset.\<close>

definition put_at :: "nat \<Rightarrow> string \<Rightarrow> string \<Rightarrow> string" where
  "put_at off xs buf = take off buf @ xs @ drop (off + length xs) buf"

text \<open>\<open>complete_read\<close>: whether a whole block is there, and where it is.\<close>

definition complete_read :: "(buffers \<Rightarrow> nat) \<Rightarrow> mp3_state \<Rightarrow> buffers \<Rightarrow> (bool + string) \<Rightarrow> (bool \<times> mp3_state \<times> buffers) option" where
  "complete_read malloc s h inp =
     (let (a, s, h) = (case read_data s of
             Some a \<Rightarrow> (a, s, h)
           | None \<Rightarrow> (malloc h, s\<lparr>read_data := Some (malloc h), read_count := 0\<rparr>, h(malloc h \<mapsto> refbuf_new REFBUF_SIZE)));
          (bytes, data, client) = client_read_bytes (src s) (REFBUF_SIZE - read_count s) inp;
          s = s\<lparr>src := client\<rparr>
      in case h a of
           None \<Rightarrow> None
         | Some b \<Rightarrow>
             if bytes < 0 then
               if con_error (con client) then
                 map_option (\<lambda>h. (False, s\<lparr>read_data := None\<rparr>, h)) (refbuf_release h (Some a))
               else Some (False, s, h)
             else
               let n = read_count s + nat bytes;
                   h = h(a \<mapsto> b\<lparr>bdata := put_at (read_count s) data (bdata b)\<rparr>);
                   s = s\<lparr>read_count := n\<rparr>
               in if n < REFBUF_SIZE then
                    if n = 0 then map_option (\<lambda>h. (False, s\<lparr>read_data := None\<rparr>, h)) (refbuf_release h (Some a))
                    else Some (False, s, h)
                  else Some (True, s, h))"

definition refresh_title :: "(buffers \<Rightarrow> nat) \<Rightarrow> mp3_state \<Rightarrow> buffers \<Rightarrow> (mp3_state \<times> buffers) option" where
  "refresh_title malloc s h =
     (if update_metadata s then map_option (\<lambda>(s, h). (s\<lparr>update_metadata := False\<rparr>, h)) (mp3_set_title malloc s h)
      else Some (s, h))"

text \<open>The block is tied to the current metadata and delivered.\<close>

definition deliver :: "mp3_state \<Rightarrow> buffers \<Rightarrow> nat \<Rightarrow> (mp3_state \<times> buffers \<times> nat option \<times> bool) option" where
  "deliver s h a =
     (case h a of
        None \<Rightarrow> None
      | Some b \<Rightarrow>
          map_option (\<lambda>h. (s, h, Some a, True))
            (refbuf_addref (h(a \<mapsto> b\<lparr>associated := Some (metadata s), sync_point := True\<rparr>)) (metadata s)))"

definition mp3_get_no_meta ::
  "(buffers \<Rightarrow> nat) \<Rightarrow> mp3_state \<Rightarrow> buffers \<Rightarrow> (bool + string) \<Rightarrow> (mp3_state \<times> buffers \<times> nat option \<times> bool) option" where
  "mp3_get_no_meta malloc s h inp =
     (case complete_read malloc s h inp of
        None \<Rightarrow> None
      | Some (False, s, h) \<Rightarrow> Some (s, h, None, True)
      | Some (True, s, h) \<Rightarrow>
          (case read_data s of
             None \<Rightarrow> None
           | Some a \<Rightarrow>
               (case refresh_title malloc (s\<lparr>read_data := None\<rparr>) h of
                  None \<Rightarrow> None
                | Some (s, h) \<Rightarrow> deliver s h a)))"

text \<open>
  The loop of \<open>mp3_get_filter_meta\<close>: \<open>xs\<close> are the bytes not looked at yet, \<open>acc\<close> the audio found so far,
  which the code keeps at the front of the same buffer. The last result is false when the
  metadata has a wrong format.
\<close>

definition new_metadata :: "(buffers \<Rightarrow> nat) \<Rightarrow> mp3_state \<Rightarrow> buffers \<Rightarrow> (mp3_state \<times> buffers \<times> bool) option" where
  "new_metadata malloc s h =
     (case h (metadata s) of
        None \<Rightarrow> None
      | Some old \<Rightarrow>
          if build_metadata_len s > 1 \<and> strcmp (c_str (build_metadata s) 1) (c_str (bdata old @ [NUL]) 1) \<noteq> 0 then
            let a = malloc h;
                text = take (build_metadata_len s) (build_metadata s);
                h = h(a \<mapsto> (refbuf_new (build_metadata_len s))\<lparr>bdata := text\<rparr>)
            in if strncmp (c_str (text @ [NUL]) 1) ''StreamTitle='' 12 = 0 then
                 map_option (\<lambda>h. (s\<lparr>metadata := a,
                     inline_url := map_option (\<lambda>k. (a, k + 1)) (strstr (c_str (text @ [NUL]) 1) (''StreamUrl='' @ [QUOTE]))\<rparr>, h, True))
                   (refbuf_release h (Some (metadata s)))
               else map_option (\<lambda>h. (s, h, False)) (refbuf_release h (Some a))
          else Some (s, h, True))"

text \<open>The start of a metadata block: its length is the first byte times 16, and that byte.\<close>

definition start_block :: "mp3_state \<Rightarrow> char \<Rightarrow> mp3_state" where
  "start_block s c =
     (if build_metadata_len s = 0 then
        s\<lparr>build_metadata := replicate 4081 NUL, build_metadata_offset := 0, build_metadata_len := 1 + code c * 16\<rparr>
      else s)"

function filter_loop ::
  "(buffers \<Rightarrow> nat) \<Rightarrow> mp3_state \<Rightarrow> buffers \<Rightarrow> string \<Rightarrow> string \<Rightarrow> (mp3_state \<times> buffers \<times> string \<times> bool) option" where
  "filter_loop malloc s h acc xs =
     (if xs = [] then Some (s, h, acc, True)
      else
        let mp3_block = nat (inline_metadata_interval s - m_offset s)
        in if length xs \<le> mp3_block then Some (s\<lparr>m_offset := m_offset s + int (length xs)\<rparr>, h, acc @ xs, True)
           else if mp3_block \<noteq> 0 then
             filter_loop malloc (s\<lparr>m_offset := m_offset s + int mp3_block\<rparr>) h (acc @ take mp3_block xs) (drop mp3_block xs)
           else
             let s = start_block s (hd xs);
                 off = build_metadata_offset s;
                 metadata_remaining = build_metadata_len s - off
             in if metadata_remaining = 0 then None
                else if length xs < metadata_remaining then
                  Some (s\<lparr>build_metadata := put_at off xs (build_metadata s), build_metadata_offset := off + length xs\<rparr>, h, acc, True)
                else
                  (case new_metadata malloc (s\<lparr>build_metadata := put_at off (take (metadata_remaining - 1) xs) (build_metadata s)\<rparr>) h of
                     None \<Rightarrow> None
                   | Some (s, h, False) \<Rightarrow> Some (s, h, acc, False)
                   | Some (s, h, True) \<Rightarrow>
                       filter_loop malloc (s\<lparr>m_offset := 0, build_metadata_len := 0\<rparr>) h acc (drop metadata_remaining xs)))"
  by pat_completeness auto
termination
  by (relation "measure (\<lambda>(malloc, s, h, acc, xs). length xs)") auto

declare filter_loop.simps [simp del]

definition mp3_get_filter_meta ::
  "(buffers \<Rightarrow> nat) \<Rightarrow> mp3_state \<Rightarrow> buffers \<Rightarrow> (bool + string) \<Rightarrow> (mp3_state \<times> buffers \<times> nat option \<times> bool) option" where
  "mp3_get_filter_meta malloc s h inp =
     (case complete_read malloc s h inp of
        None \<Rightarrow> None
      | Some (False, s, h) \<Rightarrow> Some (s, h, None, True)
      | Some (True, s, h) \<Rightarrow>
          (case read_data s of
             None \<Rightarrow> None
           | Some a \<Rightarrow>
               (case refresh_title malloc (s\<lparr>read_data := None\<rparr>) h of
                  None \<Rightarrow> None
                | Some (s, h) \<Rightarrow>
                    (case h a of
                       None \<Rightarrow> None
                     | Some b \<Rightarrow>
                         (case filter_loop malloc s h [] (take (read_count s) (bdata b)) of
                            None \<Rightarrow> None
                          | Some (s, h, audio, fine) \<Rightarrow>
                              (case h a of
                                 None \<Rightarrow> None
                               | Some b \<Rightarrow>
                                   let h = h(a \<mapsto> b\<lparr>bdata := audio @ drop (length audio) (bdata b), blen := length audio\<rparr>)
                                   in if \<not> fine \<or> audio = [] then
                                        map_option (\<lambda>h. (s, h, None, fine)) (refbuf_release h (Some a))
                                      else deliver s h a))))))"

definition mp3_get_buffer ::
  "(buffers \<Rightarrow> nat) \<Rightarrow> mp3_state \<Rightarrow> buffers \<Rightarrow> (bool + string) \<Rightarrow> (mp3_state \<times> buffers \<times> nat option \<times> bool) option" where
  "mp3_get_buffer malloc s h inp = (if filtering s then mp3_get_filter_meta malloc s h inp else mp3_get_no_meta malloc s h inp)"

text \<open>The references the format keeps: its metadata and the block that is being read.\<close>

definition mp3_holds :: "mp3_state \<Rightarrow> nat list" where
  "mp3_holds s = metadata s # (case read_data s of None \<Rightarrow> [] | Some a \<Rightarrow> [a])"

definition format_mp3_free_plugin :: "mp3_state \<Rightarrow> buffers \<Rightarrow> buffers option" where
  "format_mp3_free_plugin s h =
     (case refbuf_release h (Some (metadata s)) of
        None \<Rightarrow> None
      | Some h \<Rightarrow> refbuf_release h (read_data s))"

section \<open>Writing to a listener\<close>

type_synonym mp3_client = "mp3_client_data lclient"

text \<open>
  The metadata to send: the block tied to the buffer when it is new to the client, a zero byte when it
  is not, an empty title when there is none. A length below zero reads outside the block.
\<close>

definition metadata_bytes :: "buffers \<Rightarrow> mp3_client_data \<Rightarrow> nat option \<Rightarrow> string option" where
  "metadata_bytes h d assoc =
     (case assoc of
        None \<Rightarrow> if metadata_offset d \<le> 17 then Some (drop (metadata_offset d) empty_metadata) else None
      | Some m \<Rightarrow>
          if cassociated d \<noteq> Some m then
            (case h m of
               None \<Rightarrow> None
             | Some b \<Rightarrow> if metadata_offset d \<le> blen b then Some (drop (metadata_offset d) (take (blen b) (bdata b))) else None)
          else Some [NUL])"

definition send_stream_metadata :: "buffers \<Rightarrow> mp3_client \<Rightarrow> nat option \<Rightarrow> tx \<Rightarrow> (int \<times> mp3_client) option" where
  "send_stream_metadata h client assoc t =
     (case metadata_bytes h (lformat client) assoc of
        None \<Rightarrow> None
      | Some bytes \<Rightarrow>
          let (ret, client) = client_send_bytes client bytes t;
              d = lformat client
          in if ret = int (length bytes) then
               Some (ret, client\<lparr>lformat := \<lparr>interval = interval d, metadata_offset = 0, since_meta_block = 0, in_metadata = False, cassociated = assoc\<rparr>\<rparr>)
             else
               Some (max ret 0, client\<lparr>lformat := d\<lparr>metadata_offset := metadata_offset d + nat ret, in_metadata := True\<rparr>\<rparr>))"

text \<open>Sending audio moves the client in its buffer and towards its next metadata block.\<close>

definition send_audio :: "mp3_client \<Rightarrow> string \<Rightarrow> tx \<Rightarrow> int \<times> mp3_client" where
  "send_audio client bytes t =
     (let (ret, client) = client_send_bytes client bytes t
      in (ret,
          if ret > 0 then
            client\<lparr>lpos := lpos client + nat ret,
                   lformat := (lformat client)\<lparr>since_meta_block := since_meta_block (lformat client) + nat ret\<rparr>\<rparr>
          else client))"

text \<open>The result when the body is left early with \<open>ret\<close> from the last write.\<close>

definition leave :: "int \<Rightarrow> int \<Rightarrow> mp3_client \<Rightarrow> (int \<times> mp3_client) option" where
  "leave written ret client = Some (if ret > 0 then written + ret else written, client)"

text \<open>The last part: audio behind the metadata block, or all of it.\<close>

definition write_rest :: "int \<Rightarrow> string \<Rightarrow> mp3_client \<Rightarrow> tx \<Rightarrow> (int \<times> mp3_client) option" where
  "write_rest written bytes client t =
     (if bytes \<noteq> [] then
        let (ret, client) = send_audio client bytes t
        in if ret < int (length bytes) then leave written ret client else Some (written + ret, client)
      else Some (written, client))"

definition write_block ::
  "buffers \<Rightarrow> nat option \<Rightarrow> int \<Rightarrow> string \<Rightarrow> mp3_client \<Rightarrow> (nat \<Rightarrow> tx) \<Rightarrow> (int \<times> mp3_client) option" where
  "write_block h assoc written bytes client out =
     (let d = lformat client;
          remaining = (if since_meta_block d \<le> interval d then interval d - since_meta_block d
                       else 2 ^ 32 + interval d - since_meta_block d)
      in if interval d \<noteq> 0 \<and> remaining \<le> length bytes then
           let (ret, client) = (if remaining \<noteq> 0 then send_audio client (take remaining bytes) (out 1) else (0, client));
               written' = written + ret
           in if remaining \<noteq> 0 \<and> ret < int remaining then leave written ret client
              else
                (case send_stream_metadata h client assoc (out 2) of
                   None \<Rightarrow> None
                 | Some (ret, client) \<Rightarrow>
                     if in_metadata (lformat client) then leave written' ret client
                     else write_rest (written' + ret) (take (interval d) (drop remaining bytes)) client (out 3))
         else write_rest written bytes client (out 3))"

definition format_mp3_write_buf_to_client ::
  "buffers \<Rightarrow> nat \<Rightarrow> mp3_client \<Rightarrow> (nat \<Rightarrow> tx) \<Rightarrow> (int \<times> mp3_client) option" where
  "format_mp3_write_buf_to_client h a client out =
     (case h a of
        None \<Rightarrow> None
      | Some b \<Rightarrow>
          let bytes = drop (lpos client) (take (blen b) (bdata b))
          in if in_metadata (lformat client) then
               (case send_stream_metadata h client (associated b) (out 0) of
                  None \<Rightarrow> None
                | Some (ret, client) \<Rightarrow>
                    if in_metadata (lformat client) then leave 0 ret client
                    else write_block h (associated b) ret bytes client out)
             else write_block h (associated b) 0 bytes client out)"

section \<open>The headers of a listener\<close>

text \<open>\<open>sscanf\<close> with \<open>%u\<close>: blanks, a sign, digits; the value is reduced to 32 bits.\<close>

definition scan_u :: "string \<Rightarrow> nat option" where
  "scan_u s =
     (let r = dropWhile is_space s;
          (neg, ds) = (case r of [] \<Rightarrow> (False, []) | c # cs \<Rightarrow> if c = CHR ''-'' then (True, cs) else if c = CHR ''+'' then (False, cs) else (False, r));
          digits = takeWhile is_digit ds;
          n = min (nat (digits_value digits)) (2 ^ 64 - 1)
      in if digits = [] then None else Some (nat ((if neg then - int n else int n) mod 2 ^ 32)))"

text \<open>
  The lines for a variable of the source's request; \<open>ice-audio-info\<close> is visited twice when a bit rate is
  found in it. When nothing follows \<open>bitrate=\<close>, \<open>sscanf\<close> fails without a value and the code prints the
  uninitialised variable, \<open>junk\<close>. \<open>sname\<close> is the name the mount is configured with.
\<close>

definition var_lines :: "nat \<Rightarrow> string option \<Rightarrow> bool \<Rightarrow> string \<times> string \<Rightarrow> string list" where
  "var_lines junk sname bitrate_filtered var =
     (let (n, v) = var
      in if strcasecmp n ''ice-audio-info'' = 0 then
           (let line = n @ '': '' @ v @ [CR, LF]
            in if bitrate_filtered then [line]
               else (case strstr v ''bitrate='' of
                       None \<Rightarrow> [line]
                     | Some k \<Rightarrow>
                         if dropWhile is_space (drop (k + 8) v) = [] then [''icy-br:'' @ dec junk @ [CR, LF], line]
                         else (case scan_u (drop (k + 8) v) of
                             None \<Rightarrow> [line]
                           | Some r \<Rightarrow> [''icy-br:'' @ dec r @ [CR, LF], line])))
         else if strcasecmp n ''ice-password'' = 0 \<or> strcasecmp n ''icy-metaint'' = 0 then []
         else if strcasecmp n ''ice-name'' = 0 then
           [''icy-name:'' @ (case sname of Some x \<Rightarrow> x | None \<Rightarrow> v) @ [CR, LF]]
         else if strncasecmp ''ice-'' n 4 = 0 then
           [if strcasecmp ''ice-public'' n = 0 then ''icy-pub:'' @ v @ [CR, LF]
            else if strcasecmp ''ice-bitrate'' n = 0 then ''icy-br:'' @ v @ [CR, LF]
            else ''icy'' @ drop 3 n @ '':'' @ v @ [CR, LF]]
         else if strncasecmp ''icy-'' n 4 = 0 then [''icy'' @ drop 3 n @ '':'' @ v @ [CR, LF]]
         else [])"

text \<open>Only the first variable with a bit rate is turned into a line of its own.\<close>

fun all_lines :: "nat \<Rightarrow> string option \<Rightarrow> bool \<Rightarrow> (string \<times> string) list \<Rightarrow> string list" where
  "all_lines junk sname filtered [] = []"
| "all_lines junk sname filtered (v # vs) =
     (let ls = var_lines junk sname filtered v
      in ls @ all_lines junk sname (filtered \<or> length ls = 2) vs)"

text \<open>Lines are printed one after the other; one that does not fit ends the attempt.\<close>

fun put_lines :: "nat \<Rightarrow> string \<Rightarrow> string list \<Rightarrow> (nat \<times> string) option" where
  "put_lines remaining text [] = Some (remaining, text)"
| "put_lines remaining text (l # ls) =
     (if length l \<ge> remaining then None else put_lines (remaining - length l) (text @ l) ls)"

text \<open>
  \<open>format_mp3_create_client_data\<close>: the last line end is overwritten. The room left is worked out for a
  buffer of 4096 bytes, modulo 2 to the 32, while \<open>cap\<close> bytes are allocated.
\<close>

definition client_lines :: "mp3_state \<Rightarrow> http_parser \<Rightarrow> nat \<times> string list" where
  "client_lines s p =
     (let flash = httpp_getvar p ''x-flash-version'' \<noteq> None \<or>
            (case httpp_getvar p ''user-agent'' of None \<Rightarrow> False | Some ua \<Rightarrow> strstr ua ''MSIE'' \<noteq> None);
          n = (case httpp_getvar p ''icy-metadata'' of
                 None \<Rightarrow> 0
               | Some v \<Rightarrow> if atoi v \<noteq> 0 then nat (if m_interval s \<ge> 0 then m_interval s else ICY_METADATA_INTERVAL) else 0)
      in (n, (if flash then [''Content-Length: 221183499'' @ [CR, LF]] else []) @
             (if n \<noteq> 0 then [''icy-metaint:'' @ dec n @ [CR, LF]] else []) @ [[CR, LF]]))"

definition create_client_data :: "mp3_state \<Rightarrow> nat \<Rightarrow> string \<Rightarrow> mp3_client \<Rightarrow> (string \<times> mp3_client) option" where
  "create_client_data s cap text client =
     (let (n, ls) = client_lines s (lparser client);
          remaining = nat ((4096 - int (length text) + 2) mod 2 ^ 32)
      in case put_lines (min remaining (cap - (length text - 2))) (take (length text - 2) text) ls of
           None \<Rightarrow> None
         | Some (_, text) \<Rightarrow>
             Some (text, client\<lparr>lformat := \<lparr>interval = n, metadata_offset = 0, since_meta_block = 0, in_metadata = False, cassociated = None\<rparr>\<rparr>))"

text \<open>
  \<open>format_prepare_headers\<close>. The buffer is enlarged when less than 1024 bytes would be left. When the
  text does not fit in the end, the client is destroyed and then used by the caller.
\<close>

definition format_prepare_headers ::
  "(string \<Rightarrow> string \<Rightarrow> bool) \<Rightarrow> ice_config \<Rightarrow> string \<Rightarrow> nat \<Rightarrow> string \<Rightarrow> string \<Rightarrow> (string \<times> string) list \<Rightarrow> mp3_state \<Rightarrow> refbuf \<Rightarrow> mp3_client \<Rightarrow>
   (int \<times> refbuf \<times> mp3_client) option" where
  "format_prepare_headers fnmatch config date junk ctype mount srcvars s b client =
     (let build = (\<lambda>n. util_http_build_header fnmatch config date (Some []) n 0 False 200 None (Some ctype) None None (Some mount));
          bytes = fst (build (blen b))
      in if bytes \<le> 0 then None
         else
           let cap = (if bytes + 1024 \<ge> int (blen b) then nat bytes + 1024 else blen b);
               (bytes, text) = build cap;
               sname = Option.bind (config_find_mount fnmatch config (Some mount) MOUNT_TYPE_NORMAL) stream_name
           in if bytes \<le> 0 \<or> bytes \<ge> int cap then None
              else
                (case put_lines (cap - nat bytes) text (all_lines junk sname False srcvars @ [[CR, LF]]) of
                   None \<Rightarrow> None
                 | Some (_, text) \<Rightarrow>
                     map_option (\<lambda>(text, client). (0, b\<lparr>bdata := text, blen := length text\<rparr>, client\<lparr>lrespcode := 200\<rparr>))
                       (create_client_data s cap text client)))"

text \<open>The functions of the format for a source of type \<open>ctype\<close> on \<open>mount\<close> whose request had the variables \<open>srcvars\<close>.\<close>

definition mp3_format ::
  "(buffers \<Rightarrow> nat) \<Rightarrow> (string \<Rightarrow> string \<Rightarrow> bool) \<Rightarrow> ice_config \<Rightarrow> string \<Rightarrow> nat \<Rightarrow> string \<Rightarrow> string \<Rightarrow> (string \<times> string) list \<Rightarrow> (mp3_state, mp3_client_data) format_plugin" where
  "mp3_format malloc fnmatch config date junk ctype mount srcvars =
     \<lparr>get_buffer = mp3_get_buffer malloc, write_buf_to_client = format_mp3_write_buf_to_client,
      prepare_headers = format_prepare_headers fnmatch config date junk ctype mount srcvars,
      free_plugin = format_mp3_free_plugin, plugin_holds = mp3_holds\<rparr>"

end
