(* ===== verification/Stream_Frame.thy ===== *)
theory Stream_Frame
  imports Streaming
begin

text \<open>
  Memory safety of the streaming loop. The queue is a chain of buffers; every buffer's count is the
  number of its references: one from the queue, one from the burst for those at and behind the
  burst point, one from every listener that points to it, one from whoever holds it otherwise.
\<close>

section \<open>The queue\<close>

fun linked :: "buffers \<Rightarrow> nat option \<Rightarrow> nat list \<Rightarrow> bool" where
  "linked h p [] \<longleftrightarrow> p = None"
| "linked h p (a # as) \<longleftrightarrow> p = Some a \<and> (\<exists>b. h a = Some b \<and> linked h (bnext b) as)"

definition blens :: "buffers \<Rightarrow> nat list \<Rightarrow> nat" where
  "blens h q = sum_list (map (\<lambda>a. blen (the (h a))) q)"

definition opt_mset :: "'a option \<Rightarrow> 'a multiset" where
  "opt_mset p = (case p of None \<Rightarrow> {#} | Some a \<Rightarrow> {#a#})"

lemma opt_mset_simps [simp]: "opt_mset None = {#}" "opt_mset (Some a) = {#a#}"
  by (simp_all add: opt_mset_def)

text \<open>The pointers of a source into its queue \<open>q\<close>, whose burst starts at position \<open>i\<close>.\<close>

definition shape :: "('s, 'f) stream \<Rightarrow> nat list \<Rightarrow> nat \<Rightarrow> bool" where
  "shape st q i \<longleftrightarrow> distinct q \<and> linked (bufs st) (stream_data st) q \<and> (\<forall>a\<in>set q. assoc_refs (bufs st) a = 0) \<and>
     stream_data_tail st = (if q = [] then None else Some (last q)) \<and>
     burst_point st = (if q = [] then None else Some (q ! i)) \<and> (q \<noteq> [] \<longrightarrow> i < length q) \<and>
     queue_size st = blens (bufs st) q \<and> burst_offset st = blens (bufs st) (drop i q)"

lemma linked_live: "linked h p q \<Longrightarrow> a \<in> set q \<Longrightarrow> \<exists>b. h a = Some b"
  by (induction q arbitrary: p) auto

lemma linked_head: "linked h p q \<Longrightarrow> p = (case q of [] \<Rightarrow> None | a # _ \<Rightarrow> Some a)"
  by (cases q) auto

lemma linked_drop: "linked h p q \<Longrightarrow> i < length q \<Longrightarrow> linked h (Some (q ! i)) (drop i q)"
proof (induction i arbitrary: p q)
  case 0
  then show ?case by (cases q) auto
next
  case (Suc i)
  then obtain a as where q: "q = a # as" by (cases q) auto
  with Suc.prems obtain b :: refbuf where "linked h (bnext b) as" by auto
  with Suc q show ?case by simp
qed

lemma linked_cong:
  assumes "linked h p q" "\<And>a b. a \<in> set q \<Longrightarrow> h a = Some b \<Longrightarrow> \<exists>b'. h' a = Some b' \<and> bnext b' = bnext b"
  shows "linked h' p q"
  using assms
proof (induction q arbitrary: p)
  case (Cons a q)
  then obtain b where b: "p = Some a" "h a = Some b" "linked h (bnext b) q" by auto
  obtain b' where "h' a = Some b'" "bnext b' = bnext b" using Cons.prems(2) [of a b] b(2) by auto
  moreover have "linked h' (bnext b) q" using Cons.IH [OF b(3)] Cons.prems(2) by auto
  ultimately show ?case using b(1) by auto
qed simp

text \<open>Every buffer of the queue but the last has its successor as \<open>next\<close>.\<close>

lemma linked_next:
  assumes "linked h p q" "a \<in> set q" "h a = Some b" "bnext b = Some n"
  shows "n \<in> set q"
  using assms
proof (induction q arbitrary: p)
  case (Cons x q)
  show ?case
  proof (cases "x = a")
    case True
    with Cons.prems have "linked h (Some n) q" by auto
    then show ?thesis by (cases q) auto
  next
    case False
    with Cons show ?thesis by auto
  qed
qed simp

section \<open>What an operation leaves alone\<close>

text \<open>
  The buffers that others refer to keep their contents and links, and those with one reference
  outside the queue keep that count.
\<close>

definition frame :: "nat list \<Rightarrow> nat multiset \<Rightarrow> buffers \<Rightarrow> buffers \<Rightarrow> bool" where
  "frame q X h h' \<longleftrightarrow>
     (\<forall>x\<in>#X. \<exists>b b'. h x = Some b \<and> h' x = Some b' \<and> blen b' = blen b \<and> bdata b' = bdata b \<and> associated b' = associated b \<and>
        bnext b' = bnext b \<and> sync_point b' = sync_point b \<and> (x \<notin> set q \<and> rcount b = 1 \<longrightarrow> rcount b' = 1)) \<and>
     (\<forall>a\<in>set q. assoc_refs h' a \<le> assoc_refs h a)"

lemma frameD:
  assumes "frame q X h h'" "x \<in># X" "h x = Some b"
  obtains b' where "h' x = Some b'" "blen b' = blen b" "bdata b' = bdata b" "associated b' = associated b" "bnext b' = bnext b"
    "sync_point b' = sync_point b" "x \<notin> set q \<Longrightarrow> rcount b = 1 \<Longrightarrow> rcount b' = 1"
proof -
  obtain c b' where c: "h x = Some c \<and> h' x = Some b' \<and> blen b' = blen c \<and> bdata b' = bdata c \<and> associated b' = associated c \<and>
        bnext b' = bnext c \<and> sync_point b' = sync_point c \<and> (x \<notin> set q \<and> rcount c = 1 \<longrightarrow> rcount b' = 1)"
    using assms(1,2) unfolding frame_def by blast
  with assms(3) have "c = b" by simp
  with c that show thesis by blast
qed

lemma frame_refl: "heap_ok h R \<Longrightarrow> X \<subseteq># R \<Longrightarrow> frame q X h h"
  unfolding frame_def by (auto dest!: heap_ok_live mset_subset_eqD)

lemma frame_trans:
  assumes "frame q X h1 h2" "frame q X h2 h3"
  shows "frame q X h1 h3"
  unfolding frame_def
proof (intro conjI ballI)
  fix x assume x: "x \<in># X"
  obtain b where b: "h1 x = Some b" using assms(1) x unfolding frame_def by blast
  obtain b2 where b2: "h2 x = Some b2" "blen b2 = blen b" "bdata b2 = bdata b" "associated b2 = associated b" "bnext b2 = bnext b"
    "sync_point b2 = sync_point b" "x \<notin> set q \<Longrightarrow> rcount b = 1 \<Longrightarrow> rcount b2 = 1" using frameD [OF assms(1) x b] by blast
  obtain b3 where b3: "h3 x = Some b3" "blen b3 = blen b2" "bdata b3 = bdata b2" "associated b3 = associated b2" "bnext b3 = bnext b2"
    "sync_point b3 = sync_point b2" "x \<notin> set q \<Longrightarrow> rcount b2 = 1 \<Longrightarrow> rcount b3 = 1" using frameD [OF assms(2) x b2(1)] by blast
  have "x \<notin> set q \<and> rcount b = 1 \<longrightarrow> rcount b3 = 1" using b2(7) b3(7) by blast
  with b b2(2-6) b3(1-6) show "\<exists>b b'. h1 x = Some b \<and> h3 x = Some b' \<and> blen b' = blen b \<and> bdata b' = bdata b \<and> associated b' = associated b \<and>
        bnext b' = bnext b \<and> sync_point b' = sync_point b \<and> (x \<notin> set q \<and> rcount b = 1 \<longrightarrow> rcount b' = 1)" by simp
next
  fix a assume a: "a \<in> set q"
  have "assoc_refs h2 a \<le> assoc_refs h1 a" "assoc_refs h3 a \<le> assoc_refs h2 a" using assms a unfolding frame_def by blast+
  then show "assoc_refs h3 a \<le> assoc_refs h1 a" by linarith
qed

lemma kept_assoc_refs:
  assumes "kept h h'" "finite (dom h)"
  shows "assoc_refs h' a \<le> assoc_refs h a"
  unfolding assoc_refs_def
proof (rule card_mono [OF finite_assoc [OF assms(2)]], rule subsetI)
  fix x assume "x \<in> {x. \<exists>b. h' x = Some b \<and> associated b = Some a}"
  then obtain b' where b': "h' x = Some b'" "associated b' = Some a" by auto
  obtain b where "h x = Some b" "associated b' = associated b" using kept_fields [OF assms(1) b'(1)] by metis
  with b'(2) show "x \<in> {x. \<exists>b. h x = Some b \<and> associated b = Some a}" by simp
qed

lemma frame_kept:
  assumes "heap_ok h R" "heap_ok h' (P + X)" "kept h h'" "X \<subseteq># R" "\<And>x. x \<in># P \<Longrightarrow> x \<in> set q"
  shows "frame q X h h'"
  unfolding frame_def
proof (intro conjI ballI)
  fix x assume x: "x \<in># X"
  obtain b' where b': "h' x = Some b'" using heap_ok_live [OF assms(2), of x] x by auto
  obtain b where b: "h x = Some b" "blen b' = blen b" "bdata b' = bdata b" "associated b' = associated b" "bnext b' = bnext b" "sync_point b' = sync_point b"
    using kept_fields [OF assms(3) b'] by metis
  have "rcount b' = 1" if "x \<notin> set q" "rcount b = 1"
  proof -
    have "count P x = 0" using assms(5) [of x] that(1) by (meson count_inI)
    moreover have "0 < count X x" "count X x \<le> count R x" using x assms(4) by (simp_all add: mset_subset_eq_count)
    moreover have "assoc_refs h' x \<le> assoc_refs h x" by (rule kept_assoc_refs [OF assms(3) heap_okD(1) [OF assms(1)]])
    moreover have "rcount b' = count P x + count X x + assoc_refs h' x" using heap_okD(2) [OF assms(2) b'] by simp
    ultimately show ?thesis using heap_okD(2) [OF assms(1) b(1)] that(2) by linarith
  qed
  with b b' show "\<exists>b b'. h x = Some b \<and> h' x = Some b' \<and> blen b' = blen b \<and> bdata b' = bdata b \<and> associated b' = associated b \<and>
        bnext b' = bnext b \<and> sync_point b' = sync_point b \<and> (x \<notin> set q \<and> rcount b = 1 \<longrightarrow> rcount b' = 1)" by blast
next
  show "assoc_refs h' a \<le> assoc_refs h a" for a by (rule kept_assoc_refs [OF assms(3) heap_okD(1) [OF assms(1)]])
qed

lemma frame_update:
  assumes "heap_ok h R" "X \<subseteq># R" "a \<notin># X" "h a = Some b \<and> associated b' = associated b \<or> h a = None \<and> associated b' = None"
  shows "frame q X h (h(a \<mapsto> b'))"
proof -
  note fin = heap_okD(1) [OF assms(1)]
  have "assoc_refs (h(a \<mapsto> b')) x = assoc_refs h x" for x
    using assms(4) assoc_refs_upd [OF fin, of a b b' x] assoc_refs_new [OF fin, of a b' x] by auto
  then have "frame q X h (h(a \<mapsto> b')) = frame q X h h" using assms(3) unfolding frame_def by auto
  with frame_refl [OF assms(1,2)] show ?thesis by simp
qed

section \<open>Listeners\<close>

text \<open>
  A listener on the queue points into it; one that is still sent its headers or the intro file
  has a buffer of its own, which nobody else refers to, or none. \<open>data_ok\<close> has two
  parts: what the format needs of its data once the headers are prepared, and what it needs of a
  request for the headers to fit.
\<close>

definition own_buffer :: "buffers \<Rightarrow> nat list \<Rightarrow> 'f lclient \<Rightarrow> bool" where
  "own_buffer h q c \<longleftrightarrow> (\<exists>a b. lrefbuf c = Some a \<and> a \<notin> set q \<and> h a = Some b \<and> rcount b = 1 \<and> associated b = None \<and> lpos c \<le> blen b \<and>
     (lrespcode c = 0 \<longrightarrow> blen b = PER_CLIENT_REFBUF_SIZE \<and> lpos c = 0))"

definition on_queue :: "buffers \<Rightarrow> nat list \<Rightarrow> 'f lclient \<Rightarrow> bool" where
  "on_queue h q c \<longleftrightarrow> (\<exists>a b. lrefbuf c = Some a \<and> a \<in> set q \<and> h a = Some b \<and> lpos c \<le> blen b)"

definition listener_ok :: "('f \<Rightarrow> bool) \<times> (http_parser \<Rightarrow> bool) \<Rightarrow> buffers \<Rightarrow> nat list \<Rightarrow> 'f lclient \<Rightarrow> bool" where
  "listener_ok data_ok h q c \<longleftrightarrow>
     (lrespcode c \<noteq> 0 \<longrightarrow> con_error (lcon c) \<or> fst data_ok (lformat c)) \<and> (lrespcode c = 0 \<longrightarrow> snd data_ok (lparser c)) \<and>
     (case lcheck c of
        format_check_http_buffer \<Rightarrow> own_buffer h q c \<and> \<not> plugin_write c
      | format_check_file_buffer \<Rightarrow> lrespcode c \<noteq> 0 \<and> (lrefbuf c = None \<or> own_buffer h q c)
      | format_advance_queue \<Rightarrow> lrespcode c \<noteq> 0 \<and> on_queue h q c)"

lemma own_buffer_frame:
  assumes "own_buffer h q c" "frame q X h h'" "opt_mset (lrefbuf c) \<subseteq># X"
  shows "own_buffer h' q c"
proof -
  obtain a b where a: "lrefbuf c = Some a" "a \<notin> set q" "h a = Some b" "rcount b = 1" "associated b = None" "lpos c \<le> blen b"
     "lrespcode c = 0 \<longrightarrow> blen b = PER_CLIENT_REFBUF_SIZE \<and> lpos c = 0" using assms(1) unfolding own_buffer_def by blast
  have "a \<in># X" using assms(3) a(1) by simp
  from frameD [OF assms(2) this a(3)] obtain b' where "h' a = Some b'" "blen b' = blen b" "associated b' = associated b" "rcount b' = 1"
    using a(2,4) by metis
  with a show ?thesis unfolding own_buffer_def by auto
qed

lemma on_queue_frame:
  assumes "on_queue h q c" "frame q X h h'" "opt_mset (lrefbuf c) \<subseteq># X"
  shows "on_queue h' q c"
proof -
  obtain a b where a: "lrefbuf c = Some a" "a \<in> set q" "h a = Some b" "lpos c \<le> blen b" using assms(1) unfolding on_queue_def by blast
  have "a \<in># X" using assms(3) a(1) by simp
  from frameD [OF assms(2) this a(3)] obtain b' where "h' a = Some b'" "blen b' = blen b" by metis
  with a show ?thesis unfolding on_queue_def by auto
qed

lemma listener_ok_frame:
  assumes "listener_ok data_ok h q c" "frame q X h h'" "opt_mset (lrefbuf c) \<subseteq># X"
  shows "listener_ok data_ok h' q c"
  using assms(1) own_buffer_frame [OF _ assms(2,3)] on_queue_frame [OF _ assms(2,3)]
  unfolding listener_ok_def by (auto split: check_fun.splits)

text \<open>The queue survives what leaves its buffers alone.\<close>

lemma blens_frame:
  assumes "frame q X h h'" "mset p \<subseteq># X"
  shows "blens h' p = blens h p"
proof -
  have "blen (the (h' a)) = blen (the (h a))" if "a \<in> set p" for a
  proof -
    have a: "a \<in># X" using that assms(2) by (meson mset_subset_eqD set_mset_mset in_multiset_in_set)
    obtain b where "h a = Some b" using assms(1) a unfolding frame_def by blast
    then show ?thesis using frameD [OF assms(1) a] by (metis option.sel)
  qed
  then have "map (\<lambda>a. blen (the (h' a))) p = map (\<lambda>a. blen (the (h a))) p" by simp
  then show ?thesis unfolding blens_def by presburger
qed

lemma shape_frame:
  assumes "shape st q i" "frame q X (bufs st) h'" "mset q \<subseteq># X"
  shows "shape (st\<lparr>bufs := h'\<rparr>) q i"
proof -
  have sub: "mset (drop i q) \<subseteq># X" using assms(3)
    by (metis append_take_drop_id mset_append mset_subset_eq_add_right subset_mset.order_trans)
  have "linked h' (stream_data st) q"
  proof (rule linked_cong)
    show "linked (bufs st) (stream_data st) q" using assms(1) unfolding shape_def by blast
    fix a b assume "a \<in> set q" "bufs st a = Some b"
    moreover from this have "a \<in># X" using assms(3) by (meson mset_subset_eqD set_mset_mset in_multiset_in_set)
    ultimately show "\<exists>b'. h' a = Some b' \<and> bnext b' = bnext b" using frameD [OF assms(2)] by metis
  qed
  moreover have "\<forall>a\<in>set q. assoc_refs h' a = 0"
    using assms(1,2) unfolding shape_def frame_def by (metis le_zero_eq)
  ultimately show ?thesis
    using assms(1) blens_frame [OF assms(2,3)] blens_frame [OF assms(2) sub] unfolding shape_def by simp
qed

section \<open>Moving a listener\<close>

lemma set_queue_ok:
  assumes "heap_ok h (opt_mset (lrefbuf c) + X)" "\<And>a. p = Some a \<Longrightarrow> a \<in># X"
  shows "\<exists>h'. set_queue h c p = Some (h', c\<lparr>lrefbuf := p, lpos := 0\<rparr>) \<and> heap_ok h' (opt_mset p + X) \<and> kept h h'"
proof -
  obtain h1 where h1: "(case p of None \<Rightarrow> Some h | Some a \<Rightarrow> refbuf_addref h a) = Some h1"
    "heap_ok h1 (opt_mset (lrefbuf c) + (opt_mset p + X))" "kept h h1"
  proof (cases p)
    case None
    with assms(1) that [of h] show thesis by simp
  next
    case (Some a)
    obtain b where "h a = Some b" using heap_ok_live [OF assms(1), of a] assms(2) [OF Some] by auto
    from refbuf_addref_ok [OF assms(1) this] Some that show thesis by (auto simp: ac_simps)
  qed
  obtain h2 where h2: "refbuf_release h1 (lrefbuf c) = Some h2" "heap_ok h2 (opt_mset p + X)" "kept h1 h2"
  proof (cases "lrefbuf c")
    case None
    with h1(2) that [of h1] show thesis by (simp add: refbuf_release_def)
  next
    case (Some a)
    with h1(2) have "heap_ok h1 (add_mset a (opt_mset p + X))" by simp
    from refbuf_release_ok [OF this] Some that show thesis by auto
  qed
  have "set_queue h c p = Some (h2, c\<lparr>lrefbuf := p, lpos := 0\<rparr>)" unfolding set_queue_def h1(1) option.case h2(1) by simp
  with h2(2) kept_trans [OF h1(3) h2(3)] show ?thesis by blast
qed

lemma skip_loop_ok:
  "linked h p q \<Longrightarrow> length q < n \<Longrightarrow> \<exists>k r. skip_loop n h sz p = Some r \<and> linked h r (drop k q)"
proof (induction n h sz p arbitrary: q rule: skip_loop.induct)
  case (2 n h sz)
  then show ?case by (intro exI [of _ 0] exI [of _ None]) (cases q; simp)
next
  case (3 n h sz a)
  obtain qs b where q: "q = a # qs" "h a = Some b" "linked h (bnext b) qs" using 3(2) by (cases q) auto
  show ?case
  proof (cases "sz > 0 \<and> bnext b \<noteq> None")
    case True
    from 3(1) [OF q(2) True q(3)] 3(3) q(1) obtain k r where
      "skip_loop n h (sz - of_nat (blen b)) (bnext b) = Some r" "linked h r (drop k qs)" by auto
    with True q show ?thesis by (intro exI [of _ "Suc k"] exI [of _ r]) simp
  next
    case False
    with q 3(2) show ?thesis by (intro exI [of _ 0] exI [of _ "Some a"]) auto
  qed
qed simp

lemma sync_loop_ok: "linked h p q \<Longrightarrow> length q < n \<Longrightarrow> \<exists>r. sync_loop n h p = Some r \<and> (\<forall>a. r = Some a \<longrightarrow> a \<in> set q)"
proof (induction n h p arbitrary: q rule: sync_loop.induct)
  case (3 n h a)
  obtain qs b where q: "q = a # qs" "h a = Some b" "linked h (bnext b) qs" using 3(2) by (cases q) auto
  show ?case
  proof (cases "sync_point b")
    case True
    with q show ?thesis by simp
  next
    case False
    from 3(1) [OF q(2) False q(3)] 3(3) q(1) obtain r where "sync_loop n h (bnext b) = Some r" "\<forall>a. r = Some a \<longrightarrow> a \<in> set qs" by auto
    with False q show ?thesis by auto
  qed
qed auto

lemma start_point_ok:
  assumes "shape st q i" "length q < fuel"
  shows "\<exists>r k. start_point fuel st off = Some r \<and> linked (bufs st) r (drop k q)"
proof -
  have l: "linked (bufs st) (stream_data st) q" and tl: "stream_data_tail st = (if q = [] then None else Some (last q))"
    and bp: "burst_point st = (if q = [] then None else Some (q ! i))" and i: "q \<noteq> [] \<longrightarrow> i < length q"
    using assms(1) unfolding shape_def by blast+
  have "linked (bufs st) (burst_point st) (drop i q)"
    using linked_drop [OF l] bp i by (cases "q = []") simp_all
  moreover have "length (drop i q) < fuel" using assms(2) by simp
  ultimately obtain k r where skip: "skip_loop fuel (bufs st) (word_of_int off) (burst_point st) = Some r" "linked (bufs st) r (drop k (drop i q))"
    using skip_loop_ok by blast
  have skip': "linked (bufs st) r (drop (k + i) q)" using skip(2) by simp
  show ?thesis
  proof (cases "q = []")
    case True
    with skip(1) skip' tl show ?thesis by (auto simp: start_point_def)
  next
    case False
    have "linked (bufs st) (Some (q ! (length q - 1))) (drop (length q - 1) q)" by (rule linked_drop [OF l]) (use False in simp)
    then have t: "linked (bufs st) (Some (last q)) (drop (length q - 1) q)" using False by (simp add: last_conv_nth)
    obtain b where "bufs st (last q) = Some b" using linked_live [OF l, of "last q"] False by auto
    then have "start_point fuel st off = Some r \<or> start_point fuel st off = Some (Some (last q))"
      using skip(1) tl False by (simp add: start_point_def Let_def)
    with skip' t show ?thesis by blast
  qed
qed

text \<open>
  The contract of an operation on one listener, the other references being \<open>X\<close>: the counts are
  right again, nothing others refer to has changed, and the listener is well formed.
\<close>

definition op_ok :: "('f \<Rightarrow> bool) \<times> (http_parser \<Rightarrow> bool) \<Rightarrow> nat list \<Rightarrow> nat multiset \<Rightarrow> ('s, 'f) stream \<Rightarrow> ('s, 'f) stream \<Rightarrow> 'f lclient \<Rightarrow> bool" where
  "op_ok data_ok q X st st' c \<longleftrightarrow>
     heap_ok (bufs st') (opt_mset (lrefbuf c) + X) \<and> frame q X (bufs st) (bufs st') \<and>
     (\<exists>h s. st' = st\<lparr>bufs := h, short_delay := s\<rparr>) \<and> listener_ok data_ok (bufs st') q c"

lemma op_okI:
  "heap_ok h (opt_mset (lrefbuf c) + X) \<Longrightarrow> frame q X (bufs st) h \<Longrightarrow> listener_ok data_ok h q c \<Longrightarrow> op_ok data_ok q X st (st\<lparr>bufs := h\<rparr>) c"
proof -
  have "st\<lparr>bufs := h\<rparr> = st\<lparr>bufs := h, short_delay := short_delay st\<rparr>" by simp
  then have "\<exists>h' s. st\<lparr>bufs := h\<rparr> = st\<lparr>bufs := h', short_delay := s\<rparr>" by blast
  then show "heap_ok h (opt_mset (lrefbuf c) + X) \<Longrightarrow> frame q X (bufs st) h \<Longrightarrow> listener_ok data_ok h q c \<Longrightarrow> ?thesis"
    unfolding op_ok_def by simp
qed

lemma op_ok_trans:
  assumes "op_ok data_ok q X st1 st2 c2" "op_ok data_ok q X st2 st3 c3"
  shows "op_ok data_ok q X st1 st3 c3"
  using assms frame_trans [of q X "bufs st1" "bufs st2" "bufs st3"] unfolding op_ok_def by force

lemma op_ok_shape:
  assumes "op_ok data_ok q X st st' c" "shape st q i" "mset q \<subseteq># X"
  shows "shape st' q i"
proof -
  obtain h s where st': "st' = st\<lparr>bufs := h, short_delay := s\<rparr>" and "frame q X (bufs st) h" using assms(1) unfolding op_ok_def by auto
  from shape_frame [OF assms(2) this(2) assms(3)] show ?thesis unfolding st' shape_def by simp
qed

lemma op_ok_refl:
  "heap_ok (bufs st) (opt_mset (lrefbuf c) + X) \<Longrightarrow> listener_ok data_ok (bufs st) q c \<Longrightarrow> op_ok data_ok q X st st c"
  using op_okI [of "bufs st" c X q st data_ok] frame_refl [of "bufs st" "opt_mset (lrefbuf c) + X" X q] by simp

lemma find_client_start_ok:
  assumes "heap_ok (bufs st) (opt_mset (lrefbuf c) + X)" "shape st q i" "mset q \<subseteq># X" "length q < fuel"
    and "lcheck c = format_check_file_buffer" "listener_ok data_ok (bufs st) q c"
  shows "\<exists>st' c'. find_client_start fuel st c = Some (st', c') \<and> op_ok data_ok q X st st' c'"
proof -
  obtain r k where r: "start_point fuel st (lintro c) = Some r" "linked (bufs st) r (drop k q)"
    using start_point_ok [OF assms(2,4)] by blast
  have "length (drop k q) < fuel" using assms(4) by simp
  from sync_loop_ok [OF r(2) this] obtain s where s: "sync_loop fuel (bufs st) r = Some s" "\<And>a. s = Some a \<Longrightarrow> a \<in> set q"
    by (metis in_set_dropD)
  show ?thesis
  proof (cases s)
    case None
    with r(1) s(1) op_ok_refl [OF assms(1,6)] show ?thesis by (simp add: find_client_start_def)
  next
    case (Some a)
    have aq: "a \<in> set q" using s(2) [OF Some] .
    have aX: "a \<in># X" using aq assms(3) by (meson mset_subset_eqD set_mset_mset in_multiset_in_set)
    let ?c = "c\<lparr>lrefbuf := Some a, lpos := 0, lcheck := format_advance_queue, plugin_write := True, lintro := -1\<rparr>"
    obtain h where h: "set_queue (bufs st) c (Some a) = Some (h, c\<lparr>lrefbuf := Some a, lpos := 0\<rparr>)" "heap_ok h (opt_mset (Some a) + X)" "kept (bufs st) h"
      using set_queue_ok [OF assms(1), of "Some a"] aX by auto
    have fr: "frame q X (bufs st) h" by (rule frame_kept [OF assms(1) h(2,3)]) (use aq in auto)
    obtain b where b: "h a = Some b" using heap_ok_live [OF h(2), of a] by auto
    have "on_queue h q ?c" unfolding on_queue_def using aq b by auto
    then have "listener_ok data_ok h q ?c" using assms(5,6) unfolding listener_ok_def by auto
    with h(2) have "op_ok data_ok q X st (st\<lparr>bufs := h\<rparr>) ?c" by (intro op_okI [OF _ fr]) simp_all
    with r(1) s(1) Some h(1) show ?thesis by (simp add: find_client_start_def)
  qed
qed

lemma own_not_shared:
  assumes "heap_ok h (add_mset a X)" "h a = Some b" "rcount b = 1"
  shows "a \<notin># X" "assoc_refs h a = 0"
proof -
  have "count X a + assoc_refs h a = 0" using heap_okD(2) [OF assms(1,2)] assms(3) by simp
  then show "a \<notin># X" "assoc_refs h a = 0" by (simp_all add: not_in_iff)
qed

lemma heap_ok_contents:
  assumes "heap_ok h R" "h a = Some b" "rcount b' = rcount b" "associated b' = associated b" "assoc_refs h a = 0 \<or> bnext b' = bnext b"
  shows "heap_ok (h(a \<mapsto> b')) R"
proof (rule heap_okI)
  note fin = heap_okD(1) [OF assms(1)]
  have as: "assoc_refs (h(a \<mapsto> b')) x = assoc_refs h x" for x by (rule assoc_refs_upd [OF fin assms(2,4)])
  show "finite (dom (h(a \<mapsto> b')))" using fin by simp
  show "count R x = 0 \<and> assoc_refs (h(a \<mapsto> b')) x = 0" if "(h(a \<mapsto> b')) x = None" for x
    using that heap_okD(4,5) [OF assms(1), of x] unfolding as by (auto split: if_splits)
  show "rcount c = count R x + assoc_refs (h(a \<mapsto> b')) x \<and> 0 < rcount c" if "(h(a \<mapsto> b')) x = Some c" for x c
    using that heap_okD(2,3) [OF assms(1), of x] assms(2,3) unfolding as by (auto split: if_splits)
  show "associated c = None \<and> bnext c = None"
    if d: "(h(a \<mapsto> b')) x = Some d" and m: "associated d = Some m" and c: "(h(a \<mapsto> b')) m = Some c" for x d m c
  proof -
    obtain d' where d': "h x = Some d'" "associated d' = Some m" using d m assms(2,4) by (cases "x = a") auto
    have "assoc_refs h m \<noteq> 0" using assoc_refs_pos [OF fin d'] by simp
    then obtain c' where "h m = Some c'" "associated c = associated c'" "bnext c = bnext c'"
      using c assms(2,4,5) by (cases "m = a") auto
    then show ?thesis using heap_okD(6) [OF assms(1) d'] by metis
  qed
qed

text \<open>Changing the contents of a listener's own buffer.\<close>

lemma own_update_ok:
  assumes "heap_ok (bufs st) (add_mset a X)" "bufs st a = Some b" "rcount b = 1" "rcount b' = 1" "associated b = None" "associated b' = None"
    and "lrefbuf c = Some a" "listener_ok data_ok ((bufs st)(a \<mapsto> b')) q c"
  shows "op_ok data_ok q X st (st\<lparr>bufs := (bufs st)(a \<mapsto> b')\<rparr>) c"
proof (rule op_okI)
  note own = own_not_shared [OF assms(1-3)]
  show "heap_ok ((bufs st)(a \<mapsto> b')) (opt_mset (lrefbuf c) + X)"
    using heap_ok_contents [OF assms(1,2), of b'] assms own(2) by simp
  show "frame q X (bufs st) ((bufs st)(a \<mapsto> b'))"
    by (rule frame_update [OF assms(1) _ own(1)]) (use assms in auto)
qed (rule assms(8))

lemma own_bufferD:
  assumes "own_buffer h q c" "lrefbuf c = Some a"
  obtains b where "a \<notin> set q" "h a = Some b" "rcount b = 1" "associated b = None" "lpos c \<le> blen b"
    "lrespcode c = 0 \<Longrightarrow> blen b = PER_CLIENT_REFBUF_SIZE \<and> lpos c = 0"
  using assms unfolding own_buffer_def by auto

lemma file_buffer_ok:
  assumes "heap_ok (bufs st) (add_mset a X)" "shape st q i" "mset q \<subseteq># X" "length q < fuel"
    and "lcheck c = format_check_file_buffer" "listener_ok data_ok (bufs st) q c" "lrefbuf c = Some a"
  shows "\<exists>ret st' c'. file_buffer fuel st c a = Some (ret, st', c') \<and> op_ok data_ok q X st st' c' \<and> (0 \<le> ret \<longrightarrow> lrefbuf c' \<noteq> None) \<and>
    lcon c' = lcon c \<and> lrespcode c' = lrespcode c"
proof -
  have own: "own_buffer (bufs st) q c" and rc: "lrespcode c \<noteq> 0" "con_error (lcon c) \<or> fst data_ok (lformat c)"
    using assms(5-7) unfolding listener_ok_def by auto
  obtain b where b: "a \<notin> set q" "bufs st a = Some b" "rcount b = 1" "associated b = None" "lpos c \<le> blen b" using own_bufferD [OF own assms(7)] by metis
  have heap: "heap_ok (bufs st) (opt_mset (lrefbuf c) + X)" using assms(1,7) by simp
  consider "lpos c \<noteq> blen b" | b' where "lpos c = blen b" "get_file_data (intro_file st) (lintro c) b = Some b'"
    | "lpos c = blen b" "get_file_data (intro_file st) (lintro c) b = None" "stream_data_tail st = None"
    | "lpos c = blen b" "get_file_data (intro_file st) (lintro c) b = None" "stream_data_tail st \<noteq> None" by fastforce
  then show ?thesis
  proof cases
    case 1
    with b(2) op_ok_refl [OF heap assms(6)] assms(7) show ?thesis by (simp add: file_buffer_def)
  next
    case (2 b')
    have b': "rcount b' = 1" "associated b' = None"
      using 2(2) b(3,4) by (auto simp: get_file_data_def Let_def split: option.splits if_splits)
    let ?c = "c\<lparr>lpos := 0, lintro := lintro c + int (blen b')\<rparr>"
    have "own_buffer ((bufs st)(a \<mapsto> b')) q ?c" using b b' assms(7) rc(1) unfolding own_buffer_def by auto
    then have "listener_ok data_ok ((bufs st)(a \<mapsto> b')) q ?c" using assms(5) rc unfolding listener_ok_def by simp
    from own_update_ok [OF assms(1) b(2,3) b'(1) b(4) b'(2) _ this] assms(7) 2 b(2)
    show ?thesis by (simp add: file_buffer_def)
  next
    case 3
    let ?c = "c\<lparr>lintro := 0\<rparr>"
    have "listener_ok data_ok (bufs st) q ?c" using assms(6) unfolding listener_ok_def own_buffer_def on_queue_def by (auto split: check_fun.splits)
    from op_ok_refl [OF _ this, of X] heap have "op_ok data_ok q X st st ?c" by simp
    with 3 b(2) show ?thesis by (simp add: file_buffer_def)
  next
    case 4
    let ?c = "c\<lparr>lrefbuf := None, lpos := 0\<rparr>"
    obtain h where h: "set_queue (bufs st) c None = Some (h, ?c)" "heap_ok h (opt_mset None + X)" "kept (bufs st) h"
      using set_queue_ok [OF heap, of None] by auto
    have fr: "frame q X (bufs st) h" by (rule frame_kept [OF heap h(2,3)]) auto
    have lok: "listener_ok data_ok h q ?c" using assms(5) rc unfolding listener_ok_def by simp
    from h(2) fr lok have op: "op_ok data_ok q X st (st\<lparr>bufs := h\<rparr>) ?c" by (intro op_okI) simp_all
    note sh = op_ok_shape [OF op assms(2,3)]
    from find_client_start_ok [OF _ sh assms(3,4), of ?c data_ok] h(2) lok assms(5)
    obtain st' c' where f: "find_client_start fuel (st\<lparr>bufs := h\<rparr>) ?c = Some (st', c')" "op_ok data_ok q X (st\<lparr>bufs := h\<rparr>) st' c'" by auto
    have same: "lcon c' = lcon c \<and> lrespcode c' = lrespcode c"
      using f(1) by (auto simp: find_client_start_def set_queue_def split: option.splits)
    from op_ok_trans [OF op f(2)] same f(1) 4 b(2) h(1) show ?thesis by (simp add: file_buffer_def)
  qed
qed

end
