(* ===== verification/Stream_Safe.thy ===== *)
theory Stream_Safe
  imports Stream_Frame
begin

text \<open>
  The contract of a stream format (locale \<open>format_contract\<close>), and what it gives for the operations of
  the source thread: none of them follows a null or freed buffer, and all keep the invariant.
\<close>

text \<open>The allocator gives an unused address.\<close>

definition malloc_ok :: "(buffers \<Rightarrow> nat) \<Rightarrow> bool" where
  "malloc_ok malloc \<longleftrightarrow> (\<forall>h. finite (dom h) \<longrightarrow> h (malloc h) = None)"

lemma check_file_ok:
  assumes "heap_ok (bufs st) (opt_mset (lrefbuf c) + X)" "shape st q i" "mset q \<subseteq># X" "length q < fuel"
    and "lcheck c = format_check_file_buffer" "listener_ok ok (bufs st) q c" "malloc_ok malloc"
  shows "\<exists>ret st' c'. check_file_buffer malloc fuel st c = Some (ret, st', c') \<and> op_ok ok q X st st' c' \<and>
    (0 \<le> ret \<longrightarrow> lrefbuf c' \<noteq> None) \<and> lcon c' = lcon c \<and> lrespcode c' = lrespcode c"
proof (cases "lrefbuf c")
  case (Some a)
  with file_buffer_ok [OF _ assms(2-6) Some] assms(1) show ?thesis by (simp add: check_file_buffer_def)
next
  case None
  have rc: "lrespcode c \<noteq> 0" "con_error (lcon c) \<or> fst ok (lformat c)" using assms(5,6) unfolding listener_ok_def by auto
  show ?thesis
  proof (cases "has_client st")
    case True
    obtain st' c' where f: "find_client_start fuel st c = Some (st', c')" "op_ok ok q X st st' c'"
      using find_client_start_ok [OF assms(1-6)] by blast
    have "lcon c' = lcon c \<and> lrespcode c' = lrespcode c"
      using f(1) by (auto simp: find_client_start_def set_queue_def split: option.splits)
    with f True None show ?thesis by (simp add: check_file_buffer_def)
  next
    case False
    let ?a = "malloc (bufs st)" and ?b = "refbuf_new PER_CLIENT_REFBUF_SIZE"
    let ?c = "c\<lparr>lrefbuf := Some ?a, lpos := blen ?b, lintro := 0\<rparr>"
    let ?st = "st\<lparr>bufs := (bufs st)(?a \<mapsto> ?b)\<rparr>"
    have X: "heap_ok (bufs st) X" using assms(1) None by simp
    have free: "bufs st ?a = None" using assms(7) heap_okD(1) [OF X] unfolding malloc_ok_def by blast
    have aX: "?a \<notin># X" using heap_okD(4) [OF X free] by (simp add: not_in_iff)
    then have aq: "?a \<notin> set q" using assms(3) by (meson mset_subset_eqD set_mset_mset in_multiset_in_set)
    have new: "rcount ?b = 1" "associated ?b = None" by (simp_all add: refbuf_new_def)
    have "own_buffer ((bufs st)(?a \<mapsto> ?b)) q ?c" unfolding own_buffer_def using aq new rc(1) by auto
    then have l: "listener_ok ok ((bufs st)(?a \<mapsto> ?b)) q ?c" using assms(5) rc unfolding listener_ok_def by simp
    have hp: "heap_ok ((bufs st)(?a \<mapsto> ?b)) (add_mset ?a X)" by (rule heap_ok_new [OF X free new])
    have fr: "frame q X (bufs st) ((bufs st)(?a \<mapsto> ?b))" by (rule frame_update [OF X _ aX]) (use free new in auto)
    have op: "op_ok ok q X st ?st ?c" using hp by (intro op_okI [OF _ fr l]) simp
    have "\<exists>ret st' c'. file_buffer fuel ?st ?c ?a = Some (ret, st', c') \<and> op_ok ok q X ?st st' c' \<and> (0 \<le> ret \<longrightarrow> lrefbuf c' \<noteq> None) \<and>
      lcon c' = lcon ?c \<and> lrespcode c' = lrespcode ?c"
      by (rule file_buffer_ok [OF _ op_ok_shape [OF op assms(2,3)] assms(3,4)]) (use hp l assms(5) in simp_all)
    then obtain ret st' c' where f: "file_buffer fuel ?st ?c ?a = Some (ret, st', c')" "op_ok ok q X ?st st' c'"
      "0 \<le> ret \<longrightarrow> lrefbuf c' \<noteq> None" "lcon c' = lcon c" "lrespcode c' = lrespcode c" by auto
    with op_ok_trans [OF op f(2)] None False show ?thesis by (simp add: check_file_buffer_def Let_def)
  qed
qed

section \<open>The contract of a format\<close>

text \<open>
  Writing moves a client forward within its buffer and touches nothing else that the source thread
  relies on; preparing the headers works on the client's own buffer; reading delivers a buffer with
  a single reference and leaves alone what others refer to. \<open>data_ok\<close> is the format's condition on
  its data of a client, \<open>headers_ok\<close> the condition under which the headers of a client fit, and
  \<open>state_ok\<close> its condition on its own state, which holds until the stream is ended and rests only on the buffers it holds. Those are
  none of the queue, and delivering a buffer may add references to them.
\<close>

definition same_client :: "'f lclient \<Rightarrow> 'f lclient \<Rightarrow> bool" where
  "same_client c c' \<longleftrightarrow> lrefbuf c' = lrefbuf c \<and> lcheck c' = lcheck c \<and> plugin_write c' = plugin_write c \<and>
     con_id (lcon c') = con_id (lcon c) \<and> (con_error (lcon c) \<longrightarrow> con_error (lcon c'))"

locale format_contract =
  fixes fmt :: "('s, 'f) format_plugin" and data_ok :: "'f \<Rightarrow> bool" and headers_ok :: "http_parser \<Rightarrow> bool"
    and state_ok :: "'s \<Rightarrow> buffers \<Rightarrow> bool"
  assumes write_ok: "heap_ok h R \<Longrightarrow> h a = Some b \<Longrightarrow> lpos c \<le> blen b \<Longrightarrow> data_ok (lformat c) \<Longrightarrow>
      \<exists>ret c'. write_buf_to_client fmt h a c out = Some (ret, c') \<and> same_client c c' \<and> lrespcode c' = lrespcode c \<and>
        lpos c' \<le> blen b \<and> data_ok (lformat c')"
    and prepare_ok: "blen b = PER_CLIENT_REFBUF_SIZE \<Longrightarrow> lpos c = 0 \<Longrightarrow> headers_ok (lparser c) \<Longrightarrow>
      \<exists>ret b' c'. prepare_headers fmt s b c = Some (ret, b', c') \<and> same_client c c' \<and> lcon c' = lcon c \<and> lpos c' = 0 \<and> lrespcode c' \<noteq> 0 \<and>
        rcount b' = rcount b \<and> associated b' = associated b \<and> bnext b' = bnext b \<and> (0 \<le> ret \<longrightarrow> data_ok (lformat c'))"
    and get_ok: "heap_ok h (R + mset (plugin_holds fmt s)) \<Longrightarrow> state_ok s h \<Longrightarrow> mset q \<subseteq># R \<Longrightarrow>
      set q \<inter> set (plugin_holds fmt s) = {} \<Longrightarrow> \<exists>s' h' p run. get_buffer fmt s h inp = Some (s', h', p, run) \<and> heap_ok h' (opt_mset p + R + mset (plugin_holds fmt s')) \<and>
        frame q R h h' \<and> (run \<longrightarrow> state_ok s' h') \<and> (\<forall>x\<in>#R. x \<in> set (plugin_holds fmt s') \<longrightarrow> x \<in> set (plugin_holds fmt s)) \<and>
        (\<forall>a. p = Some a \<longrightarrow> (\<exists>b. h' a = Some b \<and> rcount b = 1 \<and> bnext b = None \<and> assoc_refs h' a = 0))"
    and state_frame: "state_ok s h \<Longrightarrow> frame [] (mset (plugin_holds fmt s)) h h' \<Longrightarrow> state_ok s h'"
begin

abbreviation ok where "ok \<equiv> (data_ok, headers_ok)"

lemma http_sent_ok:
  assumes "heap_ok (bufs st) (add_mset a X)" "lrefbuf c = Some a" "lcheck c = format_check_http_buffer" "lrespcode c \<noteq> 0"
    and "listener_ok ok (bufs st) q c"
  shows "\<exists>ret st' c'. http_sent st c a = Some (ret, st', c') \<and> op_ok ok q X st st' c' \<and> lrefbuf c' \<noteq> None \<and> lcon c' = lcon c \<and> lrespcode c' \<noteq> 0"
proof -
  have own: "own_buffer (bufs st) q c" and d: "con_error (lcon c) \<or> data_ok (lformat c)" using assms(3-5) unfolding listener_ok_def by auto
  obtain b where b: "a \<notin> set q" "bufs st a = Some b" "rcount b = 1" "associated b = None" "lpos c \<le> blen b" using own_bufferD [OF own assms(2)] by metis
  show ?thesis
  proof (cases "lpos c = blen b")
    case True
    let ?c = "c\<lparr>plugin_write := True, lcheck := format_check_file_buffer, lintro := 0, lpos := 4096\<rparr>" and ?b = "b\<lparr>blen := 4096\<rparr>"
    have "own_buffer ((bufs st)(a \<mapsto> ?b)) q ?c" using b assms(2,4) unfolding own_buffer_def by auto
    then have "listener_ok ok ((bufs st)(a \<mapsto> ?b)) q ?c" using d assms(4) unfolding listener_ok_def by simp
    from own_update_ok [OF assms(1) b(2,3) _ b(4) _ _ this] b True assms(2,4) show ?thesis by (simp add: http_sent_def)
  next
    case False
    from op_ok_refl [OF _ assms(5), of X] assms(1,2,4) False b(2) show ?thesis by (simp add: http_sent_def)
  qed
qed

lemma check_http_ok:
  assumes "heap_ok (bufs st) (opt_mset (lrefbuf c) + X)" "lcheck c = format_check_http_buffer" "listener_ok ok (bufs st) q c"
  shows "\<exists>ret st' c'. check_http_buffer fmt st c = Some (ret, st', c') \<and> op_ok ok q X st st' c' \<and>
    (0 \<le> ret \<longrightarrow> lrefbuf c' \<noteq> None \<and> lrespcode c' \<noteq> 0 \<and> lcon c' = lcon c) \<and> con_id (lcon c') = con_id (lcon c)"
proof -
  have own: "own_buffer (bufs st) q c" and np: "\<not> plugin_write c" and hd: "lrespcode c = 0 \<Longrightarrow> headers_ok (lparser c)"
    using assms(2,3) unfolding listener_ok_def by auto
  obtain a where a: "lrefbuf c = Some a" using own unfolding own_buffer_def by auto
  obtain b where b: "a \<notin> set q" "bufs st a = Some b" "rcount b = 1" "associated b = None"
    "lrespcode c = 0 \<Longrightarrow> blen b = PER_CLIENT_REFBUF_SIZE \<and> lpos c = 0" using own_bufferD [OF own a] by metis
  have hp: "heap_ok (bufs st) (add_mset a X)" using assms(1) a by simp
  show ?thesis
  proof (cases "lrespcode c = 0")
    case False
    from http_sent_ok [OF hp a assms(2) False assms(3)] a False show ?thesis by (auto simp: check_http_buffer_def)
  next
    case True
    obtain ret b' c' where p: "prepare_headers fmt (st_format st) b c = Some (ret, b', c')" "same_client c c'" "lcon c' = lcon c" "lpos c' = 0"
      "lrespcode c' \<noteq> 0" "rcount b' = rcount b" "associated b' = associated b" "0 \<le> ret \<longrightarrow> data_ok (lformat c')"
      using prepare_ok [OF conjunct1 [OF b(5) [OF True]] conjunct2 [OF b(5) [OF True]] hd [OF True], of "st_format st"] by blast
    let ?st = "st\<lparr>bufs := (bufs st)(a \<mapsto> b')\<rparr>"
    have own': "own_buffer ((bufs st)(a \<mapsto> b')) q (c'\<lparr>lrespcode := r, lcon := k\<rparr>)" if "r \<noteq> 0" for r k
      using p a b that unfolding own_buffer_def same_client_def by auto
    have upd: "op_ok ok q X st ?st d" if "lrefbuf d = Some a" "listener_ok ok ((bufs st)(a \<mapsto> b')) q d" for d
      by (rule own_update_ok [OF hp b(2,3) _ b(4) _ that]) (use p b in auto)
    have c': "lcheck c' = format_check_http_buffer" "\<not> plugin_write c'" "lrefbuf c' = Some a" using p(2) assms(2) np a unfolding same_client_def by auto
    show ?thesis
    proof (cases "ret < 0")
      case neg: True
      let ?c = "c'\<lparr>lcon := (lcon c')\<lparr>con_error := True\<rparr>\<rparr>"
      have "listener_ok ok ((bufs st)(a \<mapsto> b')) q ?c"
        using own' [of "lrespcode c'" "(lcon c')\<lparr>con_error := True\<rparr>"] c' p(5) unfolding listener_ok_def by simp
      from upd [OF _ this] c'(3) p(1,3) a b(2) True neg show ?thesis by (simp add: check_http_buffer_def Let_def)
    next
      case False
      let ?c = "c'\<lparr>lrespcode := 200\<rparr>"
      have l: "listener_ok ok (bufs ?st) q ?c" using own' [of 200 "lcon c'"] c' p(8) False unfolding listener_ok_def by simp
      have op: "op_ok ok q X st ?st ?c" by (rule upd) (use l c'(3) in simp_all)
      have hp': "heap_ok (bufs ?st) (add_mset a X)" using op c'(3) unfolding op_ok_def by simp
      obtain r st' d where f: "http_sent ?st ?c a = Some (r, st', d)" "op_ok ok q X ?st st' d" "lrefbuf d \<noteq> None" "lcon d = lcon ?c" "lrespcode d \<noteq> 0"
        using http_sent_ok [OF hp', of ?c q] c'(1,3) l by auto
      from op_ok_trans [OF op f(2)] f p(1,3) a b(2) True False show ?thesis by (simp add: check_http_buffer_def Let_def)
    qed
  qed
qed

lemma advance_queue_ok:
  assumes "heap_ok (bufs st) (opt_mset (lrefbuf c) + X)" "shape st q i" "mset q \<subseteq># X"
    and "lcheck c = format_advance_queue" "listener_ok d (bufs st) q c"
  shows "\<exists>ret st' c'. advance_queue st c = Some (ret, st', c') \<and> op_ok d q X st st' c' \<and>
    lrefbuf c' \<noteq> None \<and> lrespcode c' = lrespcode c \<and> lcon c' = lcon c"
proof -
  obtain a b where a: "lrefbuf c = Some a" "a \<in> set q" "bufs st a = Some b" "lpos c \<le> blen b"
    using assms(4,5) unfolding listener_ok_def on_queue_def by auto
  note r = op_ok_refl [OF assms(1,5)]
  show ?thesis
  proof (cases "lpos c = blen b \<and> bnext b \<noteq> None")
    case False
    with r a show ?thesis by (cases "bnext b") (auto simp: advance_queue_def)
  next
    case True
    then obtain n where n: "bnext b = Some n" by auto
    have "linked (bufs st) (stream_data st) q" using assms(2) unfolding shape_def by blast
    from linked_next [OF this a(2,3) n] have nq: "n \<in> set q" .
    then have nX: "n \<in># X" using assms(3) by (meson mset_subset_eqD set_mset_mset in_multiset_in_set)
    let ?c = "c\<lparr>lrefbuf := Some n, lpos := 0\<rparr>"
    obtain h where h: "set_queue (bufs st) c (Some n) = Some (h, ?c)" "heap_ok h (opt_mset (Some n) + X)" "kept (bufs st) h"
      using set_queue_ok [OF assms(1), of "Some n"] nX by auto
    have fr: "frame q X (bufs st) h" by (rule frame_kept [OF assms(1) h(2,3)]) (use nq in auto)
    obtain b' where "h n = Some b'" using heap_ok_live [OF h(2), of n] by auto
    then have "listener_ok d h q ?c" using nq assms(4,5) unfolding listener_ok_def on_queue_def by auto
    with h(2) have "op_ok d q X st (st\<lparr>bufs := h\<rparr>) ?c" by (intro op_okI [OF _ fr]) simp_all
    with h(1) n True a show ?thesis by (simp add: advance_queue_def)
  qed
qed

lemma check_client_ok:
  assumes "heap_ok (bufs st) (opt_mset (lrefbuf c) + X)" "shape st q i" "mset q \<subseteq># X" "length q < fuel"
    and "listener_ok ok (bufs st) q c" "malloc_ok malloc"
  shows "\<exists>ret st' c'. check_client fmt malloc fuel st c = Some (ret, st', c') \<and> op_ok ok q X st st' c' \<and>
    (0 \<le> ret \<longrightarrow> lrefbuf c' \<noteq> None \<and> lrespcode c' \<noteq> 0 \<and> lcon c' = lcon c) \<and> con_id (lcon c') = con_id (lcon c)"
proof (cases "lcheck c")
  case format_check_http_buffer
  with check_http_ok [OF assms(1) _ assms(5)] show ?thesis by (simp add: check_client_def)
next
  case format_check_file_buffer
  then have "lrespcode c \<noteq> 0" using assms(5) unfolding listener_ok_def by simp
  with check_file_ok [OF assms(1-4) format_check_file_buffer assms(5,6)] format_check_file_buffer show ?thesis
    by (auto simp: check_client_def)
next
  case format_advance_queue
  then have "lrespcode c \<noteq> 0" using assms(5) unfolding listener_ok_def by simp
  with advance_queue_ok [OF assms(1-3) format_advance_queue assms(5)] format_advance_queue show ?thesis
    by (auto simp: check_client_def)
qed

text \<open>The position of a listener in its buffer is all that a write changes.\<close>

lemma listener_ok_write:
  assumes "listener_ok d h q c" "same_client c c'" "lrespcode c' = lrespcode c" "lrespcode c \<noteq> 0" "fst d (lformat c')"
    and "lrefbuf c = Some a" "h a = Some b" "lpos c' \<le> blen b"
  shows "listener_ok d h q c'"
  using assms unfolding listener_ok_def own_buffer_def on_queue_def same_client_def by (auto split: check_fun.splits)

lemma listener_pos:
  assumes "listener_ok d h q c" "lrefbuf c = Some a"
  obtains b where "h a = Some b" "lpos c \<le> blen b"
  using assms unfolding listener_ok_def own_buffer_def on_queue_def by (auto split: check_fun.splits)

lemma generic_write_ok:
  assumes "h a = Some b" "lpos c \<le> blen b"
  shows "\<exists>ret c'. generic_write_to_client h a c t = Some (ret, c') \<and> same_client c c' \<and> lrespcode c' = lrespcode c \<and>
    lpos c' \<le> blen b \<and> lformat c' = lformat c"
proof -
  define data where "data = drop (lpos c) (take (blen b) (bdata b))"
  obtain ret d where r: "client_send_bytes c data t = (ret, d)" by fastforce
  have d: "same_client c d" "lrespcode d = lrespcode c" "lpos d = lpos c" "lformat d = lformat c" "nat ret \<le> length data"
    using r by (auto simp: client_send_bytes_def connection_send_def same_client_def split: sum.splits if_splits prod.splits)
  have "lpos c + length data \<le> blen b" using assms(2) by (simp add: data_def)
  then have "lpos c + nat ret \<le> blen b" using d(5) by linarith
  with d r assms show ?thesis
    by (cases "ret > 0") (auto simp: generic_write_to_client_def data_def [symmetric] same_client_def)
qed

lemma write_client_ok:
  assumes "heap_ok (bufs st) R" "listener_ok ok (bufs st) q c" "lrefbuf c \<noteq> None" "lrespcode c \<noteq> 0" "\<not> con_error (lcon c)"
  shows "\<exists>ret c'. write_client fmt st c out = Some (ret, c') \<and> same_client c c' \<and> listener_ok ok (bufs st) q c'"
proof -
  obtain a where a: "lrefbuf c = Some a" using assms(3) by auto
  obtain b where b: "bufs st a = Some b" "lpos c \<le> blen b" using listener_pos [OF assms(2) a] by auto
  have d: "data_ok (lformat c)" using assms(2,4,5) unfolding listener_ok_def by simp
  show ?thesis
  proof (cases "plugin_write c")
    case True
    obtain ret c' where w: "write_buf_to_client fmt (bufs st) a c out = Some (ret, c')" "same_client c c'" "lrespcode c' = lrespcode c"
      "lpos c' \<le> blen b" "data_ok (lformat c')" using write_ok [where h = "bufs st" and a = a and b = b, OF assms(1) b d] by blast
    have "listener_ok ok (bufs st) q c'" by (rule listener_ok_write [OF assms(2) w(2,3) assms(4) _ a b(1) w(4)]) (simp add: w(5))
    with w(1,2) True a show ?thesis by (simp add: write_client_def)
  next
    case False
    obtain ret c' where w: "generic_write_to_client (bufs st) a c (out 0) = Some (ret, c')" "same_client c c'" "lrespcode c' = lrespcode c"
      "lpos c' \<le> blen b" "lformat c' = lformat c" using generic_write_ok [where h = "bufs st" and a = a and b = b, OF b] by blast
    have "listener_ok ok (bufs st) q c'" by (rule listener_ok_write [OF assms(2) w(2,3) assms(4) _ a b(1) w(4)]) (simp add: w(5) d)
    with w(1,2) False a show ?thesis by (simp add: write_client_def)
  qed
qed

lemma op_ok_client:
  "op_ok d q X st st' c \<Longrightarrow> lrefbuf c' = lrefbuf c \<Longrightarrow> listener_ok d (bufs st') q c' \<Longrightarrow> op_ok d q X st st' c'"
  unfolding op_ok_def by simp

lemma listener_ok_error:
  assumes "listener_ok d h q c" "con_error e"
  shows "listener_ok d h q (c\<lparr>lcon := e\<rparr>)"
  using assms unfolding listener_ok_def own_buffer_def on_queue_def by (auto split: check_fun.splits)

lemma send_loop_ok:
  assumes "heap_ok (bufs st) (opt_mset (lrefbuf c) + X)" "shape st q i" "mset q \<subseteq># X" "length q < fuel"
    and "listener_ok ok (bufs st) q c" "malloc_ok malloc"
  shows "\<exists>st' c'. send_loop fmt malloc fuel now out loop n st c = Some (st', c') \<and> op_ok ok q X st st' c' \<and> con_id (lcon c') = con_id (lcon c)"
  using assms
proof (induction loop arbitrary: n st c rule: less_induct)
  case (less loop)
  define d where "d = time_limit (now loop) c"
  have d: "lrefbuf d = lrefbuf c" "con_id (lcon d) = con_id (lcon c)" "listener_ok ok (bufs st) q d"
    using less.prems(5) listener_ok_error [OF less.prems(5)] by (auto simp: d_def time_limit_def)
  have hp: "heap_ok (bufs st) (opt_mset (lrefbuf d) + X)" using less.prems(1) d(1) by simp
  note refl = op_ok_refl [OF hp d(3)]
  note body = send_loop.simps [of fmt malloc fuel now out loop n st c, folded d_def, unfolded Let_def]
  show ?case
  proof (cases "con_error (lcon d) \<or> n > 20000 \<or> loop = 0")
    case True
    have "op_ok ok q X st (st\<lparr>short_delay := s\<rparr>) d" for s
    proof -
      have "st\<lparr>short_delay := s\<rparr> = st\<lparr>bufs := bufs st, short_delay := s\<rparr>" by simp
      then have "\<exists>h s'. st\<lparr>short_delay := s\<rparr> = st\<lparr>bufs := h, short_delay := s'\<rparr>" by blast
      then show ?thesis using refl unfolding op_ok_def by simp
    qed
    with True refl d(2) show ?thesis unfolding body by auto
  next
    case False
    then obtain l where l: "loop = Suc l" by (cases loop) auto
    obtain ret st1 c1 where c1: "check_client fmt malloc fuel st d = Some (ret, st1, c1)" "op_ok ok q X st st1 c1"
      "0 \<le> ret \<longrightarrow> lrefbuf c1 \<noteq> None \<and> lrespcode c1 \<noteq> 0 \<and> lcon c1 = lcon d" "con_id (lcon c1) = con_id (lcon d)"
      using check_client_ok [OF hp less.prems(2-4) d(3) less.prems(6)] by blast
    show ?thesis
    proof (cases "ret < 0")
      case True
      with c1 d(2) False show ?thesis unfolding body by (simp add: l)
    next
      case nonneg: False
      have h1: "heap_ok (bufs st1) (opt_mset (lrefbuf c1) + X)" "listener_ok ok (bufs st1) q c1" using c1(2) unfolding op_ok_def by auto
      obtain bytes c2 where c2: "write_client fmt st1 c1 (out loop) = Some (bytes, c2)" "same_client c1 c2" "listener_ok ok (bufs st1) q c2"
        using write_client_ok [OF h1, of "out loop"] c1(3) nonneg False by auto
      have c2': "lrefbuf c2 = lrefbuf c1" "con_id (lcon c2) = con_id (lcon c)" using c2(2) c1(4) d(2) unfolding same_client_def by auto
      note op2 = op_ok_client [OF c1(2) c2'(1) c2(3)]
      have unf: "send_loop fmt malloc fuel now out loop n st c =
        (if bytes \<le> 0 then Some (st1, c2) else send_loop fmt malloc fuel now out l (n + bytes) st1 c2)"
        using c1(1) c2(1) False nonneg unfolding body by (simp add: l)
      show ?thesis
      proof (cases "bytes \<le> 0")
        case True
        with unf op2 c2'(2) show ?thesis by simp
      next
        case pos: False
        have "\<exists>st' c'. send_loop fmt malloc fuel now out l (n + bytes) st1 c2 = Some (st', c') \<and> op_ok ok q X st1 st' c' \<and> con_id (lcon c') = con_id (lcon c2)"
          by (rule less.IH [OF _ _ op_ok_shape [OF c1(2) less.prems(2,3)] less.prems(3,4) c2(3) less.prems(6)])
             (use l h1(1) c2'(1) in simp_all)
        with unf pos op_ok_trans [OF op2] c2'(2) show ?thesis by auto
      qed
    qed
  qed
qed

lemma send_to_listener_ok:
  assumes "heap_ok (bufs st) (opt_mset (lrefbuf c) + X)" "shape st q i" "mset q \<subseteq># X" "length q < fuel"
    and "listener_ok ok (bufs st) q c" "malloc_ok malloc"
  shows "\<exists>st' c'. send_to_listener fmt malloc fuel now out del st c = Some (st', c') \<and> op_ok ok q X st st' c' \<and> stream_data st' = stream_data st \<and>
    con_id (lcon c') = con_id (lcon c) \<and> (del \<and> \<not> con_error (lcon c') \<longrightarrow> stream_data st = None \<or> lrefbuf c' \<noteq> stream_data st)"
proof -
  obtain st' c' where s: "send_loop fmt malloc fuel now out 10 0 st c = Some (st', c')" "op_ok ok q X st st' c'" "con_id (lcon c') = con_id (lcon c)"
    using send_loop_ok [OF assms] by blast
  have sd: "stream_data st' = stream_data st" using s(2) unfolding op_ok_def by auto
  let ?c = "c'\<lparr>lcon := (lcon c')\<lparr>con_error := True\<rparr>\<rparr>"
  have "listener_ok ok (bufs st') q c'" using s(2) unfolding op_ok_def by blast
  then have "listener_ok ok (bufs st') q ?c" by (rule listener_ok_error) simp
  then have "op_ok ok q X st st' ?c" by (rule op_ok_client [OF s(2), rotated]) simp
  with s sd show ?thesis by (auto simp: send_to_listener_def)
qed

end

section \<open>The references of a source\<close>

definition refs :: "'f lclient list \<Rightarrow> nat multiset" where
  "refs cs = (\<Sum>c\<leftarrow>cs. opt_mset (lrefbuf c))"

lemma refs_simps [simp]:
  "refs [] = {#}" "refs (c # cs) = opt_mset (lrefbuf c) + refs cs" "refs (cs @ ds) = refs cs + refs ds"
  by (simp_all add: refs_def)

lemma refs_member: "c \<in> set cs \<Longrightarrow> opt_mset (lrefbuf c) \<subseteq># refs cs"
  by (induction cs) (auto simp: subset_mset.add_increasing subset_mset.add_increasing2)

lemma not_in_refs: "(\<And>c. c \<in> set cs \<Longrightarrow> lrefbuf c \<noteq> Some a) \<Longrightarrow> a \<notin># refs cs"
proof (induction cs)
  case (Cons c cs)
  then have "a \<notin># refs cs" "lrefbuf c \<noteq> Some a" by auto
  then show ?case by (cases "lrefbuf c") auto
qed simp

lemma refs_insert [simp]: "refs (list_insert cmp c cs) = opt_mset (lrefbuf c) + refs cs"
  unfolding list_insert_def refs_simps by (metis refs_simps(3) takeWhile_dropWhile_id union_assoc union_commute)

lemma set_list_insert [simp]: "set (list_insert cmp c cs) = insert c (set cs)"
proof -
  have "set (takeWhile P cs) \<union> set (dropWhile P cs) = set cs" for P by (metis set_append takeWhile_dropWhile_id)
  then show ?thesis unfolding list_insert_def by auto
qed

lemma frame_mono: "frame q X h h' \<Longrightarrow> Y \<subseteq># X \<Longrightarrow> frame q Y h h'"
  unfolding frame_def by (auto dest: mset_subset_eqD)

lemma listeners_frame:
  assumes "\<forall>c\<in>set cs. listener_ok d h q c" "frame q X h h'" "refs cs \<subseteq># X"
  shows "\<forall>c\<in>set cs. listener_ok d h' q c"
  using assms listener_ok_frame subset_mset.order_trans [OF refs_member assms(3)] by blast

lemma free_client_ok:
  assumes "heap_ok (bufs st) (opt_mset (lrefbuf c) + X)" "listener_ok d (bufs st) q c"
  shows "\<exists>st' hs. free_client st c = Some st' \<and> heap_ok (bufs st') (refs hs + X) \<and> frame q X (bufs st) (bufs st') \<and> (\<forall>x\<in>#refs hs. x \<notin> set q) \<and>
    (\<exists>h. st' = st\<lparr>bufs := h, handed := handed st @ hs\<rparr>)"
proof (cases "lrespcode c = 0")
  case True
  then obtain a where a: "lrefbuf c = Some a" "a \<notin> set q" using assms(2) unfolding listener_ok_def own_buffer_def by (auto split: check_fun.splits)
  with True assms(1) frame_refl [OF assms(1), of X q] show ?thesis
    by (intro exI [of _ "st\<lparr>handed := handed st @ [c]\<rparr>"] exI [of _ "[c]"]) (auto simp: free_client_def intro: exI [of _ "bufs st"])
next
  case False
  obtain h where h: "refbuf_release (bufs st) (lrefbuf c) = Some h" "heap_ok h X" "kept (bufs st) h"
  proof (cases "lrefbuf c")
    case None
    with assms(1) that [of "bufs st"] show thesis by (simp add: refbuf_release_def)
  next
    case (Some a)
    with assms(1) refbuf_release_ok [of "bufs st" a X] that show thesis by auto
  qed
  have "frame q X (bufs st) h" by (rule frame_kept [OF assms(1), of _ "{#}"]) (use h in auto)
  with h False show ?thesis
    by (intro exI [of _ "st\<lparr>bufs := h\<rparr>"] exI [of _ "[]"]) (auto simp: free_client_def intro: exI [of _ h])
qed

section \<open>Serving the listeners\<close>

text \<open>What the steps of a round change of the source besides its queue.\<close>

definition side :: "('s, 'f) stream \<Rightarrow> ('s, 'f) stream \<Rightarrow> 'f lclient list \<Rightarrow> bool" where
  "side st st' hs \<longleftrightarrow> (\<exists>h s n cs. st' = st\<lparr>bufs := h, short_delay := s, handed := handed st @ hs, st_listeners := n, st_clients := cs\<rparr>)"

lemma sideI [intro]:
  "side st (st\<lparr>bufs := h, short_delay := s, handed := handed st @ hs, st_listeners := n, st_clients := cs\<rparr>) hs"
  unfolding side_def by blast

lemma side_fields:
  assumes "side st st' hs"
  shows "st_pending st' = st_pending st" "handed st' = handed st @ hs" "st_format st' = st_format st" "stream_data st' = stream_data st"
  using assms unfolding side_def by auto

lemma side_trans: "side st1 st2 hs \<Longrightarrow> side st2 st3 hs' \<Longrightarrow> side st1 st3 (hs @ hs')"
  unfolding side_def by force

lemma side_shape:
  assumes "side st st' hs" "frame q X (bufs st) (bufs st')" "mset q \<subseteq># X" "shape st q i"
  shows "shape st' q i"
proof -
  obtain h s n cs where st': "st' = st\<lparr>bufs := h, short_delay := s, handed := handed st @ hs, st_listeners := n, st_clients := cs\<rparr>"
    using assms(1) unfolding side_def by blast
  from shape_frame [OF assms(4,2,3)] show ?thesis unfolding st' shape_def by simp
qed

lemma op_ok_side: "op_ok d q X st st' c \<Longrightarrow> side st st' []"
proof -
  assume "op_ok d q X st st' c"
  then obtain h s where st': "st' = st\<lparr>bufs := h, short_delay := s\<rparr>" unfolding op_ok_def by blast
  show ?thesis using sideI [where st = st and h = h and s = s and hs = "[]" and n = "st_listeners st" and cs = "st_clients st"] unfolding st' by simp
qed

lemma free_side:
  assumes "st' = st\<lparr>bufs := h, handed := handed st @ hs\<rparr>"
  shows "side st (st'\<lparr>st_listeners := n\<rparr>) hs"
  using sideI [where st = st and h = h and s = "short_delay st" and hs = hs and n = n and cs = "st_clients st"] unfolding assms by simp

context format_contract
begin

lemma serve_clients_ok:
  assumes "heap_ok (bufs st) (refs cs + Y)" "shape st q i" "mset q \<subseteq># Y" "length q < fuel"
    and "\<forall>c\<in>set cs. listener_ok ok (bufs st) q c" "malloc_ok malloc"
  shows "\<exists>cs' st' hs. serve_clients fmt malloc fuel now out del cs st = Some (cs', st') \<and> heap_ok (bufs st') (refs cs' + refs hs + Y) \<and>
    frame q Y (bufs st) (bufs st') \<and> side st st' hs \<and> (\<forall>x\<in>#refs hs. x \<notin> set q) \<and> (\<forall>c\<in>set cs'. listener_ok ok (bufs st') q c) \<and>
    (del \<longrightarrow> stream_data st \<noteq> None \<longrightarrow> (\<forall>c\<in>set cs'. lrefbuf c \<noteq> stream_data st))"
  using assms
proof (induction cs arbitrary: st Y)
  case Nil
  have "side st st []" using sideI [where st = st and h = "bufs st" and s = "short_delay st" and hs = "[]" and n = "st_listeners st" and cs = "st_clients st"] by simp
  with Nil frame_refl [of "bufs st" Y Y q] show ?case by (auto intro!: exI [of _ "[]"])
next
  case (Cons c cs)
  let ?X = "refs cs + Y"
  have hp: "heap_ok (bufs st) (opt_mset (lrefbuf c) + ?X)" using Cons.prems(1) by (simp add: ac_simps)
  have qX: "mset q \<subseteq># ?X" using Cons.prems(3) by (simp add: subset_mset.add_increasing)
  have lc: "listener_ok ok (bufs st) q c" using Cons.prems(5) by simp
  obtain st1 c1 where s1: "send_to_listener fmt malloc fuel now (out (con_id (lcon c))) del st c = Some (st1, c1)" "op_ok ok q ?X st st1 c1"
    "stream_data st1 = stream_data st" "del \<and> \<not> con_error (lcon c1) \<longrightarrow> stream_data st = None \<or> lrefbuf c1 \<noteq> stream_data st"
    using send_to_listener_ok [OF hp Cons.prems(2) qX Cons.prems(4) lc Cons.prems(6)] by blast
  have h1: "heap_ok (bufs st1) (opt_mset (lrefbuf c1) + ?X)" and f1: "frame q ?X (bufs st) (bufs st1)" and l1: "listener_ok ok (bufs st1) q c1"
    using s1(2) unfolding op_ok_def by auto
  note sh1 = op_ok_shape [OF s1(2) Cons.prems(2) qX] and sd1 = op_ok_side [OF s1(2)]
  have lcs: "\<forall>c\<in>set cs. listener_ok ok (bufs st1) q c"
    by (rule listeners_frame [OF _ f1]) (use Cons.prems(5) in auto)
  show ?case
  proof (cases "con_error (lcon c1)")
    case True
    obtain st2 hs h where s2: "free_client st1 c1 = Some st2" "heap_ok (bufs st2) (refs hs + ?X)" "frame q ?X (bufs st1) (bufs st2)"
      "st2 = st1\<lparr>bufs := h, handed := handed st1 @ hs\<rparr>" "\<forall>x\<in>#refs hs. x \<notin> set q" using free_client_ok [OF h1 l1] by blast
    let ?st = "st2\<lparr>st_listeners := st_listeners st2 - 1\<rparr>"
    have side2: "side st ?st hs" using side_trans [OF sd1 free_side [OF s2(4)]] by simp
    have f2: "frame q ?X (bufs st) (bufs ?st)" using frame_trans [OF f1 s2(3)] by simp
    have h2: "heap_ok (bufs ?st) (refs cs + (refs hs + Y))" using s2(2) by (simp add: ac_simps)
    have l2: "\<forall>c\<in>set cs. listener_ok ok (bufs ?st) q c" by (rule listeners_frame [OF lcs, of ?X]) (use s2(3) in auto)
    have qY: "mset q \<subseteq># refs hs + Y" using Cons.prems(3) by (simp add: subset_mset.add_increasing)
    obtain cs' st' hs' where r: "serve_clients fmt malloc fuel now out del cs ?st = Some (cs', st')" "heap_ok (bufs st') (refs cs' + refs hs' + (refs hs + Y))"
      "frame q (refs hs + Y) (bufs ?st) (bufs st')" "side ?st st' hs'" "\<forall>c\<in>set cs'. listener_ok ok (bufs st') q c"
      "del \<longrightarrow> stream_data ?st \<noteq> None \<longrightarrow> (\<forall>c\<in>set cs'. lrefbuf c \<noteq> stream_data ?st)" "\<forall>x\<in>#refs hs'. x \<notin> set q"
      using Cons.IH [OF h2 side_shape [OF side2 f2 qX Cons.prems(2)] qY Cons.prems(4) l2 Cons.prems(6)] by blast
    have "frame q Y (bufs st) (bufs st')" by (rule frame_trans [OF frame_mono [OF f2] frame_mono [OF r(3)]]) auto
    moreover have "heap_ok (bufs st') (refs cs' + refs (hs @ hs') + Y)" using r(2) by (simp add: ac_simps)
    moreover have "stream_data ?st = stream_data st" using s2(4) s1(3) by simp
    moreover have "serve_clients fmt malloc fuel now out del (c # cs) st = Some (cs', st')" using s1(1) True s2(1) r(1) by simp
    ultimately show ?thesis using side_trans [OF side2 r(4)] r(5-7) s2(5)
      by (intro exI [of _ cs'] exI [of _ st'] exI [of _ "hs @ hs'"]) auto
  next
    case False
    have h2: "heap_ok (bufs st1) (refs cs + (opt_mset (lrefbuf c1) + Y))" using h1 by (simp add: ac_simps)
    have qY: "mset q \<subseteq># opt_mset (lrefbuf c1) + Y" using Cons.prems(3) by (simp add: subset_mset.add_increasing)
    obtain cs' st' hs where r: "serve_clients fmt malloc fuel now out del cs st1 = Some (cs', st')" "heap_ok (bufs st') (refs cs' + refs hs + (opt_mset (lrefbuf c1) + Y))"
      "frame q (opt_mset (lrefbuf c1) + Y) (bufs st1) (bufs st')" "side st1 st' hs" "\<forall>c\<in>set cs'. listener_ok ok (bufs st') q c"
      "del \<longrightarrow> stream_data st1 \<noteq> None \<longrightarrow> (\<forall>c\<in>set cs'. lrefbuf c \<noteq> stream_data st1)" "\<forall>x\<in>#refs hs. x \<notin> set q"
      using Cons.IH [OF h2 sh1 qY Cons.prems(4) lcs Cons.prems(6)] by blast
    have "frame q Y (bufs st) (bufs st')" by (rule frame_trans [OF frame_mono [OF f1] frame_mono [OF r(3)]]) auto
    moreover have "heap_ok (bufs st') (refs (c1 # cs') + refs hs + Y)" using r(2) by (simp add: ac_simps)
    moreover have "listener_ok ok (bufs st') q c1" by (rule listener_ok_frame [OF l1 r(3)]) simp
    moreover have "serve_clients fmt malloc fuel now out del (c # cs) st = Some (c1 # cs', st')" using s1(1) False r(1) by simp
    moreover have "side st st' hs" using side_trans [OF sd1 r(4)] by simp
    ultimately show ?thesis using r(5-7) s1(3,4) False by (intro exI [of _ "c1 # cs'"] exI [of _ st'] exI [of _ hs]) auto
  qed
qed

end

end
