(* ===== verification/Stream_Round.thy ===== *)
theory Stream_Round
  imports Stream_Safe
begin

text \<open>
  A whole round of the source thread: the listeners that are waiting, the queue at both ends, and
  reading from the source.
\<close>

section \<open>Waiting listeners\<close>

lemma add_pending_ok:
  assumes "heap_ok (bufs st) (refs ps + refs (st_clients st) + Y)" "\<forall>c\<in>set ps \<union> set (st_clients st). listener_ok d (bufs st) q c"
  shows "\<exists>st' hs. add_pending ps st = Some st' \<and> heap_ok (bufs st') (refs (st_clients st') + refs hs + Y) \<and>
    frame q Y (bufs st) (bufs st') \<and> side st st' hs \<and> (\<forall>x\<in>#refs hs. x \<notin> set q) \<and> (\<forall>c\<in>set (st_clients st'). listener_ok d (bufs st') q c) \<and>
    set (st_clients st') \<subseteq> set ps \<union> set (st_clients st)"
  using assms
proof (induction ps arbitrary: st Y)
  case Nil
  have "side st st []"
    using sideI [where st = st and h = "bufs st" and s = "short_delay st" and hs = "[]" and n = "st_listeners st" and cs = "st_clients st"] by simp
  with Nil frame_refl [of "bufs st" "refs (st_clients st) + Y" Y q] show ?case by (auto intro!: exI [of _ "[]"])
next
  case (Cons c ps)
  show ?case
  proof (cases "st_max_listeners st \<noteq> -1 \<and> st_listeners st \<ge> word_of_int (st_max_listeners st)")
    case True
    let ?X = "refs ps + refs (st_clients st) + Y"
    have h: "heap_ok (bufs st) (opt_mset (lrefbuf c) + ?X)" using Cons.prems(1) by (simp add: ac_simps)
    have l: "listener_ok d (bufs st) q c" using Cons.prems(2) by simp
    obtain st1 hs k where s1: "free_client st c = Some st1" "heap_ok (bufs st1) (refs hs + ?X)" "frame q ?X (bufs st) (bufs st1)"
      "st1 = st\<lparr>bufs := k, handed := handed st @ hs\<rparr>" "\<forall>x\<in>#refs hs. x \<notin> set q" using free_client_ok [OF h l] by blast
    have cl: "st_clients st1 = st_clients st" using s1(4) by simp
    have side1: "side st st1 hs" using free_side [OF s1(4), of "st_listeners st1"] by simp
    have h1: "heap_ok (bufs st1) (refs ps + refs (st_clients st1) + (refs hs + Y))" using s1(2) unfolding cl by (simp add: ac_simps)
    have "\<forall>c\<in>set (ps @ st_clients st). listener_ok d (bufs st1) q c"
      by (rule listeners_frame [OF _ s1(3)]) (use Cons.prems(2) in auto)
    then have l1: "\<forall>c\<in>set ps \<union> set (st_clients st1). listener_ok d (bufs st1) q c" unfolding cl by simp
    obtain st' hs' where r: "add_pending ps st1 = Some st'" "heap_ok (bufs st') (refs (st_clients st') + refs hs' + (refs hs + Y))"
      "frame q (refs hs + Y) (bufs st1) (bufs st')" "side st1 st' hs'" "\<forall>c\<in>set (st_clients st'). listener_ok d (bufs st') q c"
      "set (st_clients st') \<subseteq> set ps \<union> set (st_clients st1)" "\<forall>x\<in>#refs hs'. x \<notin> set q" using Cons.IH [OF h1 l1] by blast
    have "frame q Y (bufs st) (bufs st')" by (rule frame_trans [OF frame_mono [OF s1(3)] frame_mono [OF r(3)]]) auto
    moreover have "heap_ok (bufs st') (refs (st_clients st') + refs (hs @ hs') + Y)" using r(2) by (simp add: ac_simps)
    ultimately show ?thesis using True s1(1,5) r(1,5-7) cl side_trans [OF side1 r(4)]
      by (intro exI [of _ st'] exI [of _ "hs @ hs'"]) auto
  next
    case False
    let ?st = "st\<lparr>st_clients := list_insert compare_listeners c (st_clients st), st_listeners := st_listeners st + 1\<rparr>"
    have h1: "heap_ok (bufs ?st) (refs ps + refs (st_clients ?st) + Y)" using Cons.prems(1) by (simp add: ac_simps)
    have l1: "\<forall>c\<in>set ps \<union> set (st_clients ?st). listener_ok d (bufs ?st) q c" using Cons.prems(2) by auto
    have side1: "side st ?st []"
      unfolding side_def by (rule exI [of _ "bufs st"], rule exI [of _ "short_delay st"], rule exI [of _ "st_listeners st + 1"],
        rule exI [of _ "list_insert compare_listeners c (st_clients st)"]) simp
    obtain st' hs where r: "add_pending ps ?st = Some st'" "heap_ok (bufs st') (refs (st_clients st') + refs hs + Y)"
      "frame q Y (bufs ?st) (bufs st')" "side ?st st' hs" "\<forall>c\<in>set (st_clients st'). listener_ok d (bufs st') q c"
      "set (st_clients st') \<subseteq> set ps \<union> set (st_clients ?st)" "\<forall>x\<in>#refs hs. x \<notin> set q" using Cons.IH [OF h1 l1] by blast
    have "side st st' hs" using side_trans [OF side1 r(4)] by simp
    with r False show ?thesis by (intro exI [of _ st'] exI [of _ hs]) auto
  qed
qed

section \<open>The head of the queue\<close>

lemma shape_tail:
  assumes "shape st (a # q) (Suc i)" "bufs st a = Some b"
  shows "shape (st\<lparr>stream_data := bnext b, queue_size := queue_size st - blen b\<rparr>) q i" "q \<noteq> []" "a \<notin> set q"
    "burst_point st \<noteq> Some a" "bnext b \<noteq> None"
proof -
  have q: "distinct (a # q)" "linked (bufs st) (stream_data st) (a # q)" "Suc i < length (a # q)"
    "burst_point st = Some ((a # q) ! Suc i)" using assms(1) unfolding shape_def by auto
  then show ne: "q \<noteq> []" and "a \<notin> set q" by auto
  have "(a # q) ! Suc i \<in> set q" using q(3) by simp
  with q(1,4) show "burst_point st \<noteq> Some a" by auto
  have l: "linked (bufs st) (bnext b) q" using q(2) assms(2) by simp
  with ne show "bnext b \<noteq> None" by (cases q) auto
  have "blens (bufs st) (a # q) = blen b + blens (bufs st) q" using assms(2) by (simp add: blens_def)
  with assms(1) l ne show "shape (st\<lparr>stream_data := bnext b, queue_size := queue_size st - blen b\<rparr>) q i"
    unfolding shape_def by auto
qed

lemma frame_head:
  assumes "frame q X h h'" "a \<notin># X" "assoc_refs h' a \<le> assoc_refs h a"
  shows "frame (a # q) X h h'"
proof -
  have "x \<noteq> a" if "x \<in># X" for x using that assms(2) by auto
  with assms(1,3) show ?thesis unfolding frame_def by auto
qed

text \<open>
  Dropping buffers at the head stops before the burst point: buffers from there on have two
  references. So the queue never runs empty and its state is never unexpected.
\<close>

lemma reduce_queue_ok:
  assumes "shape st q i" "q \<noteq> []" "heap_ok (bufs st) (mset q + mset (drop i q) + Z)" "length q < fuel"
  shows "\<exists>st' k. reduce_queue fuel st = Some st' \<and> k \<le> i \<and> shape st' (drop k q) (i - k) \<and>
    heap_ok (bufs st') (mset (drop k q) + mset (drop i q) + Z) \<and> frame q Z (bufs st) (bufs st') \<and>
    (\<forall>a\<in>set (take k q). a \<notin># Z) \<and> (0 < i \<and> hd q \<notin># Z \<longrightarrow> 0 < k) \<and>
    (\<forall>x. assoc_refs (bufs st') x \<le> assoc_refs (bufs st) x) \<and>
    (\<exists>h p n. st' = st\<lparr>bufs := h, stream_data := p, queue_size := n\<rparr>)"
  using assms
proof (induction fuel arbitrary: st q i)
  case (Suc fuel)
  obtain a q' where q: "q = a # q'" using Suc.prems(2) by (cases q) auto
  have sh: "distinct q" "linked (bufs st) (stream_data st) q" "\<forall>a\<in>set q. assoc_refs (bufs st) a = 0" "i < length q"
    using Suc.prems(1,2) unfolding shape_def by auto
  obtain b where b: "stream_data st = Some a" "bufs st a = Some b" using sh(2) q by auto
  have cnt: "rcount b = 1 + (if i = 0 then 1 else 0) + count Z a"
  proof -
    have "count (mset q) a = 1" using sh(1) q by (simp add: not_in_iff)
    moreover have "count (mset (drop i q)) a = (if i = 0 then 1 else 0)"
    proof (cases i)
      case 0
      with \<open>count (mset q) a = 1\<close> show ?thesis by simp
    next
      case (Suc j)
      then have "a \<notin> set (drop i q)" using sh(1) q by (auto dest: in_set_dropD)
      with Suc show ?thesis by (simp add: not_in_iff)
    qed
    moreover have "assoc_refs (bufs st) a = 0" using sh(3) q by simp
    ultimately show ?thesis using heap_okD(2) [OF Suc.prems(3) b(2)] by simp
  qed
  show ?case
  proof (cases "rcount b = 1")
    case False
    have "0 < i \<and> hd q \<notin># Z \<longrightarrow> False" using False cnt q by (auto simp: not_in_iff split: if_splits)
    moreover have "st = st\<lparr>bufs := bufs st, stream_data := stream_data st, queue_size := queue_size st\<rparr>" by simp
    then have "\<exists>h p n. st = st\<lparr>bufs := h, stream_data := p, queue_size := n\<rparr>" by blast
    ultimately show ?thesis using False b Suc.prems(1,3) frame_refl [OF Suc.prems(3), of Z q]
      by (intro exI [of _ st] exI [of _ 0]) auto
  next
    case True
    then obtain j where i: "i = Suc j" and aZ: "a \<notin># Z" using cnt by (cases i) (auto simp: not_in_iff)
    note t = shape_tail [OF Suc.prems(1) [unfolded q i] b(2)]
    let ?h = "(bufs st)(a \<mapsto> b\<lparr>bnext := None\<rparr>)"
    let ?Y = "mset q' + mset (drop j q') + Z"
    have total: "mset q + mset (drop i q) + Z = add_mset a ?Y" using q i by simp
    have aY: "a \<notin># ?Y" using t(3) aZ by (auto dest: in_set_dropD)
    have h1: "heap_ok ?h (add_mset a ?Y)"
      using heap_ok_contents [OF Suc.prems(3) b(2), of "b\<lparr>bnext := None\<rparr>"] sh(3) q unfolding total by simp
    obtain h2 where h2: "refbuf_release ?h (Some a) = Some h2" "heap_ok h2 ?Y" "kept ?h h2" using refbuf_release_ok [OF h1] by blast
    have f1: "frame q' ?Y (bufs st) ?h"
      by (rule frame_update [OF Suc.prems(3) _ aY]) (use b total in auto)
    have f2: "frame q' ?Y ?h h2" by (rule frame_kept [OF h1, of _ "{#}"]) (use h2 in auto)
    note f = frame_trans [OF f1 f2]
    let ?st = "st\<lparr>stream_data := bnext b, queue_size := queue_size st - blen b, bufs := h2\<rparr>"
    have "shape (st\<lparr>stream_data := bnext b, queue_size := queue_size st - blen b\<rparr>\<lparr>bufs := h2\<rparr>) q' j"
      by (rule shape_frame [OF t(1)]) (use f in auto)
    then have sh': "shape ?st q' j" by simp
    have h2': "heap_ok (bufs ?st) (mset q' + mset (drop j q') + Z)" and fu: "length q' < fuel" using h2(2) Suc.prems(4) q by simp_all
    obtain st' k where r: "reduce_queue fuel ?st = Some st'" "k \<le> j" "shape st' (drop k q') (j - k)"
      "heap_ok (bufs st') (mset (drop k q') + mset (drop j q') + Z)" "frame q' Z (bufs ?st) (bufs st')"
      "\<forall>a\<in>set (take k q'). a \<notin># Z" "\<exists>h p n. st' = ?st\<lparr>bufs := h, stream_data := p, queue_size := n\<rparr>"
      "\<forall>x. assoc_refs (bufs st') x \<le> assoc_refs (bufs ?st) x"
      using Suc.IH [OF sh' t(2) h2' fu] by blast
    have as: "assoc_refs (bufs st') x \<le> assoc_refs (bufs st) x" for x
    proof -
      have "assoc_refs ?h x = assoc_refs (bufs st) x" by (rule assoc_refs_upd [OF heap_okD(1) [OF Suc.prems(3)] b(2)]) simp
      moreover have "assoc_refs h2 x \<le> assoc_refs ?h x" by (rule kept_assoc_refs [OF h2(3) heap_okD(1) [OF h1]])
      ultimately show ?thesis using r(8) [rule_format, of x] by simp
    qed
    have "frame q Z (bufs st) (bufs st')" unfolding q
      by (rule frame_head [OF frame_trans [OF frame_mono [OF f]]]) (use r(5) aZ as in auto)
    moreover have "reduce_queue (Suc fuel) st = Some st'" using b True t(4,5) h2(1) r(1) by auto
    moreover have "\<exists>h p n. st' = st\<lparr>bufs := h, stream_data := p, queue_size := n\<rparr>" using r(7) by auto
    ultimately show ?thesis using r(2-4,6) aZ q i as by (intro exI [of _ st'] exI [of _ "Suc k"]) auto
  qed
qed simp

section \<open>The burst\<close>

text \<open>For buffers outside the queue a frame does not depend on the queue.\<close>

lemma frame_outside: "frame q X h h' \<Longrightarrow> (\<And>x. x \<in># X \<Longrightarrow> x \<notin> set q) \<Longrightarrow> frame [] X h h'"
  unfolding frame_def by fastforce

lemma shape_burst:
  assumes "shape st q i" "q \<noteq> []" "bufs st (q ! i) = Some b" "bnext b = Some n"
  shows "shape (st\<lparr>burst_point := Some n, burst_offset := burst_offset st - blen b\<rparr>) q (Suc i)" "mset (drop i q) = add_mset (q ! i) (mset (drop (Suc i) q))"
proof -
  have i: "i < length q" and l: "linked (bufs st) (stream_data st) q" using assms(1,2) unfolding shape_def by auto
  have dr: "drop i q = q ! i # drop (Suc i) q" using i by (simp add: Cons_nth_drop_Suc)
  then show "mset (drop i q) = add_mset (q ! i) (mset (drop (Suc i) q))" by simp
  have "linked (bufs st) (Some n) (drop (Suc i) q)" using linked_drop [OF l i] assms(3,4) unfolding dr by simp
  note ln = this
  have n1: "Suc i < length q"
  proof (rule ccontr)
    assume "\<not> Suc i < length q"
    then have "drop (Suc i) q = []" by simp
    with ln show False by simp
  qed
  then have "drop (Suc i) q = q ! Suc i # drop (Suc (Suc i)) q" by (simp add: Cons_nth_drop_Suc)
  with ln have n: "Suc i < length q" "n = q ! Suc i" using n1 by simp_all
  have "blens (bufs st) (drop i q) = blen b + blens (bufs st) (drop (Suc i) q)" using assms(3) unfolding dr by (simp add: blens_def)
  with assms(1,2) n show "shape (st\<lparr>burst_point := Some n, burst_offset := burst_offset st - blen b\<rparr>) q (Suc i)"
    unfolding shape_def by auto
qed

lemma burst_loop_ok:
  assumes "shape st q i" "q \<noteq> []" "heap_ok (bufs st) (mset q + mset (drop i q) + Z)" "length q - i < fuel"
  shows "\<exists>st' j. burst_loop fuel st = Some st' \<and> i \<le> j \<and> shape st' q j \<and> heap_ok (bufs st') (mset q + mset (drop j q) + Z) \<and>
    frame q (mset q + Z) (bufs st) (bufs st') \<and> (\<exists>h p n. st' = st\<lparr>bufs := h, burst_point := p, burst_offset := n\<rparr>)"
  using assms
proof (induction fuel arbitrary: st i)
  case (Suc fuel)
  have i: "i < length q" "burst_point st = Some (q ! i)" and l: "linked (bufs st) (stream_data st) q" using Suc.prems(1,2) unfolding shape_def by auto
  obtain b where b: "bufs st (q ! i) = Some b" using linked_live [OF l, of "q ! i"] i(1) by auto
  have "st = st\<lparr>bufs := bufs st, burst_point := burst_point st, burst_offset := burst_offset st\<rparr>" by simp
  then have same: "\<exists>h p n. st = st\<lparr>bufs := h, burst_point := p, burst_offset := n\<rparr>" by blast
  have fr: "frame q (mset q + Z) (bufs st) (bufs st)"
    by (rule frame_refl [OF Suc.prems(3)]) simp
  show ?case
  proof (cases "burst_offset st > burst_size st \<and> bnext b \<noteq> None")
    case False
    then have "burst_loop (Suc fuel) st = Some st" using i(2) b by (cases "bnext b") auto
    with Suc.prems(1,3) same fr show ?thesis by (intro exI [of _ st] exI [of _ i]) auto
  next
    case True
    then obtain n where n: "bnext b = Some n" by auto
    note s = shape_burst [OF Suc.prems(1,2) b n]
    let ?R = "mset q + mset (drop (Suc i) q) + Z"
    have h1: "heap_ok (bufs st) (add_mset (q ! i) ?R)" using Suc.prems(3) unfolding s(2) by simp
    obtain h where h: "refbuf_release (bufs st) (Some (q ! i)) = Some h" "heap_ok h ?R" "kept (bufs st) h" using refbuf_release_ok [OF h1] by blast
    have fR: "frame q ?R (bufs st) h" by (rule frame_kept [OF h1, of _ "{#}"]) (use h in auto)
    have f: "frame q (mset q + Z) (bufs st) h" by (rule frame_mono [OF fR]) simp
    let ?st = "st\<lparr>burst_point := Some n, burst_offset := burst_offset st - blen b, bufs := h\<rparr>"
    have "shape (st\<lparr>burst_point := Some n, burst_offset := burst_offset st - blen b\<rparr>\<lparr>bufs := h\<rparr>) q (Suc i)"
      by (rule shape_frame [OF s(1)]) (use f in auto)
    then have sh: "shape ?st q (Suc i)" by simp
    have h2: "heap_ok (bufs ?st) (mset q + mset (drop (Suc i) q) + Z)" using h(2) by simp
    have "length q - Suc i < fuel" using Suc.prems(4) i(1) by linarith
    from Suc.IH [OF sh Suc.prems(2) h2 this] obtain st' j where r: "burst_loop fuel ?st = Some st'" "Suc i \<le> j" "shape st' q j"
      "heap_ok (bufs st') (mset q + mset (drop j q) + Z)" "frame q (mset q + Z) (bufs ?st) (bufs st')"
      "\<exists>h p n. st' = ?st\<lparr>bufs := h, burst_point := p, burst_offset := n\<rparr>" by blast
    have "frame q (mset q + Z) (bufs st) (bufs st')" by (rule frame_trans [OF f]) (use r(5) in simp)
    moreover have "burst_loop (Suc fuel) st = Some st'" using True i(2) b n h(1) r(1) by simp
    moreover have "\<exists>h p n. st' = st\<lparr>bufs := h, burst_point := p, burst_offset := n\<rparr>" using r(6) by auto
    ultimately show ?thesis using r(2-4) by (intro exI [of _ st'] exI [of _ j]) auto
  qed
qed simp

section \<open>New data\<close>

lemma linked_snoc:
  assumes "linked h p q" "q \<noteq> []" "distinct q" "a \<notin> set q" "h (last q) = Some t" "h a = Some b" "bnext b = None"
  shows "linked (h(last q \<mapsto> t\<lparr>bnext := Some a\<rparr>)) p (q @ [a])"
  using assms
proof (induction q arbitrary: p)
  case (Cons x q)
  show ?case
  proof (cases "q = []")
    case True
    with Cons.prems show ?thesis by auto
  next
    case False
    obtain c where c: "h x = Some c" "linked h (bnext c) q" "p = Some x" using Cons.prems(1) by auto
    have "x \<noteq> last q" using Cons.prems(3) False by auto
    with c Cons.IH [OF c(2) False] Cons.prems False show ?thesis by auto
  qed
qed simp

text \<open>The store after a buffer is linked behind the last one and taken up for the burst.\<close>

definition link_tail :: "buffers \<Rightarrow> nat list \<Rightarrow> nat \<Rightarrow> buffers" where
  "link_tail h q a = (if q = [] then h else h(last q \<mapsto> (the (h (last q)))\<lparr>bnext := Some a\<rparr>))"

lemma link_tail_ok:
  assumes "linked h p q" "distinct q" "\<forall>x\<in>set q. assoc_refs h x = 0" "heap_ok h R" "a \<notin> set q" "h a = Some b" "bnext b = None"
  shows "heap_ok (link_tail h q a) R" "linked (link_tail h q a) (Some (hd (q @ [a]))) (q @ [a])" "assoc_refs (link_tail h q a) x = assoc_refs h x"
    "h y = Some c \<Longrightarrow> \<exists>n. link_tail h q a y = Some (c\<lparr>bnext := n\<rparr>) \<and> (y \<notin> set q \<longrightarrow> n = bnext c)"
proof -
  have "heap_ok (link_tail h q a) R \<and> linked (link_tail h q a) (Some (hd (q @ [a]))) (q @ [a]) \<and> assoc_refs (link_tail h q a) x = assoc_refs h x"
  proof (cases "q = []")
    case True
    with assms show ?thesis by (simp add: link_tail_def)
  next
    case False
    obtain t where t: "h (last q) = Some t" using linked_live [OF assms(1), of "last q"] False by auto
    have eq: "link_tail h q a = h(last q \<mapsto> t\<lparr>bnext := Some a\<rparr>)" using False t by (simp add: link_tail_def)
    have "p = Some (hd (q @ [a]))" using linked_head [OF assms(1)] False by (cases q) auto
    with linked_snoc [OF assms(1) False assms(2,5) t assms(6,7)]
    have "linked (h(last q \<mapsto> t\<lparr>bnext := Some a\<rparr>)) (Some (hd (q @ [a]))) (q @ [a])" by simp
    moreover have "heap_ok (h(last q \<mapsto> t\<lparr>bnext := Some a\<rparr>)) R" using assms(3) False by (intro heap_ok_contents [OF assms(4) t]) auto
    moreover have "assoc_refs (h(last q \<mapsto> t\<lparr>bnext := Some a\<rparr>)) x = assoc_refs h x"
      by (rule assoc_refs_upd [OF heap_okD(1) [OF assms(4)] t]) simp
    ultimately show ?thesis unfolding eq by blast
  qed
  then show "heap_ok (link_tail h q a) R" "linked (link_tail h q a) (Some (hd (q @ [a]))) (q @ [a])" "assoc_refs (link_tail h q a) x = assoc_refs h x" by blast+
  show "\<exists>n. link_tail h q a y = Some (c\<lparr>bnext := n\<rparr>) \<and> (y \<notin> set q \<longrightarrow> n = bnext c)" if "h y = Some c"
  proof (cases "q \<noteq> [] \<and> y = last q")
    case True
    with that show ?thesis by (intro exI [of _ "Some a"]) (simp add: link_tail_def)
  next
    case False
    with that show ?thesis by (intro exI [of _ "bnext c"]) (auto simp: link_tail_def)
  qed
qed

text \<open>What listeners rely on survives: contents stay, and buffers outside the queue do not change at all.\<close>

definition grown :: "nat list \<Rightarrow> buffers \<Rightarrow> buffers \<Rightarrow> bool" where
  "grown q h h' \<longleftrightarrow> (\<forall>x c. h x = Some c \<longrightarrow> (\<exists>c'. h' x = Some c' \<and> blen c' = blen c \<and> (x \<notin> set q \<longrightarrow> c' = c)))"

lemma listener_ok_grown:
  assumes "listener_ok d h q c" "grown (q @ [a]) h h'" "lrefbuf c \<noteq> Some a"
  shows "listener_ok d h' (q @ [a]) c"
proof -
  have "own_buffer h' (q @ [a]) c" if own: "own_buffer h q c"
  proof -
    obtain x c0 where x: "lrefbuf c = Some x" "x \<notin> set q" "h x = Some c0" "rcount c0 = 1" "associated c0 = None" "lpos c \<le> blen c0"
      "lrespcode c = 0 \<longrightarrow> blen c0 = PER_CLIENT_REFBUF_SIZE \<and> lpos c = 0" using own unfolding own_buffer_def by blast
    have nx: "x \<notin> set (q @ [a])" using x(1,2) assms(3) by auto
    obtain c' where "h' x = Some c'" "x \<notin> set (q @ [a]) \<longrightarrow> c' = c0" using assms(2) x(3) unfolding grown_def by blast
    with nx have "h' x = Some c0" by simp
    with x nx show ?thesis unfolding own_buffer_def by blast
  qed
  moreover have "on_queue h' (q @ [a]) c" if on: "on_queue h q c"
  proof -
    obtain x c0 where x: "lrefbuf c = Some x" "x \<in> set q" "h x = Some c0" "lpos c \<le> blen c0" using on unfolding on_queue_def by blast
    obtain c' where "h' x = Some c'" "blen c' = blen c0" using assms(2) x(3) unfolding grown_def by blast
    with x show ?thesis unfolding on_queue_def by auto
  qed
  ultimately show ?thesis using assms(1) unfolding listener_ok_def by (auto split: check_fun.splits)
qed

lemma push_ok:
  assumes "linked h p q" "distinct q" "\<forall>x\<in>set q. assoc_refs h x = 0" "heap_ok h R" "a \<notin> set q" "h a = Some b" "bnext b = None"
  obtains h2 where "refbuf_addref (link_tail h q a) a = Some h2" "link_tail h q a a = Some b" "heap_ok h2 (add_mset a R)"
    "linked h2 (Some (hd (q @ [a]))) (q @ [a])" "\<And>x. assoc_refs h2 x \<le> assoc_refs h x" "grown (q @ [a]) h h2"
proof -
  note l = link_tail_ok [OF assms]
  have la: "link_tail h q a a = Some b" using l(4) [OF assms(6)] assms(5) by auto
  obtain h2 where h2: "refbuf_addref (link_tail h q a) a = Some h2" "heap_ok h2 (add_mset a R)" "kept (link_tail h q a) h2"
    using refbuf_addref_ok [OF l(1) la] by blast
  have eq: "h2 = (link_tail h q a)(a \<mapsto> b\<lparr>rcount := rcount b + 1\<rparr>)" using h2(1) la by (simp add: refbuf_addref_def)
  have "linked h2 (Some (hd (q @ [a]))) (q @ [a])" by (rule linked_cong [OF l(2)]) (use la in \<open>auto simp: eq\<close>)
  moreover have "assoc_refs h2 x \<le> assoc_refs h x" for x
    using kept_assoc_refs [OF h2(3) heap_okD(1) [OF l(1)], of x] l(3) [of x] by simp
  moreover have "grown (q @ [a]) h h2"
    unfolding grown_def
  proof (intro allI impI)
    fix x c assume c: "h x = Some c"
    obtain n where n: "link_tail h q a x = Some (c\<lparr>bnext := n\<rparr>)" "x \<notin> set q \<longrightarrow> n = bnext c" using l(4) [OF c] by blast
    show "\<exists>c'. h2 x = Some c' \<and> blen c' = blen c \<and> (x \<notin> set (q @ [a]) \<longrightarrow> c' = c)"
    proof (cases "x = a")
      case True
      with c assms(6) show ?thesis by (simp add: eq)
    next
      case False
      with n show ?thesis by (auto simp: eq)
    qed
  qed
  ultimately show thesis using that h2(1,2) la by blast
qed

lemma blens_grown:
  assumes "grown q' h h'" "linked h' p q" "set r \<subseteq> set q" "\<And>x. x \<in> set q \<Longrightarrow> h x \<noteq> None"
  shows "blens h' r = blens h r"
proof -
  have "blen (the (h' x)) = blen (the (h x))" if x: "x \<in> set r" for x
  proof -
    obtain c where c: "h x = Some c" using x assms(3,4) by fastforce
    then obtain c' where "h' x = Some c'" "blen c' = blen c" using assms(1) unfolding grown_def by blast
    with c show ?thesis by simp
  qed
  then have "map (\<lambda>a. blen (the (h' a))) r = map (\<lambda>a. blen (the (h a))) r" by simp
  then show ?thesis unfolding blens_def by presburger
qed

text \<open>The source after a buffer is appended, before the burst point moves.\<close>

definition pushed :: "('s, 'f) stream \<Rightarrow> nat list \<Rightarrow> nat \<Rightarrow> nat \<Rightarrow> buffers \<Rightarrow> ('s, 'f) stream" where
  "pushed st q a len h =
     (if q = [] then st\<lparr>stream_data := Some a, burst_point := Some a\<rparr> else st)
       \<lparr>stream_data_tail := Some a, queue_size := queue_size st + len, burst_offset := burst_offset st + len, bufs := h\<rparr>"

lemma pushed_shape:
  assumes "shape st q i" "a \<notin> set q" "bufs st a = Some b" "assoc_refs (bufs st) a = 0" "linked h (Some (hd (q @ [a]))) (q @ [a])"
    and "\<And>x. assoc_refs h x \<le> assoc_refs (bufs st) x" "grown (q @ [a]) (bufs st) h"
  shows "shape (pushed st q a (blen b) h) (q @ [a]) (if q = [] then 0 else i)"
proof -
  have sh: "distinct q" "linked (bufs st) (stream_data st) q" "\<forall>a\<in>set q. assoc_refs (bufs st) a = 0"
    "burst_point st = (if q = [] then None else Some (q ! i))" "q \<noteq> [] \<longrightarrow> i < length q"
    "queue_size st = blens (bufs st) q" "burst_offset st = blens (bufs st) (drop i q)"
    using assms(1) unfolding shape_def by blast+
  have live: "bufs st x \<noteq> None" if "x \<in> set (q @ [a])" for x using that linked_live [OF sh(2), of x] assms(3) by auto
  have z: "\<forall>x\<in>set (q @ [a]). assoc_refs h x = 0"
  proof
    fix x assume "x \<in> set (q @ [a])"
    then have "assoc_refs (bufs st) x = 0" using sh(3) assms(4) by auto
    with assms(6) [of x] show "assoc_refs h x = 0" by simp
  qed
  have bl: "blens h r = blens (bufs st) r" if "set r \<subseteq> set (q @ [a])" for r by (rule blens_grown [OF assms(7,5) that live])
  have snoc: "blens (bufs st) (r @ [a]) = blens (bufs st) r + blen b" for r using assms(3) by (simp add: blens_def)
  show ?thesis
  proof (cases "q = []")
    case True
    have "blens h [a] = blen b" using bl [of "[a]"] snoc [of "[]"] True by (simp add: blens_def)
    with True sh assms(5) z show ?thesis unfolding shape_def pushed_def by (simp add: blens_def)
  next
    case False
    have i: "i < length q" using sh(5) False by simp
    have "blens h (q @ [a]) = queue_size st + blen b" using bl [OF subset_refl] snoc [of q] sh(6) by simp
    moreover have "set (drop i q @ [a]) \<subseteq> set (q @ [a])" by (auto dest: in_set_dropD)
    then have "blens h (drop i q @ [a]) = burst_offset st + blen b" using bl snoc [of "drop i q"] sh(7) by simp
    moreover have "stream_data st = Some (hd (q @ [a]))" using linked_head [OF sh(2)] False by (cases q) auto
    ultimately show ?thesis using False sh(1,4) assms(2,5) z i unfolding shape_def pushed_def by (simp add: nth_append)
  qed
qed

lemma append_buffer_eq:
  assumes "shape st q i" "refbuf_addref (link_tail (bufs st) q a) a = Some h" "link_tail (bufs st) q a a = Some b"
  shows "append_buffer fuel st a = burst_loop fuel (pushed st q a (blen b) h)"
proof (cases "q = []")
  case True
  then have "stream_data st = None" "stream_data_tail st = None" using assms(1) unfolding shape_def by auto
  with True assms(2,3) show ?thesis by (simp add: append_buffer_def pushed_def link_tail_def)
next
  case False
  then have t: "stream_data_tail st = Some (last q)" and l: "linked (bufs st) (stream_data st) q" using assms(1) unfolding shape_def by auto
  obtain c where "bufs st (last q) = Some c" using linked_live [OF l, of "last q"] False by auto
  moreover have "stream_data st \<noteq> None" using linked_head [OF l] False by (cases q) auto
  ultimately show ?thesis using False t assms(2,3) by (auto simp: append_buffer_def pushed_def link_tail_def)
qed

lemma burst_loop_size: "burst_loop n st = Some st' \<Longrightarrow> queue_size st' = queue_size st"
  by (induction n st rule: burst_loop.induct) (auto split: if_splits option.splits)

lemma append_buffer_size:
  assumes "append_buffer fuel st a = Some st'" "bufs st a = Some b"
  shows "queue_size st \<le> queue_size st'"
  using assms by (auto simp: append_buffer_def Let_def split: if_splits option.splits dest!: burst_loop_size)

lemma append_buffer_ok:
  assumes "shape st q i" "heap_ok (bufs st) (add_mset a (mset q + mset (drop i q) + Z))" "bufs st a = Some b" "rcount b = 1" "bnext b = None"
    and "assoc_refs (bufs st) a = 0" "Suc (length q) < fuel"
  shows "\<exists>st' j. append_buffer fuel st a = Some st' \<and> shape st' (q @ [a]) j \<and> (q \<noteq> [] \<longrightarrow> i \<le> j) \<and>
    heap_ok (bufs st') (mset (q @ [a]) + mset (drop j (q @ [a])) + Z) \<and>
    (\<forall>c. listener_ok d (bufs st) q c \<longrightarrow> opt_mset (lrefbuf c) \<subseteq># Z \<longrightarrow> listener_ok d (bufs st') (q @ [a]) c) \<and>
    (\<forall>Y. Y \<subseteq># Z \<longrightarrow> (\<forall>x\<in>#Y. x \<notin> set q) \<longrightarrow> frame [] Y (bufs st) (bufs st')) \<and>
    (\<exists>h p t bp n m. st' = st\<lparr>bufs := h, stream_data := p, stream_data_tail := t, burst_point := bp, burst_offset := n, queue_size := m\<rparr>)"
proof -
  have "count (mset q + mset (drop i q) + Z) a = 0" using heap_okD(2) [OF assms(2,3)] assms(4,6) by simp
  then have aq: "a \<notin> set q" and aZ: "a \<notin># Z" by (auto simp: not_in_iff)
  have sh: "distinct q" "linked (bufs st) (stream_data st) q" "\<forall>a\<in>set q. assoc_refs (bufs st) a = 0" "q \<noteq> [] \<longrightarrow> i < length q"
    using assms(1) unfolding shape_def by blast+
  obtain h where h: "refbuf_addref (link_tail (bufs st) q a) a = Some h" "link_tail (bufs st) q a a = Some b"
    "heap_ok h (add_mset a (add_mset a (mset q + mset (drop i q) + Z)))" "linked h (Some (hd (q @ [a]))) (q @ [a])"
    "\<And>x. assoc_refs h x \<le> assoc_refs (bufs st) x" "grown (q @ [a]) (bufs st) h"
    using push_ok [OF sh(2,1,3) assms(2) aq assms(3,5)] by blast
  let ?st = "pushed st q a (blen b) h" and ?j = "if q = [] then 0 else i"
  have hb: "bufs ?st = h" by (simp add: pushed_def)
  have sh2: "shape ?st (q @ [a]) ?j" by (rule pushed_shape [OF assms(1) aq assms(3,6) h(4-6)])
  have hp2: "heap_ok (bufs ?st) (mset (q @ [a]) + mset (drop ?j (q @ [a])) + Z)" using h(3) sh(4) unfolding hb by auto
  have fu: "length (q @ [a]) - ?j < fuel" using assms(7) by simp
  obtain st' j where r: "burst_loop fuel ?st = Some st'" "shape st' (q @ [a]) j" "heap_ok (bufs st') (mset (q @ [a]) + mset (drop j (q @ [a])) + Z)"
    "frame (q @ [a]) (mset (q @ [a]) + Z) (bufs ?st) (bufs st')" "\<exists>h p n. st' = ?st\<lparr>bufs := h, burst_point := p, burst_offset := n\<rparr>" "?j \<le> j"
    using burst_loop_ok [OF sh2 _ hp2 fu] by blast
  have "listener_ok d (bufs st') (q @ [a]) c" if "listener_ok d (bufs st) q c" "opt_mset (lrefbuf c) \<subseteq># Z" for c
  proof -
    have "lrefbuf c \<noteq> Some a" using that(2) aZ by auto
    from listener_ok_grown [OF that(1) h(6) this] have "listener_ok d (bufs ?st) (q @ [a]) c" unfolding hb .
    then show ?thesis by (rule listener_ok_frame [OF _ r(4) subset_mset.order_trans [OF that(2)]]) simp
  qed
  moreover have "frame [] Y (bufs st) (bufs st')" if Y: "Y \<subseteq># Z" "\<forall>x\<in>#Y. x \<notin> set q" for Y
  proof (rule frame_trans)
    have out: "x \<notin> set (q @ [a])" if "x \<in># Y" for x using that Y aZ by (auto dest: mset_subset_eqD)
    have "Y \<subseteq># add_mset a (mset q + mset (drop i q) + Z)" by (rule subset_mset.order_trans [OF Y(1)]) simp
    then have "\<exists>b. bufs st x = Some b" if "x \<in># Y" for x using that heap_ok_live [OF assms(2)] by (meson mset_subset_eqD)
    with out have "\<exists>b. bufs st x = Some b \<and> h x = Some b" if "x \<in># Y" for x using that h(6) unfolding grown_def by metis
    then show "frame [] Y (bufs st) (bufs ?st)" unfolding frame_def hb by fastforce
    show "frame [] Y (bufs ?st) (bufs st')"
      by (rule frame_outside [OF frame_mono [OF r(4)]]) (use Y(1) out in \<open>auto intro: subset_mset.order_trans\<close>)
  qed
  moreover have "append_buffer fuel st a = Some st'" using append_buffer_eq [OF assms(1) h(1,2)] r(1) by simp
  moreover have "\<exists>h p t bp n m. st' = st\<lparr>bufs := h, stream_data := p, stream_data_tail := t, burst_point := bp, burst_offset := n, queue_size := m\<rparr>"
  proof -
    obtain k p n where st': "st' = ?st\<lparr>bufs := k, burst_point := p, burst_offset := n\<rparr>" using r(5) by blast
    show ?thesis
      by (rule exI [of _ k], rule exI [of _ "stream_data ?st"], rule exI [of _ "Some a"], rule exI [of _ p], rule exI [of _ n],
          rule exI [of _ "queue_size st + blen b"]) (simp add: st' pushed_def)
  qed
  ultimately show ?thesis using r(2,3,6) by (intro exI [of _ st'] exI [of _ j]) auto
qed

section \<open>The invariant\<close>

text \<open>
  Everything that refers to a buffer: the queue, the burst, the listeners that are served, those that
  wait, those handed to the file server, and the format.
\<close>

definition others :: "('s, 'f) format_plugin \<Rightarrow> ('s, 'f) stream \<Rightarrow> nat multiset" where
  "others fmt st = refs (st_clients st) + refs (st_pending st) + refs (handed st) + mset (plugin_holds fmt (st_format st))"

definition stream_ok ::
  "('s, 'f) format_plugin \<Rightarrow> ('f \<Rightarrow> bool) \<times> (http_parser \<Rightarrow> bool) \<Rightarrow> ('s \<Rightarrow> buffers \<Rightarrow> bool) \<Rightarrow> ('s, 'f) stream \<Rightarrow> nat list \<Rightarrow> nat \<Rightarrow> bool" where
  "stream_ok fmt d sok st q i \<longleftrightarrow> shape st q i \<and> (st_running st \<longrightarrow> sok (st_format st) (bufs st)) \<and> set q \<inter> set (plugin_holds fmt (st_format st)) = {} \<and> (\<forall>x\<in>#refs (handed st). x \<notin> set q) \<and>
     heap_ok (bufs st) (mset q + mset (drop i q) + others fmt st) \<and>
     (\<forall>c\<in>set (st_clients st) \<union> set (st_pending st). listener_ok d (bufs st) q c)"

lemma listener_ok_drop:
  assumes "listener_ok d h q c" "\<forall>a\<in>set (take k q). a \<notin># Z" "opt_mset (lrefbuf c) \<subseteq># Z"
  shows "listener_ok d h (drop k q) c"
proof -
  have "a \<in> set (drop k q)" if "lrefbuf c = Some a" "a \<in> set q" for a
  proof -
    have "a \<in># Z" using assms(3) that(1) by simp
    then have "a \<notin> set (take k q)" using assms(2) by blast
    moreover have "a \<in> set (take k q @ drop k q)" using that(2) by simp
    ultimately show ?thesis by (simp only: set_append) blast
  qed
  then have "on_queue h q c \<Longrightarrow> on_queue h (drop k q) c" unfolding on_queue_def by blast
  moreover have "own_buffer h q c \<Longrightarrow> own_buffer h (drop k q) c" unfolding own_buffer_def by (blast dest: in_set_dropD)
  ultimately show ?thesis using assms(1) unfolding listener_ok_def by (auto split: check_fun.splits)
qed

text \<open>What reading from the source changes.\<close>

definition reads :: "('s, 'f) stream \<Rightarrow> ('s, 'f) stream \<Rightarrow> bool" where
  "reads st st' \<longleftrightarrow> (\<exists>h r l s. st' = st\<lparr>bufs := h, st_running := r, last_read := l, st_format := s\<rparr>)"

lemma readsI: "st' = st\<lparr>bufs := h, st_running := r, last_read := l, st_format := s\<rparr> \<Longrightarrow> reads st st'"
  unfolding reads_def by blast

lemma reads_refl [simp]: "reads st st"
  by (rule readsI [where h = "bufs st" and r = "st_running st" and l = "last_read st" and s = "st_format st"]) simp

lemma reads_trans: "reads st1 st2 \<Longrightarrow> reads st2 st3 \<Longrightarrow> reads st1 st3"
  unfolding reads_def by force

lemma reads_fields:
  "reads st st' \<Longrightarrow> st_clients st' = st_clients st \<and> st_pending st' = st_pending st \<and> handed st' = handed st \<and>
     queue_size st' = queue_size st \<and> queue_size_limit st' = queue_size_limit st"
  unfolding reads_def by auto

lemma reads_shape:
  assumes "reads st st'" "shape st q i" "frame q X (bufs st) (bufs st')" "mset q \<subseteq># X"
  shows "shape st' q i"
proof -
  obtain h r l s where st': "st' = st\<lparr>bufs := h, st_running := r, last_read := l, st_format := s\<rparr>" using assms(1) unfolding reads_def by blast
  from shape_frame [OF assms(2-4)] show ?thesis unfolding st' shape_def by simp
qed

definition fresh_buffer :: "buffers \<Rightarrow> nat option \<Rightarrow> bool" where
  "fresh_buffer h p \<longleftrightarrow> (\<forall>a. p = Some a \<longrightarrow> (\<exists>b. h a = Some b \<and> rcount b = 1 \<and> bnext b = None \<and> assoc_refs h a = 0))"

context format_contract
begin

lemma get_next_buffer_ok:
  assumes "heap_ok (bufs st) (opt_mset p + R + mset (plugin_holds fmt (st_format st)))" "p = None \<or> \<not> st_running st" "fresh_buffer (bufs st) p"
    and "st_running st \<longrightarrow> state_ok (st_format st) (bufs st)" "set q \<inter> set (plugin_holds fmt (st_format st)) = {}" "mset q \<subseteq># R"
  shows "\<exists>p' st'. get_next_buffer fmt polls p st = Some (p', st') \<and> reads st st' \<and> fresh_buffer (bufs st') p' \<and>
    heap_ok (bufs st') (opt_mset p' + R + mset (plugin_holds fmt (st_format st'))) \<and> frame q R (bufs st) (bufs st') \<and>
    (st_running st' \<longrightarrow> state_ok (st_format st') (bufs st')) \<and>
    (\<forall>x\<in>#R. x \<in> set (plugin_holds fmt (st_format st')) \<longrightarrow> x \<in> set (plugin_holds fmt (st_format st)))"
  using assms
proof (induction polls arbitrary: p st)
  case Nil
  have "frame q R (bufs st) (bufs st)" by (rule frame_refl [OF Nil(1)]) simp
  with Nil show ?case by simp
next
  case (Cons x polls)
  have fr: "frame q R (bufs st) (bufs st)" by (rule frame_refl [OF Cons.prems(1)]) simp
  define s0 where "s0 = (if has_client st then st else st\<lparr>last_read := current x\<rparr>)"
  define n where "n = (if has_client s0 then fds x else 0)"
  have s0: "bufs s0 = bufs st" "st_format s0 = st_format st" by (simp_all add: s0_def)
  have rd: "reads st (s0\<lparr>st_running := b\<rparr>)" for b
    by (rule readsI [where h = "bufs st" and r = b and l = "last_read s0" and s = "st_format st"]) (simp add: s0_def)
  consider "\<not> st_running st" | "st_running st" "n \<le> 0" | "st_running st" "n > 0" by linarith
  then show ?case
  proof cases
    case 1
    with Cons.prems fr show ?thesis by simp
  next
    case 2
    have "\<exists>r. get_next_buffer fmt (x # polls) p st = Some (p, s0\<lparr>st_running := r\<rparr>)"
      using 2 by (auto simp: s0_def [symmetric] n_def [symmetric] Let_def intro: exI [of _ "st_running s0"] exI [of _ False])
    then obtain r where e: "get_next_buffer fmt (x # polls) p st = Some (p, s0\<lparr>st_running := r\<rparr>)" by blast
    show ?thesis unfolding e using Cons.prems fr s0 rd 2(1) by simp
  next
    case 3
    have p: "p = None" using Cons.prems(2) 3(1) by blast
    have "heap_ok (bufs st) (R + mset (plugin_holds fmt (st_format st)))" using Cons.prems(1) p by simp
    from get_ok [OF this _ Cons.prems(6,5), of "rx x"] Cons.prems(4) 3(1) obtain s' h' p' run where g: "get_buffer fmt (st_format st) (bufs st) (rx x) = Some (s', h', p', run)"
      "heap_ok h' (opt_mset p' + R + mset (plugin_holds fmt s'))" "frame q R (bufs st) h'" "fresh_buffer h' p'"
      "\<forall>y\<in>#R. y \<in> set (plugin_holds fmt s') \<longrightarrow> y \<in> set (plugin_holds fmt (st_format st))" "run \<longrightarrow> state_ok s' h'" unfolding fresh_buffer_def by blast
    have dj: "set q \<inter> set (plugin_holds fmt s') = {}"
    proof -
      have "y \<in># R" if "y \<in> set q" for y using that Cons.prems(6) by (meson mset_subset_eqD set_mset_mset in_multiset_in_set)
      with g(5) Cons.prems(5) show ?thesis by blast
    qed
    define s1 where "s1 = s0\<lparr>last_read := current x, st_format := s', bufs := h', st_running := run\<rparr>"
    have s1: "bufs s1 = h'" "st_format s1 = s'" by (simp_all add: s1_def)
    have rd1: "reads st (s1\<lparr>st_running := b\<rparr>)" for b
      by (rule readsI [where h = h' and r = b and l = "current x" and s = s']) (simp add: s1_def s0_def)
    have step: "get_next_buffer fmt (x # polls) p st =
      (if failed x then get_next_buffer fmt polls p' (s1\<lparr>st_running := False\<rparr>)
       else if p' \<noteq> None then Some (p', s1) else get_next_buffer fmt polls p' s1)"
      using 3 g(1) s0 by (simp add: s0_def [symmetric] n_def [symmetric] s1_def [symmetric] Let_def)
    show ?thesis
    proof (cases "\<not> failed x \<and> p' \<noteq> None")
      case True
      then show ?thesis unfolding step using g s1 rd1 [of "st_running s1"] by (auto simp: s1_def)
    next
      case False
      define b where "b = (if failed x then False else st_running s1)"
      let ?s = "s1\<lparr>st_running := b\<rparr>"
      have eq: "get_next_buffer fmt (x # polls) p st = get_next_buffer fmt polls p' ?s" using step False by (auto simp: b_def)
      have "heap_ok (bufs ?s) (opt_mset p' + R + mset (plugin_holds fmt (st_format ?s)))" "p' = None \<or> \<not> st_running ?s" "fresh_buffer (bufs ?s) p'"
        "st_running ?s \<longrightarrow> state_ok (st_format ?s) (bufs ?s)" "set q \<inter> set (plugin_holds fmt (st_format ?s)) = {}"
        using g s1 dj False by (auto simp: b_def s1_def)
      from Cons.IH [OF this Cons.prems(6)] obtain p'' st' where r: "get_next_buffer fmt polls p' ?s = Some (p'', st')" "reads ?s st'" "fresh_buffer (bufs st') p''"
        "heap_ok (bufs st') (opt_mset p'' + R + mset (plugin_holds fmt (st_format st')))" "frame q R (bufs ?s) (bufs st')"
        "\<forall>y\<in>#R. y \<in> set (plugin_holds fmt (st_format st')) \<longrightarrow> y \<in> set (plugin_holds fmt (st_format ?s))" "st_running st' \<longrightarrow> state_ok (st_format st') (bufs st')" by blast
      have "frame q R (bufs st) (bufs st')" by (rule frame_trans [OF g(3)]) (use r(5) s1 in simp)
      moreover have "\<forall>y\<in>#R. y \<in> set (plugin_holds fmt (st_format st')) \<longrightarrow> y \<in> set (plugin_holds fmt (st_format st))" using r(6) g(5) s1 by auto
      ultimately show ?thesis unfolding eq using r(1,3,4,7) reads_trans [OF rd1 r(2)] by auto
    qed
  qed
qed

lemma state_keep:
  assumes "state_ok s h" "frame q X h h'" "mset (plugin_holds fmt s) \<subseteq># X" "set q \<inter> set (plugin_holds fmt s) = {}"
  shows "state_ok s h'"
  by (rule state_frame [OF assms(1) frame_outside [OF frame_mono [OF assms(2,3)]]]) (use assms(4) in auto)

lemma read_append_ok:
  assumes inv: "stream_ok fmt ok state_ok st q i" and fu: "Suc (Suc (length q)) \<le> fuel"
  shows "\<exists>p st1 st2 q1 i1. get_next_buffer fmt polls None st = Some (p, st1) \<and>
    (case p of None \<Rightarrow> Some (st1\<lparr>short_delay := False\<rparr>) | Some a \<Rightarrow> append_buffer fuel (st1\<lparr>short_delay := False\<rparr>) a) = Some st2 \<and>
    stream_ok fmt ok state_ok st2 q1 i1 \<and> (\<exists>r. q1 = q @ r \<and> length r \<le> 1) \<and> (q \<noteq> [] \<longrightarrow> i \<le> i1) \<and>
    st_pending st2 = st_pending st \<and> handed st2 = handed st \<and> queue_size st \<le> queue_size st2 \<and> queue_size_limit st2 = queue_size_limit st"
proof -
  let ?Z = "refs (st_clients st) + refs (st_pending st) + refs (handed st)"
  let ?R = "mset q + mset (drop i q) + ?Z"
  have sh: "shape st q i" and hp: "heap_ok (bufs st) (?R + mset (plugin_holds fmt (st_format st)))"
    and so: "st_running st \<longrightarrow> state_ok (st_format st) (bufs st)" "set q \<inter> set (plugin_holds fmt (st_format st)) = {}"
    and hd0: "\<forall>x\<in>#refs (handed st). x \<notin> set q" and l: "\<forall>c\<in>set (st_clients st) \<union> set (st_pending st). listener_ok ok (bufs st) q c"
    using inv unfolding stream_ok_def others_def by (simp_all add: ac_simps)
  have "\<exists>p st1. get_next_buffer fmt polls None st = Some (p, st1) \<and> reads st st1 \<and> fresh_buffer (bufs st1) p \<and>
    heap_ok (bufs st1) (opt_mset p + ?R + mset (plugin_holds fmt (st_format st1))) \<and> frame q ?R (bufs st) (bufs st1) \<and>
    (st_running st1 \<longrightarrow> state_ok (st_format st1) (bufs st1)) \<and> (\<forall>x\<in>#?R. x \<in> set (plugin_holds fmt (st_format st1)) \<longrightarrow> x \<in> set (plugin_holds fmt (st_format st)))"
    by (rule get_next_buffer_ok) (use hp so in \<open>auto simp: fresh_buffer_def\<close>)
  then obtain p st1 where g: "get_next_buffer fmt polls None st = Some (p, st1)" "reads st st1" "fresh_buffer (bufs st1) p"
    "heap_ok (bufs st1) (opt_mset p + ?R + mset (plugin_holds fmt (st_format st1)))" "frame q ?R (bufs st) (bufs st1)"
    "\<forall>x\<in>#?R. x \<in> set (plugin_holds fmt (st_format st1)) \<longrightarrow> x \<in> set (plugin_holds fmt (st_format st))"
    "st_running st1 \<longrightarrow> state_ok (st_format st1) (bufs st1)" by blast
  note f = g(5) and fld = reads_fields [OF g(2)]
  have "mset q \<subseteq># ?R" by simp
  from reads_shape [OF g(2) sh f this] have sh1: "shape st1 q i" .
  have "refs (st_clients st @ st_pending st) \<subseteq># ?R" by simp
  from listeners_frame [OF _ f this] l have l1: "\<forall>c\<in>set (st_clients st1 @ st_pending st1). listener_ok ok (bufs st1) q c" using fld by auto
  let ?s = "st1\<lparr>short_delay := False\<rparr>"
  have shs: "shape ?s q i" using sh1 unfolding shape_def by simp
  have oth: "others fmt ?s = ?Z + mset (plugin_holds fmt (st_format st1))" using fld by (simp add: others_def)
  have dj: "set q \<inter> set (plugin_holds fmt (st_format st1)) = {}" using g(6) so(2) by auto
  show ?thesis
  proof (cases p)
    case None
    have "heap_ok (bufs ?s) (mset q + mset (drop i q) + others fmt ?s)" using g(4) None unfolding oth by (simp add: ac_simps)
    then have "stream_ok fmt ok state_ok ?s q i" using shs l1 dj g(7) hd0 fld unfolding stream_ok_def by auto
    with g(1) None fld show ?thesis
      by (intro exI [of _ p] exI [of _ st1] exI [of _ ?s] exI [of _ q] exI [of _ i]) (auto intro: exI [of _ "[]"])
  next
    case (Some a)
    obtain b where b: "bufs ?s a = Some b" "rcount b = 1" "bnext b = None" "assoc_refs (bufs ?s) a = 0" using g(3) Some unfolding fresh_buffer_def by auto
    have hps: "heap_ok (bufs ?s) (add_mset a (mset q + mset (drop i q) + others fmt ?s))" using g(4) Some unfolding oth by (simp add: ac_simps)
    have fu': "Suc (length q) < fuel" using fu by simp
    obtain st2 j where r: "append_buffer fuel ?s a = Some st2" "shape st2 (q @ [a]) j" "q \<noteq> [] \<longrightarrow> i \<le> j"
      "heap_ok (bufs st2) (mset (q @ [a]) + mset (drop j (q @ [a])) + others fmt ?s)"
      "\<forall>c. listener_ok ok (bufs ?s) q c \<longrightarrow> opt_mset (lrefbuf c) \<subseteq># others fmt ?s \<longrightarrow> listener_ok ok (bufs st2) (q @ [a]) c"
      "\<exists>h p t bp n m. st2 = ?s\<lparr>bufs := h, stream_data := p, stream_data_tail := t, burst_point := bp, burst_offset := n, queue_size := m\<rparr>"
      "\<forall>Y. Y \<subseteq># others fmt ?s \<longrightarrow> (\<forall>x\<in>#Y. x \<notin> set q) \<longrightarrow> frame [] Y (bufs ?s) (bufs st2)"
      using append_buffer_ok [OF shs hps b fu', of ok] by blast
    have same: "st_clients st2 = st_clients st" "st_pending st2 = st_pending st" "handed st2 = handed st" "st_format st2 = st_format st1"
      "queue_size_limit st2 = queue_size_limit st" using r(6) fld by auto
    have oth2: "others fmt st2 = others fmt ?s" using same unfolding oth by (simp add: others_def)
    have "opt_mset (lrefbuf c) \<subseteq># others fmt ?s" if "c \<in> set (st_clients st @ st_pending st)" for c
      by (rule subset_mset.order_trans [OF refs_member [OF that]]) (simp add: oth)
    then have "\<forall>c\<in>set (st_clients st2) \<union> set (st_pending st2). listener_ok ok (bufs st2) (q @ [a]) c" using r(5) l1 same fld by auto
    moreover have "st_running st2 \<longrightarrow> state_ok (st_format st2) (bufs st2)" unfolding same(4)
    proof (rule impI, rule state_frame)
      assume "st_running st2"
      moreover have "st_running st2 = st_running st1" using r(6) by auto
      ultimately show "state_ok (st_format st1) (bufs st1)" using g(7) by blast
    next
      have "mset (plugin_holds fmt (st_format st1)) \<subseteq># others fmt ?s" by (simp add: oth)
      moreover have "\<forall>x\<in>#mset (plugin_holds fmt (st_format st1)). x \<notin> set q" using dj by auto
      ultimately have "frame [] (mset (plugin_holds fmt (st_format st1))) (bufs ?s) (bufs st2)" using r(7) by blast
      then show "frame [] (mset (plugin_holds fmt (st_format st1))) (bufs st1) (bufs st2)" by simp
    qed
    moreover have "a \<notin> set (plugin_holds fmt (st_format st2)) \<and> a \<notin># refs (handed st)"
    proof -
      have "count (others fmt ?s) a = 0" using heap_okD(2) [OF hps b(1)] b(2,4) by simp
      then show ?thesis unfolding oth same(4) by (simp add: not_in_iff)
    qed
    ultimately have "stream_ok fmt ok state_ok st2 (q @ [a]) j" using r(2,4) oth2 dj same(3,4) hd0 unfolding stream_ok_def by auto
    moreover have "queue_size st \<le> queue_size st2" using append_buffer_size [OF r(1) b(1)] fld by simp
    ultimately show ?thesis using g(1) Some r(1,3) same
      by (intro exI [of _ p] exI [of _ st1] exI [of _ st2] exI [of _ "q @ [a]"] exI [of _ j]) (auto intro: exI [of _ "[a]"])
  qed
qed

lemma side_running: "side st st' hs \<Longrightarrow> st_running st' = st_running st"
  unfolding side_def by auto

text \<open>Serving the listeners and taking in those that wait, up to the reduction of the queue.\<close>

lemma serve_add_ok:
  assumes inv: "stream_ok fmt ok state_ok st q i" and fu: "length q < fuel" and ma: "malloc_ok malloc"
  shows "\<exists>cs st1 st2. serve_clients fmt malloc fuel now out del (st_clients st) st = Some (cs, st1) \<and>
    add_pending (st_pending st1) (st1\<lparr>st_clients := cs\<rparr>) = Some st2 \<and> stream_ok fmt ok state_ok (st2\<lparr>st_pending := []\<rparr>) q i \<and>
    (del \<and> q \<noteq> [] \<longrightarrow> hd q \<notin># refs (st_pending st) \<longrightarrow>
       hd q \<notin># others fmt (st2\<lparr>st_pending := []\<rparr>))"
proof -
  let ?P = "refs (st_pending st)" and ?H = "refs (handed st) + mset (plugin_holds fmt (st_format st))"
  let ?Q = "mset q + mset (drop i q)"
  have sh: "shape st q i" and l: "\<forall>c\<in>set (st_clients st) \<union> set (st_pending st). listener_ok ok (bufs st) q c"
    and hp: "heap_ok (bufs st) (refs (st_clients st) + (?Q + ?P + ?H))"
    and so: "st_running st \<longrightarrow> state_ok (st_format st) (bufs st)" "set q \<inter> set (plugin_holds fmt (st_format st)) = {}"
    and hd0: "\<forall>x\<in>#refs (handed st). x \<notin> set q"
    using inv unfolding stream_ok_def others_def by (simp_all add: ac_simps)
  have lc: "\<forall>c\<in>set (st_clients st). listener_ok ok (bufs st) q c" and lp: "\<forall>c\<in>set (st_pending st). listener_ok ok (bufs st) q c" using l by auto
  have qY: "mset q \<subseteq># ?Q + ?P + ?H" by simp
  obtain cs st1 hs where s1: "serve_clients fmt malloc fuel now out del (st_clients st) st = Some (cs, st1)"
    "heap_ok (bufs st1) (refs cs + refs hs + (?Q + ?P + ?H))" "frame q (?Q + ?P + ?H) (bufs st) (bufs st1)" "side st st1 hs"
    "\<forall>c\<in>set cs. listener_ok ok (bufs st1) q c" "del \<longrightarrow> stream_data st \<noteq> None \<longrightarrow> (\<forall>c\<in>set cs. lrefbuf c \<noteq> stream_data st)"
    "\<forall>x\<in>#refs hs. x \<notin> set q" using serve_clients_ok [where now = now and out = out and del = del, OF hp sh qY fu lc ma] by blast
  note fld1 = side_fields [OF s1(4)]
  note sh1 = side_shape [OF s1(4,3) qY sh]
  let ?s = "st1\<lparr>st_clients := cs\<rparr>"
  let ?Y = "?Q + refs hs + ?H"
  have h1: "heap_ok (bufs ?s) (refs (st_pending st1) + refs (st_clients ?s) + ?Y)" using s1(2) fld1 by (simp add: ac_simps)
  have lp1: "\<forall>c\<in>set (st_pending st). listener_ok ok (bufs st1) q c" by (rule listeners_frame [OF lp s1(3)]) simp
  then have l1: "\<forall>c\<in>set (st_pending st1) \<union> set (st_clients ?s). listener_ok ok (bufs ?s) q c" using s1(5) fld1(1) by auto
  obtain st2 hs' where s2: "add_pending (st_pending st1) ?s = Some st2" "heap_ok (bufs st2) (refs (st_clients st2) + refs hs' + ?Y)"
    "frame q ?Y (bufs ?s) (bufs st2)" "side ?s st2 hs'" "\<forall>c\<in>set (st_clients st2). listener_ok ok (bufs st2) q c"
    "set (st_clients st2) \<subseteq> set (st_pending st1) \<union> set (st_clients ?s)" "\<forall>x\<in>#refs hs'. x \<notin> set q" using add_pending_ok [OF h1 l1] by blast
  have fld2: "handed st2 = handed st @ hs @ hs'" "st_format st2 = st_format st" using side_fields [OF s2(4)] fld1 by simp_all
  have shs: "shape ?s q i" using sh1 unfolding shape_def by simp
  have qY': "mset q \<subseteq># ?Y" by simp
  note sh2 = side_shape [OF s2(4,3) qY' shs]
  let ?t = "st2\<lparr>st_pending := []\<rparr>"
  have oth: "others fmt ?t = refs (st_clients st2) + refs hs' + refs hs + ?H" using fld2 by (simp add: others_def ac_simps)
  have "heap_ok (bufs ?t) (?Q + others fmt ?t)" using s2(2) unfolding oth by (simp add: ac_simps)
  moreover have "state_ok (st_format st) (bufs st2)" if "st_running st2"
  proof -
    have "st_running st" using side_running [OF s1(4)] side_running [OF s2(4)] that by simp
    then have so1: "state_ok (st_format st) (bufs st1)" using so(1) by (intro state_keep [OF _ s1(3) _ so(2)]) simp_all
    show ?thesis by (rule state_keep [OF so1 _ _ so(2), of ?Y]) (use s2(3) in simp_all)
  qed
  ultimately have ok2: "stream_ok fmt ok state_ok ?t q i" using sh2 s2(5,7) s1(7) so(2) hd0 fld2 unfolding stream_ok_def shape_def by auto
  have "hd q \<notin># others fmt ?t" if d: "del" "q \<noteq> []" and no: "hd q \<notin># ?P"
  proof -
    have sd: "stream_data st = Some (hd q)" using sh d(2) linked_head [of "bufs st" "stream_data st" q] unfolding shape_def by (cases q) auto
    have cs: "lrefbuf c \<noteq> Some (hd q)" if "c \<in> set cs" for c using s1(6) d(1) sd that by auto
    have ps: "lrefbuf c \<noteq> Some (hd q)" if "c \<in> set (st_pending st)" for c
    proof
      assume "lrefbuf c = Some (hd q)"
      then have "hd q \<in># ?P" using refs_member [OF that] by simp
      with no show False by simp
    qed
    have "lrefbuf c \<noteq> Some (hd q)" if "c \<in> set (st_clients st2)" for c using s2(6) fld1(1) that cs ps by auto
    then have "hd q \<notin># refs (st_clients st2)" by (rule not_in_refs)
    moreover have "hd q \<notin># refs hs" "hd q \<notin># refs hs'"
      using s1(7) s2(7) d(2) by auto
    moreover have "hd q \<notin># refs (handed st)" using hd0 d(2) by (cases q) auto
    moreover have "hd q \<notin> set (plugin_holds fmt (st_format st))" using so(2) d(2) by (cases q) auto
    ultimately show ?thesis using no unfolding oth by simp
  qed
  then have last: "del \<and> q \<noteq> [] \<longrightarrow> hd q \<notin># ?P \<longrightarrow> hd q \<notin># others fmt ?t" by blast
  show ?thesis
    by (rule exI [of _ cs], rule exI [of _ st1], rule exI [of _ st2], intro conjI s1(1) s2(1) ok2 last)
qed

lemma source_round_ok:
  assumes inv: "stream_ok fmt ok state_ok st q i" and fu: "Suc (Suc (length q)) \<le> fuel" and ma: "malloc_ok malloc"
  shows "\<exists>st' q' i'. source_round fmt malloc fuel polls now out st = Some st' \<and> stream_ok fmt ok state_ok st' q' i' \<and>
    length q' \<le> Suc (length q) \<and>
    (queue_size_limit st < queue_size st \<and> q \<noteq> [] \<and> 0 < i \<and> hd q \<notin># refs (st_pending st) \<longrightarrow>
       hd q \<notin> set q')"
proof -
  obtain p st1 st2 q1 i1 r where a: "get_next_buffer fmt polls None st = Some (p, st1)"
    "(case p of None \<Rightarrow> Some (st1\<lparr>short_delay := False\<rparr>) | Some a \<Rightarrow> append_buffer fuel (st1\<lparr>short_delay := False\<rparr>) a) = Some st2"
    "stream_ok fmt ok state_ok st2 q1 i1" "q1 = q @ r" "length r \<le> 1" "q \<noteq> [] \<longrightarrow> i \<le> i1" "st_pending st2 = st_pending st" "handed st2 = handed st"
    "queue_size st \<le> queue_size st2" "queue_size_limit st2 = queue_size_limit st"
    using read_append_ok [OF inv fu, of polls] by blast
  have fu1: "length q1 < fuel" using a(4,5) fu by simp
  let ?del = "queue_size st2 > queue_size_limit st2"
  obtain cs st3 st4 where b: "serve_clients fmt malloc fuel now out ?del (st_clients st2) st2 = Some (cs, st3)"
    "add_pending (st_pending st3) (st3\<lparr>st_clients := cs\<rparr>) = Some st4" "stream_ok fmt ok state_ok (st4\<lparr>st_pending := []\<rparr>) q1 i1"
    "?del \<and> q1 \<noteq> [] \<longrightarrow> hd q1 \<notin># refs (st_pending st2) \<longrightarrow>
       hd q1 \<notin># others fmt (st4\<lparr>st_pending := []\<rparr>)"
    using serve_add_ok [where now = now and out = out and del = "queue_size_limit st2 < queue_size st2", OF a(3) fu1 ma] by blast
  define s where "s = update_listeners (st4\<lparr>st_pending := []\<rparr>)"
  have so: "others fmt s = others fmt (st4\<lparr>st_pending := []\<rparr>)" by (simp add: s_def update_listeners_def others_def)
  have ok5: "stream_ok fmt ok state_ok s q1 i1" using b(3) unfolding stream_ok_def so by (simp add: s_def update_listeners_def shape_def)
  have eq: "source_round fmt malloc fuel polls now out st = (if stream_data s = None then Some s else reduce_queue fuel s)"
    unfolding source_round_def a(1) option.case prod.case Let_def a(2) b(1,2) s_def ..
  have sh: "shape s q1 i1" and hp: "heap_ok (bufs s) (mset q1 + mset (drop i1 q1) + others fmt s)" using ok5 unfolding stream_ok_def by auto
  have empty: "stream_data s = None \<longleftrightarrow> q1 = []" using sh linked_head [of "bufs s" "stream_data s" q1] unfolding shape_def by (cases q1) auto
  show ?thesis
  proof (cases "q1 = []")
    case True
    then have "q = []" "i = 0 \<or> q = []" using a(4) by auto
    with True ok5 eq empty show ?thesis by (intro exI [of _ s] exI [of _ q1] exI [of _ i1]) auto
  next
    case False
    obtain st' k where r: "reduce_queue fuel s = Some st'" "k \<le> i1" "shape st' (drop k q1) (i1 - k)"
      "heap_ok (bufs st') (mset (drop k q1) + mset (drop i1 q1) + others fmt s)" "frame q1 (others fmt s) (bufs s) (bufs st')"
      "\<forall>a\<in>set (take k q1). a \<notin># others fmt s" "0 < i1 \<and> hd q1 \<notin># others fmt s \<longrightarrow> 0 < k"
      "\<exists>h p n. st' = s\<lparr>bufs := h, stream_data := p, queue_size := n\<rparr>" using reduce_queue_ok [OF sh False hp fu1] by blast
    have fld: "st_clients st' = st_clients s" "st_pending st' = st_pending s" "others fmt st' = others fmt s" "st_format st' = st_format s" "handed st' = handed s" "st_running st' = st_running s" using r(8) by (auto simp: others_def)
    have "listener_ok ok (bufs st') (drop k q1) c" if c: "c \<in> set (st_clients s @ st_pending s)" for c
    proof -
      have "opt_mset (lrefbuf c) \<subseteq># others fmt s" by (rule subset_mset.order_trans [OF refs_member [OF c]]) (simp add: others_def)
      moreover have "listener_ok ok (bufs s) q1 c" using c ok5 unfolding stream_ok_def by auto
      moreover from this calculation(1) have "listener_ok ok (bufs st') q1 c" by (rule listener_ok_frame [OF _ r(5)])
      ultimately show ?thesis using listener_ok_drop r(6) by blast
    qed
    moreover have "st_running s \<longrightarrow> state_ok (st_format s) (bufs st')"
      by (rule impI, rule state_keep [OF _ r(5)]) (use ok5 in \<open>auto simp: stream_ok_def others_def\<close>)
    moreover have "set (drop k q1) \<inter> set (plugin_holds fmt (st_format s)) = {}"
      using ok5 set_drop_subset [of k q1] unfolding stream_ok_def by blast
    moreover have "\<forall>x\<in>#refs (handed s). x \<notin> set (drop k q1)" using ok5 set_drop_subset [of k q1] unfolding stream_ok_def by blast
    ultimately have "stream_ok fmt ok state_ok st' (drop k q1) (i1 - k)" using r(2-4) fld unfolding stream_ok_def by auto
    moreover have "hd q \<notin> set (drop k q1)"
      if h: "queue_size_limit st < queue_size st" "0 < i" and qn: "q \<noteq> []" and h3: "hd q \<notin># refs (st_pending st)"
    proof -
      have hq: "hd q1 = hd q" "hd q \<in> set q" using a(4) qn by auto
      have "hd q1 \<notin># refs (st_pending st2)" using h3 a(7,8) hq by auto
      then have "hd q1 \<notin># others fmt s" using b(4) h(1) a(9,10) False so by auto
      then have "0 < k" using r(7) a(6) qn h(2) by auto
      moreover have "distinct q1" using sh unfolding shape_def by blast
      ultimately show ?thesis using hq(1) False by (cases q1; cases k) (auto dest: in_set_dropD)
    qed
    moreover have "length (drop k q1) \<le> Suc (length q)" using a(4,5) by simp
    ultimately show ?thesis using eq r(1) empty False by (intro exI [of _ st'] exI [of _ "drop k q1"] exI [of _ "i1 - k"]) auto
  qed
qed

end

end
