(* ===== verification/Mp3_Read.thy ===== *)
theory Mp3_Read
  imports Mp3 Stream_Round
begin

text \<open>
  Reading a source in the generic format: whatever the socket delivers, no buffer is used after it was
  freed and every reference is counted.
\<close>

section \<open>The invariant\<close>

text \<open>
  The metadata is a well-formed block that stands alone, the block that is being read is only the format's, a metadata block that
  has begun is not complete, and no update is waiting while \<open>inline_url\<close> points anywhere.
\<close>

definition alone :: "refbuf \<Rightarrow> bool" where
  "alone b \<longleftrightarrow> associated b = None \<and> bnext b = None"

text \<open>A block is as long as its first byte says.\<close>

definition block_ok :: "string \<Rightarrow> bool" where
  "block_ok t \<longleftrightarrow> t \<noteq> [] \<and> length t = 1 + 16 * code (hd t)"

lemma code_NUL: "code NUL = 0"
  by code_simp

lemma empty_metadata_ok: "block_ok empty_metadata" "length empty_metadata = 17"
  by (simp_all add: block_ok_def empty_metadata_def)

definition block_buffer :: "refbuf \<Rightarrow> bool" where
  "block_buffer b \<longleftrightarrow> alone b \<and> length (bdata b) = blen b \<and> block_ok (bdata b)"

text \<open>The metadata block that is being collected.\<close>

definition build_ok :: "mp3_state \<Rightarrow> bool" where
  "build_ok s \<longleftrightarrow> build_metadata_len s = 0 \<or>
     0 < build_metadata_offset s \<and> build_metadata_offset s < build_metadata_len s \<and> length (build_metadata s) = 4081 \<and>
     build_metadata_len s = 1 + 16 * code (hd (build_metadata s))"

lemma build_ok_update [simp]:
  "build_ok (s\<lparr>read_data := x\<rparr>) = build_ok s" "build_ok (s\<lparr>read_count := n\<rparr>) = build_ok s" "build_ok (s\<lparr>src := c\<rparr>) = build_ok s"
  "build_ok (s\<lparr>metadata := a\<rparr>) = build_ok s" "build_ok (s\<lparr>inline_url := u\<rparr>) = build_ok s"
  "build_ok (s\<lparr>update_metadata := p\<rparr>) = build_ok s" "build_ok (s\<lparr>m_offset := i\<rparr>) = build_ok s" "build_ok (s\<lparr>build_metadata_len := 0\<rparr>)"
  by (simp_all add: build_ok_def)

definition mp3_state_ok :: "(buffers \<Rightarrow> nat) \<Rightarrow> mp3_state \<Rightarrow> buffers \<Rightarrow> bool" where
  "mp3_state_ok malloc s h \<longleftrightarrow> malloc_ok malloc \<and> (update_metadata s \<longrightarrow> inline_url s = None) \<and>
     build_ok s \<and> (\<exists>m. h (metadata s) = Some m \<and> block_buffer m) \<and>
     (\<forall>a. read_data s = Some a \<longrightarrow> (\<exists>b. h a = Some b \<and> rcount b = 1 \<and> alone b))"

definition mp3_ok :: "(buffers \<Rightarrow> nat) \<Rightarrow> nat multiset \<Rightarrow> mp3_state \<Rightarrow> buffers \<Rightarrow> bool" where
  "mp3_ok malloc R s h \<longleftrightarrow> heap_ok h (R + mset (mp3_holds s)) \<and> mp3_state_ok malloc s h"

text \<open>What an operation of the format may do to the buffers others refer to.\<close>

definition mp3_step :: "(buffers \<Rightarrow> nat) \<Rightarrow> nat list \<Rightarrow> nat multiset \<Rightarrow> mp3_state \<Rightarrow> buffers \<Rightarrow> mp3_state \<Rightarrow> buffers \<Rightarrow> bool" where
  "mp3_step malloc q R s h s' h' \<longleftrightarrow> mp3_ok malloc R s' h' \<and> frame q R h h' \<and>
     (\<forall>x\<in>#R. x \<in> set (mp3_holds s') \<longrightarrow> x \<in> set (mp3_holds s))"

lemma mset_mp3_holds: "mset (mp3_holds s) = add_mset (metadata s) (opt_mset (read_data s))"
  by (simp add: mp3_holds_def split: option.splits)

lemma set_mp3_holds: "set (mp3_holds s) = insert (metadata s) (set_option (read_data s))"
  by (auto simp: mp3_holds_def split: option.splits)

lemma mp3_step_refl:
  assumes "mp3_ok malloc R s h"
  shows "mp3_step malloc q R s h s h"
  using assms frame_refl [of h "R + mset (mp3_holds s)" R q] unfolding mp3_step_def mp3_ok_def by simp

lemma mp3_step_trans:
  "mp3_step malloc q R s1 h1 s2 h2 \<Longrightarrow> mp3_step malloc q R s2 h2 s3 h3 \<Longrightarrow> mp3_step malloc q R s1 h1 s3 h3"
  unfolding mp3_step_def by (meson frame_trans)

text \<open>The fields the invariant depends on.\<close>

lemma mp3_ok_cong:
  assumes "mp3_ok malloc R s h" "metadata s' = metadata s" "read_data s' = read_data s"
    and "update_metadata s' \<longrightarrow> inline_url s' = None" "build_ok s'"
  shows "mp3_ok malloc R s' h"
  using assms unfolding mp3_ok_def mp3_state_ok_def mset_mp3_holds by simp

lemma mp3_step_cong:
  assumes "mp3_step malloc q R s h s' h'" "metadata s'' = metadata s'" "read_data s'' = read_data s'"
    and "update_metadata s'' \<longrightarrow> inline_url s'' = None" "build_ok s''"
  shows "mp3_step malloc q R s h s'' h'"
  using assms mp3_ok_cong [OF _ assms(2-5)] unfolding mp3_step_def set_mp3_holds by auto

lemma mp3_free:
  assumes "mp3_ok malloc R s h"
  shows "h (malloc h) = None" "malloc h \<notin># R" "malloc h \<notin> set (mp3_holds s)"
proof -
  have ok: "heap_ok h (R + mset (mp3_holds s))" using assms unfolding mp3_ok_def by blast
  show f: "h (malloc h) = None" using assms heap_okD(1) [OF ok] unfolding mp3_ok_def mp3_state_ok_def malloc_ok_def by blast
  have "count (R + mset (mp3_holds s)) (malloc h) = 0" by (rule heap_okD(4) [OF ok f])
  then show "malloc h \<notin># R" "malloc h \<notin> set (mp3_holds s)" by (simp_all add: not_in_iff count_mset_0_iff)
qed

section \<open>The block that is being read\<close>

lemma mp3_read_buffer:
  assumes "mp3_ok malloc R s h" "read_data s = Some a"
  obtains b where "h a = Some b" "rcount b = 1" "alone b" "a \<notin># R" "metadata s \<noteq> a" "assoc_refs h a = 0"
proof -
  obtain b where b: "h a = Some b" "rcount b = 1" "alone b" using assms unfolding mp3_ok_def mp3_state_ok_def by blast
  have ok: "heap_ok h (R + mset (mp3_holds s))" using assms unfolding mp3_ok_def by blast
  from heap_okD(2) [OF ok b(1)] b(2) assms(2)
  have "count R a = 0" "metadata s \<noteq> a" "assoc_refs h a = 0" by (auto simp: mset_mp3_holds split: if_splits)
  with b that show thesis by (simp add: not_in_iff)
qed

lemma mp3_new_buffer:
  assumes "mp3_ok malloc R s h" "read_data s = None"
  shows "mp3_step malloc q R s h (s\<lparr>read_data := Some (malloc h), read_count := n\<rparr>) (h(malloc h \<mapsto> refbuf_new k))"
proof -
  note f = mp3_free [OF assms(1)]
  have ok: "heap_ok h (R + mset (mp3_holds s))" and so: "mp3_state_ok malloc s h" using assms(1) unfolding mp3_ok_def by auto
  have "heap_ok (h(malloc h \<mapsto> refbuf_new k)) (add_mset (malloc h) (R + mset (mp3_holds s)))"
    by (rule heap_ok_new [OF ok f(1)]) (simp_all add: refbuf_new_def)
  moreover have "frame q R h (h(malloc h \<mapsto> refbuf_new k))"
    by (rule frame_update [OF ok _ f(2)]) (use f(1) in \<open>auto simp: refbuf_new_def\<close>)
  moreover have "metadata s \<noteq> malloc h" using f(3) by (auto simp: set_mp3_holds)
  ultimately show ?thesis using so assms(2) f(2)
    unfolding mp3_step_def mp3_ok_def mp3_state_ok_def mset_mp3_holds set_mp3_holds
    by (auto simp: refbuf_new_def alone_def add_mset_commute)
qed

lemma mp3_fill_buffer:
  assumes "mp3_ok malloc R s h" "read_data s = Some a" "h a = Some b"
    and "rcount b' = rcount b" "associated b' = associated b" "bnext b' = bnext b"
  shows "mp3_step malloc q R s h s (h(a \<mapsto> b'))"
proof -
  obtain c where c: "h a = Some c" "rcount c = 1" "alone c" "a \<notin># R" "metadata s \<noteq> a" "assoc_refs h a = 0"
    using mp3_read_buffer [OF assms(1,2)] .
  have ok: "heap_ok h (R + mset (mp3_holds s))" and so: "mp3_state_ok malloc s h" using assms(1) unfolding mp3_ok_def by auto
  have "heap_ok (h(a \<mapsto> b')) (R + mset (mp3_holds s))" by (rule heap_ok_contents [OF ok assms(3)]) (use assms c in auto)
  moreover have "frame q R h (h(a \<mapsto> b'))" by (rule frame_update [OF ok _ c(4)]) (use assms in auto)
  ultimately show ?thesis using so c assms unfolding mp3_step_def mp3_ok_def mp3_state_ok_def alone_def by auto
qed

lemma mp3_drop_buffer:
  assumes "mp3_ok malloc R s h" "read_data s = Some a"
  shows "\<exists>h'. refbuf_release h (Some a) = Some h' \<and> mp3_step malloc q R s h (s\<lparr>read_data := None\<rparr>) h'"
proof -
  have ok: "heap_ok h (R + mset (mp3_holds s))" and so: "mp3_state_ok malloc s h" using assms(1) unfolding mp3_ok_def by auto
  let ?X = "add_mset (metadata s) R"
  have hx: "heap_ok h (add_mset a ?X)" using ok assms(2) by (simp add: mset_mp3_holds add_mset_commute)
  obtain h' where h': "refbuf_release h (Some a) = Some h'" "heap_ok h' ?X" "kept h h'" using refbuf_release_ok [OF hx] by blast
  have f: "frame q ?X h h'" by (rule frame_kept [OF hx, of _ "{#}"]) (use h' in auto)
  obtain m where m: "h (metadata s) = Some m" "block_buffer m" using so unfolding mp3_state_ok_def by blast
  note d = frameD [OF f _ m(1)]
  obtain m' where "h' (metadata s) = Some m'" "block_buffer m'" by (rule d) (use m(2) in \<open>auto simp: block_buffer_def alone_def\<close>)
  moreover have "build_ok (s\<lparr>read_data := None\<rparr>)" using so by (simp add: mp3_state_ok_def build_ok_def)
  ultimately have "mp3_step malloc q R s h (s\<lparr>read_data := None\<rparr>) h'" using so h'(2) frame_mono [OF f, of R] assms(2)
    unfolding mp3_step_def mp3_ok_def mp3_state_ok_def mset_mp3_holds set_mp3_holds by auto
  with h'(1) show ?thesis by blast
qed

section \<open>New metadata\<close>

text \<open>A new metadata block takes the place of the old one.\<close>

lemma mp3_swap_metadata:
  assumes "mp3_ok malloc R s h" "rcount b = 1" "block_buffer b" "metadata s' = malloc h" "read_data s' = read_data s"
    and "update_metadata s' \<longrightarrow> inline_url s' = None" "build_ok s'"
  shows "\<exists>h'. refbuf_release (h(malloc h \<mapsto> b)) (Some (metadata s)) = Some h' \<and> mp3_step malloc q R s h s' h'"
proof -
  note f = mp3_free [OF assms(1)]
  let ?p = "malloc h" and ?m = "metadata s" and ?Y = "R + opt_mset (read_data s)"
  have ok: "heap_ok h (R + mset (mp3_holds s))" and so: "mp3_state_ok malloc s h" using assms(1) unfolding mp3_ok_def by auto
  have al: "associated b = None" "bnext b = None" using assms(3) unfolding block_buffer_def alone_def by auto
  have h1: "heap_ok (h(?p \<mapsto> b)) (add_mset ?m (add_mset ?p ?Y))"
    using heap_ok_new [OF ok f(1) assms(2) al(1)] by (simp add: mset_mp3_holds add_mset_commute ac_simps)
  obtain h' where h': "refbuf_release (h(?p \<mapsto> b)) (Some ?m) = Some h'" "heap_ok h' (add_mset ?p ?Y)" "kept (h(?p \<mapsto> b)) h'"
    using refbuf_release_ok [OF h1] by blast
  have pY: "?p \<notin># ?Y" using f(2,3) by (auto simp: set_mp3_holds opt_mset_def split: option.splits)
  have sub: "?Y \<subseteq># R + mset (mp3_holds s)" by (simp add: mset_mp3_holds)
  have f1: "frame r ?Y h (h(?p \<mapsto> b))" for r by (rule frame_update [OF ok sub pY]) (use f(1) al in auto)
  have f2: "frame r (add_mset ?p ?Y) (h(?p \<mapsto> b)) h'" for r by (rule frame_kept [OF h1, of _ "{#}"]) (use h' in auto)
  have fY: "frame r ?Y h h'" for r by (rule frame_trans [OF f1 frame_mono [OF f2]]) simp
  have pb: "(h(?p \<mapsto> b)) ?p = Some b" by simp
  note dp = frameD [OF f2 [of "[]"] _ pb]
  obtain m where m: "h' ?p = Some m" "block_buffer m" by (rule dp) (use assms(3) in \<open>auto simp: block_buffer_def alone_def\<close>)
  have rd: "\<exists>c. h' a = Some c \<and> rcount c = 1 \<and> alone c" if a: "read_data s = Some a" for a
  proof -
    obtain c where c: "h a = Some c" "rcount c = 1" "alone c" using so a unfolding mp3_state_ok_def by blast
    have "a \<in># ?Y" using a by simp
    note d = frameD [OF fY [of "[]"] this c(1)]
    obtain c' where c': "h' a = Some c'" "associated c' = associated c" "bnext c' = bnext c" "rcount c' = 1"
      by (rule d) (use c(2) in auto)
    with c(3) show ?thesis unfolding alone_def by simp
  qed
  have "malloc_ok malloc" using so unfolding mp3_state_ok_def by blast
  with m rd assms(4-7) have "mp3_state_ok malloc s' h'" unfolding mp3_state_ok_def by auto
  moreover have "R + mset (mp3_holds s') = add_mset ?p ?Y" using assms(4,5) by (simp add: mset_mp3_holds)
  ultimately have "mp3_ok malloc R s' h'" using h'(2) unfolding mp3_ok_def by presburger
  moreover have "frame q R h h'" by (rule frame_mono [OF fY]) simp
  moreover have "x \<in> set (mp3_holds s)" if "x \<in># R" "x \<in> set (mp3_holds s')" for x
    using that f(2) assms(4,5) by (auto simp: set_mp3_holds)
  ultimately show ?thesis using h'(1) unfolding mp3_step_def by blast
qed

text \<open>The block for a title always has room for its text.\<close>

lemma meta_block_total: "\<exists>t. meta_block s None (meta_len s None) = Some t"
proof -
  have "1 + length (title_text s) < ((meta_len s None - 1) div 16 + 1) * 16 + 1" if "url s = Some u" for u
  proof -
    have "1 + length (title_text s) \<le> meta_len s None"
      using that by (auto simp: title_text_def meta_len_def opt_len_def split: option.splits)
    moreover have "n \<le> ((n - 1) div 16 + 1) * 16" for n :: nat
      using div_mult_mod_eq [of "n - 1" 16] mod_less_divisor [of 16 "n - 1"] by simp
    from this [of "meta_len s None"] calculation show ?thesis by simp
  qed
  then show ?thesis by (auto simp: meta_block_def Let_def split: option.splits)
qed

lemma length_pad [simp]: "length (pad n s) = n"
  by (simp add: pad_def)

lemma code_char: "n < 256 \<Longrightarrow> code (char_of n) = n"
  by (simp add: of_char_of)

lemma meta_block_ok:
  assumes "meta_block s inline len = Some t" "0 < len" "len \<le> MAX_META_LEN"
  shows "block_ok t"
proof -
  define n where "n = (len - 1) div 16 + 1"
  have n: "0 < n" "n < 256" using assms(2,3) by (auto simp: n_def MAX_META_LEN_def)
  have "\<exists>rest. t = pad (n * 16 + 1) (char_of n # rest)"
  proof -
    obtain k where k: "n * 16 = Suc k" using n(1) by (cases "n * 16") auto
    then have "fst (snprintf (n * 16 + 1) (char_of n # title_text s)) = char_of n # take k (title_text s)" by (simp add: snprintf_def)
    with assms(1) show ?thesis
      unfolding meta_block_def Let_def n_def [symmetric] by (auto split: option.splits if_splits)
  qed
  then obtain rest where t: "t = pad (n * 16 + 1) (char_of n # rest)" by blast
  then have "hd t = char_of n" by (simp add: pad_def)
  with code_char [OF n(2)] show ?thesis unfolding block_ok_def by (metis length_pad t add.commute length_greater_0_conv mult.commute zero_less_Suc plus_1_eq_Suc)
qed

lemma mp3_refresh_title:
  assumes "mp3_ok malloc R s h"
  shows "\<exists>s' h'. refresh_title malloc s h = Some (s', h') \<and> mp3_step malloc q R s h s' h' \<and> read_data s' = read_data s \<and> read_count s' = read_count s"
proof (cases "update_metadata s")
  case False
  with mp3_step_refl [OF assms] show ?thesis by (simp add: refresh_title_def)
next
  case True
  have so: "mp3_state_ok malloc s h" using assms unfolding mp3_ok_def by blast
  with True have inl: "inline_url s = None" unfolding mp3_state_ok_def by blast
  obtain t where t: "meta_block s None (meta_len s None) = Some t" using meta_block_total by blast
  show ?thesis
  proof (cases "meta_len s None > MAX_META_LEN")
    case big: True
    have "mp3_step malloc q R s h (s\<lparr>update_metadata := False\<rparr>) h"
      by (rule mp3_step_cong [OF mp3_step_refl [OF assms]]) (use so in \<open>auto simp: mp3_state_ok_def\<close>)
    with True big inl show ?thesis by (simp add: refresh_title_def mp3_set_title_def Let_def)
  next
    case False
    let ?b = "(refbuf_new (length t))\<lparr>bdata := t\<rparr>" and ?s = "s\<lparr>metadata := malloc h, update_metadata := False\<rparr>"
    have "0 < meta_len s None" "meta_len s None \<le> MAX_META_LEN" using False by (simp_all add: meta_len_def)
    then have "block_buffer ?b" using meta_block_ok [OF t] by (simp add: block_buffer_def alone_def refbuf_new_def)
    then have "\<exists>h'. refbuf_release (h(malloc h \<mapsto> ?b)) (Some (metadata s)) = Some h' \<and> mp3_step malloc q R s h ?s h'"
      by (intro mp3_swap_metadata [OF assms]) (use so in \<open>auto simp: refbuf_new_def mp3_state_ok_def\<close>)
    then obtain h' where "refbuf_release (h(malloc h \<mapsto> ?b)) (Some (metadata s)) = Some h'" "mp3_step malloc q R s h ?s h'" by blast
    with True False inl t show ?thesis by (simp add: refresh_title_def mp3_set_title_def Let_def)
  qed
qed

section \<open>Metadata in the stream\<close>

definition collected :: "mp3_state \<Rightarrow> bool" where
  "collected s \<longleftrightarrow> length (build_metadata s) = 4081 \<and> build_metadata_len s = 1 + 16 * code (hd (build_metadata s))"

lemma code_bound: "code c \<le> 255"
  using nat_of_char_less_256 [of c] by linarith

lemma collected_block:
  assumes "collected s" "1 < build_metadata_len s"
  shows "block_buffer ((refbuf_new (build_metadata_len s))\<lparr>bdata := take (build_metadata_len s) (build_metadata s)\<rparr>)"
proof -
  have b: "length (build_metadata s) = 4081" "build_metadata_len s = 1 + 16 * code (hd (build_metadata s))" using assms(1) unfolding collected_def by auto
  have len: "length (take (build_metadata_len s) (build_metadata s)) = build_metadata_len s" using b code_bound [of "hd (build_metadata s)"] by simp
  moreover have "hd (take (build_metadata_len s) (build_metadata s)) = hd (build_metadata s)" using assms(2) by (simp add: hd_take)
  ultimately show ?thesis using b(2) assms(2) unfolding block_buffer_def block_ok_def alone_def by (auto simp: refbuf_new_def)
qed

lemma mp3_new_metadata:
  assumes "mp3_ok malloc R (s\<lparr>build_metadata_len := 0\<rparr>) h" "\<not> update_metadata s" "collected s"
  shows "\<exists>s' h' fine. new_metadata malloc s h = Some (s', h', fine) \<and>
    mp3_step malloc q R (s\<lparr>build_metadata_len := 0\<rparr>) h (s'\<lparr>build_metadata_len := 0\<rparr>) h' \<and> read_data s' = read_data s \<and> \<not> update_metadata s'"
proof -
  have ok: "heap_ok h (R + mset (mp3_holds s))" and so: "mp3_state_ok malloc (s\<lparr>build_metadata_len := 0\<rparr>) h"
    using assms(1) unfolding mp3_ok_def mset_mp3_holds by auto
  obtain old where old: "h (metadata s) = Some old" using so unfolding mp3_state_ok_def by auto
  let ?t = "take (build_metadata_len s) (build_metadata s)" and ?p = "malloc h"
  let ?b = "(refbuf_new (build_metadata_len s))\<lparr>bdata := ?t\<rparr>"
  let ?u = "map_option (\<lambda>k. (?p, k + 1)) (strstr (c_str (?t @ [NUL]) 1) (''StreamUrl='' @ [QUOTE]))"
  have new: "rcount ?b = 1" by (simp add: refbuf_new_def)
  consider "\<not> (build_metadata_len s > 1 \<and> strcmp (c_str (build_metadata s) 1) (c_str (bdata old @ [NUL]) 1) \<noteq> 0)"
    | "build_metadata_len s > 1 \<and> strcmp (c_str (build_metadata s) 1) (c_str (bdata old @ [NUL]) 1) \<noteq> 0"
      "strncmp (c_str (?t @ [NUL]) 1) ''StreamTitle='' 12 = 0"
    | "build_metadata_len s > 1 \<and> strcmp (c_str (build_metadata s) 1) (c_str (bdata old @ [NUL]) 1) \<noteq> 0"
      "strncmp (c_str (?t @ [NUL]) 1) ''StreamTitle='' 12 \<noteq> 0" by blast
  then show ?thesis
  proof cases
    case 1
    with old mp3_step_refl [OF assms(1)] assms(2) show ?thesis by (auto simp: new_metadata_def)
  next
    case 2
    let ?s = "s\<lparr>metadata := ?p, inline_url := ?u\<rparr>"
    let ?o = "s\<lparr>build_metadata_len := 0\<rparr>" and ?n = "?s\<lparr>build_metadata_len := 0\<rparr>"
    have "\<exists>h'. refbuf_release (h(?p \<mapsto> ?b)) (Some (metadata ?o)) = Some h' \<and> mp3_step malloc q R ?o h ?n h'"
      by (rule mp3_swap_metadata [OF assms(1) new collected_block [OF assms(3) conjunct1 [OF 2(1)]]]) (use assms(2) in simp_all)
    then obtain h' where r: "refbuf_release (h(?p \<mapsto> ?b)) (Some (metadata s)) = Some h'" "mp3_step malloc q R ?o h ?n h'" by auto
    have "new_metadata malloc s h = Some (?s, h', True)"
      unfolding new_metadata_def old option.case if_P [OF 2(1)] Let_def if_P [OF 2(2)] r(1) by simp
    with r(2) assms(2) show ?thesis by auto
  next
    case 3
    note f = mp3_free [OF assms(1)]
    have al: "associated ?b = None" by (simp add: refbuf_new_def)
    have h1: "heap_ok (h(?p \<mapsto> ?b)) (add_mset ?p (R + mset (mp3_holds s)))" by (rule heap_ok_new [OF ok f(1) new(1) al])
    have "release (Suc 99) (h(?p \<mapsto> ?b)) ?p = Some (h(?p := None))" using release_flat [of "h(?p \<mapsto> ?b)" ?p ?b 99] al new(1) by simp
    then have r: "refbuf_release (h(?p \<mapsto> ?b)) (Some ?p) = Some h"
      using f(1) by (simp add: refbuf_release_def RELEASE_FUEL_def fun_upd_idem)
    have "new_metadata malloc s h = Some (s, h, False)"
      unfolding new_metadata_def old option.case if_P [OF 3(1)] Let_def if_not_P [OF 3(2)] r by simp
    with mp3_step_refl [OF assms(1)] assms(2) show ?thesis by auto
  qed
qed

lemma start_block_fields [simp]:
  "metadata (start_block s c) = metadata s" "read_data (start_block s c) = read_data s" "update_metadata (start_block s c) = update_metadata s"
  "inline_url (start_block s c) = inline_url s"
  by (simp_all add: start_block_def)

lemma start_block_ok:
  "build_metadata_len s = 0 \<or> build_metadata_offset s < build_metadata_len s \<Longrightarrow>
   build_metadata_offset (start_block s c) < build_metadata_len (start_block s c)"
  by (auto simp: start_block_def)

text \<open>Collecting bytes of a block keeps its length byte in front.\<close>

lemma collect_ok:
  assumes "build_ok s" "xs \<noteq> []" "t = start_block s (hd xs)" "off = build_metadata_offset t" "n = build_metadata_len t - off"
    and "j \<le> length xs" "j \<le> n" "0 < j \<or> n = 1"
  shows "collected (t\<lparr>build_metadata := put_at off (take j xs) (build_metadata t)\<rparr>)"
proof (cases "build_metadata_len s = 0")
  case True
  then have t: "off = 0" "build_metadata_len t = 1 + code (hd xs) * 16" "build_metadata t = replicate 4081 NUL"
    using assms(3,4) by (simp_all add: start_block_def)
  have len: "length (put_at off (take j xs) (build_metadata t)) = 4081" using t assms(5-7) code_bound [of "hd xs"] by (simp add: put_at_def)
  have "code (hd (put_at off (take j xs) (build_metadata t))) = code (hd xs)"
  proof (cases "j = 0")
    case True
    with assms(5,8) t have "code (hd xs) = 0" by simp
    moreover have "hd (put_at off (take j xs) (build_metadata t)) = NUL" using True t by (simp add: put_at_def hd_replicate)
    ultimately show ?thesis using code_NUL by simp
  next
    case False
    with t assms(2) show ?thesis by (simp add: put_at_def hd_append hd_take)
  qed
  with len t(2) show ?thesis unfolding collected_def by simp
next
  case False
  then have t: "t = s" "0 < off" "off < build_metadata_len s" "length (build_metadata s) = 4081" "build_metadata_len s = 1 + 16 * code (hd (build_metadata s))"
    using assms(1,3,4) by (auto simp: start_block_def build_ok_def)
  have "build_metadata_len s \<le> 4081" using t(5) code_bound [of "hd (build_metadata s)"] by simp
  then have "length (put_at off (take j xs) (build_metadata s)) = 4081" using t assms(5-7) by (simp add: put_at_def)
  moreover have "hd (put_at off (take j xs) (build_metadata s)) = hd (build_metadata s)"
    using t by (cases "build_metadata s"; cases off) (simp_all add: put_at_def)
  ultimately show ?thesis using t unfolding collected_def by simp
qed

text \<open>The loop ends with all bytes looked at or with a block of a wrong format, and never runs into a block that is complete already.\<close>

lemma mp3_filter_loop:
  assumes "mp3_ok malloc R s h" "\<not> update_metadata s"
  shows "\<exists>s' h' audio fine. filter_loop malloc s h acc xs = Some (s', h', audio, fine) \<and>
    mp3_step malloc q R s h (if fine then s' else s'\<lparr>build_metadata_len := 0\<rparr>) h' \<and> read_data s' = read_data s"
  using assms
proof (induction malloc s h acc xs rule: filter_loop.induct)
  case (1 malloc s h acc xs)
  let ?n = "nat (inline_metadata_interval s - m_offset s)"
  have inv: "build_ok s" using 1(3) unfolding mp3_ok_def mp3_state_ok_def by blast
  note stay = mp3_step_cong [OF mp3_step_refl [OF 1(3)]]
  consider "xs = []" | "xs \<noteq> []" "length xs \<le> ?n" | "xs \<noteq> []" "\<not> length xs \<le> ?n" "?n \<noteq> 0" | "xs \<noteq> []" "\<not> length xs \<le> ?n" "?n = 0" by blast
  then show ?case
  proof cases
    case a: 1
    with mp3_step_refl [OF 1(3)] show ?thesis by (auto simp: filter_loop.simps)
  next
    case 2
    have "mp3_step malloc q R s h (s\<lparr>m_offset := m_offset s + int (length xs)\<rparr>) h" by (rule stay) (use 1(4) inv in auto)
    with 2 show ?thesis by (subst filter_loop.simps) auto
  next
    case 3
    let ?s = "s\<lparr>m_offset := m_offset s + int ?n\<rparr>"
    have st: "mp3_step malloc q R s h ?s h" by (rule stay) (use 1(4) inv in auto)
    then have "mp3_ok malloc R ?s h" unfolding mp3_step_def by blast
    with 1(1) [OF 3(1) refl 3(2,3)] 1(4) obtain s' h' audio fine where
      r: "filter_loop malloc ?s h (acc @ take ?n xs) (drop ?n xs) = Some (s', h', audio, fine)"
      "mp3_step malloc q R ?s h (if fine then s' else s'\<lparr>build_metadata_len := 0\<rparr>) h'" "read_data s' = read_data s" by auto
    from r(1) 3 have "filter_loop malloc s h acc xs = Some (s', h', audio, fine)" by (subst filter_loop.simps) (simp add: Let_def)
    with mp3_step_trans [OF st r(2)] r(3) show ?thesis by blast
  next
    case 4
    define t where "t = start_block s (hd xs)"
    define off where "off = build_metadata_offset t"
    define rem where "rem = build_metadata_len t - off"
    have tf: "metadata t = metadata s" "read_data t = read_data s" "\<not> update_metadata t" unfolding t_def using 1(4) by simp_all
    have tl: "off < build_metadata_len t" unfolding t_def off_def by (rule start_block_ok) (use inv in \<open>auto simp: build_ok_def\<close>)
    then have rem: "rem \<noteq> 0" unfolding rem_def by simp
    have eq: "filter_loop malloc s h acc xs = (if length xs < rem then
        Some (t\<lparr>build_metadata := put_at off xs (build_metadata t), build_metadata_offset := off + length xs\<rparr>, h, acc, True)
      else case new_metadata malloc (t\<lparr>build_metadata := put_at off (take (rem - 1) xs) (build_metadata t)\<rparr>) h of
         None \<Rightarrow> None | Some (s, h, False) \<Rightarrow> Some (s, h, acc, False)
       | Some (s, h, True) \<Rightarrow> filter_loop malloc (s\<lparr>m_offset := 0, build_metadata_len := 0\<rparr>) h acc (drop rem xs))"
      using 4 rem by (subst filter_loop.simps) (simp only: Let_def t_def [symmetric] off_def [symmetric] rem_def [symmetric] if_False if_True simp_thms)
    note col = collect_ok [OF inv 4(1) t_def off_def rem_def]
    show ?thesis
    proof (cases "length xs < rem")
      case True
      let ?t = "t\<lparr>build_metadata := put_at off xs (build_metadata t), build_metadata_offset := off + length xs\<rparr>"
      have "build_ok ?t" using col [of "length xs"] True 4(1) unfolding build_ok_def collected_def rem_def by auto
      then have "mp3_step malloc q R s h ?t h" by (intro stay) (use tf in auto)
      with True eq tf(2) show ?thesis by auto
    next
      case False
      let ?t = "t\<lparr>build_metadata := put_at off (take (rem - 1) xs) (build_metadata t)\<rparr>"
      have st: "mp3_step malloc q R s h (?t\<lparr>build_metadata_len := 0\<rparr>) h" by (rule stay) (use tf in auto)
      then have "mp3_ok malloc R (?t\<lparr>build_metadata_len := 0\<rparr>) h" unfolding mp3_step_def by blast
      moreover have "rem - 1 \<le> length xs" "0 < rem - 1 \<or> rem = 1" using False rem by linarith+
      then have "collected ?t" using col [of "rem - 1"] by simp
      ultimately obtain s1 h1 fine where
        n: "new_metadata malloc ?t h = Some (s1, h1, fine)" "mp3_step malloc q R (?t\<lparr>build_metadata_len := 0\<rparr>) h (s1\<lparr>build_metadata_len := 0\<rparr>) h1"
        "read_data s1 = read_data s" "\<not> update_metadata s1" using mp3_new_metadata [of malloc R ?t h q] tf by auto
      note st1 = mp3_step_trans [OF st n(2)]
      show ?thesis
      proof (cases fine)
        case wrong: False
        with eq False n(1) have "filter_loop malloc s h acc xs = Some (s1, h1, acc, False)" by simp
        with st1 n(3) show ?thesis by auto
      next
        case fine: True
        let ?s = "s1\<lparr>m_offset := 0, build_metadata_len := 0\<rparr>"
        have st2: "mp3_step malloc q R s h ?s h1" by (rule mp3_step_cong [OF st1]) (use n(4) in \<open>auto simp: build_ok_def\<close>)
        then have "mp3_ok malloc R ?s h1" unfolding mp3_step_def by blast
        with 1(2) [OF 4(1) refl 4(2) _ t_def off_def rem_def _ False n(1) refl refl] 4(3) rem n(4) fine obtain s' h' audio fn where
          r: "filter_loop malloc ?s h1 acc (drop rem xs) = Some (s', h', audio, fn)"
          "mp3_step malloc q R ?s h1 (if fn then s' else s'\<lparr>build_metadata_len := 0\<rparr>) h'" "read_data s' = read_data s1" by auto
        from eq False n(1) fine r(1) have "filter_loop malloc s h acc xs = Some (s', h', audio, fn)" by simp
        with mp3_step_trans [OF st2 r(2)] r(3) n(3) show ?thesis by auto
      qed
    qed
  qed
qed

section \<open>Reading a block\<close>

text \<open>The part of \<open>complete_read\<close> before the client is read: there is a block to read into.\<close>

definition read_block :: "(buffers \<Rightarrow> nat) \<Rightarrow> mp3_state \<Rightarrow> buffers \<Rightarrow> nat \<times> mp3_state \<times> buffers" where
  "read_block malloc s h =
     (case read_data s of
        Some a \<Rightarrow> (a, s, h)
      | None \<Rightarrow> (malloc h, s\<lparr>read_data := Some (malloc h), read_count := 0\<rparr>, h(malloc h \<mapsto> refbuf_new REFBUF_SIZE)))"

lemma read_block_ok:
  assumes "mp3_ok malloc R s h"
  obtains a s' h' where "read_block malloc s h = (a, s', h')" "mp3_step malloc q R s h s' h'" "read_data s' = Some a"
    "update_metadata s' = update_metadata s" "inline_url s' = inline_url s"
proof (cases "read_data s")
  case None
  with mp3_new_buffer [OF assms None] that show thesis by (simp add: read_block_def)
next
  case (Some a)
  with mp3_step_refl [OF assms] that show thesis by (simp add: read_block_def)
qed

lemma mp3_complete_read:
  assumes "mp3_ok malloc R s h"
  shows "\<exists>full s' h'. complete_read malloc s h inp = Some (full, s', h') \<and> mp3_step malloc q R s h s' h' \<and> (full \<longrightarrow> read_data s' \<noteq> None)"
proof -
  obtain a s1 h1 where b: "read_block malloc s h = (a, s1, h1)" "mp3_step malloc q R s h s1 h1" "read_data s1 = Some a"
    using read_block_ok [OF assms] by metis
  obtain bytes rd c where c: "client_read_bytes (src s1) (REFBUF_SIZE - read_count s1) inp = (bytes, rd, c)" by (metis prod_cases3)
  define n where "n = read_count s1 + nat bytes"
  let ?s = "s1\<lparr>src := c\<rparr>"
  have ok1: "mp3_ok malloc R s1 h1" using b(2) unfolding mp3_step_def by blast
  then have so: "mp3_state_ok malloc s1 h1" unfolding mp3_ok_def by blast
  then have inv: "update_metadata s1 \<longrightarrow> inline_url s1 = None" "build_ok s1"
    unfolding mp3_state_ok_def by blast+
  obtain x where x: "h1 a = Some x" using mp3_read_buffer [OF ok1 b(3)] by metis
  have st: "mp3_step malloc q R s h (s1\<lparr>src := c, read_count := n\<rparr>) h1" for n
    by (rule mp3_step_cong [OF b(2)]) (use inv in auto)
  define hh where "hh = h1(a \<mapsto> x\<lparr>bdata := put_at (read_count s1) rd (bdata x)\<rparr>)"
  let ?t = "s1\<lparr>src := c, read_count := n\<rparr>"
  have ok2: "mp3_ok malloc R ?t h1" using st unfolding mp3_step_def by blast
  have st2: "mp3_step malloc q R s h ?t hh" unfolding hh_def
    by (rule mp3_step_trans [OF st mp3_fill_buffer [OF ok2 _ x]]) (use b(3) in simp_all)
  have ok3: "mp3_ok malloc R ?t hh" using st2 unfolding mp3_step_def by blast
  have st0: "mp3_step malloc q R s h ?s h1" using st [of "read_count s1"] by simp
  have ok0: "mp3_ok malloc R ?s h1" using st0 unfolding mp3_step_def by blast
  obtain k where k: "refbuf_release h1 (Some a) = Some k" "mp3_step malloc q R ?s h1 (?s\<lparr>read_data := None\<rparr>) k"
    using mp3_drop_buffer [OF ok0, of a] b(3) by auto
  obtain k' where k': "refbuf_release hh (Some a) = Some k'" "mp3_step malloc q R ?t hh (?t\<lparr>read_data := None\<rparr>) k'"
    using mp3_drop_buffer [OF ok3, of a] b(3) by auto
  have eq: "complete_read malloc s h inp =
     (if bytes < 0 then
        if con_error (con c) then Some (False, ?s\<lparr>read_data := None\<rparr>, k) else Some (False, ?s, h1)
      else if n < REFBUF_SIZE then
        if n = 0 then Some (False, ?t\<lparr>read_data := None\<rparr>, k') else Some (False, ?t, hh)
      else Some (True, ?t, hh))"
    unfolding complete_read_def read_block_def [symmetric] b(1) Let_def prod.case c 
    using x k(1) k'(1) by (simp add: n_def [symmetric] hh_def [symmetric])
  note drop = mp3_step_trans [OF st0 k(2)] mp3_step_trans [OF st2 k'(2)]
  consider "bytes < 0" "con_error (con c)" | "bytes < 0" "\<not> con_error (con c)" | "\<not> bytes < 0" "n < REFBUF_SIZE" "n = 0"
    | "\<not> bytes < 0" "n < REFBUF_SIZE" "n \<noteq> 0" | "\<not> bytes < 0" "\<not> n < REFBUF_SIZE" by blast
  then show ?thesis
    by cases (use eq drop st0 st2 b(3) in \<open>simp_all add: ex_bool_eq\<close>)
qed

section \<open>Delivering a block\<close>

text \<open>Tying a buffer to metadata turns a reference to the metadata into one of the buffer.\<close>

lemma heap_ok_attach:
  assumes "heap_ok h (add_mset m R)" "h a = Some b" "associated b = None" "assoc_refs h a = 0" "h m = Some c" "alone c" "m \<noteq> a"
    and "b' = b\<lparr>associated := Some m, sync_point := y\<rparr>"
  shows "heap_ok (h(a \<mapsto> b')) R" "x \<noteq> m \<Longrightarrow> assoc_refs (h(a \<mapsto> b')) x = assoc_refs h x"
proof -
  let ?h = "h(a \<mapsto> b')"
  note fin = heap_okD(1) [OF assms(1)]
  have "assoc_refs ?h x = assoc_refs ((h(a := None))(a \<mapsto> b')) x" for x by simp
  also have "\<dots> x = assoc_refs h x + (if x = m then 1 else 0)" for x
    using assoc_refs_new [of "h(a := None)" a b' x] assoc_refs_del [OF fin assms(2), of x] fin assms(3,8) by simp
  finally have as: "assoc_refs ?h x = assoc_refs h x + (if x = m then 1 else 0)" for x .
  then show "x \<noteq> m \<Longrightarrow> assoc_refs ?h x = assoc_refs h x" by simp
  show "heap_ok ?h R"
  proof (rule heap_okI)
    show "finite (dom ?h)" using fin by simp
    show "count R x = 0 \<and> assoc_refs ?h x = 0" if "?h x = None" for x
      using that heap_okD(4,5) [OF assms(1), of x] assms(5) unfolding as by (auto split: if_splits)
    show "rcount d = count R x + assoc_refs ?h x \<and> 0 < rcount d" if "?h x = Some d" for x d
      using that heap_okD(2,3) [OF assms(1), of x] assms(2,8) unfolding as by (auto split: if_splits)
    show "associated d = None \<and> bnext d = None" if "?h x = Some e" "associated e = Some n" "?h n = Some d" for x e n d
    proof (cases "x = a")
      case True
      with that assms(5-8) show ?thesis by (auto simp: alone_def)
    next
      case False
      then have e: "h x = Some e" using that(1) by simp
      have "n \<noteq> a" using assoc_refs_pos [OF fin e that(2)] assms(4) by auto
      with that(3) have "h n = Some d" by simp
      with e that(2) show ?thesis using heap_okD(6) [OF assms(1)] by blast
    qed
  qed
qed

lemma mp3_deliver:
  assumes "mp3_ok malloc (add_mset a R) s h" "read_data s = None" "h a = Some b" "rcount b = 1" "alone b"
    and "metadata s \<notin> set q" "a \<notin> set q"
  shows "\<exists>h' b'. deliver s h a = Some (s, h', Some a, True) \<and> heap_ok h' (add_mset a R + mset (mp3_holds s)) \<and> frame q R h h' \<and>
    mp3_state_ok malloc s h' \<and> h' a = Some b' \<and> rcount b' = 1 \<and> bnext b' = None \<and> assoc_refs h' a = 0"
proof -
  let ?m = "metadata s" and ?b = "b\<lparr>associated := Some (metadata s), sync_point := True\<rparr>"
  have ok: "heap_ok h (add_mset a R + mset (mp3_holds s))" and so: "mp3_state_ok malloc s h" using assms(1) unfolding mp3_ok_def by auto
  obtain m where m: "h ?m = Some m" "alone m" "block_buffer m" using so unfolding mp3_state_ok_def block_buffer_def by blast
  have cnt: "count R a = 0" "?m \<noteq> a" "assoc_refs h a = 0"
    using heap_okD(2) [OF ok assms(3)] assms(4) by (auto simp: mset_mp3_holds split: if_splits)
  let ?g = "h(?m \<mapsto> m\<lparr>rcount := rcount m + 1\<rparr>)"
  have g: "heap_ok ?g (add_mset ?m (add_mset a R + mset (mp3_holds s)))"
    using heap_okD(2) [OF ok m(1)] by (intro heap_ok_count [OF ok m(1)]) auto
  have gr: "assoc_refs ?g x = assoc_refs h x" for x by (rule assoc_refs_upd [OF heap_okD(1) [OF ok] m(1)]) simp
  have al: "associated b = None" "alone (m\<lparr>rcount := rcount m + 1\<rparr>)" using assms(5) m(2) unfolding alone_def by auto
  let ?h = "?g(a \<mapsto> ?b)"
  have at: "heap_ok ?h (add_mset a R + mset (mp3_holds s))" "x \<noteq> ?m \<Longrightarrow> assoc_refs ?h x = assoc_refs ?g x" for x
    using heap_ok_attach [OF g, of a b "m\<lparr>rcount := rcount m + 1\<rparr>" ?b True] assms(3) al cnt gr by auto
  have hc: "?h = (h(a \<mapsto> ?b))(?m \<mapsto> m\<lparr>rcount := rcount m + 1\<rparr>)" using cnt(2) by (simp add: fun_upd_twist)
  have dl: "deliver s h a = Some (s, ?h, Some a, True)" unfolding hc
    using assms(3) m(1) cnt(2) by (simp add: deliver_def refbuf_addref_def)
  have same: "\<exists>c c'. h x = Some c \<and> ?h x = Some c' \<and> blen c' = blen c \<and> bdata c' = bdata c \<and> associated c' = associated c \<and>
      bnext c' = bnext c \<and> sync_point c' = sync_point c \<and> (x \<notin> set q \<and> rcount c = 1 \<longrightarrow> rcount c' = 1)" if x: "x \<in># R" for x
  proof -
    obtain c where c: "h x = Some c" using heap_ok_live [OF ok, of x] x by auto
    have xa: "x \<noteq> a" using x cnt(1) by (metis not_in_iff)
    show ?thesis
    proof (cases "x = ?m")
      case True
      have "0 < count R ?m" using x True by simp
      then have "rcount m \<noteq> 1" using heap_okD(2) [OF ok m(1)] cnt(2) by (simp add: mset_mp3_holds)
      with True m(1) cnt(2) show ?thesis by simp
    qed (use c xa in simp)
  qed
  have "assoc_refs ?h x \<le> assoc_refs h x" if "x \<in> set q" for x using at(2) [of x] gr [of x] assms(6) that by force
  with same have fr: "frame q R h ?h" unfolding frame_def by blast
  have "mp3_state_ok malloc s ?h" using so m cnt(2) assms(2) unfolding mp3_state_ok_def block_buffer_def alone_def by auto
  moreover have "assoc_refs ?h a = 0" using at(2) [of a] gr cnt by simp
  ultimately show ?thesis using dl at(1) fr assms(4,5) unfolding alone_def by auto
qed

text \<open>
  Reading from the source, with or without metadata in the stream, in the form the streaming loop
  relies on.
\<close>

lemma set_mset_sub: "mset q \<subseteq># R \<Longrightarrow> x \<in> set q \<Longrightarrow> x \<in># R"
  by (meson mset_subset_eqD set_mset_mset in_multiset_in_set)

text \<open>A block that was read is taken from the format and kept while the title is made.\<close>

lemma mp3_take_block:
  assumes "mp3_ok malloc R s h" "read_data s = Some a" "mset q \<subseteq># R" "set q \<inter> set (mp3_holds s) = {}"
  obtains s' h' b where "refresh_title malloc (s\<lparr>read_data := None\<rparr>) h = Some (s', h')" "read_data s' = None"
    "mp3_ok malloc (add_mset a R) s' h'" "frame q (add_mset a R) h h'" "h' a = Some b" "rcount b = 1" "alone b"
    "\<forall>x\<in>#R. x \<in> set (mp3_holds s') \<longrightarrow> x \<in> set (mp3_holds s)" "a \<notin># R" "a \<notin> set q" "\<not> update_metadata s'"
proof -
  obtain c where c: "h a = Some c" "rcount c = 1" "alone c" "a \<notin># R" using mp3_read_buffer [OF assms(1,2)] by metis
  let ?s = "s\<lparr>read_data := None\<rparr>" and ?R = "add_mset a R"
  have "?R + mset (mp3_holds ?s) = R + mset (mp3_holds s)" using assms(2) by (simp add: mset_mp3_holds)
  moreover have "mp3_state_ok malloc ?s h" using assms(1) unfolding mp3_ok_def mp3_state_ok_def by auto
  ultimately have ok: "mp3_ok malloc ?R ?s h" using assms(1) unfolding mp3_ok_def by presburger
  obtain s' h' where r: "refresh_title malloc ?s h = Some (s', h')" "mp3_step malloc q ?R ?s h s' h'" "read_data s' = None"
    using mp3_refresh_title [OF ok, of q] by auto
  have aq: "a \<notin> set q" using assms(2,4) by (auto simp: set_mp3_holds)
  have f: "frame q ?R h h'" and ok': "mp3_ok malloc ?R s' h'" using r(2) unfolding mp3_step_def by auto
  note d = frameD [OF f _ c(1)]
  obtain b where b: "h' a = Some b" "rcount b = 1" "alone b" by (rule d) (use c aq in \<open>auto simp: alone_def\<close>)
  have hold: "\<forall>x\<in>#R. x \<in> set (mp3_holds s') \<longrightarrow> x \<in> set (mp3_holds s)" using r(2) unfolding mp3_step_def by (auto simp: set_mp3_holds)
  have "\<not> update_metadata s'" using r(1) by (auto simp: refresh_title_def split: if_splits option.splits)
  from that [OF r(1,3) ok' f b hold c(4) aq this] show thesis .
qed

definition got_ok :: "(buffers \<Rightarrow> nat) \<Rightarrow> nat list \<Rightarrow> nat multiset \<Rightarrow> mp3_state \<Rightarrow> buffers \<Rightarrow> mp3_state \<times> buffers \<times> nat option \<times> bool \<Rightarrow> bool" where
  "got_ok malloc q R s h r \<longleftrightarrow> (case r of (s', h', p, run) \<Rightarrow>
     heap_ok h' (opt_mset p + R + mset (mp3_holds s')) \<and> frame q R h h' \<and> (run \<longrightarrow> mp3_state_ok malloc s' h') \<and>
     (\<forall>x\<in>#R. x \<in> set (mp3_holds s') \<longrightarrow> x \<in> set (mp3_holds s)) \<and> fresh_buffer h' p)"

lemma got_nothing: "mp3_step malloc q R s h s' h' \<Longrightarrow> got_ok malloc q R s h (s', h', None, run)"
  unfolding got_ok_def mp3_step_def mp3_ok_def fresh_buffer_def by simp

lemma got_ok_trans:
  assumes "frame q R h h1" "\<forall>x\<in>#R. x \<in> set (mp3_holds s1) \<longrightarrow> x \<in> set (mp3_holds s)" "got_ok malloc q R s1 h1 r"
  shows "got_ok malloc q R s h r"
  using assms frame_trans [of q R h h1] unfolding got_ok_def by (cases r) auto

lemma mp3_stepD: "mp3_step malloc q R s h s' h' \<Longrightarrow> frame q R h h' \<and> (\<forall>x\<in>#R. x \<in> set (mp3_holds s') \<longrightarrow> x \<in> set (mp3_holds s))"
  unfolding mp3_step_def by blast

text \<open>A block that is released again, or delivered.\<close>

lemma mp3_give_back:
  assumes "mp3_ok malloc (add_mset a R) s h" "frame q (add_mset a R) h0 h" "\<forall>x\<in>#R. x \<in> set (mp3_holds s) \<longrightarrow> x \<in> set (mp3_holds s0)"
    and "read_data s = None" "h a = Some b" "rcount b = 1" "alone b"
  shows "\<exists>h'. refbuf_release h (Some a) = Some h' \<and> got_ok malloc q R s0 h0 (s, h', None, run)"
proof -
  let ?s = "s\<lparr>read_data := Some a\<rparr>"
  have ok: "mp3_ok malloc R ?s h" using assms(1,4-7) unfolding mp3_ok_def mp3_state_ok_def mset_mp3_holds by auto
  obtain h' where h': "refbuf_release h (Some a) = Some h'" "mp3_step malloc q R ?s h (?s\<lparr>read_data := None\<rparr>) h'"
    using mp3_drop_buffer [OF ok, of a q] by auto
  have e: "?s\<lparr>read_data := None\<rparr> = s" using assms(4) by simp
  have "frame q R h0 h'" using frame_trans [OF frame_mono [OF assms(2), of R]] h'(2) unfolding mp3_step_def by auto
  with h' assms(3) show ?thesis unfolding e got_ok_def mp3_step_def mp3_ok_def fresh_buffer_def by auto
qed

lemma mp3_hand_out:
  assumes "mp3_ok malloc (add_mset a R) s h" "frame q (add_mset a R) h0 h" "\<forall>x\<in>#R. x \<in> set (mp3_holds s) \<longrightarrow> x \<in> set (mp3_holds s0)"
    and "read_data s = None" "h a = Some b" "rcount b = 1" "alone b" "mset q \<subseteq># R" "set q \<inter> set (mp3_holds s0) = {}" "a \<notin> set q"
  shows "\<exists>r. deliver s h a = Some r \<and> got_ok malloc q R s0 h0 r"
proof -
  have mq: "metadata s \<notin> set q"
  proof
    assume m: "metadata s \<in> set q"
    then have "metadata s \<in> set (mp3_holds s0)" using assms(3) set_mset_sub [OF assms(8) m] by (simp add: set_mp3_holds)
    with m assms(9) show False by auto
  qed
  obtain h' b' where d: "deliver s h a = Some (s, h', Some a, True)" "heap_ok h' (add_mset a R + mset (mp3_holds s))" "frame q R h h'"
    "mp3_state_ok malloc s h'" "h' a = Some b'" "rcount b' = 1" "bnext b' = None" "assoc_refs h' a = 0"
    using mp3_deliver [OF assms(1,4-7) mq assms(10)] by blast
  have "frame q R h0 h'" by (rule frame_trans [OF frame_mono [OF assms(2)] d(3)]) simp
  with d assms(3) show ?thesis unfolding got_ok_def fresh_buffer_def by auto
qed

lemma mp3_get_no_meta_ok:
  assumes "mp3_ok malloc R s h" "mset q \<subseteq># R" "set q \<inter> set (mp3_holds s) = {}"
  shows "\<exists>r. mp3_get_no_meta malloc s h inp = Some r \<and> got_ok malloc q R s h r"
proof -
  obtain full s1 h1 where c: "complete_read malloc s h inp = Some (full, s1, h1)" "mp3_step malloc q R s h s1 h1" "full \<longrightarrow> read_data s1 \<noteq> None"
    using mp3_complete_read [OF assms(1)] by blast
  show ?thesis
  proof (cases full)
    case False
    with c got_nothing [OF c(2)] show ?thesis by (simp add: mp3_get_no_meta_def)
  next
    case True
    then obtain a where a: "read_data s1 = Some a" using c(3) by auto
    have ok: "mp3_ok malloc R s1 h1" and q: "set q \<inter> set (mp3_holds s1) = {}"
      using c(2) assms(3) set_mset_sub [OF assms(2)] unfolding mp3_step_def by blast+
    obtain s2 h2 b where t: "refresh_title malloc (s1\<lparr>read_data := None\<rparr>) h1 = Some (s2, h2)" "read_data s2 = None"
      "mp3_ok malloc (add_mset a R) s2 h2" "frame q (add_mset a R) h1 h2" "h2 a = Some b" "rcount b = 1" "alone b"
      "\<forall>x\<in>#R. x \<in> set (mp3_holds s2) \<longrightarrow> x \<in> set (mp3_holds s1)" "a \<notin> set q"
      using mp3_take_block [OF ok a assms(2) q] by metis
    obtain r where r: "deliver s2 h2 a = Some r" "got_ok malloc q R s1 h1 r"
      using mp3_hand_out [OF t(3,4,8,2,5,6,7) assms(2) q t(9)] by blast
    from got_ok_trans [OF conjunct1 [OF mp3_stepD [OF c(2)]] conjunct2 [OF mp3_stepD [OF c(2)]] r(2)] c(1) True a t(1) r(1) show ?thesis by (simp add: mp3_get_no_meta_def)
  qed
qed

lemma mp3_get_filter_meta_ok:
  assumes "mp3_ok malloc R s h" "mset q \<subseteq># R" "set q \<inter> set (mp3_holds s) = {}"
  shows "\<exists>r. mp3_get_filter_meta malloc s h inp = Some r \<and> got_ok malloc q R s h r"
proof -
  obtain full s1 h1 where c: "complete_read malloc s h inp = Some (full, s1, h1)" "mp3_step malloc q R s h s1 h1" "full \<longrightarrow> read_data s1 \<noteq> None"
    using mp3_complete_read [OF assms(1)] by blast
  show ?thesis
  proof (cases full)
    case False
    with c got_nothing [OF c(2)] show ?thesis by (simp add: mp3_get_filter_meta_def)
  next
    case True
    then obtain a where a: "read_data s1 = Some a" using c(3) by auto
    have ok: "mp3_ok malloc R s1 h1" and q: "set q \<inter> set (mp3_holds s1) = {}"
      using c(2) assms(3) set_mset_sub [OF assms(2)] unfolding mp3_step_def by blast+
    let ?R = "add_mset a R"
    obtain s2 h2 b where t: "refresh_title malloc (s1\<lparr>read_data := None\<rparr>) h1 = Some (s2, h2)" "read_data s2 = None"
      "mp3_ok malloc ?R s2 h2" "frame q ?R h1 h2" "h2 a = Some b" "rcount b = 1" "alone b"
      "\<forall>x\<in>#R. x \<in> set (mp3_holds s2) \<longrightarrow> x \<in> set (mp3_holds s1)" "a \<notin> set q" "\<not> update_metadata s2"
      using mp3_take_block [OF ok a assms(2) q] by metis
    obtain s3 h3 audio fine where l: "filter_loop malloc s2 h2 [] (take (read_count s2) (bdata b)) = Some (s3, h3, audio, fine)"
      "mp3_step malloc q ?R s2 h2 (if fine then s3 else s3\<lparr>build_metadata_len := 0\<rparr>) h3" "read_data s3 = None"
      using mp3_filter_loop [OF t(3,10), of "[]" _ q] t(2) by metis
    define s4 where "s4 = (if fine then s3 else s3\<lparr>build_metadata_len := 0\<rparr>)"
    have st4: "mp3_step malloc q ?R s2 h2 s4 h3" and rd4: "read_data s4 = None" using l(2,3) unfolding s4_def by auto
    have hs: "mp3_holds s4 = mp3_holds s3" unfolding s4_def mp3_holds_def by simp
    have ok3: "mp3_ok malloc ?R s4 h3" and f3: "frame q ?R h2 h3" using st4 unfolding mp3_step_def by auto
    note d = frameD [OF f3 _ t(5)]
    obtain b3 where b3: "h3 a = Some b3" "rcount b3 = 1" "alone b3" by (rule d) (use t(6,7,9) in \<open>auto simp: alone_def\<close>)
    let ?b = "b3\<lparr>bdata := audio @ drop (length audio) (bdata b3), blen := length audio\<rparr>"
    let ?s = "s4\<lparr>read_data := Some a\<rparr>" and ?h = "h3(a \<mapsto> ?b)"
    have okr: "mp3_ok malloc R ?s h3" using ok3 rd4 b3 unfolding mp3_ok_def mp3_state_ok_def mset_mp3_holds by auto
    have fill: "mp3_step malloc q R ?s h3 ?s ?h" by (rule mp3_fill_buffer [OF okr _ b3(1)]) simp_all
    then have "mp3_ok malloc R ?s ?h" unfolding mp3_step_def by blast
    then have ok4: "mp3_ok malloc ?R s4 ?h" using rd4 unfolding mp3_ok_def mp3_state_ok_def mset_mp3_holds by auto
    have hold: "\<forall>x\<in>#R. x \<in> set (mp3_holds s4) \<longrightarrow> x \<in> set (mp3_holds s1)" using st4 t(8) unfolding mp3_step_def by auto
    have b4: "?h a = Some ?b" "rcount ?b = 1" "alone ?b" using b3 unfolding alone_def by auto
    obtain c' r where r: "refbuf_release ?h (Some a) = Some c'" "got_ok malloc q R s4 ?h (s4, c', None, fine)"
      "deliver s4 ?h a = Some r" "got_ok malloc q R s4 ?h r"
    proof -
      have fr: "frame q ?R ?h ?h" by (rule frame_refl) (use ok4 in \<open>auto simp: mp3_ok_def\<close>)
      have q3: "set q \<inter> set (mp3_holds s4) = {}" using hold q set_mset_sub [OF assms(2)] by blast
      from mp3_give_back [OF ok4 fr _ rd4 b4, of s4 fine] mp3_hand_out [OF ok4 fr _ rd4 b4 assms(2) q3 t(9)] that show thesis by blast
    qed
    have "frame q R h1 h3" using frame_trans [OF frame_mono [OF t(4), of R] frame_mono [OF f3, of R]] by simp
    from frame_trans [OF this conjunct1 [OF mp3_stepD [OF fill]]] have "frame q R h1 ?h" .
    from frame_trans [OF conjunct1 [OF mp3_stepD [OF c(2)]] this] have fr: "frame q R h ?h" .
    have "\<forall>x\<in>#R. x \<in> set (mp3_holds s4) \<longrightarrow> x \<in> set (mp3_holds s)" using hold mp3_stepD [OF c(2)] by blast
    note up = got_ok_trans [OF fr this]
    show ?thesis
    proof (cases "\<not> fine \<or> audio = []")
      case drop: True
      have "got_ok malloc q R s h (s3, c', None, fine)" using up [OF r(2)] unfolding got_ok_def prod.case hs by (auto simp: s4_def)
      with c(1) True a t(1,5) l(1) b3(1) r(1) drop show ?thesis by (auto simp: mp3_get_filter_meta_def Let_def)
    next
      case False
      then have "s4 = s3" by (simp add: s4_def)
      with False c(1) True a t(1,5) l(1) b3(1) r(3) up [OF r(4)] show ?thesis by (simp add: mp3_get_filter_meta_def Let_def)
    qed
  qed
qed

lemma mp3_get_buffer_ok:
  assumes "heap_ok h (R + mset (mp3_holds s))" "mp3_state_ok malloc s h" "mset q \<subseteq># R" "set q \<inter> set (mp3_holds s) = {}"
  shows "\<exists>r. mp3_get_buffer malloc s h inp = Some r \<and> got_ok malloc q R s h r"
proof -
  have ok: "mp3_ok malloc R s h" using assms(1,2) unfolding mp3_ok_def by blast
  show ?thesis using mp3_get_no_meta_ok [OF ok assms(3,4)] mp3_get_filter_meta_ok [OF ok assms(3,4)] by (simp add: mp3_get_buffer_def)
qed

end
