(* ===== verification/Stream_Life.thy ===== *)
theory Stream_Life
  imports Stream_Round
begin

text \<open>
  The life of a source: many rounds, and clearing it at the end, when every buffer is released that
  is not with a client handed to the file server.
\<close>

section \<open>Rounds\<close>

context format_contract
begin

lemma source_run_ok:
  assumes "stream_ok fmt ok state_ok st q i" "length q + length ins + 2 \<le> fuel" "malloc_ok malloc"
  shows "\<exists>st' q' i'. source_run fmt malloc fuel ins st = Some st' \<and> stream_ok fmt ok state_ok st' q' i' \<and> length q' \<le> length q + length ins"
  using assms(1,2)
proof (induction ins arbitrary: st q i)
  case Nil
  then show ?case by auto
next
  case (Cons x ins)
  obtain polls now out where x: "x = (polls, now, out)" by (metis prod_cases3)
  show ?case
  proof (cases "st_running st")
    case True
    have "Suc (Suc (length q)) \<le> fuel" using Cons.prems(2) by simp
    from source_round_ok [OF Cons.prems(1) this assms(3), of polls now out] obtain st1 q1 i1 where
      r: "source_round fmt malloc fuel polls now out st = Some st1" "stream_ok fmt ok state_ok st1 q1 i1" "length q1 \<le> Suc (length q)" by blast
    have "length q1 + length ins + 2 \<le> fuel" using r(3) Cons.prems(2) by simp
    from Cons.IH [OF r(2) this] obtain st' q' i' where
      "source_run fmt malloc fuel ins st1 = Some st'" "stream_ok fmt ok state_ok st' q' i'" "length q' \<le> length q1 + length ins" by blast
    with r(1,3) x True show ?thesis by (intro exI [of _ st'] exI [of _ q'] exI [of _ i']) auto
  next
    case False
    with Cons.prems(1) x show ?thesis by (intro exI [of _ st] exI [of _ q] exI [of _ i]) auto
  qed
qed

end

section \<open>Letting go\<close>

lemma free_clients_ok:
  assumes "heap_ok (bufs st) (refs cs + Y)" "\<forall>c\<in>set cs. listener_ok d (bufs st) q c"
  shows "\<exists>st' hs. free_clients cs st = Some st' \<and> heap_ok (bufs st') (refs hs + Y) \<and> frame q Y (bufs st) (bufs st') \<and>
    (\<forall>x\<in>#refs hs. x \<notin> set q) \<and> (\<exists>h. st' = st\<lparr>bufs := h, handed := handed st @ hs\<rparr>) \<and> ((\<forall>c\<in>set cs. lrespcode c \<noteq> 0) \<longrightarrow> hs = [])"
  using assms
proof (induction cs arbitrary: st Y)
  case Nil
  have "st = st\<lparr>bufs := bufs st, handed := handed st @ []\<rparr>" by simp
  then have "\<exists>h. st = st\<lparr>bufs := h, handed := handed st @ []\<rparr>" by blast
  with Nil frame_refl [of "bufs st" "refs [] + Y" Y q] show ?case by (intro exI [of _ st] exI [of _ "[]"]) auto
next
  case (Cons c cs)
  let ?X = "refs cs + Y"
  have h: "heap_ok (bufs st) (opt_mset (lrefbuf c) + ?X)" using Cons.prems(1) by (simp add: ac_simps)
  have l: "listener_ok d (bufs st) q c" using Cons.prems(2) by simp
  obtain st1 hs where s1: "free_client st c = Some st1" "heap_ok (bufs st1) (refs hs + ?X)" "frame q ?X (bufs st) (bufs st1)"
    "\<forall>x\<in>#refs hs. x \<notin> set q" "\<exists>h. st1 = st\<lparr>bufs := h, handed := handed st @ hs\<rparr>" using free_client_ok [OF h l] by blast
  have none: "hs = []" if "lrespcode c \<noteq> 0"
  proof -
    obtain k where k: "st1 = st\<lparr>bufs := k, handed := handed st @ hs\<rparr>" using s1(5) by blast
    have "handed st1 = handed st" using s1(1) that by (auto simp: free_client_def)
    with k show ?thesis by simp
  qed
  have h1: "heap_ok (bufs st1) (refs cs + (refs hs + Y))" using s1(2) by (simp add: ac_simps)
  have l1: "\<forall>c\<in>set cs. listener_ok d (bufs st1) q c" by (rule listeners_frame [OF _ s1(3)]) (use Cons.prems(2) in auto)
  obtain st' hs' where r: "free_clients cs st1 = Some st'" "heap_ok (bufs st') (refs hs' + (refs hs + Y))" "frame q (refs hs + Y) (bufs st1) (bufs st')"
    "\<forall>x\<in>#refs hs'. x \<notin> set q" "\<exists>h. st' = st1\<lparr>bufs := h, handed := handed st1 @ hs'\<rparr>" "(\<forall>c\<in>set cs. lrespcode c \<noteq> 0) \<longrightarrow> hs' = []"
    using Cons.IH [OF h1 l1] by blast
  have "frame q Y (bufs st) (bufs st')" by (rule frame_trans [OF frame_mono [OF s1(3)] frame_mono [OF r(3)]]) auto
  moreover have "heap_ok (bufs st') (refs (hs @ hs') + Y)" using r(2) by (simp add: ac_simps)
  moreover have "\<exists>h. st' = st\<lparr>bufs := h, handed := handed st @ (hs @ hs')\<rparr>" using s1(5) r(5) by auto
  ultimately show ?case using s1(1,4) r(1,4,6) none by (intro exI [of _ st'] exI [of _ "hs @ hs'"]) auto
qed

lemma release_all_ok:
  assumes "heap_ok h (replicate_mset n p + R)" "p \<notin># R" "assoc_refs h p = 0" "0 < n" "n \<le> fuel"
  shows "\<exists>h'. release_all fuel h p = Some h' \<and> heap_ok h' R \<and> kept h h'"
  using assms
proof (induction n arbitrary: h fuel)
  case (Suc n)
  obtain k where k: "fuel = Suc k" using Suc.prems(5) by (cases fuel) auto
  obtain b where b: "h p = Some b" using heap_ok_live [OF Suc.prems(1), of p] by auto
  have cnt: "rcount b = Suc n" using heap_okD(2) [OF Suc.prems(1) b] Suc.prems(2,3) by (simp add: not_in_iff)
  have "heap_ok h (add_mset p (replicate_mset n p + R))" using Suc.prems(1) by simp
  from refbuf_release_ok [OF this] obtain h1 where h1: "refbuf_release h (Some p) = Some h1" "heap_ok h1 (replicate_mset n p + R)" "kept h h1" by blast
  show ?case
  proof (cases "n = 0")
    case True
    with k b cnt h1 show ?thesis by simp
  next
    case False
    have "assoc_refs h1 p = 0" using kept_assoc_refs [OF h1(3) heap_okD(1) [OF Suc.prems(1)], of p] Suc.prems(3) by simp
    from Suc.IH [OF h1(2) Suc.prems(2) this, of k] False Suc.prems(5) k obtain h' where
      "release_all k h1 p = Some h'" "heap_ok h' R" "kept h1 h'" by auto
    with k b cnt h1(1,3) False show ?thesis by (auto intro: kept_trans)
  qed
qed simp

text \<open>The queue is released from its head, with the references of the burst.\<close>

lemma clear_queue_ok:
  assumes "linked h p q" "distinct q" "\<forall>a\<in>set q. assoc_refs h a = 0" "heap_ok h (mset q + mset (drop i q) + Z)"
    and "\<forall>x\<in>set q. x \<notin># Z" "length q + 2 \<le> fuel"
  shows "\<exists>h'. clear_queue fuel h p = Some h' \<and> heap_ok h' Z"
  using assms
proof (induction q arbitrary: h p i fuel)
  case Nil
  then show ?case by simp
next
  case (Cons a q)
  obtain b where b: "p = Some a" "h a = Some b" "linked h (bnext b) q" using Cons.prems(1) by auto
  obtain k where k: "fuel = Suc k" "length q + 2 \<le> k" using Cons.prems(6) by (cases fuel) auto
  let ?R = "mset q + mset (drop (i - 1) q) + Z" and ?n = "if i = 0 then 2 else 1 :: nat"
  have split: "mset (a # q) + mset (drop i (a # q)) + Z = replicate_mset ?n a + ?R"
    by (cases i) (simp_all add: numeral_2_eq_2)
  let ?h = "h(a \<mapsto> b\<lparr>bnext := None\<rparr>)"
  have a0: "assoc_refs h a = 0" using Cons.prems(3) by simp
  have g: "heap_ok ?h (replicate_mset ?n a + ?R)"
    using heap_ok_contents [OF Cons.prems(4) b(2), of "b\<lparr>bnext := None\<rparr>"] a0 unfolding split by simp
  have as: "assoc_refs ?h x = assoc_refs h x" for x by (rule assoc_refs_upd [OF heap_okD(1) [OF Cons.prems(4)] b(2)]) simp
  have aR: "a \<notin># ?R" using Cons.prems(2,5) by (auto dest: in_set_dropD)
  obtain h1 where h1: "release_all k ?h a = Some h1" "heap_ok h1 ?R" "kept ?h h1"
  proof -
    have "assoc_refs ?h a = 0" "0 < ?n" "?n \<le> k" using as a0 k(2) by auto
    from release_all_ok [OF g aR this] that show thesis by blast
  qed
  have "linked h1 (bnext b) q"
  proof (rule linked_cong [OF b(3)])
    fix x c assume x: "x \<in> set q" "h x = Some c"
    obtain c' where c': "h1 x = Some c'" using heap_ok_live [OF h1(2), of x] x(1) by auto
    have "x \<noteq> a" using x(1) Cons.prems(2) by auto
    moreover note kept_fields [OF h1(3) c']
    ultimately show "\<exists>b'. h1 x = Some b' \<and> bnext b' = bnext c" using x(2) c' by (metis fun_upd_other option.inject)
  qed
  moreover have "\<forall>x\<in>set q. assoc_refs h1 x = 0"
  proof
    fix x assume "x \<in> set q"
    then have "assoc_refs ?h x = 0" using Cons.prems(3) as by simp
    with kept_assoc_refs [OF h1(3) heap_okD(1) [OF g], of x] show "assoc_refs h1 x = 0" by simp
  qed
  ultimately obtain h' where "clear_queue k h1 (bnext b) = Some h'" "heap_ok h' Z"
    using Cons.IH [of h1 "bnext b" "i - 1" k] h1(2) Cons.prems(2,5) k(2) by auto
  with b k(1) h1(1) show ?case by auto
qed

text \<open>A store in which nothing is referred to is empty: there are no buffers left over.\<close>

lemma assoc_refs_ref:
  assumes "assoc_refs h x \<noteq> 0"
  obtains y c where "h y = Some c" "associated c = Some x"
proof -
  have "{y. \<exists>c. h y = Some c \<and> associated c = Some x} \<noteq> {}" using assms unfolding assoc_refs_def by fastforce
  with that show thesis by blast
qed

lemma heap_ok_empty:
  assumes "heap_ok h {#}"
  shows "h = Map.empty"
proof (rule ext, rule ccontr)
  fix x assume "h x \<noteq> None"
  then obtain b where b: "h x = Some b" by auto
  have "assoc_refs h x \<noteq> 0" using heap_okD(2,3) [OF assms b] by simp
  from assoc_refs_ref [OF this] obtain y c where y: "h y = Some c" "associated c = Some x" .
  have "assoc_refs h y \<noteq> 0" using heap_okD(2,3) [OF assms y(1)] by simp
  from assoc_refs_ref [OF this] obtain z d where z: "h z = Some d" "associated d = Some y" .
  from heap_okD(6) [OF assms z y(1)] y(2) show False by simp
qed

text \<open>A format that releases what it holds when it is freed.\<close>

locale full_contract = format_contract +
  assumes free_ok: "heap_ok h (R + mset (plugin_holds fmt s)) \<Longrightarrow> \<exists>h'. free_plugin fmt s h = Some h' \<and> heap_ok h' R \<and> kept h h'"
begin

lemma source_clear_ok:
  assumes "stream_ok fmt ok state_ok st q i" "length q + 2 \<le> fuel"
  shows "\<exists>st' hs. source_clear_source fmt fuel st = Some st' \<and> heap_ok (bufs st') (refs (handed st')) \<and> handed st' = handed st @ hs \<and>
    st_clients st' = [] \<and> st_pending st' = [] \<and> stream_data st' = None \<and>
    ((\<forall>c\<in>set (st_clients st) \<union> set (st_pending st). lrespcode c \<noteq> 0) \<longrightarrow> hs = [])"
proof -
  let ?s = "st\<lparr>has_client := False\<rparr>" and ?H = "mset (plugin_holds fmt (st_format st))" and ?Q = "mset q + mset (drop i q)"
  let ?Y = "?Q + refs (handed st) + ?H"
  have sh: "shape st q i" and hq: "\<forall>x\<in>#refs (handed st). x \<notin> set q"
    and lc: "\<forall>c\<in>set (st_clients st). listener_ok ok (bufs st) q c" and lp: "\<forall>c\<in>set (st_pending st). listener_ok ok (bufs st) q c"
    and hp: "heap_ok (bufs ?s) (refs (st_clients st) + (refs (st_pending st) + ?Y))"
    using assms(1) unfolding stream_ok_def others_def by (auto simp: ac_simps)
  obtain s1 hs1 where c1: "free_clients (st_clients st) ?s = Some s1" "heap_ok (bufs s1) (refs hs1 + (refs (st_pending st) + ?Y))"
    "frame q (refs (st_pending st) + ?Y) (bufs ?s) (bufs s1)" "\<forall>x\<in>#refs hs1. x \<notin> set q" "\<exists>h. s1 = ?s\<lparr>bufs := h, handed := handed ?s @ hs1\<rparr>"
    "(\<forall>c\<in>set (st_clients st). lrespcode c \<noteq> 0) \<longrightarrow> hs1 = []" using free_clients_ok [OF hp, of ok q] lc by auto
  let ?s1 = "s1\<lparr>st_clients := []\<rparr>"
  have hp1: "heap_ok (bufs ?s1) (refs (st_pending st) + (refs hs1 + ?Y))" using c1(2) by (simp add: ac_simps)
  have lp1: "\<forall>c\<in>set (st_pending st). listener_ok ok (bufs ?s1) q c"
    by (rule listeners_frame [OF lp, of "refs (st_pending st) + ?Y"]) (use c1(3) in simp_all)
  obtain s2 hs2 where c2: "free_clients (st_pending st) ?s1 = Some s2" "heap_ok (bufs s2) (refs hs2 + (refs hs1 + ?Y))"
    "frame q (refs hs1 + ?Y) (bufs ?s1) (bufs s2)" "\<forall>x\<in>#refs hs2. x \<notin> set q" "\<exists>h. s2 = ?s1\<lparr>bufs := h, handed := handed ?s1 @ hs2\<rparr>"
    "(\<forall>c\<in>set (st_pending st). lrespcode c \<noteq> 0) \<longrightarrow> hs2 = []" using free_clients_ok [OF hp1 lp1] by blast
  have fld: "st_pending s1 = st_pending st" "st_format s2 = st_format st" "stream_data s2 = stream_data st" "handed s2 = handed st @ hs1 @ hs2"
    using c1(5) c2(5) by auto
  let ?Z = "refs (handed st @ hs1 @ hs2)"
  have "heap_ok (bufs s2) ((?Q + ?Z) + mset (plugin_holds fmt (st_format s2)))" using c2(2) unfolding fld(2) by (simp add: ac_simps)
  from free_ok [OF this] obtain h3 where h3: "free_plugin fmt (st_format s2) (bufs s2) = Some h3" "heap_ok h3 (?Q + ?Z)" "kept (bufs s2) h3" by blast
  have "frame q ?Q (bufs st) (bufs s1)" by (rule frame_mono [of _ "refs (st_pending st) + ?Y"]) (use c1(3) in simp_all)
  moreover have "frame q ?Q (bufs s1) (bufs s2)" by (rule frame_mono [of _ "refs hs1 + ?Y"]) (use c2(3) in simp_all)
  moreover have "frame q ?Q (bufs s2) h3"
    by (rule frame_mono [OF frame_kept [OF \<open>heap_ok (bufs s2) ((?Q + ?Z) + mset (plugin_holds fmt (st_format s2)))\<close>, of _ "{#}" "?Q + ?Z"]]) (use h3 in auto)
  ultimately have fr: "frame q ?Q (bufs st) h3" using frame_trans by metis
  from shape_frame [OF sh fr] have sh3: "linked h3 (stream_data st) q" "distinct q" "\<forall>a\<in>set q. assoc_refs h3 a = 0" unfolding shape_def by auto
  have qZ: "\<forall>x\<in>set q. x \<notin># ?Z" using hq c1(4) c2(4) by auto
  obtain h4 where h4: "clear_queue fuel h3 (stream_data st) = Some h4" "heap_ok h4 ?Z"
    using clear_queue_ok [OF sh3 h3(2) qZ assms(2)] by blast
  let ?t = "s2\<lparr>bufs := h4, st_pending := [], stream_data := None, stream_data_tail := None, burst_point := None,
    burst_size := 0, burst_offset := 0, queue_size := 0, queue_size_limit := 0, st_listeners := 0,
    st_max_listeners := -1, prev_listeners := 0, intro_file := None\<rparr>"
  have "source_clear_source fmt fuel st = Some ?t"
    unfolding source_clear_source_def Let_def using c1(1) c2(1) h3(1) h4(1) fld by simp
  moreover have "st_clients ?t = []" using c2(5) by auto
  ultimately show ?thesis using h4(2) fld(4) c1(6) c2(6) by (intro exI [of _ ?t] exI [of _ "hs1 @ hs2"]) auto
qed

end

end
