(* ===== verification/Mp3_Stream.thy ===== *)
theory Mp3_Stream
  imports Mp3_Read Stream_Life
begin

text \<open>
  Sources in the generic format keep the contract of the streaming loop, and with it a round of the
  source thread is safe.
\<close>

section \<open>Writing to a listener without metadata\<close>

definition plain_data :: "mp3_client_data \<Rightarrow> bool" where
  "plain_data d \<longleftrightarrow> interval d = 0 \<and> \<not> in_metadata d"

lemma send_bytes_same:
  "client_send_bytes c xs t = (ret, c') \<Longrightarrow> same_client c c' \<and> lrespcode c' = lrespcode c \<and> lpos c' = lpos c \<and> lformat c' = lformat c \<and> ret \<le> int (length xs)"
  by (cases t) (auto simp: client_send_bytes_def connection_send_def same_client_def Let_def split: if_splits)

lemma mp3_write_ok:
  assumes "h a = Some b" "lpos c \<le> blen b" "plain_data (lformat c)"
  shows "\<exists>ret c'. format_mp3_write_buf_to_client h a c out = Some (ret, c') \<and> same_client c c' \<and> lrespcode c' = lrespcode c \<and>
    lpos c' \<le> blen b \<and> plain_data (lformat c')"
proof -
  let ?bytes = "drop (lpos c) (take (blen b) (bdata b))"
  have eq: "format_mp3_write_buf_to_client h a c out = write_rest 0 ?bytes c (out 3)"
    using assms(1,3) by (simp add: format_mp3_write_buf_to_client_def write_block_def plain_data_def Let_def)
  show ?thesis
  proof (cases "?bytes = []")
    case True
    then have "write_rest 0 ?bytes c (out 3) = Some (0, c)" by (simp add: write_rest_def)
    with assms eq show ?thesis by (simp add: same_client_def)
  next
    case False
    obtain ret c1 where s: "client_send_bytes c ?bytes (out 3) = (ret, c1)" by fastforce
    note p = send_bytes_same [OF s]
    let ?c = "if ret > 0 then c1\<lparr>lpos := lpos c1 + nat ret, lformat := (lformat c1)\<lparr>since_meta_block := since_meta_block (lformat c1) + nat ret\<rparr>\<rparr> else c1"
    have "\<exists>r. write_rest 0 ?bytes c (out 3) = Some (r, ?c)"
      using False s by (simp add: write_rest_def send_audio_def leave_def Let_def)
    moreover have "lpos ?c \<le> blen b" using p assms(2) by auto
    ultimately show ?thesis unfolding eq using p assms(3) by (auto simp: same_client_def plain_data_def)
  qed
qed

section \<open>The headers of a listener\<close>

text \<open>The reply before the lines of the source's request, and the condition that all of it fits.\<close>

definition base_text :: "(string \<Rightarrow> string \<Rightarrow> bool) \<Rightarrow> ice_config \<Rightarrow> string \<Rightarrow> string \<Rightarrow> string \<Rightarrow> string" where
  "base_text fnmatch config date ctype mount = reply_text fnmatch config date False 200 None (Some ctype) None None (Some mount)"

definition source_lines :: "nat \<Rightarrow> (string \<Rightarrow> string \<Rightarrow> bool) \<Rightarrow> ice_config \<Rightarrow> string \<Rightarrow> (string \<times> string) list \<Rightarrow> string list" where
  "source_lines junk fnmatch config mount srcvars =
     all_lines junk (Option.bind (config_find_mount fnmatch config (Some mount) MOUNT_TYPE_NORMAL) stream_name) False srcvars @ [[CR, LF]]"

definition headers_fit :: "(string \<Rightarrow> string \<Rightarrow> bool) \<Rightarrow> ice_config \<Rightarrow> string \<Rightarrow> nat \<Rightarrow> string \<Rightarrow> string \<Rightarrow> (string \<times> string) list \<Rightarrow> bool" where
  "headers_fit fnmatch config date junk ctype mount srcvars \<longleftrightarrow>
     (let n = length (base_text fnmatch config date ctype mount)
      in 0 < n \<and> n + 1024 < 4096 \<and> n + length (concat (source_lines junk fnmatch config mount srcvars)) + 27 < 4096)"

definition no_metadata :: "http_parser \<Rightarrow> bool" where
  "no_metadata p \<longleftrightarrow> (case httpp_getvar p ''icy-metadata'' of None \<Rightarrow> True | Some v \<Rightarrow> atoi v = 0)"

lemma put_lines_fit:
  "length (concat ls) < remaining \<Longrightarrow> put_lines remaining t ls = Some (remaining - length (concat ls), t @ concat ls)"
  by (induction ls arbitrary: remaining t) auto

lemma client_lines_plain:
  assumes "no_metadata p"
  obtains ls where "client_lines s p = (0, ls)" "length (concat ls) \<le> 29"
proof -
  have "fst (client_lines s p) = 0" "length (concat (snd (client_lines s p))) \<le> 29"
    using assms by (auto simp: client_lines_def no_metadata_def Let_def split: option.splits)
  with that show thesis by (cases "client_lines s p") auto
qed

lemma mp3_prepare_ok:
  assumes "blen b = PER_CLIENT_REFBUF_SIZE" "lpos c = 0" "headers_fit fnmatch config date junk ctype mount srcvars" "no_metadata (lparser c)"
  shows "\<exists>ret b' c'. format_prepare_headers fnmatch config date junk ctype mount srcvars s b c = Some (ret, b', c') \<and> same_client c c' \<and>
    lcon c' = lcon c \<and> lpos c' = 0 \<and> lrespcode c' \<noteq> 0 \<and>
    rcount b' = rcount b \<and> associated b' = associated b \<and> bnext b' = bnext b \<and> (0 \<le> ret \<longrightarrow> plain_data (lformat c'))"
proof -
  define T where "T = base_text fnmatch config date ctype mount"
  define L where "L = source_lines junk fnmatch config mount srcvars"
  have fit: "0 < length T" "length T + 1024 < 4096" "length T + length (concat L) + 27 < 4096"
    using assms(3) unfolding headers_fit_def T_def L_def by (simp_all add: Let_def)
  have len: "blen b = 4096" using assms(1) by (simp add: PER_CLIENT_REFBUF_SIZE_def)
  have build: "util_http_build_header fnmatch config date (Some []) n 0 False 200 None (Some ctype) None None (Some mount) =
      (int (length T), take (n - 1) T)" for n
    by (simp add: util_http_build_header_def snprintf_def T_def base_text_def)
  have "2 \<le> length (concat L)" unfolding L_def source_lines_def by simp
  then have tl: "2 \<le> length (T @ concat L)" "length (T @ concat L) - 2 + 29 < 4096" using fit by simp_all
  have put: "put_lines (4096 - length T) T L = Some (4096 - length T - length (concat L), T @ concat L)"
    by (rule put_lines_fit) (use fit in simp)
  obtain ls where ls: "client_lines s (lparser c) = (0, ls)" "length (concat ls) \<le> 29" using client_lines_plain [OF assms(4)] by metis
  define U where "U = T @ concat L"
  have U: "2 \<le> length U" "length U - 2 + 29 < 4096" using tl unfolding U_def by simp_all
  have "nat ((4096 - int (length U) + 2) mod 2 ^ 32) = 4096 - (length U - 2)"
  proof -
    have "0 \<le> 4096 - int (length U) + 2" "4096 - int (length U) + 2 < 2 ^ 32" using U by (simp_all add: power_numeral)
    then have "(4096 - int (length U) + 2) mod 2 ^ 32 = 4096 - int (length U) + 2" by (rule mod_pos_pos_trivial)
    then show ?thesis using U by linarith
  qed
  moreover have "put_lines (4096 - (length U - 2)) (take (length U - 2) U) ls =
      Some (4096 - (length U - 2) - length (concat ls), take (length U - 2) U @ concat ls)"
    by (rule put_lines_fit) (use U ls(2) in linarith)
  moreover define t where "t = take (length U - 2) U @ concat ls"
  moreover define d where "d = \<lparr>interval = 0, metadata_offset = 0, since_meta_block = 0, in_metadata = False, cassociated = None\<rparr>"
  ultimately have cd: "create_client_data s 4096 U c = Some (t, c\<lparr>lformat := d\<rparr>)" "plain_data d"
    using ls(1) by (simp_all add: create_client_data_def Let_def plain_data_def)
  have "format_prepare_headers fnmatch config date junk ctype mount srcvars s b c =
     Some (0, b\<lparr>bdata := t, blen := length t\<rparr>, c\<lparr>lformat := d, lrespcode := 200\<rparr>)"
    unfolding format_prepare_headers_def build Let_def source_lines_def [symmetric] L_def [symmetric]
    using fit len put cd(1) by (simp add: U_def [symmetric])
  with assms(2) cd(2) show ?thesis by (simp add: same_client_def)
qed

section \<open>The contract\<close>

definition mp3_headers_ok ::
  "(string \<Rightarrow> string \<Rightarrow> bool) \<Rightarrow> ice_config \<Rightarrow> string \<Rightarrow> nat \<Rightarrow> string \<Rightarrow> string \<Rightarrow> (string \<times> string) list \<Rightarrow> http_parser \<Rightarrow> bool" where
  "mp3_headers_ok fnmatch config date junk ctype mount srcvars p \<longleftrightarrow> headers_fit fnmatch config date junk ctype mount srcvars \<and> no_metadata p"

lemma mp3_state_frame:
  assumes "mp3_state_ok malloc s h" "frame [] (mset (mp3_holds s)) h h'"
  shows "mp3_state_ok malloc s h'"
proof -
  obtain m where m: "h (metadata s) = Some m" "block_buffer m" using assms(1) unfolding mp3_state_ok_def by blast
  note dm = frameD [OF assms(2) _ m(1)]
  obtain m' where m': "h' (metadata s) = Some m'" "block_buffer m'" by (rule dm) (use m(2) in \<open>auto simp: block_buffer_def alone_def set_mp3_holds\<close>)
  have "\<exists>b. h' a = Some b \<and> rcount b = 1 \<and> alone b" if a: "read_data s = Some a" for a
  proof -
    obtain c where c: "h a = Some c" "rcount c = 1" "alone c" using assms(1) a unfolding mp3_state_ok_def by blast
    note dc = frameD [OF assms(2) _ c(1)]
    show ?thesis by (rule dc) (use c(2,3) a in \<open>auto simp: alone_def set_mp3_holds\<close>)
  qed
  with m' assms(1) show ?thesis unfolding mp3_state_ok_def by blast
qed

lemma mp3_free_ok:
  assumes "heap_ok h (R + mset (mp3_holds s))"
  shows "\<exists>h'. format_mp3_free_plugin s h = Some h' \<and> heap_ok h' R \<and> kept h h'"
proof -
  have "heap_ok h (add_mset (metadata s) (opt_mset (read_data s) + R))" using assms by (simp add: mset_mp3_holds ac_simps)
  from refbuf_release_ok [OF this] obtain h1 where h1: "refbuf_release h (Some (metadata s)) = Some h1" "heap_ok h1 (opt_mset (read_data s) + R)" "kept h h1" by blast
  show ?thesis
  proof (cases "read_data s")
    case None
    with h1 show ?thesis by (simp add: format_mp3_free_plugin_def refbuf_release_def)
  next
    case (Some a)
    with h1(2) have "heap_ok h1 (add_mset a R)" by simp
    from refbuf_release_ok [OF this] h1(1,3) Some kept_trans show ?thesis by (fastforce simp: format_mp3_free_plugin_def)
  qed
qed

interpretation mp3: full_contract "mp3_format malloc fnmatch config date junk ctype mount srcvars" plain_data
  "mp3_headers_ok fnmatch config date junk ctype mount srcvars" "mp3_state_ok malloc"
proof unfold_locales
  let ?fmt = "mp3_format malloc fnmatch config date junk ctype mount srcvars"
  show "\<exists>ret c'. write_buf_to_client ?fmt h a c out = Some (ret, c') \<and> same_client c c' \<and> lrespcode c' = lrespcode c \<and> lpos c' \<le> blen b \<and> plain_data (lformat c')"
    if "h a = Some b" "lpos c \<le> blen b" "plain_data (lformat c)" for h a b c out
    using mp3_write_ok [where h = h and a = a and b = b and out = out, OF that] by (simp add: mp3_format_def)
  show "\<exists>ret b' c'. prepare_headers ?fmt s b c = Some (ret, b', c') \<and> same_client c c' \<and> lcon c' = lcon c \<and> lpos c' = 0 \<and> lrespcode c' \<noteq> 0 \<and>
      rcount b' = rcount b \<and> associated b' = associated b \<and> bnext b' = bnext b \<and> (0 \<le> ret \<longrightarrow> plain_data (lformat c'))"
    if "blen b = PER_CLIENT_REFBUF_SIZE" "lpos c = 0" "mp3_headers_ok fnmatch config date junk ctype mount srcvars (lparser c)" for b c s
    using mp3_prepare_ok [OF that(1,2)] that(3) by (simp add: mp3_format_def mp3_headers_ok_def)
  show "\<exists>s' h' p run. get_buffer ?fmt s h inp = Some (s', h', p, run) \<and> heap_ok h' (opt_mset p + R + mset (plugin_holds ?fmt s')) \<and>
      frame q R h h' \<and> (run \<longrightarrow> mp3_state_ok malloc s' h') \<and> (\<forall>x\<in>#R. x \<in> set (plugin_holds ?fmt s') \<longrightarrow> x \<in> set (plugin_holds ?fmt s)) \<and>
      (\<forall>a. p = Some a \<longrightarrow> (\<exists>b. h' a = Some b \<and> rcount b = 1 \<and> bnext b = None \<and> assoc_refs h' a = 0))"
    if "heap_ok h (R + mset (plugin_holds ?fmt s))" "mp3_state_ok malloc s h" "mset q \<subseteq># R" "set q \<inter> set (plugin_holds ?fmt s) = {}" for h R s q inp
    using mp3_get_buffer_ok [of h R s malloc q inp] that by (auto simp: mp3_format_def got_ok_def fresh_buffer_def)
  show "mp3_state_ok malloc s h'" if "mp3_state_ok malloc s h" "frame [] (mset (plugin_holds ?fmt s)) h h'" for s h h'
    using that by (simp add: mp3_format_def mp3_state_frame)
  show "\<exists>h'. free_plugin ?fmt s h = Some h' \<and> heap_ok h' R \<and> kept h h'" if "heap_ok h (R + mset (plugin_holds ?fmt s))" for s h R
    using mp3_free_ok that by (simp add: mp3_format_def)
qed

section \<open>Sources in the generic format\<close>

text \<open>The invariant of a source in the generic format whose listeners do not ask for metadata.\<close>

abbreviation mp3_stream_ok where
  "mp3_stream_ok malloc fnmatch config date junk ctype mount srcvars \<equiv>
     stream_ok (mp3_format malloc fnmatch config date junk ctype mount srcvars) (plain_data, mp3_headers_ok fnmatch config date junk ctype mount srcvars)
       (mp3_state_ok malloc)"

text \<open>An allocator, and a source that has just connected with one listener waiting.\<close>

definition next_free :: "buffers \<Rightarrow> nat" where
  "next_free h = Suc (Max (insert 0 (dom h)))"

lemma next_free_ok: "malloc_ok next_free"
  unfolding malloc_ok_def next_free_def
proof (intro allI impI)
  fix h :: buffers assume "finite (dom h)"
  then have "x \<le> Max (insert 0 (dom h))" if "x \<in> dom h" for x using that by simp
  then have "Suc (Max (insert 0 (dom h))) \<notin> dom h" using Suc_n_not_le_n by blast
  then show "h (Suc (Max (insert 0 (dom h)))) = None" by auto
qed

definition waiting_listener :: "mp3_client_data lclient" where
  "waiting_listener =
     \<lparr>lcon = con demo_client, lparser = httpp_initialize [], lrespcode = 0, lrefbuf = Some 2, lpos = 0, lintro = 0,
      lcheck = format_check_http_buffer, plugin_write = False,
      lformat = \<lparr>interval = 0, metadata_offset = 0, since_meta_block = 0, in_metadata = False, cassociated = None\<rparr>, received = []\<rparr>"

definition demo_mp3 :: mp3_state where
  "demo_mp3 = snd (snd (format_mp3_get_plugin (\<lambda>_. 1) Map.empty demo_client (httpp_initialize [])))"

definition demo_store :: buffers where
  "demo_store = [1 \<mapsto> (refbuf_new 17)\<lparr>bdata := empty_metadata\<rparr>, 2 \<mapsto> refbuf_new PER_CLIENT_REFBUF_SIZE]"

definition demo_stream :: "(mp3_state, mp3_client_data) stream" where
  "demo_stream =
     \<lparr>bufs = demo_store, stream_data = None, stream_data_tail = None, burst_point = None, queue_size = 0, queue_size_limit = 100000,
      burst_size = 65536, burst_offset = 0, st_running = True, short_delay = False, has_client = True, st_on_demand = False,
      intro_file = None, last_read = 0, st_timeout = 10, st_listeners = 0, prev_listeners = 0, peak_listeners = 0, st_max_listeners = -1,
      st_clients = [], st_pending = [waiting_listener], handed = [], st_format = demo_mp3\<rparr>"

lemma demo_mp3_fields:
  "metadata demo_mp3 = 1" "read_data demo_mp3 = None" "update_metadata demo_mp3 = False" "inline_url demo_mp3 = None" "build_ok demo_mp3"
  by (simp_all add: demo_mp3_def format_mp3_get_plugin_def build_ok_def Let_def)

lemma heap_ok_nothing: "heap_ok Map.empty {#}"
  by (simp add: heap_ok_def assoc_refs_def)

lemma demo_store_ok: "heap_ok demo_store {#2, 1#}"
proof -
  have "heap_ok [1 \<mapsto> (refbuf_new 17)\<lparr>bdata := empty_metadata\<rparr>] {#1#}"
    by (rule heap_ok_new [OF heap_ok_nothing]) (simp_all add: refbuf_new_def)
  then have "heap_ok ([1 \<mapsto> (refbuf_new 17)\<lparr>bdata := empty_metadata\<rparr>](2 \<mapsto> refbuf_new PER_CLIENT_REFBUF_SIZE)) (add_mset 2 {#1#})"
    by (rule heap_ok_new) (simp_all add: refbuf_new_def)
  then show ?thesis by (simp add: demo_store_def)
qed

lemma demo_headers: "mp3_headers_ok literal_match demo_config [] 0 ''audio/mpeg'' ''/live'' [] (httpp_initialize [])"
proof -
  have "no_metadata (httpp_initialize [])" by code_simp
  moreover have "headers_fit literal_match demo_config [] 0 ''audio/mpeg'' ''/live'' []"
    by (simp add: headers_fit_def base_text_def reply_text_def status_buffer_def contenttype_buffer_def auth_header_def cache_header_def
        build_headers_def source_lines_def demo_config_def config_find_mount_def snprintf_def status_text_def Let_def min_def)
  ultimately show ?thesis by (simp add: mp3_headers_ok_def)
qed

lemma demo_mp3_ok: "mp3_state_ok next_free demo_mp3 demo_store"
  unfolding mp3_state_ok_def using next_free_ok empty_metadata_ok
  by (simp add: demo_mp3_fields block_buffer_def alone_def refbuf_new_def demo_store_def)

lemma demo_stream_ok: "mp3_stream_ok next_free literal_match demo_config [] 0 ''audio/mpeg'' ''/live'' [] demo_stream [] 0"
proof -
  have sh: "shape demo_stream [] 0" by (simp add: shape_def demo_stream_def blens_def)
  have h: "demo_store 1 = Some ((refbuf_new 17)\<lparr>bdata := empty_metadata\<rparr>)" "demo_store 2 = Some (refbuf_new PER_CLIENT_REFBUF_SIZE)"
    by (simp_all add: demo_store_def)
  note demo_mp3_ok
  moreover have "others (mp3_format next_free literal_match demo_config [] 0 ''audio/mpeg'' ''/live'' []) demo_stream = {#2, 1#}"
    by (simp add: others_def demo_stream_def mp3_format_def mset_mp3_holds demo_mp3_fields waiting_listener_def)
  moreover have "own_buffer demo_store [] waiting_listener"
    unfolding own_buffer_def using h by (simp add: waiting_listener_def refbuf_new_def)
  then have "listener_ok (plain_data, mp3_headers_ok literal_match demo_config [] 0 ''audio/mpeg'' ''/live'' []) demo_store [] waiting_listener"
    unfolding listener_ok_def using demo_headers by (simp add: waiting_listener_def)
  moreover have "bufs demo_stream = demo_store" "st_format demo_stream = demo_mp3" "handed demo_stream = []" "st_clients demo_stream = []"
    "st_pending demo_stream = [waiting_listener]" by (simp_all add: demo_stream_def)
  ultimately show ?thesis unfolding stream_ok_def using sh demo_store_ok by simp
qed






text \<open>A source whose head is held by a listener that does not read.\<close>

definition slow_store :: buffers where
  "slow_store =
     [1 \<mapsto> (refbuf_new 17)\<lparr>bdata := empty_metadata\<rparr>,
      4 \<mapsto> (refbuf_new 10)\<lparr>sync_point := True, rcount := 2\<rparr>,
      3 \<mapsto> (refbuf_new 10)\<lparr>bnext := Some 4, sync_point := True, rcount := 2\<rparr>]"

definition slow_stream :: "(mp3_state, mp3_client_data) stream" where
  "slow_stream = demo_stream\<lparr>bufs := slow_store, stream_data := Some 3, stream_data_tail := Some 4, burst_point := Some 4, queue_size := 20,
     queue_size_limit := 15, burst_offset := 10, st_listeners := 1, st_pending := [],
     st_clients := [waiting_listener\<lparr>lrespcode := 200, lrefbuf := Some 3, lcheck := format_advance_queue, plugin_write := True\<rparr>]\<rparr>"

lemma slow_store_fields:
  "slow_store 1 = Some ((refbuf_new 17)\<lparr>bdata := empty_metadata\<rparr>)"
  "slow_store 4 = Some ((refbuf_new 10)\<lparr>sync_point := True, rcount := 2\<rparr>)"
  "slow_store 3 = Some ((refbuf_new 10)\<lparr>bnext := Some 4, sync_point := True, rcount := 2\<rparr>)"
  by (simp_all add: slow_store_def)

lemma slow_assoc [simp]: "assoc_refs slow_store a = 0"
  unfolding assoc_refs_def by (rule card_eq_0_iff [THEN iffD2], rule disjI1) (auto simp: slow_store_def refbuf_new_def split: if_splits)

lemma slow_store_ok: "heap_ok slow_store {#3, 4, 4, 3, 1#}"
proof (rule heap_okI)
  show "finite (dom slow_store)" by (simp add: slow_store_def)
  have cases: "h = 1 \<or> h = 3 \<or> h = 4 \<or> slow_store h = None" for h by (simp add: slow_store_def)
  show "count {#3, 4, 4, 3, 1#} a = 0 \<and> assoc_refs slow_store a = 0" if "slow_store a = None" for a
    using that slow_store_fields by (auto split: if_splits)
  show "rcount b = count {#3, 4, 4, 3, 1#} a + assoc_refs slow_store a \<and> 0 < rcount b" if "slow_store a = Some b" for a b
    using that cases [of a] slow_store_fields by (auto simp: refbuf_new_def)
  show "associated c = None \<and> bnext c = None" if "slow_store x = Some b" "associated b = Some m" for x b m c
    using that cases [of x] slow_store_fields by (auto simp: refbuf_new_def)
qed

lemma slow_stream_ok: "mp3_stream_ok next_free literal_match demo_config [] 0 ''audio/mpeg'' ''/live'' [] slow_stream [3, 4] 1"
proof -
  have sh: "shape slow_stream [3, 4] 1"
    by (simp add: shape_def slow_stream_def blens_def slow_store_fields) (simp add: refbuf_new_def)
  have "mp3_state_ok next_free demo_mp3 slow_store"
    unfolding mp3_state_ok_def using next_free_ok slow_store_fields empty_metadata_ok by (simp add: demo_mp3_fields block_buffer_def alone_def refbuf_new_def)
  moreover have "mset [3, 4] + mset (drop 1 [3, 4]) + others (mp3_format next_free literal_match demo_config [] 0 ''audio/mpeg'' ''/live'' []) slow_stream = {#3, 4, 4, 3, 1#}"
    by (simp add: others_def slow_stream_def demo_stream_def mp3_format_def mset_mp3_holds demo_mp3_fields)
  moreover have "set [3, 4] \<inter> set (plugin_holds (mp3_format next_free literal_match demo_config [] 0 ''audio/mpeg'' ''/live'' []) (st_format slow_stream)) = {}"
    by (simp add: slow_stream_def demo_stream_def mp3_format_def set_mp3_holds demo_mp3_fields)
  moreover have "bufs slow_stream = slow_store" "st_format slow_stream = demo_mp3" "handed slow_stream = []" "st_pending slow_stream = []"
    "st_clients slow_stream = [waiting_listener\<lparr>lrespcode := 200, lrefbuf := Some 3, lcheck := format_advance_queue, plugin_write := True\<rparr>]"
    by (simp_all add: slow_stream_def demo_stream_def)
  moreover have "listener_ok (plain_data, mp3_headers_ok literal_match demo_config [] 0 ''audio/mpeg'' ''/live'' []) slow_store [3, 4]
      (waiting_listener\<lparr>lrespcode := 200, lrefbuf := Some 3, lcheck := format_advance_queue, plugin_write := True\<rparr>)"
    by (simp add: listener_ok_def on_queue_def slow_store_fields waiting_listener_def plain_data_def)
  ultimately show ?thesis unfolding stream_ok_def using sh slow_store_ok by (simp add: add_mset_commute)
qed


end
