(* ===== verification/Mp3_Icy.thy ===== *)
theory Mp3_Icy
  imports Mp3_Stream
begin

text \<open>
  Interleaved metadata: a decoder that reads a stream byte by byte, the filter of a source and the
  writer of a listener against it.
\<close>

section \<open>A decoder for interleaved streams\<close>

text \<open>
  The decoder counts the audio bytes since the last metadata block and the bytes of the block that
  are still to come. After \<open>n\<close> bytes of audio there is a byte with the length of a block in units of 16.
\<close>

type_synonym icy_state = "nat \<times> nat"

fun icy_byte :: "nat \<Rightarrow> icy_state \<Rightarrow> char \<Rightarrow> icy_state \<times> string" where
  "icy_byte i (n, k) c =
     (if 0 < k then ((n, k - 1), []) else if n < i then ((n + 1, 0), [c]) else ((0, 16 * code c), []))"

fun icy_decode :: "nat \<Rightarrow> icy_state \<Rightarrow> string \<Rightarrow> icy_state \<times> string" where
  "icy_decode i st [] = (st, [])"
| "icy_decode i st (c # cs) =
     (let (st, out) = icy_byte i st c; (st, rest) = icy_decode i st cs in (st, out @ rest))"

lemma icy_decode_append:
  "icy_decode i st (xs @ ys) = (let (st, out) = icy_decode i st xs; (st, rest) = icy_decode i st ys in (st, out @ rest))"
  by (induction xs arbitrary: st) (auto simp: Let_def split: prod.splits)

lemma icy_audio: "n + length xs \<le> i \<Longrightarrow> icy_decode i (n, 0) xs = ((n + length xs, 0), xs)"
  by (induction xs arbitrary: n) auto

lemma icy_skip: "length xs \<le> k \<Longrightarrow> icy_decode i (n, k) xs = ((n, k - length xs), [])"
  by (induction xs arbitrary: k) auto

lemma icy_block:
  assumes "block_ok t" "0 < j" "j \<le> length t"
  shows "icy_decode i (i, 0) (take j t) = ((0, length t - j), [])"
proof -
  obtain c cs where t: "t = c # cs" "length cs = 16 * code c" using assms(1) unfolding block_ok_def by (cases t) auto
  obtain m where j: "j = Suc m" using assms(2) by (cases j) auto
  have "icy_decode i (0, 16 * code c) (take m cs) = ((0, 16 * code c - length (take m cs)), [])" by (rule icy_skip) (use t in simp)
  with t j assms(3) show ?thesis by simp
qed

section \<open>The filter of a source\<close>

text \<open>The state of the filter as a state of the decoder.\<close>

definition filter_sync :: "mp3_state \<Rightarrow> icy_state \<Rightarrow> bool" where
  "filter_sync s st \<longleftrightarrow> 0 \<le> m_offset s \<and> m_offset s \<le> inline_metadata_interval s \<and>
     (if build_metadata_len s = 0 then st = (nat (m_offset s), 0)
      else m_offset s = inline_metadata_interval s \<and> 0 < build_metadata_offset s \<and> build_metadata_offset s < build_metadata_len s \<and>
        st = (0, build_metadata_len s - build_metadata_offset s))"

lemma new_metadata_fields:
  assumes "new_metadata malloc s h = Some (s', h', fine)"
  shows "m_offset s' = m_offset s" "inline_metadata_interval s' = inline_metadata_interval s"
  using assms by (auto simp: new_metadata_def Let_def split: option.splits if_splits)

text \<open>Taking in a metadata block, whole or in part.\<close>

lemma icy_begin:
  assumes "filter_sync s st" "xs \<noteq> []" "inline_metadata_interval s \<le> m_offset s"
    and "t = start_block s (hd xs)" "rem = build_metadata_len t - build_metadata_offset t" "j \<le> rem" "0 < j" "j \<le> length xs"
  shows "icy_decode (nat (inline_metadata_interval s)) st (take j xs) = ((0, rem - j), [])"
proof (cases "build_metadata_len s = 0")
  case True
  then have st: "st = (nat (inline_metadata_interval s), 0)" and rem: "rem = 1 + code (hd xs) * 16"
    using assms unfolding filter_sync_def by (auto simp: start_block_def)
  obtain c cs where xs: "xs = c # cs" using assms(2) by (cases xs) auto
  obtain m where j: "j = Suc m" using assms(7) by (cases j) auto
  have "icy_decode (nat (inline_metadata_interval s)) (0, 16 * code c) (take m cs) = ((0, 16 * code c - length (take m cs)), [])"
    by (rule icy_skip) (use assms(6,8) j xs rem in simp)
  with st xs j rem assms(8) show ?thesis by (simp add: mult.commute)
next
  case False
  then have st: "st = (0, rem)" using assms unfolding filter_sync_def by (auto simp: start_block_def)
  have "icy_decode (nat (inline_metadata_interval s)) (0, rem) (take j xs) = ((0, rem - length (take j xs)), [])"
    by (rule icy_skip) (use assms(6) in simp)
  with st assms(8) show ?thesis by simp
qed

lemma icy_decode_split:
  assumes "icy_decode i st (take j xs) = (st1, out)"
  shows "icy_decode i st xs = (fst (icy_decode i st1 (drop j xs)), out @ snd (icy_decode i st1 (drop j xs)))"
  using icy_decode_append [of i st "take j xs" "drop j xs"] assms by (simp add: Let_def split: prod.splits)

lemma start_block_interval [simp]:
  "inline_metadata_interval (start_block s c) = inline_metadata_interval s" "m_offset (start_block s c) = m_offset s"
  by (simp_all add: start_block_def)

lemma filter_loop_decodes:
  assumes "filter_loop malloc s h acc xs = Some (s', h', audio, True)" "filter_sync s st"
  shows "audio = acc @ snd (icy_decode (nat (inline_metadata_interval s)) st xs)"
    "filter_sync s' (fst (icy_decode (nat (inline_metadata_interval s)) st xs))" "inline_metadata_interval s' = inline_metadata_interval s"
proof -
  have "audio = acc @ snd (icy_decode (nat (inline_metadata_interval s)) st xs) \<and>
    filter_sync s' (fst (icy_decode (nat (inline_metadata_interval s)) st xs)) \<and> inline_metadata_interval s' = inline_metadata_interval s"
    using assms
  proof (induction malloc s h acc xs arbitrary: st rule: filter_loop.induct)
    case (1 malloc s h acc xs)
    let ?i = "nat (inline_metadata_interval s)" and ?n = "nat (inline_metadata_interval s - m_offset s)"
    have sy: "0 \<le> m_offset s" "m_offset s \<le> inline_metadata_interval s" using 1(4) unfolding filter_sync_def by auto
    consider "xs = []" | "xs \<noteq> []" "length xs \<le> ?n" | "xs \<noteq> []" "\<not> length xs \<le> ?n" "?n \<noteq> 0" | "xs \<noteq> []" "\<not> length xs \<le> ?n" "?n = 0" by blast
    then show ?case
    proof cases
      case a: 1
      with 1(3,4) show ?thesis by (simp add: filter_loop.simps)
    next
      case 2
      have st: "st = (nat (m_offset s), 0)" "build_metadata_len s = 0" using 1(4) 2 sy unfolding filter_sync_def by (auto split: if_splits)
      have "icy_decode ?i (nat (m_offset s), 0) xs = ((nat (m_offset s) + length xs, 0), xs)" by (rule icy_audio) (use 2 sy in linarith)
      moreover from 1(3) 2 have "s' = s\<lparr>m_offset := m_offset s + int (length xs)\<rparr>" "audio = acc @ xs" by (simp_all add: filter_loop.simps)
      ultimately show ?thesis using st sy 2 by (simp add: filter_sync_def nat_add_distrib)
    next
      case 3
      let ?s = "s\<lparr>m_offset := m_offset s + int ?n\<rparr>"
      have st: "st = (nat (m_offset s), 0)" "build_metadata_len s = 0" using 1(4) 3 sy unfolding filter_sync_def by (auto split: if_splits)
      have len: "length (take ?n xs) = ?n" using 3 by simp
      have dec: "icy_decode ?i st (take ?n xs) = ((?i, 0), take ?n xs)" using icy_audio [of "nat (m_offset s)" "take ?n xs" ?i] len st sy by simp
      have r: "filter_loop malloc ?s h (acc @ take ?n xs) (drop ?n xs) = Some (s', h', audio, True)"
        using 1(3) 3 by (subst (asm) filter_loop.simps) (simp add: Let_def)
      have "filter_sync ?s (?i, 0)" using st sy unfolding filter_sync_def by simp
      from 1(1) [OF 3(1) refl 3(2,3) r this] show ?thesis using icy_decode_split [OF dec] by simp
    next
      case 4
      define t where "t = start_block s (hd xs)"
      define off where "off = build_metadata_offset t"
      define rem where "rem = build_metadata_len t - off"
      have full: "inline_metadata_interval s \<le> m_offset s" using 4 sy by simp
      have "off < build_metadata_len t" unfolding t_def off_def by (rule start_block_ok) (use 1(4) in \<open>auto simp: filter_sync_def split: if_splits\<close>)
      then have rem: "rem \<noteq> 0" unfolding rem_def by simp
      have ti: "inline_metadata_interval t = inline_metadata_interval s" "m_offset t = m_offset s" unfolding t_def by simp_all
      note beg = icy_begin [OF 1(4) 4(1) full t_def rem_def [unfolded off_def]]
      have eq: "(if length xs < rem then
          Some (t\<lparr>build_metadata := put_at off xs (build_metadata t), build_metadata_offset := off + length xs\<rparr>, h, acc, True)
        else case new_metadata malloc (t\<lparr>build_metadata := put_at off (take (rem - 1) xs) (build_metadata t)\<rparr>) h of
           None \<Rightarrow> None | Some (s, h, False) \<Rightarrow> Some (s, h, acc, False)
         | Some (s, h, True) \<Rightarrow> filter_loop malloc (s\<lparr>m_offset := 0, build_metadata_len := 0\<rparr>) h acc (drop rem xs)) = Some (s', h', audio, True)"
        using 1(3) 4 rem by (subst (asm) filter_loop.simps) (simp only: Let_def t_def [symmetric] off_def [symmetric] rem_def [symmetric] if_False if_True simp_thms)
      show ?thesis
      proof (cases "length xs < rem")
        case True
        with eq have s': "s' = t\<lparr>build_metadata := put_at off xs (build_metadata t), build_metadata_offset := off + length xs\<rparr>" and "audio = acc" by simp_all
        moreover have "icy_decode ?i st xs = ((0, rem - length xs), [])" using beg [of "length xs"] True 4(1) by simp
        ultimately show ?thesis using True sy full 4(1) unfolding filter_sync_def by (auto simp: rem_def ti)
      next
        case False
        let ?t = "t\<lparr>build_metadata := put_at off (take (rem - 1) xs) (build_metadata t)\<rparr>"
        obtain s1 h1 fine where n: "new_metadata malloc ?t h = Some (s1, h1, fine)"
          using eq False by (cases "new_metadata malloc ?t h") auto
        have fine: fine using eq False n by (cases fine) auto
        let ?s = "s1\<lparr>m_offset := 0, build_metadata_len := 0\<rparr>"
        have r: "filter_loop malloc ?s h1 acc (drop rem xs) = Some (s', h', audio, True)" using eq False n fine by simp
        note nf = new_metadata_fields [OF n]
        have i1: "inline_metadata_interval ?s = inline_metadata_interval s" using nf ti by simp
        have sy1: "filter_sync ?s (0, 0)" using sy i1 unfolding filter_sync_def by simp
        have dec: "icy_decode ?i st (take rem xs) = ((0, 0), [])" using beg [of rem] False rem by simp
        from 1(2) [OF 4(1) refl 4(2) _ t_def off_def rem_def _ False n refl refl _ _ sy1] 4(3) rem fine r i1 icy_decode_split [OF dec]
        show ?thesis by simp
      qed
    qed
  qed
  then show "audio = acc @ snd (icy_decode (nat (inline_metadata_interval s)) st xs)"
    "filter_sync s' (fst (icy_decode (nat (inline_metadata_interval s)) st xs))" "inline_metadata_interval s' = inline_metadata_interval s" by auto
qed

section \<open>Writing to a listener\<close>

text \<open>The metadata of a buffer, and the block a client gets next with it.\<close>

definition meta_ok :: "buffers \<Rightarrow> nat option \<Rightarrow> bool" where
  "meta_ok h assoc \<longleftrightarrow> (\<forall>m. assoc = Some m \<longrightarrow> (\<exists>b. h m = Some b \<and> length (bdata b) = blen b \<and> block_ok (bdata b)))"

definition next_block :: "buffers \<Rightarrow> mp3_client_data \<Rightarrow> nat option \<Rightarrow> string" where
  "next_block h d assoc =
     (case assoc of
        None \<Rightarrow> empty_metadata
      | Some m \<Rightarrow> if cassociated d \<noteq> Some m then bdata (the (h m)) else [NUL])"

lemma next_block_ok: "meta_ok h assoc \<Longrightarrow> block_ok (next_block h d assoc)"
  using code_NUL by (auto simp: meta_ok_def next_block_def block_ok_def empty_metadata_def split: option.splits)

text \<open>The client is at the start of a block or within it; or it gets audio.\<close>

definition at_block :: "buffers \<Rightarrow> nat option \<Rightarrow> mp3_client_data \<Rightarrow> icy_state \<Rightarrow> bool" where
  "at_block h assoc d st \<longleftrightarrow> since_meta_block d = interval d \<and>
     (metadata_offset d = 0 \<and> st = (interval d, 0) \<or>
      0 < metadata_offset d \<and> metadata_offset d < length (next_block h d assoc) \<and> st = (0, length (next_block h d assoc) - metadata_offset d))"

definition client_sync :: "buffers \<Rightarrow> nat option \<Rightarrow> mp3_client_data \<Rightarrow> icy_state \<Rightarrow> bool" where
  "client_sync h assoc d st \<longleftrightarrow>
     (if in_metadata d then at_block h assoc d st
      else metadata_offset d = 0 \<and> since_meta_block d \<le> interval d \<and> st = (since_meta_block d, 0))"

lemma metadata_bytes_eq:
  assumes "meta_ok h assoc" "at_block h assoc d st"
  shows "metadata_bytes h d assoc = Some (drop (metadata_offset d) (next_block h d assoc))" "metadata_offset d < length (next_block h d assoc)"
proof -
  have "next_block h d assoc \<noteq> []" using next_block_ok [OF assms(1)] unfolding block_ok_def by auto
  then show l: "metadata_offset d < length (next_block h d assoc)" using assms(2) unfolding at_block_def by auto
  show "metadata_bytes h d assoc = Some (drop (metadata_offset d) (next_block h d assoc))"
    using l assms(1) by (auto simp: metadata_bytes_def next_block_def meta_ok_def empty_metadata_def split: option.splits if_splits)
qed

lemma icy_at_block:
  assumes "block_ok (next_block h d assoc)" "at_block h assoc d st" "metadata_offset d + r \<le> length (next_block h d assoc)" "0 < metadata_offset d + r"
  shows "icy_decode (interval d) st (take r (drop (metadata_offset d) (next_block h d assoc))) = ((0, length (next_block h d assoc) - (metadata_offset d + r)), [])"
proof (cases "metadata_offset d = 0")
  case True
  with assms icy_block [OF assms(1), of r "interval d"] show ?thesis by (auto simp: at_block_def)
next
  case False
  with assms icy_skip [of "take r (drop (metadata_offset d) (next_block h d assoc))"] show ?thesis by (auto simp: at_block_def)
qed

lemma send_bytes_cases:
  assumes "client_send_bytes c xs t = (ret, c')"
  obtains r where "r \<le> length xs" "received c' = received c @ take r xs" "lpos c' = lpos c" "lformat c' = lformat c" "nat ret = r"
    "ret = int r \<or> ret = -1 \<and> r = 0"
proof -
  have "nat ret \<le> length xs \<and> received c' = received c @ take (nat ret) xs \<and> lpos c' = lpos c \<and> lformat c' = lformat c \<and>
    (ret = int (nat ret) \<or> ret = -1 \<and> nat ret = 0)"
    using assms by (cases t) (auto simp: client_send_bytes_def connection_send_def Let_def split: if_splits)
  with that [of "nat ret"] show thesis by blast
qed

text \<open>What a write does: the bytes the client receives decode to the audio it moves over.\<close>

definition wrote :: "buffers \<Rightarrow> nat option \<Rightarrow> string \<Rightarrow> mp3_client \<Rightarrow> icy_state \<Rightarrow> mp3_client \<Rightarrow> icy_state \<Rightarrow> bool" where
  "wrote h assoc audio c st c' st' \<longleftrightarrow> lpos c \<le> lpos c' \<and> lpos c' \<le> length audio \<and> interval (lformat c') = interval (lformat c) \<and>
     (\<exists>xs. received c' = received c @ xs \<and>
        icy_decode (interval (lformat c)) st xs = (st', take (lpos c' - lpos c) (drop (lpos c) audio)))"

lemma take_drop_join: "a \<le> b \<Longrightarrow> b \<le> c \<Longrightarrow> take (b - a) (drop a xs) @ take (c - b) (drop b xs) = take (c - a) (drop a xs)"
proof -
  assume "a \<le> b" "b \<le> c"
  then have "take (c - a) (drop a xs) = take (b - a) (drop a xs) @ take (c - b) (drop (b - a) (drop a xs))"
    using take_add [of "b - a" "c - b" "drop a xs"] by simp
  with \<open>a \<le> b\<close> show ?thesis by simp
qed

lemma wrote_trans:
  assumes "wrote h assoc audio c1 st1 c2 st2" "wrote h assoc audio c2 st2 c3 st3"
  shows "wrote h assoc audio c1 st1 c3 st3"
proof -
  obtain xs ys where "received c2 = received c1 @ xs" "icy_decode (interval (lformat c1)) st1 xs = (st2, take (lpos c2 - lpos c1) (drop (lpos c1) audio))"
    "received c3 = received c2 @ ys" "icy_decode (interval (lformat c2)) st2 ys = (st3, take (lpos c3 - lpos c2) (drop (lpos c2) audio))"
    using assms unfolding wrote_def by blast
  moreover have "lpos c1 \<le> lpos c2" "lpos c2 \<le> lpos c3" "lpos c3 \<le> length audio" "interval (lformat c2) = interval (lformat c1)"
    "interval (lformat c3) = interval (lformat c1)" using assms unfolding wrote_def by auto
  ultimately show ?thesis unfolding wrote_def using take_drop_join [of "lpos c1" "lpos c2" "lpos c3" audio]
    by (auto intro!: exI [of _ "xs @ ys"] simp: icy_decode_append)
qed

lemma send_metadata_ok:
  assumes "meta_ok h assoc" "at_block h assoc (lformat c) st" "lpos c \<le> length audio"
  obtains ret c' st' where "send_stream_metadata h c assoc t = Some (ret, c')" "wrote h assoc audio c st c' st'" "lpos c' = lpos c"
    "client_sync h assoc (lformat c') st'" "\<not> in_metadata (lformat c') \<Longrightarrow> since_meta_block (lformat c') = 0"
proof -
  let ?d = "lformat c" and ?b = "next_block h (lformat c) assoc"
  let ?bytes = "drop (metadata_offset ?d) ?b"
  note mb = metadata_bytes_eq [OF assms(1,2)]
  obtain ret c1 where s: "client_send_bytes c ?bytes t = (ret, c1)" by fastforce
  from send_bytes_cases [OF s] obtain r where r: "r \<le> length ?bytes" "received c1 = received c @ take r ?bytes" "lpos c1 = lpos c"
    "lformat c1 = ?d" "nat ret = r" "ret = int r \<or> ret = -1 \<and> r = 0" .
  note bo = next_block_ok [OF assms(1), of ?d]
  show thesis
  proof (cases "ret = int (length ?bytes)")
    case True
    let ?c = "c1\<lparr>lformat := \<lparr>interval = interval ?d, metadata_offset = 0, since_meta_block = 0, in_metadata = False, cassociated = assoc\<rparr>\<rparr>"
    have rl: "r = length ?bytes" using True r(5) by simp
    have "icy_decode (interval ?d) st (take r ?bytes) = ((0, 0), [])" using icy_at_block [OF bo assms(2), of r] rl mb(2) by fastforce
    then have w: "wrote h assoc audio c st ?c (0, 0)" using r assms(3) unfolding wrote_def by auto
    have "send_stream_metadata h c assoc t = Some (ret, ?c)" using mb(1) s True r(4) by (simp add: send_stream_metadata_def)
    from that [OF this w] r(3) show thesis by (simp add: client_sync_def)
  next
    case False
    let ?c = "c1\<lparr>lformat := ?d\<lparr>metadata_offset := metadata_offset ?d + r, in_metadata := True\<rparr>\<rparr>"
    have rl: "r < length ?bytes" using False r(1,6) mb(2) by (cases "r = length ?bytes") auto
    define st' where "st' = (if metadata_offset ?d + r = 0 then st else (0, length ?b - (metadata_offset ?d + r)))"
    have dec: "icy_decode (interval ?d) st (take r ?bytes) = (st', [])"
      using icy_at_block [OF bo assms(2), of r] rl by (auto simp: st'_def)
    then have w: "wrote h assoc audio c st ?c st'" using r assms(3) unfolding wrote_def by auto
    have nb: "next_block h (lformat ?c) assoc = ?b" by (simp add: next_block_def split: option.splits)
    have ab: "at_block h assoc (lformat ?c) st'" using assms(2) rl nb unfolding at_block_def st'_def by auto
    have "send_stream_metadata h c assoc t = Some (max ret 0, ?c)" using mb(1) s False r(4,5) by (simp add: send_stream_metadata_def Let_def)
    from that [OF this w] r(3) ab show thesis by (simp add: client_sync_def)
  qed
qed

lemma send_audio_ok:
  assumes "\<not> in_metadata (lformat c)" "metadata_offset (lformat c) = 0" "since_meta_block (lformat c) + length xs \<le> interval (lformat c)"
    and "xs = take (length xs) (drop (lpos c) audio)" "lpos c \<le> length audio"
  obtains ret c' where "send_audio c xs t = (ret, c')" "wrote h assoc audio c (since_meta_block (lformat c), 0) c' (since_meta_block (lformat c'), 0)"
    "lformat c' = (lformat c)\<lparr>since_meta_block := since_meta_block (lformat c) + nat ret\<rparr>" "lpos c' = lpos c + nat ret" "ret \<le> int (length xs)"
proof -
  obtain ret c1 where s: "client_send_bytes c xs t = (ret, c1)" by fastforce
  from send_bytes_cases [OF s] obtain r where r: "r \<le> length xs" "received c1 = received c @ take r xs" "lpos c1 = lpos c"
    "lformat c1 = lformat c" "nat ret = r" "ret = int r \<or> ret = -1 \<and> r = 0" .
  let ?c = "if ret > 0 then c1\<lparr>lpos := lpos c1 + nat ret, lformat := (lformat c1)\<lparr>since_meta_block := since_meta_block (lformat c1) + nat ret\<rparr>\<rparr> else c1"
  have f: "lformat ?c = (lformat c)\<lparr>since_meta_block := since_meta_block (lformat c) + r\<rparr>" "lpos ?c = lpos c + r" "received ?c = received c @ take r xs"
    using r by auto
  have "length xs \<le> length audio - lpos c" using arg_cong [OF assms(4), of length] by simp
  then have le: "lpos c + r \<le> length audio" using r(1) assms(5) by linarith
  have "take r xs = take r (drop (lpos c) audio)" using assms(4) r(1) by (metis min.absorb1 take_take)
  moreover have "icy_decode (interval (lformat c)) (since_meta_block (lformat c), 0) (take r xs) = ((since_meta_block (lformat c) + r, 0), take r xs)"
    using icy_audio [of "since_meta_block (lformat c)" "take r xs"] r(1) assms(3) by simp
  ultimately have "wrote h assoc audio c (since_meta_block (lformat c), 0) ?c (since_meta_block (lformat ?c), 0)"
    unfolding wrote_def f using le by auto
  moreover have "send_audio c xs t = (ret, ?c)" using s by (simp add: send_audio_def)
  moreover have "ret \<le> int (length xs)" using r(1,6) by auto
  ultimately show thesis using that f(1,2) r(5) by blast
qed

text \<open>The last part of a write, and all of it after the metadata that was left over.\<close>

lemma write_rest_ok:
  assumes "\<not> in_metadata (lformat c)" "metadata_offset (lformat c) = 0" "since_meta_block (lformat c) + length xs \<le> interval (lformat c)"
    and "xs = take (length xs) (drop (lpos c) audio)" "lpos c \<le> length audio"
  obtains ret c' st' where "write_rest w xs c t = Some (ret, c')" "wrote h assoc audio c (since_meta_block (lformat c), 0) c' st'" "client_sync h assoc (lformat c') st'"
proof (cases "xs = []")
  case True
  have "wrote h assoc audio c (since_meta_block (lformat c), 0) c (since_meta_block (lformat c), 0)" using assms(5) by (simp add: wrote_def)
  with that True assms(1-3) show thesis by (simp add: write_rest_def client_sync_def)
next
  case False
  from send_audio_ok [OF assms, where t = t and h = h and assoc = assoc] obtain ret c' where s: "send_audio c xs t = (ret, c')"
    "wrote h assoc audio c (since_meta_block (lformat c), 0) c' (since_meta_block (lformat c'), 0)"
    "lformat c' = (lformat c)\<lparr>since_meta_block := since_meta_block (lformat c) + nat ret\<rparr>" "ret \<le> int (length xs)" .
  have "client_sync h assoc (lformat c') (since_meta_block (lformat c'), 0)" using s(3,4) assms(1-3) by (simp add: client_sync_def)
  moreover have "\<exists>r. write_rest w xs c t = Some (r, c')" using False s(1) by (simp add: write_rest_def leave_def)
  ultimately show thesis using that s(2) by blast
qed

lemma write_block_ok:
  assumes "meta_ok h assoc" "client_sync h assoc (lformat c) st" "\<not> in_metadata (lformat c)" "0 < interval (lformat c)" "lpos c \<le> length audio"
  obtains ret c' st' where "write_block h assoc w (drop (lpos c) audio) c out = Some (ret, c')" "wrote h assoc audio c st c' st'" "client_sync h assoc (lformat c') st'"
proof -
  let ?d = "lformat c" and ?bytes = "drop (lpos c) audio"
  define n where "n = interval ?d - since_meta_block ?d"
  have d: "metadata_offset ?d = 0" "since_meta_block ?d \<le> interval ?d" "st = (since_meta_block ?d, 0)"
    using assms(2,3) unfolding client_sync_def by auto
  show thesis
  proof (cases "n \<le> length ?bytes")
    case False
    have eq: "write_block h assoc w ?bytes c out = write_rest w ?bytes c (out 3)" using False d(2) by (simp add: write_block_def Let_def n_def)
    have "since_meta_block ?d + length ?bytes \<le> interval ?d" "?bytes = take (length ?bytes) ?bytes" using False n_def by auto
    from write_rest_ok [OF assms(3) d(1) this assms(5), where w = w and t = "out 3" and h = h and assoc = assoc] that eq d(3) show thesis by metis
  next
    case True
    let ?m = "\<lambda>c written. case send_stream_metadata h c assoc (out 2) of None \<Rightarrow> None
      | Some (ret, client) \<Rightarrow> if in_metadata (lformat client) then leave written ret client
          else write_rest (written + ret) (take (interval ?d) (drop n ?bytes)) client (out 3)"
    have meta: "\<exists>ret c' st'. ?m c1 written = Some (ret, c') \<and> wrote h assoc audio c1 (interval ?d, 0) c' st' \<and> client_sync h assoc (lformat c') st'"
      if c1: "lformat c1 = ?d\<lparr>since_meta_block := interval ?d\<rparr>" "lpos c1 = lpos c + n" for c1 written
    proof -
      have "at_block h assoc (lformat c1) (interval ?d, 0)" using c1 d(1) by (simp add: at_block_def)
      moreover have "lpos c1 \<le> length audio" using c1(2) True assms(5) by simp
      ultimately obtain ret c2 st2 where s: "send_stream_metadata h c1 assoc (out 2) = Some (ret, c2)" "wrote h assoc audio c1 (interval ?d, 0) c2 st2"
        "lpos c2 = lpos c1" "client_sync h assoc (lformat c2) st2" "\<not> in_metadata (lformat c2) \<Longrightarrow> since_meta_block (lformat c2) = 0"
        using send_metadata_ok [OF assms(1)] by metis
      show ?thesis
      proof (cases "in_metadata (lformat c2)")
        case True
        with s(1) have "?m c1 written = Some (if ret > 0 then written + ret else written, c2)" by (simp add: leave_def)
        with s(2,4) show ?thesis by blast
      next
        case False
        let ?xs = "take (interval ?d) (drop n ?bytes)"
        have d2: "metadata_offset (lformat c2) = 0" "since_meta_block (lformat c2) = 0" "st2 = (0, 0)" "interval (lformat c2) = interval ?d"
          using s(2,4,5) False c1(1) unfolding client_sync_def wrote_def by auto
        have "drop n ?bytes = drop (lpos c2) audio" using s(3) c1(2) by (simp add: add.commute)
        then have xs: "?xs = take (length ?xs) (drop (lpos c2) audio)" "since_meta_block (lformat c2) + length ?xs \<le> interval (lformat c2)"
          using d2 by (auto simp: min_def)
        have le: "lpos c2 \<le> length audio" using s(2) unfolding wrote_def by blast
        from write_rest_ok [OF False d2(1) xs(2,1) le, where w = "written + ret" and t = "out 3" and h = h and assoc = assoc] obtain r c3 st3 where
          "write_rest (written + ret) ?xs c2 (out 3) = Some (r, c3)" "wrote h assoc audio c2 (0, 0) c3 st3" "client_sync h assoc (lformat c3) st3"
          unfolding d2(2) .
        moreover from this(1) s(1) False have "?m c1 written = Some (r, c3)" by simp
        ultimately show ?thesis using wrote_trans [OF s(2) [unfolded d2(3)]] by blast
      qed
    qed
    have wb: "write_block h assoc w ?bytes c out =
      (let (ret, client) = (if n \<noteq> 0 then send_audio c (take n ?bytes) (out 1) else (0, c))
       in if n \<noteq> 0 \<and> ret < int n then leave w ret client else ?m client (w + ret))"
      unfolding write_block_def Let_def if_P [OF d(2)] n_def [symmetric] using True assms(4) by simp
    show thesis
    proof (cases "n = 0")
      case zero: True
      then have since: "since_meta_block ?d = interval ?d" using d(2) n_def by simp
      then have "?d\<lparr>since_meta_block := interval ?d\<rparr> = ?d" by (metis (no_types) mp3_client_data.surjective mp3_client_data.update_convs(3))
      moreover have "lpos c = lpos c + n" using zero by simp
      ultimately obtain r c' st' where m: "?m c (w + 0) = Some (r, c')" "wrote h assoc audio c (interval ?d, 0) c' st'"
        "client_sync h assoc (lformat c') st'" using meta [of c "w + 0"] by metis
      have "write_block h assoc w ?bytes c out = ?m c (w + 0)" unfolding wb using zero by (simp only: Let_def if_False simp_thms prod.case)
      from trans [OF this m(1)] have "write_block h assoc w ?bytes c out = Some (r, c')" .
      from that [OF this _ m(3)] m(2) d(3) since show thesis by simp
    next
      case False
      have len: "length (take n ?bytes) = n" "take n ?bytes = take (length (take n ?bytes)) (drop (lpos c) audio)" using True by auto
      have "since_meta_block ?d + length (take n ?bytes) \<le> interval ?d" using len d(2) n_def by simp
      from send_audio_ok [OF assms(3) d(1) this len(2) assms(5), where t = "out 1" and h = h and assoc = assoc] obtain ret c1 where
        s: "send_audio c (take n ?bytes) (out 1) = (ret, c1)" "wrote h assoc audio c (since_meta_block ?d, 0) c1 (since_meta_block (lformat c1), 0)"
        "lformat c1 = ?d\<lparr>since_meta_block := since_meta_block ?d + nat ret\<rparr>" "lpos c1 = lpos c + nat ret" "ret \<le> int (length (take n ?bytes))" .
      show thesis
      proof (cases "ret < int n")
        case True
        have "client_sync h assoc (lformat c1) (since_meta_block (lformat c1), 0)" using s(3) True assms(3) d(1,2) n_def by (simp add: client_sync_def)
        with that s(1,2) wb d(3) False True show thesis by (auto simp: leave_def)
      next
        case full: False
        then have "nat ret = n" using s(5) len(1) by simp
        then have c1: "lformat c1 = ?d\<lparr>since_meta_block := interval ?d\<rparr>" "lpos c1 = lpos c + n" using s(3,4) d(2) n_def by simp_all
        from meta [OF c1, of "w + ret"] obtain r c' st' where "?m c1 (w + ret) = Some (r, c')" "wrote h assoc audio c1 (interval ?d, 0) c' st'"
          "client_sync h assoc (lformat c') st'" by blast
        moreover have "write_block h assoc w ?bytes c out = ?m c1 (w + ret)" unfolding wb using s(1) full False by simp
        moreover have "wrote h assoc audio c st c1 (interval ?d, 0)" using s(2) c1(1) d(3) by simp
        ultimately show thesis using that wrote_trans by metis
      qed
    qed
  qed
qed

lemma mp3_write_sync:
  assumes "h a = Some b" "length (bdata b) = blen b" "meta_ok h (associated b)" "lpos c \<le> blen b"
    and "0 < interval (lformat c)" "client_sync h (associated b) (lformat c) st"
  obtains ret c' st' where "format_mp3_write_buf_to_client h a c out = Some (ret, c')" "wrote h (associated b) (bdata b) c st c' st'"
    "client_sync h (associated b) (lformat c') st'"
proof (cases "in_metadata (lformat c)")
  case False
  from write_block_ok [OF assms(3,6) False assms(5), where w = 0 and out = out and audio = "bdata b"] assms(1,2,4) False that show thesis
    by (auto simp: format_mp3_write_buf_to_client_def Let_def)
next
  case True
  have "at_block h (associated b) (lformat c) st" "lpos c \<le> length (bdata b)" using assms(2,4,6) True by (simp_all add: client_sync_def)
  from send_metadata_ok [OF assms(3) this, where t = "out 0"] obtain ret c1 st1 where s: "send_stream_metadata h c (associated b) (out 0) = Some (ret, c1)"
    "wrote h (associated b) (bdata b) c st c1 st1" "lpos c1 = lpos c" "client_sync h (associated b) (lformat c1) st1" by metis
  show thesis
  proof (cases "in_metadata (lformat c1)")
    case in1: True
    with s(1) assms(1) True have "format_mp3_write_buf_to_client h a c out = Some (if ret > 0 then 0 + ret else 0, c1)"
      by (simp add: format_mp3_write_buf_to_client_def leave_def)
    from that [OF this s(2,4)] show thesis .
  next
    case False
    have "0 < interval (lformat c1)" "lpos c1 \<le> length (bdata b)" using s(2) assms(5) unfolding wrote_def by auto
    from write_block_ok [OF assms(3) s(4) False this, where w = ret and out = out] obtain r c2 st2 where
      w: "write_block h (associated b) ret (drop (lpos c1) (bdata b)) c1 out = Some (r, c2)" "wrote h (associated b) (bdata b) c1 st1 c2 st2"
      "client_sync h (associated b) (lformat c2) st2" .
    have "format_mp3_write_buf_to_client h a c out = Some (r, c2)"
      using s(1,3) w(1) assms(1,2) True False by (simp add: format_mp3_write_buf_to_client_def)
    from that [OF this wrote_trans [OF s(2) w(2)] w(3)] show thesis .
  qed
qed

section \<open>Metadata blocks\<close>

lemma deliver_fields:
  assumes "deliver s h a = Some (s', h', p, run)"
  shows "s' = s" "p = Some a" "run" "\<exists>b. h' a = Some b \<and> associated b = Some (metadata s)"
  using assms by (auto simp: deliver_def refbuf_addref_def split: option.splits)

lemma get_buffer_delivers:
  assumes "mp3_get_buffer malloc s h inp = Some (s', h', Some a, run)"
  shows "run" "\<exists>b. h' a = Some b \<and> associated b = Some (metadata s')"
proof -
  have "\<exists>s1 h1 a1. deliver s1 h1 a1 = Some (s', h', Some a, run)"
    using assms by (auto simp: mp3_get_buffer_def mp3_get_no_meta_def mp3_get_filter_meta_def Let_def split: if_splits option.splits bool.splits) blast+
  then obtain s1 h1 a1 where d: "deliver s1 h1 a1 = Some (s', h', Some a, run)" by blast
  from deliver_fields [OF d] show "run" "\<exists>b. h' a = Some b \<and> associated b = Some (metadata s')" by auto
qed

text \<open>The state in which a listener gets metadata for a buffer, moves on and needs the next metadata.\<close>

lemma write_at_end:
  assumes "h a = Some b" "associated b = Some m" "h m = Some blk" "length (bdata blk) = blen blk" "lpos c = blen b" "length (bdata b) = blen b"
    and "\<not> in_metadata (lformat c)" "0 < interval (lformat c)" "since_meta_block (lformat c) = interval (lformat c)" "metadata_offset (lformat c) = 0"
    and "cassociated (lformat c) \<noteq> Some m" "out 2 = Inr k" "k < blen blk"
  shows "format_mp3_write_buf_to_client h a c out =
    Some (int k, c\<lparr>lcon := (lcon c)\<lparr>sent_bytes := sent_bytes (lcon c) + of_nat k\<rparr>, received := received c @ take k (bdata blk),
      lformat := (lformat c)\<lparr>metadata_offset := k, in_metadata := True\<rparr>\<rparr>)"
  using assms
  by (simp add: format_mp3_write_buf_to_client_def write_block_def send_stream_metadata_def metadata_bytes_def client_send_bytes_def connection_send_def leave_def Let_def)

section \<open>Interleaved metadata end to end\<close>

text \<open>A relay and a listener that gets metadata every two bytes.\<close>

definition icy_source :: mp3_state where
  "icy_source = demo_mp3\<lparr>inline_metadata_interval := 2, m_offset := 0, metadata := 7\<rparr>"

definition icy_store :: buffers where
  "icy_store =
     [7 \<mapsto> (refbuf_new 17)\<lparr>bdata := empty_metadata, rcount := 2\<rparr>,
      5 \<mapsto> (refbuf_new 4)\<lparr>bdata := ''abcd'', associated := Some 7, sync_point := True\<rparr>]"

definition icy_listener :: mp3_client where
  "icy_listener = waiting_listener\<lparr>lrespcode := 200, lrefbuf := Some 5, lcheck := format_advance_queue, plugin_write := True,
     lformat := \<lparr>interval = 2, metadata_offset = 0, since_meta_block = 0, in_metadata = False, cassociated = Some 7\<rparr>\<rparr>"

lemma icy_store_fields:
  "icy_store 7 = Some ((refbuf_new 17)\<lparr>bdata := empty_metadata, rcount := 2\<rparr>)"
  "icy_store 5 = Some ((refbuf_new 4)\<lparr>bdata := ''abcd'', associated := Some 7, sync_point := True\<rparr>)"
  by (simp_all add: icy_store_def)

lemma icy_source_fields:
  "inline_metadata_interval icy_source = 2" "m_offset icy_source = 0" "build_metadata_len icy_source = 0" "metadata icy_source = 7"
  by (simp_all add: icy_source_def demo_mp3_def format_mp3_get_plugin_def Let_def)

lemma icy_filter_demo:
  "\<exists>s1. filter_loop next_free icy_source icy_store [] ''a'' = Some (s1, icy_store, ''a'', True) \<and>
     (\<exists>s2. filter_loop next_free s1 icy_store [] (''b'' @ [NUL] @ ''cd'') = Some (s2, icy_store, ''bcd'', True))"
  by (simp add: filter_loop.simps icy_source_fields icy_store_fields start_block_def new_metadata_def code_NUL)

lemma icy_filter_demo2: "\<exists>s2. filter_loop next_free icy_source icy_store [] (''ab'' @ [NUL] @ ''cd'') = Some (s2, icy_store, ''abcd'', True)"
  by (simp add: filter_loop.simps icy_source_fields icy_store_fields start_block_def new_metadata_def code_NUL)

lemma icy_source_sync: "filter_sync icy_source (0, 0)"
  by (simp add: filter_sync_def icy_source_fields)

lemma icy_listener_ok:
  "icy_store 5 = Some ((refbuf_new 4)\<lparr>bdata := ''abcd'', associated := Some 7, sync_point := True\<rparr>)"
  "length (bdata ((refbuf_new 4)\<lparr>bdata := ''abcd'', associated := Some 7, sync_point := True\<rparr>)) = blen ((refbuf_new 4)\<lparr>bdata := ''abcd'', associated := Some 7, sync_point := True\<rparr>)"
  "meta_ok icy_store (associated ((refbuf_new 4)\<lparr>bdata := ''abcd'', associated := Some 7, sync_point := True\<rparr>))"
  "lpos icy_listener \<le> blen ((refbuf_new 4)\<lparr>bdata := ''abcd'', associated := Some 7, sync_point := True\<rparr>)" "0 < interval (lformat icy_listener)"
  "client_sync icy_store (associated ((refbuf_new 4)\<lparr>bdata := ''abcd'', associated := Some 7, sync_point := True\<rparr>)) (lformat icy_listener) (0, 0)"
  using empty_metadata_ok
  by (simp_all add: icy_store_fields refbuf_new_def meta_ok_def icy_listener_def waiting_listener_def client_sync_def)

text \<open>
  C9: Taking metadata out of a source's stream gives the audio a decoder finds that reads the stream
  byte by byte, however the stream is cut into blocks: the state the filter keeps between blocks, in
  the middle of a metadata block too, is the state of that decoder.
\<close>

theorem filter_loop_is_decoder:
  assumes "filter_sync s st" and "filter_loop malloc s h [] xs = Some (s1, h1, audio1, True)" "filter_loop malloc s1 h1' [] ys = Some (s2, h2, audio2, True)"
  shows "audio1 @ audio2 = snd (icy_decode (nat (inline_metadata_interval s)) st (xs @ ys)) \<and>
    filter_sync s2 (fst (icy_decode (nat (inline_metadata_interval s)) st (xs @ ys)))"
proof -
  note a = filter_loop_decodes [OF assms(2,1)]
  note b = filter_loop_decodes [OF assms(3) a(2)]
  from a b show ?thesis by (auto simp: icy_decode_append Let_def split: prod.splits)
qed

theorem filter_loop_is_decoder_witness:
  "snd (icy_decode 2 (0, 0) (''ab'' @ [NUL] @ ''cd'')) = ''abcd''"
proof -
  obtain s1 s2 where f: "filter_loop next_free icy_source icy_store [] ''a'' = Some (s1, icy_store, ''a'', True)"
    "filter_loop next_free s1 icy_store [] (''b'' @ [NUL] @ ''cd'') = Some (s2, icy_store, ''bcd'', True)" using icy_filter_demo by blast
  from filter_loop_is_decoder [OF icy_source_sync f] show ?thesis by (simp add: icy_source_fields)
qed

text \<open>
  C10: What a listener receives that asked for metadata is a correctly interleaved stream. Writing
  from a buffer to such a listener never reads outside a block; whatever part of it the socket takes, the bytes sent
  decode to exactly the audio the listener is moved over, and the listener stays in step with the
  decoder, in the middle of a metadata block too.
\<close>

theorem mp3_write_decodes:
  assumes "h a = Some b" "length (bdata b) = blen b" "meta_ok h (associated b)" "lpos c \<le> blen b"
    and "0 < interval (lformat c)" "client_sync h (associated b) (lformat c) st"
  shows "\<exists>ret c' xs st'. format_mp3_write_buf_to_client h a c out = Some (ret, c') \<and> received c' = received c @ xs \<and>
    lpos c \<le> lpos c' \<and> lpos c' \<le> blen b \<and>
    icy_decode (interval (lformat c)) st xs = (st', take (lpos c' - lpos c) (drop (lpos c) (bdata b))) \<and>
    client_sync h (associated b) (lformat c') st'"
proof -
  from mp3_write_sync [where h = h and a = a and b = b and out = out, OF assms] obtain ret c' st' where w: "format_mp3_write_buf_to_client h a c out = Some (ret, c')"
    "wrote h (associated b) (bdata b) c st c' st'" "client_sync h (associated b) (lformat c') st'" .
  from w(2) assms(2) obtain xs where "received c' = received c @ xs" "lpos c \<le> lpos c'" "lpos c' \<le> blen b"
    "icy_decode (interval (lformat c)) st xs = (st', take (lpos c' - lpos c) (drop (lpos c) (bdata b)))" unfolding wrote_def by auto
  with w(1,3) show ?thesis by blast
qed

theorem mp3_write_decodes_witness:
  "\<exists>ret c' xs st'. format_mp3_write_buf_to_client icy_store 5 icy_listener (\<lambda>_. Inr 1) = Some (ret, c') \<and> received c' = xs \<and>
     icy_decode 2 (0, 0) xs = (st', take (lpos c') ''abcd'')"
  using mp3_write_decodes [where out = "\<lambda>_. Inr 1", OF icy_listener_ok] by (fastforce simp: icy_listener_def waiting_listener_def)

text \<open>
  C30: A relay of a stream with metadata gets the audio of the original. The bytes a server writes to
  a listener, read by another server as a source with the same interval, give the audio
  that was written and nothing else.
\<close>

theorem mp3_relay_roundtrip:
  assumes "h a = Some b" "length (bdata b) = blen b" "meta_ok h (associated b)" "lpos c \<le> blen b"
    and "0 < interval (lformat c)" "client_sync h (associated b) (lformat c) st"
    and "filter_sync s st" "inline_metadata_interval s = int (interval (lformat c))"
    and "format_mp3_write_buf_to_client h a c out = Some (ret, c')" "filter_loop malloc s k [] (drop (length (received c)) (received c')) = Some (s', k', audio, True)"
  shows "audio = take (lpos c' - lpos c) (drop (lpos c) (bdata b)) \<and>
    (\<exists>st'. client_sync h (associated b) (lformat c') st' \<and> filter_sync s' st')"
proof -
  from mp3_write_sync [where h = h and a = a and b = b and out = out, OF assms(1-6)] obtain r0 c0 st' where
    w0: "format_mp3_write_buf_to_client h a c out = Some (r0, c0)" "wrote h (associated b) (bdata b) c st c0 st'"
    "client_sync h (associated b) (lformat c0) st'" .
  with assms(9) have w: "wrote h (associated b) (bdata b) c st c' st'" "client_sync h (associated b) (lformat c') st'" by simp_all
  from w(1) obtain xs where xs: "received c' = received c @ xs"
    "icy_decode (interval (lformat c)) st xs = (st', take (lpos c' - lpos c) (drop (lpos c) (bdata b)))" unfolding wrote_def by auto
  have "filter_loop malloc s k [] xs = Some (s', k', audio, True)" using assms(10) xs(1) by simp
  from filter_loop_decodes [OF this assms(7)] assms(8) xs(2)
  have "audio = take (lpos c' - lpos c) (drop (lpos c) (bdata b))" "filter_sync s' st'" by simp_all
  with w(2) show ?thesis by blast
qed

theorem mp3_relay_roundtrip_witness:
  "\<exists>ret c' s2. format_mp3_write_buf_to_client icy_store 5 icy_listener (\<lambda>_. Inr 100) = Some (ret, c') \<and>
     filter_loop next_free icy_source icy_store [] (received c') = Some (s2, icy_store, take (lpos c') ''abcd'', True) \<and> lpos c' = 4"
proof -
  obtain ret c' where w: "format_mp3_write_buf_to_client icy_store 5 icy_listener (\<lambda>_. Inr 100) = Some (ret, c')"
    "received c' = ''ab'' @ [NUL] @ ''cd''" "lpos c' = 4"
    by (simp add: format_mp3_write_buf_to_client_def icy_store_fields icy_listener_def waiting_listener_def write_block_def send_audio_def
        client_send_bytes_def connection_send_def send_stream_metadata_def metadata_bytes_def write_rest_def refbuf_new_def Let_def)
  obtain s2 where f: "filter_loop next_free icy_source icy_store [] (''ab'' @ [NUL] @ ''cd'') = Some (s2, icy_store, ''abcd'', True)" using icy_filter_demo2 by blast
  have i: "inline_metadata_interval icy_source = int (interval (lformat icy_listener))" "received icy_listener = []" "lpos icy_listener = 0"
    by (simp_all add: icy_source_fields icy_listener_def waiting_listener_def)
  have "filter_loop next_free icy_source icy_store [] (drop (length (received icy_listener)) (received c')) = Some (s2, icy_store, ''abcd'', True)"
    using f w(2) i(2) by simp
  from mp3_relay_roundtrip [OF icy_listener_ok icy_source_sync i(1) w(1) this] w f i show ?thesis by simp
qed

text \<open>
  C29: The metadata that goes with a stream is always well formed. Whatever a source sends and in
  whatever pieces, and whoever sets the title, the block a delivered buffer is tied to is as
  long as its first byte says and has at most 4081 bytes.
\<close>

theorem mp3_metadata_well_formed:
  assumes "heap_ok h (R + mset (mp3_holds s))" "mp3_state_ok malloc s h"
  shows "\<exists>s' h' p run. mp3_get_buffer malloc s h inp = Some (s', h', p, run) \<and> (run \<longrightarrow> mp3_state_ok malloc s' h') \<and>
    (\<forall>a. p = Some a \<longrightarrow> (\<exists>b m blk. h' a = Some b \<and> associated b = Some m \<and> h' m = Some blk \<and>
       length (bdata blk) = blen blk \<and> block_ok (bdata blk) \<and> blen blk \<le> 4081))"
proof -
  obtain s' h' p run where g: "mp3_get_buffer malloc s h inp = Some (s', h', p, run)" "run \<longrightarrow> mp3_state_ok malloc s' h'"
    using mp3_get_buffer_ok [OF assms, of "[]" inp] by (auto simp: got_ok_def)
  have "\<exists>b m blk. h' a = Some b \<and> associated b = Some m \<and> h' m = Some blk \<and> length (bdata blk) = blen blk \<and> block_ok (bdata blk) \<and> blen blk \<le> 4081"
    if p: "p = Some a" for a
  proof -
    note d = get_buffer_delivers [OF g(1) [unfolded p]]
    obtain blk where m: "h' (metadata s') = Some blk" "length (bdata blk) = blen blk" "block_ok (bdata blk)"
      using d(1) g(2) unfolding mp3_state_ok_def block_buffer_def by blast
    moreover have "blen blk \<le> 4081" using m(2,3) code_bound [of "hd (bdata blk)"] unfolding block_ok_def by simp
    ultimately show ?thesis using d(2) by blast
  qed
  with g show ?thesis by blast
qed

theorem mp3_metadata_well_formed_witness:
  "\<exists>s' h' p run. mp3_get_buffer next_free demo_mp3 demo_store (Inr (replicate 1400 NUL)) = Some (s', h', p, run) \<and>
     (\<forall>a. p = Some a \<longrightarrow> (\<exists>b m blk. h' a = Some b \<and> associated b = Some m \<and> h' m = Some blk \<and> block_ok (bdata blk)))"
proof -
  have "heap_ok demo_store ({#2#} + mset (mp3_holds demo_mp3))" using demo_store_ok by (simp add: mset_mp3_holds demo_mp3_fields add_mset_commute)
  from mp3_metadata_well_formed [OF this demo_mp3_ok, of "Inr (replicate 1400 NUL)"] show ?thesis by blast
qed

text \<open>
  A listener that has been sent a part of a metadata block keeps its offset when it moves on to
  a buffer with other metadata. When the new block is shorter than the part already sent, the next
  write reads outside it.
\<close>

lemma metadata_offset_overrun:
  assumes "bufs st a1 = Some b1" "associated b1 = Some m1" "bufs st m1 = Some blk1" "length (bdata blk1) = blen blk1" "length (bdata b1) = blen b1"
    and "bnext b1 = Some a2" "bufs st a2 = Some b2" "associated b2 = Some m2" "bufs st m2 = Some blk2"
    and "heap_ok (bufs st) (add_mset a1 (add_mset a2 X))"
    and "lrefbuf c = Some a1" "lpos c = blen b1" "\<not> in_metadata (lformat c)" "0 < interval (lformat c)"
    "since_meta_block (lformat c) = interval (lformat c)" "metadata_offset (lformat c) = 0" "cassociated (lformat c) \<noteq> Some m1" "cassociated (lformat c) \<noteq> Some m2"
    and "out 2 = Inr k" "k < blen blk1" "blen blk2 < k"
  shows "\<exists>ret c1 st' c2. format_mp3_write_buf_to_client (bufs st) a1 c out = Some (ret, c1) \<and>
    advance_queue st c1 = Some (0, st', c2) \<and> lrefbuf c2 = Some a2 \<and> format_mp3_write_buf_to_client (bufs st') a2 c2 out2 = None"
proof -
  let ?c = "c\<lparr>lcon := (lcon c)\<lparr>sent_bytes := sent_bytes (lcon c) + of_nat k\<rparr>, received := received c @ take k (bdata blk1),
      lformat := (lformat c)\<lparr>metadata_offset := k, in_metadata := True\<rparr>\<rparr>"
  have w: "format_mp3_write_buf_to_client (bufs st) a1 c out = Some (int k, ?c)"
    by (rule write_at_end [where h = "bufs st" and a = a1 and b = b1 and m = m1 and blk = blk1]) (use assms in simp_all)
  obtain h1 where h1: "refbuf_addref (bufs st) a2 = Some h1" "heap_ok h1 (add_mset a1 (add_mset a2 (add_mset a2 X)))" "kept (bufs st) h1"
    using refbuf_addref_ok [OF assms(10,7)] by (auto simp: add_mset_commute)
  obtain h2 where h2: "refbuf_release h1 (Some a1) = Some h2" "heap_ok h2 (add_mset a2 (add_mset a2 X))" "kept h1 h2"
    using refbuf_release_ok [OF h1(2)] by blast
  have q: "advance_queue st ?c = Some (0, st\<lparr>bufs := h2\<rparr>, ?c\<lparr>lrefbuf := Some a2, lpos := 0\<rparr>)"
    using assms(1,6,11,12) h1(1) h2(1) by (simp add: advance_queue_def set_queue_def)
  have kp: "kept (bufs st) h2" by (rule kept_trans [OF h1(3) h2(3)])
  obtain b2' where b2': "h2 a2 = Some b2'" using heap_ok_live [OF h2(2), of a2] by auto
  from kept_fields [OF kp b2'] obtain b where b: "bufs st a2 = Some b" "associated b2' = associated b" .
  then have as: "associated b2' = Some m2" using assms(7,8) by simp
  have "assoc_refs h2 m2 \<noteq> 0" using assoc_refs_pos [OF heap_okD(1) [OF h2(2)] b2' as] by simp
  then obtain blk where blk: "h2 m2 = Some blk" using heap_okD(5) [OF h2(2), of m2] by fastforce
  from kept_fields [OF kp blk] obtain y where "bufs st m2 = Some y" "blen blk = blen y" .
  then have "blen blk = blen blk2" using assms(9) by simp
  then have "format_mp3_write_buf_to_client h2 a2 (?c\<lparr>lrefbuf := Some a2, lpos := 0\<rparr>) out2 = None"
    using b2' as blk assms(18,21)
    by (simp add: format_mp3_write_buf_to_client_def send_stream_metadata_def metadata_bytes_def)
  with w q show ?thesis by auto
qed

definition overrun_store :: buffers where
  "overrun_store =
     [3 \<mapsto> (refbuf_new 4)\<lparr>bdata := ''abcd'', associated := Some 5, bnext := Some 4\<rparr>,
      4 \<mapsto> (refbuf_new 4)\<lparr>bdata := ''efgh'', associated := Some 6\<rparr>,
      5 \<mapsto> (refbuf_new 33)\<lparr>bdata := char_of (2 :: nat) # replicate 32 NUL\<rparr>,
      6 \<mapsto> (refbuf_new 17)\<lparr>bdata := empty_metadata\<rparr>]"

lemma overrun_store_fields:
  "overrun_store 3 = Some ((refbuf_new 4)\<lparr>bdata := ''abcd'', associated := Some 5, bnext := Some 4\<rparr>)"
  "overrun_store 4 = Some ((refbuf_new 4)\<lparr>bdata := ''efgh'', associated := Some 6\<rparr>)"
  "overrun_store 5 = Some ((refbuf_new 33)\<lparr>bdata := char_of (2 :: nat) # replicate 32 NUL\<rparr>)"
  "overrun_store 6 = Some ((refbuf_new 17)\<lparr>bdata := empty_metadata\<rparr>)"
  "x \<noteq> 3 \<Longrightarrow> x \<noteq> 4 \<Longrightarrow> x \<noteq> 5 \<Longrightarrow> x \<noteq> 6 \<Longrightarrow> overrun_store x = None"
  by (simp_all add: overrun_store_def)

lemma overrun_refs: "{x. \<exists>b. overrun_store x = Some b \<and> associated b = Some m} = (if m = 5 then {3} else if m = 6 then {4} else {})"
  by (auto simp: overrun_store_def refbuf_new_def split: if_splits)

lemma overrun_store_ok: "heap_ok overrun_store {#3, 4#}"
proof (rule heap_okI)
  have as: "assoc_refs overrun_store m = (if m = 5 \<or> m = 6 then 1 else 0)" for m unfolding assoc_refs_def overrun_refs by simp
  have in4: "x = 3 \<or> x = 4 \<or> x = 5 \<or> x = 6" if "overrun_store x = Some b" for x b using that overrun_store_fields(5) by fastforce
  show "finite (dom overrun_store)" by (simp add: overrun_store_def)
  show "count {#3, 4#} a = 0 \<and> assoc_refs overrun_store a = 0" if "overrun_store a = None" for a
    using that overrun_store_fields(1-4) as by (auto split: if_splits)
  show "rcount b = count {#3, 4#} a + assoc_refs overrun_store a \<and> 0 < rcount b" if "overrun_store a = Some b" for a b
    using in4 [OF that] that overrun_store_fields(1-4) as by (auto simp: refbuf_new_def)
  show "associated c = None \<and> bnext c = None" if "overrun_store x = Some b" "associated b = Some m" "overrun_store m = Some c" for x b m c
    using in4 [OF that(1)] that overrun_store_fields(1-4) by (auto simp: refbuf_new_def)
qed

end
