(* ===== verification/Stats.thy ===== *)
theory Stats
  imports Source Conn_Queue Streaming
begin

text \<open>
  The statistics of the server (\<open>stats.c\<close>): two trees of named values, global ones and those of each
  mount, changed by events that any thread may queue and the statistics thread applies, and
  connections that are sent the values and every later event. Nodes of the trees are changed in
  place. The queues of events are represented by their sequences; section \<open>Event queues\<close> shows
  that the linked queues of the code behave like that. \<open>None\<close> stands for a null string that is
  copied or compared. The check for UTF-8 and the conversion of character sets are parameters.
\<close>

section \<open>Data\<close>

record stats_node =
  node_name :: string
  node_value :: string
  node_hidden :: int

record stats_source =
  source_name :: string
  source_hidden :: int
  stats_tree :: "stats_node avl_tree"

record stats =
  global_stats :: "stats_node avl_tree"
  source_stats :: "stats_source avl_tree"

datatype stats_action =
  STATS_EVENT_SET | STATS_EVENT_INC | STATS_EVENT_DEC | STATS_EVENT_ADD | STATS_EVENT_SUB
| STATS_EVENT_REMOVE | STATS_EVENT_HIDDEN

record stats_event_t =
  ev_source :: "string option"
  ev_name :: "string option"
  ev_value :: "string option"
  ev_hidden :: int
  ev_action :: stats_action

definition compare_stats :: "stats_node \<Rightarrow> stats_node \<Rightarrow> int" where
  "compare_stats a b = strcmp (node_name a) (node_name b)"

definition compare_source_stats :: "stats_source \<Rightarrow> stats_source \<Rightarrow> int" where
  "compare_source_stats a b = strcmp (source_name a) (source_name b)"

text \<open>A field of the entries of a tree is changed in place; the shape of the tree stays.\<close>

definition poke :: "('e \<Rightarrow> bool) \<Rightarrow> ('e \<Rightarrow> 'e) \<Rightarrow> 'e avl_tree \<Rightarrow> 'e avl_tree" where
  "poke P f t = t\<lparr>root := map_avl_node (\<lambda>e. if P e then f e else e) (root t)\<rparr>"

section \<open>Making events\<close>

definition build_event :: "string option \<Rightarrow> string option \<Rightarrow> string option \<Rightarrow> stats_event_t" where
  "build_event source nm v =
     \<lparr>ev_source = source, ev_name = nm, ev_value = v, ev_hidden = 0,
      ev_action = (if v = None then STATS_EVENT_REMOVE else STATS_EVENT_SET)\<rparr>"

text \<open>What each entry point puts into the global queue: nothing, or one event.\<close>

definition stats_event :: "(string \<Rightarrow> bool) \<Rightarrow> string option \<Rightarrow> string option \<Rightarrow> string option \<Rightarrow> stats_event_t list" where
  "stats_event utf8 source nm v =
     (if (case v of None \<Rightarrow> False | Some x \<Rightarrow> \<not> utf8 x) then [] else [build_event source nm v])"

definition stats_event_conv ::
  "(string \<Rightarrow> bool) \<Rightarrow> (string \<Rightarrow> string \<Rightarrow> string option) \<Rightarrow> string option \<Rightarrow> string option \<Rightarrow> string \<Rightarrow> string option \<Rightarrow> stats_event_t list" where
  "stats_event_conv utf8 conv mount nm v cset =
     stats_event utf8 mount nm
       (Some (case cset of None \<Rightarrow> v | Some c \<Rightarrow> (case conv c v of None \<Rightarrow> v | Some x \<Rightarrow> x)))"

definition stats_event_hidden :: "string option \<Rightarrow> string option \<Rightarrow> int \<Rightarrow> stats_event_t" where
  "stats_event_hidden source nm hide =
     (build_event source nm (if hide \<noteq> 0 then Some [] else None))\<lparr>ev_action := STATS_EVENT_HIDDEN\<rparr>"

text \<open>\<open>text\<close> is the formatted value.\<close>

definition stats_event_args :: "(string \<Rightarrow> bool) \<Rightarrow> string option \<Rightarrow> string option \<Rightarrow> string \<Rightarrow> stats_event_t list" where
  "stats_event_args utf8 source nm text =
     (if nm = None then []
      else
        let (buf, ret) = snprintf 1024 text
        in if ret \<ge> 1024 then [] else stats_event utf8 source nm (Some buf))"

definition stats_event_inc :: "string option \<Rightarrow> string option \<Rightarrow> stats_event_t" where
  "stats_event_inc source nm = (build_event source nm None)\<lparr>ev_action := STATS_EVENT_INC\<rparr>"

definition stats_event_dec :: "string option \<Rightarrow> string option \<Rightarrow> stats_event_t" where
  "stats_event_dec source nm = (build_event source nm None)\<lparr>ev_action := STATS_EVENT_DEC\<rparr>"

text \<open>The amount is printed as a signed number into a string of 16 bytes.\<close>

definition stats_event_add :: "string option \<Rightarrow> string option \<Rightarrow> u64 \<Rightarrow> stats_event_t" where
  "stats_event_add source nm v =
     (build_event source nm None)\<lparr>ev_value := Some (fst (snprintf 16 (fmt_d (sint v)))), ev_action := STATS_EVENT_ADD\<rparr>"

definition stats_event_sub :: "string option \<Rightarrow> string option \<Rightarrow> u64 \<Rightarrow> stats_event_t" where
  "stats_event_sub source nm v =
     (build_event source nm None)\<lparr>ev_value := Some (fst (snprintf 16 (fmt_d (sint v)))), ev_action := STATS_EVENT_SUB\<rparr>"

text \<open>The events of \<open>stats_global\<close>, and those the statistics thread starts with at the given times.\<close>

definition stats_global :: "(string \<Rightarrow> bool) \<Rightarrow> string \<Rightarrow> string \<Rightarrow> string \<Rightarrow> string \<Rightarrow> stats_event_t list" where
  "stats_global utf8 sid host location admin =
     stats_event utf8 None (Some ''server_id'') (Some sid) @ stats_event utf8 None (Some ''host'') (Some host) @
     stats_event utf8 None (Some ''location'') (Some location) @ stats_event utf8 None (Some ''admin'') (Some admin)"

definition counters :: "string list" where
  "counters = [''clients'', ''connections'', ''sources'', ''stats'', ''listeners'', ''client_connections'',
     ''source_client_connections'', ''source_relay_connections'', ''source_total_connections'',
     ''stats_connections'', ''listener_connections'']"

definition start_events :: "(string \<Rightarrow> bool) \<Rightarrow> string \<Rightarrow> string \<Rightarrow> stats_event_t list" where
  "start_events utf8 time iso_time =
     stats_event utf8 None (Some ''server_start'') (Some time) @
     stats_event utf8 None (Some ''server_start_iso8601'') (Some iso_time) @
     concat (map (\<lambda>n. stats_event utf8 None (Some n) (Some ''0'')) counters)"

section \<open>Applying events\<close>

fun find_node :: "string \<Rightarrow> stats_node avl_node \<Rightarrow> stats_node option" where
  "find_node n Null = None"
| "find_node n (Node l x w r) =
     (let cmp = strcmp n (node_name x)
      in if cmp < 0 then find_node n l else if cmp > 0 then find_node n r else Some x)"

fun find_source :: "string \<Rightarrow> stats_source avl_node \<Rightarrow> stats_source option" where
  "find_source m Null = None"
| "find_source m (Node l x w r) =
     (let cmp = strcmp m (source_name x)
      in if cmp < 0 then find_source m l else if cmp > 0 then find_source m r else Some x)"

text \<open>
  \<open>atoi\<close> as the cast of \<open>strtol\<close> to 32 bits, \<open>atoll\<close> as \<open>strtoll\<close>, and additions that wrap around
  at the width of the type, which is what the compilers make of the overflow.
\<close>

definition clamp64 :: "int \<Rightarrow> int" where
  "clamp64 i = max (- (2 ^ 63)) (min i (2 ^ 63 - 1))"

definition to_int :: "int \<Rightarrow> int" where
  "to_int i = signed_take_bit 31 i"

definition atoi32 :: "string \<Rightarrow> int" where
  "atoi32 s = to_int (clamp64 (atoi s))"

definition atoll :: "string \<Rightarrow> int" where
  "atoll s = clamp64 (atoi s)"

text \<open>The new value of a node, for the actions that work one out.\<close>

definition counted :: "stats_action \<Rightarrow> string \<Rightarrow> string option \<Rightarrow> int option" where
  "counted act old v =
     (case act of
        STATS_EVENT_INC \<Rightarrow> Some (to_int (atoi32 old + 1))
      | STATS_EVENT_DEC \<Rightarrow> Some (to_int (atoi32 old - 1))
      | STATS_EVENT_ADD \<Rightarrow> map_option (\<lambda>v. to_int (atoi32 old + atoi32 v)) v
      | STATS_EVENT_SUB \<Rightarrow> map_option (\<lambda>v. signed_take_bit 63 (atoll old - atoll v)) v
      | _ \<Rightarrow> Some 0)"

text \<open>\<open>modify_node_event\<close>: the event, whose value may be filled in, and the change of the node.\<close>

definition modify_node_event :: "stats_node \<Rightarrow> stats_event_t \<Rightarrow> (stats_event_t \<times> stats_node) option" where
  "modify_node_event node ev =
     (if ev_action ev = STATS_EVENT_HIDDEN then Some (ev, node\<lparr>node_hidden := (if ev_value ev \<noteq> None then 1 else 0)\<rparr>)
      else if ev_action ev \<noteq> STATS_EVENT_SET then
        (case counted (ev_action ev) (node_value node) (ev_value ev) of
           None \<Rightarrow> None
         | Some i \<Rightarrow>
             let str = fst (snprintf 16 (fmt_d i))
             in Some (if ev_value ev = None then ev\<lparr>ev_value := Some str\<rparr> else ev, node\<lparr>node_value := str\<rparr>))
      else
        (case ev_value ev of
           None \<Rightarrow> None
         | Some v \<Rightarrow> Some (ev, node\<lparr>node_value := v\<rparr>)))"

definition process_global_event :: "stats_event_t \<Rightarrow> stats_node avl_tree \<Rightarrow> (stats_event_t \<times> stats_node avl_tree) option" where
  "process_global_event ev t =
     (case ev_name ev of
        None \<Rightarrow> if root t = Null \<and> ev_action ev = STATS_EVENT_REMOVE then Some (ev, t) else None
      | Some n \<Rightarrow>
          (case find_node n (root t) of
             Some node \<Rightarrow>
               if ev_action ev = STATS_EVENT_REMOVE then Some (ev, tree_delete t node)
               else map_option (\<lambda>(ev, node). (ev, poke (\<lambda>x. node_name x = n) (\<lambda>_. node) t)) (modify_node_event node ev)
           | None \<Rightarrow>
               if ev_action ev = STATS_EVENT_REMOVE then Some (ev, t)
               else
                 (case ev_value ev of
                    None \<Rightarrow> None
                  | Some v \<Rightarrow> Some (ev, tree_insert t \<lparr>node_name = n, node_value = v, node_hidden = 0\<rparr>))))"

text \<open>What an event does to the statistics of its mount: the second part of \<open>process_source_event\<close>.\<close>

definition source_node_event :: "stats_event_t \<Rightarrow> string \<Rightarrow> stats_source \<Rightarrow> (stats_event_t \<times> stats_source) option" where
  "source_node_event ev n snode =
     (case find_node n (root (stats_tree snode)) of
        None \<Rightarrow>
          if ev_action ev = STATS_EVENT_REMOVE then Some (ev, snode)
          else
            (case ev_value ev of
               None \<Rightarrow> Some (ev, snode)
             | Some v \<Rightarrow>
                 Some (ev, snode\<lparr>stats_tree := tree_insert (stats_tree snode)
                                   \<lparr>node_name = n, node_value = v, node_hidden = source_hidden snode\<rparr>\<rparr>))
      | Some node \<Rightarrow>
          if ev_action ev = STATS_EVENT_REMOVE then Some (ev, snode\<lparr>stats_tree := tree_delete (stats_tree snode) node\<rparr>)
          else
            map_option (\<lambda>(ev, node). (ev, snode\<lparr>stats_tree := poke (\<lambda>x. node_name x = n) (\<lambda>_. node) (stats_tree snode)\<rparr>))
              (modify_node_event node ev))"

definition hide_source :: "stats_event_t \<Rightarrow> stats_source \<Rightarrow> stats_source" where
  "hide_source ev snode =
     (let h = (if ev_value ev \<noteq> None then 1 else 0)
      in snode\<lparr>source_hidden := h, stats_tree := poke (\<lambda>x. True) (\<lambda>x. x\<lparr>node_hidden := h\<rparr>) (stats_tree snode)\<rparr>)"

definition process_source_event :: "stats_event_t \<Rightarrow> string \<Rightarrow> stats_source avl_tree \<Rightarrow> (stats_event_t \<times> stats_source avl_tree) option" where
  "process_source_event ev m t =
     (case (case find_source m (root t) of
              Some snode \<Rightarrow> Some (snode, t)
            | None \<Rightarrow>
                if ev_action ev = STATS_EVENT_REMOVE then None
                else
                  let snode = \<lparr>source_name = m, source_hidden = (if ev_action ev = STATS_EVENT_HIDDEN then 1 else 0),
                               stats_tree = avl_tree_new compare_stats\<rparr>
                  in Some (snode, tree_insert t snode)) of
        None \<Rightarrow> Some (ev, t)
      | Some (snode, t) \<Rightarrow>
          (case ev_name ev of
             Some n \<Rightarrow>
               map_option (\<lambda>(ev, snode). (ev, poke (\<lambda>x. source_name x = m) (\<lambda>_. snode) t)) (source_node_event ev n snode)
           | None \<Rightarrow>
               if ev_action ev = STATS_EVENT_HIDDEN then Some (ev, poke (\<lambda>x. source_name x = m) (\<lambda>_. hide_source ev snode) t)
               else if ev_action ev = STATS_EVENT_REMOVE then Some (ev, tree_delete t snode)
               else Some (ev, t)))"

definition process_event :: "stats_event_t \<Rightarrow> stats \<Rightarrow> (stats_event_t \<times> stats) option" where
  "process_event ev s =
     (case ev_source ev of
        None \<Rightarrow> map_option (\<lambda>(ev, t). (ev, s\<lparr>global_stats := t\<rparr>)) (process_global_event ev (global_stats s))
      | Some m \<Rightarrow> map_option (\<lambda>(ev, t). (ev, s\<lparr>source_stats := t\<rparr>)) (process_source_event ev m (source_stats s)))"

section \<open>Reading the statistics\<close>

definition stats_get_value :: "stats \<Rightarrow> string option \<Rightarrow> string \<Rightarrow> string option" where
  "stats_get_value s source nm =
     map_option node_value
       (case source of
          None \<Rightarrow> find_node nm (root (global_stats s))
        | Some m \<Rightarrow>
            (case find_source m (root (source_stats s)) of
               None \<Rightarrow> None
             | Some snode \<Rightarrow> find_node nm (root (stats_tree snode))))"

text \<open>The document: text children for the global values, and a child per mount with its values.\<close>

datatype stats_child = TextChild string string | SourceChild string "(string \<times> string) list"

definition dump_stats_to_doc :: "stats \<Rightarrow> string option \<Rightarrow> int \<Rightarrow> stats_child list" where
  "dump_stats_to_doc s show_mount hide =
     map (\<lambda>x. TextChild (node_name x) (node_value x)) (filter (\<lambda>x. node_hidden x \<le> hide) (inorder (root (global_stats s)))) @
     map (\<lambda>x. SourceChild (source_name x) (map (\<lambda>y. (node_name y, node_value y)) (inorder (root (stats_tree x)))))
       (filter (\<lambda>x. source_hidden x \<le> hide \<and> (case show_mount of None \<Rightarrow> True | Some m \<Rightarrow> strcmp m (source_name x) = 0))
         (inorder (root (source_stats s))))"

text \<open>
  The list of mounts in buffers of 4096 bytes: the finished buffers, the current one and the room
  left in it. A mount that does not fit in an empty buffer would be written past its end.
\<close>

definition STREAMLIST_BLKSIZE :: nat where "STREAMLIST_BLKSIZE = 4096"

fun streams_loop :: "string list \<Rightarrow> string \<Rightarrow> nat \<Rightarrow> stats_source list \<Rightarrow> string list option" where
  "streams_loop full cur remaining [] = Some (full @ [cur])"
| "streams_loop full cur remaining (x # xs) =
     (if source_hidden x = 0 then
        let (full, cur, remaining) =
              (if remaining \<le> length (source_name x) + 3 then (full @ [cur], [], STREAMLIST_BLKSIZE) else (full, cur, remaining));
            (line, ret) = snprintf remaining (source_name x @ [CR, LF])
        in if nat ret \<ge> remaining then None
           else streams_loop full (cur @ line) (remaining - nat ret) xs
      else streams_loop full cur remaining xs)"

definition stats_get_streams :: "stats \<Rightarrow> string list option" where
  "stats_get_streams s = streams_loop [] [] STREAMLIST_BLKSIZE (inorder (root (source_stats s)))"

text \<open>The next node is read before an entry is deleted, so the walk visits the entries the tree had.\<close>

fun clear_loop :: "source_registry \<Rightarrow> stats_source list \<Rightarrow> stats_source avl_tree \<Rightarrow> stats_source avl_tree" where
  "clear_loop reg [] t = t"
| "clear_loop reg (src # rest) t =
     clear_loop reg rest (if source_find_mount_raw reg (Some (source_name src)) = None then tree_delete t src else t)"

definition stats_clear_virtual_mounts :: "source_registry \<Rightarrow> stats \<Rightarrow> stats" where
  "stats_clear_virtual_mounts reg s =
     s\<lparr>source_stats := clear_loop reg (inorder (root (source_stats s))) (source_stats s)\<rparr>"

section \<open>Connections that watch the statistics\<close>

definition copy_event :: "stats_event_t \<Rightarrow> stats_event_t" where
  "copy_event ev = ev\<lparr>ev_action := STATS_EVENT_SET\<rparr>"

definition make_event_from_node :: "string option \<Rightarrow> stats_node \<Rightarrow> stats_event_t" where
  "make_event_from_node source node =
     \<lparr>ev_source = source, ev_name = Some (node_name node), ev_value = Some (node_value node),
      ev_hidden = node_hidden node, ev_action = STATS_EVENT_SET\<rparr>"

text \<open>\<open>taken\<close> records the events the connection has taken from its queue.\<close>

record stats_listener =
  sl_id :: nat
  sl_queue :: "stats_event_t list"
  sl_client :: "unit lclient"
  taken :: "stats_event_t list"

record stats_world =
  trees :: stats
  global_events :: "stats_event_t list"
  event_listeners :: "stats_listener list"
  stats_threads :: int

definition stats_initialize :: stats_world where
  "stats_initialize =
     \<lparr>trees = \<lparr>global_stats = avl_tree_new compare_stats, source_stats = avl_tree_new compare_source_stats\<rparr>,
      global_events = [], event_listeners = [], stats_threads = 0\<rparr>"

definition queue_global_event :: "stats_event_t list \<Rightarrow> stats_world \<Rightarrow> stats_world" where
  "queue_global_event evs w = w\<lparr>global_events := global_events w @ evs\<rparr>"

text \<open>One round of the statistics thread.\<close>

definition stats_thread_round :: "stats_world \<Rightarrow> stats_world option" where
  "stats_thread_round w =
     (case global_events w of
        [] \<Rightarrow> Some w
      | ev # evs \<Rightarrow>
          map_option (\<lambda>(ev, s). w\<lparr>trees := s, global_events := evs,
               event_listeners := map (\<lambda>l. l\<lparr>sl_queue := sl_queue l @ [copy_event ev]\<rparr>) (event_listeners w)\<rparr>)
            (process_event ev (trees w)))"

definition snapshot :: "stats \<Rightarrow> stats_event_t list" where
  "snapshot s =
     map (make_event_from_node None) (inorder (root (global_stats s))) @
     concat (map (\<lambda>x. map (make_event_from_node (Some (source_name x))) (inorder (root (stats_tree x))))
       (inorder (root (source_stats s))))"

definition count_threads :: "(string \<Rightarrow> bool) \<Rightarrow> int \<Rightarrow> stats_world \<Rightarrow> stats_world" where
  "count_threads utf8 n w =
     queue_global_event (stats_event_args utf8 None (Some ''stats'') (fmt_d (stats_threads w + n)))
       (w\<lparr>stats_threads := stats_threads w + n\<rparr>)"

definition register_listener :: "nat \<Rightarrow> unit lclient \<Rightarrow> stats_world \<Rightarrow> stats_world" where
  "register_listener i client w =
     w\<lparr>event_listeners := \<lparr>sl_id = i, sl_queue = snapshot (trees w), sl_client = client, taken = []\<rparr> # event_listeners w\<rparr>"

fun unregister_listener :: "nat \<Rightarrow> stats_listener list \<Rightarrow> stats_listener list" where
  "unregister_listener i [] = []"
| "unregister_listener i (l # ls) = (if sl_id l = i then ls else l # unregister_listener i ls)"

definition event_text :: "stats_event_t \<Rightarrow> string" where
  "event_text ev =
     ''EVENT '' @ (case ev_source ev of Some s \<Rightarrow> s | None \<Rightarrow> ''global'') @ '' '' @
     (case ev_name ev of Some n \<Rightarrow> n | None \<Rightarrow> ''null'') @ '' '' @
     (case ev_value ev of Some v \<Rightarrow> v | None \<Rightarrow> ''null'') @ [LF]"

text \<open>A line that does not fit into 200 bytes is not sent, and the part a socket does not take is lost.\<close>

definition send_event_to_client :: "stats_event_t \<Rightarrow> unit lclient \<Rightarrow> tx \<Rightarrow> int \<times> unit lclient" where
  "send_event_to_client ev client t =
     (let (buf, len) = snprintf 200 (event_text ev)
      in if len > 0 \<and> len < 200 then
           let client = snd (client_send_bytes client buf t)
           in (if con_error (lcon client) then -1 else 0, client)
         else (0, client))"

text \<open>A round of \<open>stats_connection\<close>; a connection that failed has left the loop.\<close>

definition connection_round :: "tx \<Rightarrow> stats_listener \<Rightarrow> stats_listener" where
  "connection_round t l =
     (if con_error (lcon (sl_client l)) then l
      else
        (case sl_queue l of
           [] \<Rightarrow> l
         | ev # evs \<Rightarrow> l\<lparr>sl_queue := evs, sl_client := snd (send_event_to_client ev (sl_client l) t), taken := taken l @ [ev]\<rparr>))"

text \<open>
  Everything that changes the state: an event is queued, the thread makes a round, a connection
  starts, is registered, makes a round or ends, and the mounts without a source are cleared.
\<close>

datatype stats_act =
  Post stats_event_t | Work | Start | Register nat "unit lclient" | Send nat tx | Leave nat | Clear source_registry

fun stats_step :: "(string \<Rightarrow> bool) \<Rightarrow> stats_act \<Rightarrow> stats_world \<Rightarrow> stats_world option" where
  "stats_step utf8 (Post ev) w = Some (queue_global_event [ev] w)"
| "stats_step utf8 Work w = stats_thread_round w"
| "stats_step utf8 Start w = Some (count_threads utf8 1 w)"
| "stats_step utf8 (Register i c) w = Some (register_listener i c w)"
| "stats_step utf8 (Send i t) w =
     Some (w\<lparr>event_listeners := map (\<lambda>l. if sl_id l = i then connection_round t l else l) (event_listeners w)\<rparr>)"
| "stats_step utf8 (Leave i) w =
     Some (count_threads utf8 (-1) (w\<lparr>event_listeners := unregister_listener i (event_listeners w)\<rparr>))"
| "stats_step utf8 (Clear reg) w = Some (w\<lparr>trees := stats_clear_virtual_mounts reg (trees w)\<rparr>)"

fun stats_run :: "(string \<Rightarrow> bool) \<Rightarrow> stats_act list \<Rightarrow> stats_world \<Rightarrow> stats_world option" where
  "stats_run utf8 [] w = Some w"
| "stats_run utf8 (a # as) w = Option.bind (stats_step utf8 a w) (stats_run utf8 as)"

section \<open>Event queues\<close>

text \<open>\<open>_add_event_to_queue\<close> makes the assignments of \<open>add_node\<close>; the event taken keeps its \<open>next\<close> field.\<close>

definition get_event_from_queue :: "'a nodes \<times> queue \<Rightarrow> nat option \<times> 'a nodes \<times> queue" where
  "get_event_from_queue s =
     (let (ns, q) = s
      in case head q of
           None \<Rightarrow> (None, ns, q)
         | Some a \<Rightarrow>
             let rest = Option.bind (ns a) link
             in (Some a, ns, q\<lparr>head := rest, tailp := (if rest = None then Head else tailp q)\<rparr>))"

interpretation eq: fifo "holds :: 'a nodes \<times> queue \<Rightarrow> nat list \<Rightarrow> bool" unlinked add_to get_event_from_queue
proof (unfold_locales)
  fix s :: "'a nodes \<times> queue" and x xs assume h: "holds s (x # xs)"
  obtain ns q where s: "s = (ns, q)" by fastforce
  from h obtain n where n: "head q = Some x" "ns x = Some n" "chain ns (link n) xs" "distinct (x # xs)" "tailp q = ref_of (x # xs)"
    by (auto simp: holds_def queue_ok_def s split: option.splits)
  have "tailp q = ref_of xs" if "link n \<noteq> None" using n that by (cases xs) (auto simp: ref_of_def)
  moreover have "xs = []" if "link n = None" using n that by (cases xs) auto
  ultimately show "\<exists>s'. get_event_from_queue s = (Some x, s') \<and> holds s' xs"
    using n by (auto simp: get_event_from_queue_def s holds_def queue_ok_def ref_of_def Let_def)
next
  show "holds (add_to e s) (xs @ [e])" if "holds s xs" "unlinked e s" "e \<notin> set xs"
    for s :: "'a nodes \<times> queue" and xs e using that by (rule cq.push_rep)
  show "unlinked d (add_to e s)" if "holds s xs" "unlinked e s" "e \<notin> set xs" "unlinked d s" "d \<notin> set xs"
    for s :: "'a nodes \<times> queue" and xs e d using that by (rule cq.push_ready)
qed (auto simp: get_event_from_queue_def holds_def queue_ok_def)

end
