(* ===== verification/Stats_Spec.thy ===== *)
theory Stats_Spec
  imports Stats
begin

text \<open>
  What the statistics promise. The trees are read as a map from a source and a name to a value;
  every event acts on that map as \<open>apply_event\<close> says, so the map is the specification the trees
  refine. A connection that replays what it is sent sees the same map.
\<close>

section \<open>Changing entries in place\<close>

lemma inorder_map [simp]: "inorder (map_avl_node f t) = map f (inorder t)"
  by (induction t) simp_all

lemma height_map [simp]: "height (map_avl_node f t) = height t"
  by (induction t) simp_all

lemma node_count_map [simp]: "node_count (map_avl_node f t) = node_count t"
  by (induction t) simp_all

lemma balanced_map [simp]: "balanced (map_avl_node f t) = balanced t"
  by (induction t) simp_all

lemma map_of_poke:
  assumes "\<And>e. e \<in> set es \<Longrightarrow> P e \<Longrightarrow> keyof (f e) = keyof e"
  shows "map_of (map (\<lambda>e. (keyof e, e)) (map (\<lambda>e. if P e then f e else e) es)) n =
     map_option (\<lambda>e. if P e then f e else e) (map_of (map (\<lambda>e. (keyof e, e)) es) n)"
  using assms by (induction es) auto

lemma store_poke:
  assumes ok: "store_ok keyof t" and key: "\<And>e. e \<in> set (inorder (root t)) \<Longrightarrow> P e \<Longrightarrow> keyof (f e) = keyof e"
  shows "store_ok keyof (poke P f t)"
    and "tree_contents keyof (poke P f t) = (\<lambda>n. map_option (\<lambda>e. if P e then f e else e) (tree_contents keyof t n))"
proof -
  let ?g = "\<lambda>e. if P e then f e else e" and ?es = "inorder (root t)"
  have keys: "map keyof (map ?g ?es) = map keyof ?es" using key by simp
  have g: "keyof (?g e) = keyof e" if "e \<in> set ?es" for e using key that by simp
  have "sorted_wrt (\<lambda>x y. compare_fun t x y \<le> 0) (map ?g ?es)"
    unfolding sorted_wrt_map
  proof (rule sorted_wrt_mono_rel)
    show "sorted_wrt (\<lambda>x y. compare_fun t x y \<le> 0) ?es" using ok by (auto simp: store_ok_def avl_invar_def)
    show "compare_fun t (?g x) (?g y) \<le> 0" if "x \<in> set ?es" "y \<in> set ?es" "compare_fun t x y \<le> 0" for x y
      using ok that(3) g [OF that(1)] g [OF that(2)] by (simp add: store_ok_def entry_compare_def)
  qed
  then show "store_ok keyof (poke P f t)"
    using ok keys by (simp add: store_ok_def poke_def avl_invar_def del: map_map)
  show "tree_contents keyof (poke P f t) = (\<lambda>n. map_option ?g (tree_contents keyof t n))"
    using map_of_poke [of ?es P keyof f] key by (simp add: tree_contents_def poke_def fun_eq_iff del: map_map)
qed

lemma store_poke_one:
  assumes ok: "store_ok keyof t" and e: "tree_contents keyof t k = Some e" and "keyof e' = k"
  shows "store_ok keyof (poke (\<lambda>x. keyof x = k) (\<lambda>_. e') t)"
    and "tree_contents keyof (poke (\<lambda>x. keyof x = k) (\<lambda>_. e') t) = (tree_contents keyof t)(k \<mapsto> e')"
proof -
  have d: "distinct (map keyof (inorder (root t)))" using ok by (simp add: store_ok_def)
  note p = store_poke [OF ok, of "\<lambda>x. keyof x = k" "\<lambda>_. e'"]
  show "store_ok keyof (poke (\<lambda>x. keyof x = k) (\<lambda>_. e') t)" using p(1) assms(3) by simp
  show "tree_contents keyof (poke (\<lambda>x. keyof x = k) (\<lambda>_. e') t) = (tree_contents keyof t)(k \<mapsto> e')"
  proof (rule ext)
    fix n
    have "keyof x = n" if "tree_contents keyof t n = Some x" for x using that tree_contents_Some [OF d, of n x] by simp
    then show "tree_contents keyof (poke (\<lambda>x. keyof x = k) (\<lambda>_. e') t) n = ((tree_contents keyof t)(k \<mapsto> e')) n"
      using p(2) assms(3) e by (cases "tree_contents keyof t n") auto
  qed
qed

section \<open>The invariant and the map\<close>

interpretation sn: avl_entries node_name .
interpretation ss: avl_entries source_name .

definition stats_ok :: "stats \<Rightarrow> bool" where
  "stats_ok s \<longleftrightarrow> store_ok node_name (global_stats s) \<and> store_ok source_name (source_stats s) \<and>
     (\<forall>x\<in>set (inorder (root (source_stats s))). store_ok node_name (stats_tree x))"

type_synonym stats_map = "string option \<Rightarrow> string \<rightharpoonup> string"

definition node_map :: "stats_node avl_tree \<Rightarrow> string \<rightharpoonup> string" where
  "node_map t n = map_option node_value (tree_contents node_name t n)"

definition stats_map :: "stats \<Rightarrow> stats_map" where
  "stats_map s source =
     (case source of
        None \<Rightarrow> node_map (global_stats s)
      | Some m \<Rightarrow> (case tree_contents source_name (source_stats s) m of None \<Rightarrow> Map.empty | Some x \<Rightarrow> node_map (stats_tree x)))"

text \<open>The meaning of an event: the new value of the name, given the old one.\<close>

definition new_value :: "stats_event_t \<Rightarrow> string option \<Rightarrow> string option" where
  "new_value ev old =
     (case ev_action ev of
        STATS_EVENT_SET \<Rightarrow> ev_value ev
      | STATS_EVENT_REMOVE \<Rightarrow> None
      | STATS_EVENT_HIDDEN \<Rightarrow> (case old of None \<Rightarrow> ev_value ev | Some v \<Rightarrow> Some v)
      | act \<Rightarrow>
          (case old of
             None \<Rightarrow> ev_value ev
           | Some v \<Rightarrow> map_option (\<lambda>i. take 15 (fmt_d i)) (counted act v (ev_value ev))))"

definition apply_event :: "stats_event_t \<Rightarrow> stats_map \<Rightarrow> stats_map" where
  "apply_event ev f =
     (case ev_name ev of
        Some n \<Rightarrow> f(ev_source ev := (f (ev_source ev))(n := new_value ev (f (ev_source ev) n)))
      | None \<Rightarrow> if ev_action ev = STATS_EVENT_REMOVE \<and> ev_source ev \<noteq> None then f(ev_source ev := Map.empty) else f)"

lemma strcmp_self [simp]: "strcmp a a = 0"
  by simp

lemma find_node_key: "find_node n t = get_by_key_loop (entry_compare node_name) \<lparr>node_name = n, node_value = v, node_hidden = h\<rparr> t"
  by (induction t) (simp_all add: entry_compare_def Let_def)

lemma find_source_key: "find_source n t = get_by_key_loop (entry_compare source_name) \<lparr>source_name = n, source_hidden = h, stats_tree = u\<rparr> t"
  by (induction t) (simp_all add: entry_compare_def Let_def)

lemma find_node_ok: "store_ok node_name t \<Longrightarrow> find_node n (root t) = tree_contents node_name t n"
  using store_lookup [of node_name t "\<lparr>node_name = n, node_value = [], node_hidden = 0\<rparr>"]
  by (simp add: avl_get_by_key_def store_ok_def find_node_key [of n _ "[]" 0])

lemma find_source_ok: "store_ok source_name t \<Longrightarrow> find_source n (root t) = tree_contents source_name t n"
  using store_lookup [of source_name t "\<lparr>source_name = n, source_hidden = 0, stats_tree = avl_tree_new compare_stats\<rparr>"]
  by (simp add: avl_get_by_key_def store_ok_def find_source_key [of n _ 0 "avl_tree_new compare_stats"])

lemma compare_stats_eq: "compare_stats = entry_compare node_name"
  by (simp add: fun_eq_iff compare_stats_def entry_compare_def)

lemma compare_source_stats_eq: "compare_source_stats = entry_compare source_name"
  by (simp add: fun_eq_iff compare_source_stats_def entry_compare_def)

lemma stats_ok_initialize: "stats_ok (trees stats_initialize)"
  using sn.store.ok_empty ss.store.ok_empty
  by (simp add: stats_ok_def stats_initialize_def compare_stats_eq compare_source_stats_eq) (simp add: avl_tree_new_def)


section \<open>Events act on the map\<close>

lemma modify_node_name: "modify_node_event node ev = Some (ev', node') \<Longrightarrow> node_name node' = node_name node"
  by (auto simp: modify_node_event_def Let_def split: if_splits option.splits)

lemma modify_node_value:
  "modify_node_event node ev = Some (ev', node') \<Longrightarrow> ev_action ev \<noteq> STATS_EVENT_REMOVE \<Longrightarrow>
   Some (node_value node') = new_value ev (Some (node_value node))"
  by (cases "ev_action ev") (auto simp: modify_node_event_def new_value_def snprintf_def Let_def split: option.splits)

text \<open>The branches an event on a name can take, for the tree of any source.\<close>

definition stepped :: "stats_event_t \<Rightarrow> string \<Rightarrow> stats_node avl_tree \<Rightarrow> stats_node avl_tree \<Rightarrow> bool" where
  "stepped ev n t t' \<longleftrightarrow> store_ok node_name t' \<and> node_map t' = (node_map t)(n := new_value ev (node_map t n))"

lemma absent_value: "new_value ev None = (if ev_action ev = STATS_EVENT_REMOVE then None else ev_value ev)"
  by (auto simp: new_value_def split: stats_action.splits)

lemma stepped_keep:
  "store_ok node_name t \<Longrightarrow> tree_contents node_name t n = None \<Longrightarrow> ev_action ev = STATS_EVENT_REMOVE \<or> ev_value ev = None \<Longrightarrow>
   stepped ev n t t"
  by (auto simp: stepped_def absent_value fun_eq_iff node_map_def)

lemma stepped_insert:
  assumes "store_ok node_name t" "tree_contents node_name t n = None" "ev_action ev \<noteq> STATS_EVENT_REMOVE" "ev_value ev = Some v"
  shows "stepped ev n t (tree_insert t \<lparr>node_name = n, node_value = v, node_hidden = h\<rparr>)"
  using assms sn.store.ok_insert [of t "\<lparr>node_name = n, node_value = v, node_hidden = h\<rparr>"]
    sn.store.contents_insert [of t "\<lparr>node_name = n, node_value = v, node_hidden = h\<rparr>"]
  by (auto simp: stepped_def absent_value fun_eq_iff node_map_def)

lemma stepped_delete:
  assumes "store_ok node_name t" "tree_contents node_name t n = Some x" "ev_action ev = STATS_EVENT_REMOVE"
  shows "stepped ev n t (tree_delete t x)"
  using assms sn.store.contents_key [OF assms(1,2)]
  by (auto simp: stepped_def new_value_def fun_eq_iff node_map_def sn.store.ok_delete sn.store.contents_delete)

lemma stepped_modify:
  assumes t: "store_ok node_name t" "tree_contents node_name t n = Some x"
    and "ev_action ev \<noteq> STATS_EVENT_REMOVE" "modify_node_event x ev = Some (ev', y)"
  shows "stepped ev n t (poke (\<lambda>x. node_name x = n) (\<lambda>_. y) t)"
proof -
  have "node_name y = n" using modify_node_name [OF assms(4)] sn.store.contents_key [OF t] by simp
  note p = store_poke_one [OF t this]
  have "new_value ev (node_map t n) = Some (node_value y)" using modify_node_value [OF assms(4,3)] t by (simp add: node_map_def)
  with p show ?thesis by (simp add: stepped_def fun_eq_iff node_map_def)
qed

lemmas stepped = stepped_keep stepped_insert stepped_delete stepped_modify

lemma process_global_ok:
  assumes "store_ok node_name t" "process_global_event ev t = Some (ev', t')" "ev_name ev = Some n"
  shows "stepped ev n t t'"
  using assms by (auto simp: process_global_event_def find_node_ok intro: stepped split: if_splits option.splits)

lemma source_node_ok:
  assumes "store_ok node_name (stats_tree x)" "source_node_event ev n x = Some (ev', y)"
  shows "source_name y = source_name x \<and> stepped ev n (stats_tree x) (stats_tree y)"
  using assms by (auto simp: source_node_event_def find_node_ok intro: stepped split: if_splits option.splits)

section \<open>Mounts\<close>

text \<open>The mount an event is for: the one there is, or a new one without values.\<close>

definition mount_ok :: "stats_source avl_tree \<Rightarrow> bool" where
  "mount_ok t \<longleftrightarrow> store_ok source_name t \<and> (\<forall>x\<in>set (inorder (root t)). store_ok node_name (stats_tree x))"

definition mount_map :: "stats_source avl_tree \<Rightarrow> string \<Rightarrow> string \<rightharpoonup> string" where
  "mount_map t m = (case tree_contents source_name t m of None \<Rightarrow> Map.empty | Some x \<Rightarrow> node_map (stats_tree x))"

lemma mount_ok_contents:
  "mount_ok t \<longleftrightarrow> store_ok source_name t \<and> (\<forall>m x. tree_contents source_name t m = Some x \<longrightarrow> store_ok node_name (stats_tree x))"
  unfolding mount_ok_def using tree_contents_Some [of source_name t] by (auto simp: store_ok_def)

lemma mount_set:
  assumes t: "mount_ok t" "tree_contents source_name t m = Some x"
    and y: "source_name y = m" "store_ok node_name (stats_tree y)"
  shows "mount_ok (poke (\<lambda>x. source_name x = m) (\<lambda>_. y) t)"
    and "mount_map (poke (\<lambda>x. source_name x = m) (\<lambda>_. y) t) = (mount_map t)(m := node_map (stats_tree y))"
proof -
  have ok: "store_ok source_name t" using t(1) by (simp add: mount_ok_def)
  note p = store_poke_one [OF ok t(2) y(1)]
  show "mount_ok (poke (\<lambda>x. source_name x = m) (\<lambda>_. y) t)" using t(1) p y(2) by (auto simp: mount_ok_contents)
  show "mount_map (poke (\<lambda>x. source_name x = m) (\<lambda>_. y) t) = (mount_map t)(m := node_map (stats_tree y))"
    using p(2) by (auto simp: mount_map_def fun_eq_iff)
qed

lemma mount_insert:
  assumes "mount_ok t" "tree_contents source_name t m = None" "source_name y = m" "stats_tree y = avl_tree_new compare_stats"
  shows "mount_ok (tree_insert t y)" "mount_map (tree_insert t y) = mount_map t"
    "tree_contents source_name (tree_insert t y) m = Some y" "store_ok node_name (stats_tree y)" "node_map (stats_tree y) = Map.empty"
proof -
  have e: "store_ok node_name (stats_tree y)" "tree_contents node_name (stats_tree y) = Map.empty"
    using sn.store.ok_empty sn.store.contents_empty by (simp_all add: assms(4) compare_stats_eq)
  then show "store_ok node_name (stats_tree y)" "node_map (stats_tree y) = Map.empty" by (simp_all add: node_map_def fun_eq_iff)
  have c: "tree_contents source_name (tree_insert t y) = (tree_contents source_name t)(m \<mapsto> y)" "store_ok source_name (tree_insert t y)"
    using ss.store.contents_insert [of t y] ss.store.ok_insert [of t y] assms by (simp_all add: mount_ok_def)
  then show "mount_ok (tree_insert t y)" "tree_contents source_name (tree_insert t y) m = Some y"
    using assms(1) e by (auto simp: mount_ok_contents)
  show "mount_map (tree_insert t y) = mount_map t" using c assms(2) e by (auto simp: mount_map_def node_map_def fun_eq_iff)
qed

lemma mount_delete:
  assumes "mount_ok t"
  shows "mount_ok (tree_delete t x)" "mount_map (tree_delete t x) = (mount_map t)(source_name x := Map.empty)"
  using assms ss.store.contents_delete [of t x] ss.store.ok_delete [of t x]
  by (auto simp: mount_ok_contents mount_map_def fun_eq_iff split: if_splits)

lemma hide_source_ok:
  assumes "store_ok node_name (stats_tree x)"
  shows "store_ok node_name (stats_tree (hide_source ev x))" "node_map (stats_tree (hide_source ev x)) = node_map (stats_tree x)"
    "source_name (hide_source ev x) = source_name x"
  using store_poke [OF assms, of "\<lambda>_. True"] 
  by (simp_all add: hide_source_def Let_def node_map_def fun_eq_iff option.map_comp comp_def)

text \<open>What an event does to a mount once it is there.\<close>

lemma mount_event_ok:
  assumes t: "mount_ok t" "tree_contents source_name t m = Some x"
    and p: "(case ev_name ev of
             Some n \<Rightarrow>
               map_option (\<lambda>(ev, snode). (ev, poke (\<lambda>x. source_name x = m) (\<lambda>_. snode) t)) (source_node_event ev n x)
           | None \<Rightarrow>
               if ev_action ev = STATS_EVENT_HIDDEN then Some (ev, poke (\<lambda>x. source_name x = m) (\<lambda>_. hide_source ev x) t)
               else if ev_action ev = STATS_EVENT_REMOVE then Some (ev, tree_delete t x)
               else Some (ev, t)) = Some (ev', t')"
  shows "mount_ok t' \<and> mount_map t' = (case ev_name ev of
       Some n \<Rightarrow> (mount_map t)(m := (mount_map t m)(n := new_value ev (mount_map t m n)))
     | None \<Rightarrow> if ev_action ev = STATS_EVENT_REMOVE then (mount_map t)(m := Map.empty) else mount_map t)"
proof -
  have x: "store_ok node_name (stats_tree x)" "source_name x = m" "mount_map t m = node_map (stats_tree x)"
    using t ss.store.contents_key [OF _ t(2)] by (auto simp: mount_ok_contents mount_map_def)
  show ?thesis
  proof (cases "ev_name ev")
    case None
    have "(mount_map t)(m := node_map (stats_tree x)) = mount_map t" using x(3) by auto
    with None p x hide_source_ok [OF x(1), of ev] mount_delete [OF t(1), of x] mount_set [OF t, of "hide_source ev x"] t(1)
    show ?thesis by (auto split: if_splits)
  next
    case (Some n)
    with p obtain y where y: "source_node_event ev n x = Some (ev', y)" "t' = poke (\<lambda>x. source_name x = m) (\<lambda>_. y) t" by auto
    from source_node_ok [OF x(1) y(1)] have "source_name y = m" "stepped ev n (stats_tree x) (stats_tree y)" using x(2) by auto
    with mount_set [OF t, of y] show ?thesis by (simp add: y(2) stepped_def x(3) Some)
  qed
qed


lemma process_source_ok:
  assumes t: "mount_ok t" and p: "process_source_event ev m t = Some (ev', t')"
  shows "mount_ok t' \<and> mount_map t' = (case ev_name ev of
       Some n \<Rightarrow> (mount_map t)(m := (mount_map t m)(n := new_value ev (mount_map t m n)))
     | None \<Rightarrow> if ev_action ev = STATS_EVENT_REMOVE then (mount_map t)(m := Map.empty) else mount_map t)"
proof (cases "tree_contents source_name t m")
  case (Some x)
  then show ?thesis using mount_event_ok [OF t Some, of ev ev' t'] p t
    by (simp add: process_source_event_def find_source_ok mount_ok_def)
next
  case None
  have find: "find_source m (root t) = None" using None t by (simp add: find_source_ok mount_ok_def)
  show ?thesis
  proof (cases "ev_action ev = STATS_EVENT_REMOVE")
    case True
    have "mount_map t m = Map.empty" using None by (simp add: mount_map_def)
    then show ?thesis using p t True find by (auto simp: process_source_event_def new_value_def fun_eq_iff split: option.splits)
  next
    case False
    define y where "y = \<lparr>source_name = m, source_hidden = (if ev_action ev = STATS_EVENT_HIDDEN then 1 else 0),
      stats_tree = avl_tree_new compare_stats\<rparr>"
    have y: "source_name y = m" "stats_tree y = avl_tree_new compare_stats" by (simp_all add: y_def)
    note ins = mount_insert [OF t None y]
    show ?thesis using mount_event_ok [OF ins(1,3), of ev ev' t', unfolded ins(2)] p False find
      by (simp add: process_source_event_def flip: y_def)
  qed
qed

lemma stats_ok_mount: "stats_ok s \<longleftrightarrow> store_ok node_name (global_stats s) \<and> mount_ok (source_stats s)"
  by (auto simp: stats_ok_def mount_ok_def)

lemma stats_map_mount: "stats_map s = (\<lambda>src. case src of None \<Rightarrow> node_map (global_stats s) | Some m \<Rightarrow> mount_map (source_stats s) m)"
  by (simp add: stats_map_def mount_map_def fun_eq_iff split: option.splits)

lemma process_event_ok:
  assumes s: "stats_ok s" and p: "process_event ev s = Some (ev', s')"
  shows "stats_ok s'" and "stats_map s' = apply_event ev (stats_map s)"
proof -
  have "stats_ok s' \<and> stats_map s' = apply_event ev (stats_map s)"
  proof (cases "ev_source ev")
    case None
    with p obtain t where t: "process_global_event ev (global_stats s) = Some (ev', t)" "s' = s\<lparr>global_stats := t\<rparr>"
      by (auto simp: process_event_def)
    show ?thesis
    proof (cases "ev_name ev")
      case (Some n)
      with process_global_ok [OF _ t(1) Some] s show ?thesis
        by (auto simp: t(2) None stats_ok_mount stats_map_mount apply_event_def stepped_def fun_eq_iff split: option.splits)
    next
      case n: None
      with t(1) have "t = global_stats s" by (auto simp: process_global_event_def split: if_splits)
      with s show ?thesis by (simp add: t(2) n None apply_event_def)
    qed
  next
    case (Some m)
    with p obtain t where t: "process_source_event ev m (source_stats s) = Some (ev', t)" "s' = s\<lparr>source_stats := t\<rparr>"
      by (auto simp: process_event_def)
    with process_source_ok [OF _ t(1)] s show ?thesis
      by (auto simp: Some stats_ok_mount stats_map_mount apply_event_def fun_eq_iff split: option.splits)
  qed
  then show "stats_ok s'" "stats_map s' = apply_event ev (stats_map s)" by simp_all
qed

lemma stats_get_value_map: "stats_ok s \<Longrightarrow> stats_get_value s src n = stats_map s src n"
  by (auto simp: stats_ok_mount mount_ok_contents stats_get_value_def stats_map_mount mount_map_def node_map_def
      find_node_ok find_source_ok split: option.splits)

end
