(* ===== verification/Stats_Run.thy ===== *)
theory Stats_Run
  imports Stats_Spec
begin

text \<open>
  Runs of the statistics: any interleaving of threads that queue events, of the statistics thread
  and of connections. Shown: no run copies a null string, and what is in the queue of a
  connection, after what it has taken already, always leads to the current values.
\<close>

section \<open>What a connection sees\<close>

text \<open>How a connection reads the events: a value is set, or removed when there is none.\<close>

definition replay :: "stats_event_t \<Rightarrow> stats_map \<Rightarrow> stats_map" where
  "replay ev f =
     (case ev_name ev of
        Some n \<Rightarrow> f(ev_source ev := (f (ev_source ev))(n := ev_value ev))
      | None \<Rightarrow> if ev_value ev = None \<and> ev_source ev \<noteq> None then f(ev_source ev := Map.empty) else f)"

text \<open>
  Events that are passed on in a form that says what happened: all but amounts that are added or
  subtracted, the end of hiding, and hiding a single value.
\<close>

definition plain_event :: "stats_event_t \<Rightarrow> bool" where
  "plain_event ev \<longleftrightarrow>
     (case ev_action ev of
        STATS_EVENT_SET \<Rightarrow> ev_value ev \<noteq> None
      | STATS_EVENT_HIDDEN \<Rightarrow> ev_name ev = None \<and> ev_value ev \<noteq> None
      | STATS_EVENT_ADD \<Rightarrow> False
      | STATS_EVENT_SUB \<Rightarrow> False
      | STATS_EVENT_REMOVE \<Rightarrow> ev_value ev = None
      | _ \<Rightarrow> ev_value ev = None \<and> ev_name ev \<noteq> None)"

lemma replay_copy [simp]: "replay (copy_event ev) = replay ev"
  by (cases "ev_name ev") (auto simp: fun_eq_iff replay_def copy_event_def)

text \<open>The value an event carries after it has been applied is the one that was stored.\<close>

definition filled :: "stats_event_t \<Rightarrow> stats_event_t \<Rightarrow> string option \<Rightarrow> bool" where
  "filled ev ev' v \<longleftrightarrow> ev_source ev' = ev_source ev \<and> ev_name ev' = ev_name ev \<and> ev_value ev' = v"

lemma filled_modify:
  assumes "modify_node_event x ev = Some (ev', y)" "plain_event ev" "ev_action ev \<noteq> STATS_EVENT_REMOVE" "ev_name ev = Some n"
  shows "filled ev ev' (new_value ev (Some (node_value x)))"
  unfolding modify_node_value [OF assms(1,3), symmetric]
  using assms by (auto simp: filled_def modify_node_event_def plain_event_def Let_def split: if_splits option.splits stats_action.splits)

lemma filled_same: "ev_value ev = v \<Longrightarrow> filled ev ev v"
  by (simp add: filled_def)

lemma new_value_remove: "ev_action ev = STATS_EVENT_REMOVE \<Longrightarrow> new_value ev v = None"
  by (simp add: new_value_def)

lemma plain_remove: "plain_event ev \<Longrightarrow> ev_action ev = STATS_EVENT_REMOVE \<Longrightarrow> ev_value ev = None"
  by (simp add: plain_event_def)

lemma filled_global:
  assumes "store_ok node_name t" "process_global_event ev t = Some (ev', t')" "ev_name ev = Some n" "plain_event ev"
  shows "filled ev ev' (new_value ev (node_map t n))"
  using assms filled_modify [OF _ assms(4) _ assms(3)]
  by (auto simp: process_global_event_def find_node_ok node_map_def absent_value new_value_remove plain_remove
      intro!: filled_same split: if_splits option.splits)

lemma filled_source_node:
  assumes "store_ok node_name (stats_tree x)" "source_node_event ev n x = Some (ev', y)" "ev_name ev = Some n" "plain_event ev"
  shows "filled ev ev' (new_value ev (node_map (stats_tree x) n))"
  using assms filled_modify [OF _ assms(4) _ assms(3)]
  by (auto simp: source_node_event_def find_node_ok node_map_def absent_value new_value_remove plain_remove
      intro!: filled_same split: if_splits option.splits)

lemma filled_source:
  assumes t: "mount_ok t" and p: "process_source_event ev m t = Some (ev', t')" and n: "ev_name ev = Some n" and plain: "plain_event ev"
  shows "filled ev ev' (new_value ev (mount_map t m n))"
proof (cases "tree_contents source_name t m")
  case (Some x)
  then have "store_ok node_name (stats_tree x)" "find_source m (root t) = Some x"
    using t by (auto simp: mount_ok_contents find_source_ok)
  with p n show ?thesis using filled_source_node [of x ev n ev'] plain Some
    by (auto simp: process_source_event_def mount_map_def)
next
  case None
  then have f: "find_source m (root t) = None" "mount_map t m = Map.empty" using t by (auto simp: mount_ok_contents find_source_ok mount_map_def)
  show ?thesis
  proof (cases "ev_action ev = STATS_EVENT_REMOVE")
    case True
    with p f plain show ?thesis by (auto simp: process_source_event_def new_value_remove plain_remove intro!: filled_same)
  next
    case False
    define y where "y = \<lparr>source_name = m, source_hidden = (if ev_action ev = STATS_EVENT_HIDDEN then 1 else 0),
      stats_tree = avl_tree_new compare_stats\<rparr>"
    have y: "source_name y = m" "stats_tree y = avl_tree_new compare_stats" by (simp_all add: y_def)
    note ins = mount_insert [OF t None y]
    from p f False n obtain z where "source_node_event ev n y = Some (ev', z)"
      by (auto simp: process_source_event_def simp flip: y_def)
    from filled_source_node [OF ins(4) this n plain] show ?thesis by (simp add: ins(5) f)
  qed
qed

lemma process_unnamed: "process_event ev s = Some (ev', s') \<Longrightarrow> ev_name ev = None \<Longrightarrow> ev' = ev"
  by (auto simp: process_event_def process_global_event_def process_source_event_def split: option.splits if_splits)

lemma replay_process:
  assumes s: "stats_ok s" and p: "process_event ev s = Some (ev', s')" and plain: "plain_event ev"
  shows "replay ev' (stats_map s) = stats_map s'"
  unfolding process_event_ok(2) [OF s p]
proof (cases "ev_name ev")
  case None
  moreover have "(ev_value ev = None) = (ev_action ev = STATS_EVENT_REMOVE)"
    using plain None by (cases "ev_action ev") (auto simp: plain_event_def)
  ultimately show "replay ev' (stats_map s) = apply_event ev (stats_map s)"
    using process_unnamed [OF p] by (simp add: replay_def apply_event_def)
next
  case (Some n)
  have "filled ev ev' (new_value ev (stats_map s (ev_source ev) n))"
    using s p filled_global [OF _ _ Some plain] filled_source [OF _ _ Some plain]
    by (auto simp: process_event_def stats_ok_mount stats_map_mount split: option.splits)
  with Some show "replay ev' (stats_map s) = apply_event ev (stats_map s)"
    by (simp add: filled_def replay_def apply_event_def)
qed

section \<open>The values a new connection is sent\<close>

lemma replay_nodes:
  "distinct (map node_name xs) \<Longrightarrow>
   fold replay (map (make_event_from_node src) xs) f =
     f(src := f src ++ map_of (map (\<lambda>x. (node_name x, node_value x)) xs))"
proof (induction xs arbitrary: f)
  case (Cons x xs)
  let ?g = "f(src := (f src)(node_name x \<mapsto> node_value x))" and ?M = "map_of (map (\<lambda>x. (node_name x, node_value x)) xs)"
  have nd: "node_name x \<notin> dom ?M" using Cons.prems by (auto simp: dom_map_of_conv_image_fst)
  have "replay (make_event_from_node src x) f = ?g" by (simp add: replay_def make_event_from_node_def)
  then have "fold replay (map (make_event_from_node src) (x # xs)) f = fold replay (map (make_event_from_node src) xs) ?g" by simp
  also have "\<dots> = ?g(src := ?g src ++ ?M)" by (rule Cons.IH) (use Cons.prems in simp)
  also have "?g src ++ ?M = f src ++ ?M(node_name x \<mapsto> node_value x)"
    by (simp add: map_add_upd_left [OF nd])
  finally show ?case by (simp only: fun_upd_upd list.map map_of.simps fst_conv snd_conv)
qed simp

lemma node_map_of: "node_map t = map_of (map (\<lambda>x. (node_name x, node_value x)) (inorder (root t)))"
proof (rule ext)
  fix n
  have "map_option node_value (map_of (map (\<lambda>x. (node_name x, x)) xs) n) = map_of (map (\<lambda>x. (node_name x, node_value x)) xs) n" for xs
    by (induction xs) auto
  then show "node_map t n = map_of (map (\<lambda>x. (node_name x, node_value x)) (inorder (root t))) n"
    by (simp add: node_map_def tree_contents_def)
qed

lemma replay_sources:
  "distinct (map source_name xs) \<Longrightarrow> \<forall>x\<in>set xs. store_ok node_name (stats_tree x) \<Longrightarrow> \<forall>x\<in>set xs. f (Some (source_name x)) = Map.empty \<Longrightarrow>
   fold replay (concat (map (\<lambda>x. map (make_event_from_node (Some (source_name x))) (inorder (root (stats_tree x)))) xs)) f =
     (\<lambda>src. case src of None \<Rightarrow> f None
        | Some m \<Rightarrow> (case map_of (map (\<lambda>x. (source_name x, x)) xs) m of None \<Rightarrow> f (Some m) | Some x \<Rightarrow> node_map (stats_tree x)))"
proof (induction xs arbitrary: f)
  case Nil
  then show ?case by (auto simp: fun_eq_iff split: option.splits)
next
  case (Cons x xs)
  let ?g = "f(Some (source_name x) := node_map (stats_tree x))"
    and ?evs = "\<lambda>x. map (make_event_from_node (Some (source_name x))) (inorder (root (stats_tree x)))"
  have g: "fold replay (map (make_event_from_node (Some (source_name x))) (inorder (root (stats_tree x)))) f = ?g"
    using Cons.prems by (simp add: replay_nodes store_ok_def node_map_of)
  have empty: "\<forall>y\<in>set xs. ?g (Some (source_name y)) = Map.empty"
  proof
    fix y assume y: "y \<in> set xs"
    then have "source_name y \<in> source_name ` set xs" by (rule imageI)
    with Cons.prems(1) have "source_name y \<noteq> source_name x" by auto
    with Cons.prems(3) y show "?g (Some (source_name y)) = Map.empty" by simp
  qed
  have new: "map_of (map (\<lambda>x. (source_name x, x)) xs) (source_name x) = None"
    using Cons.prems(1) by (force simp: map_of_eq_None_iff)
  have "fold replay (concat (map ?evs (x # xs))) f = fold replay (concat (map ?evs xs)) ?g" by (simp add: g)
  also have "\<dots> = (\<lambda>src. case src of None \<Rightarrow> ?g None
        | Some m \<Rightarrow> (case map_of (map (\<lambda>x. (source_name x, x)) xs) m of None \<Rightarrow> ?g (Some m) | Some x \<Rightarrow> node_map (stats_tree x)))"
    by (rule Cons.IH) (use Cons.prems empty in simp_all)
  finally show ?case using new by (auto simp: fun_eq_iff split: option.splits)
qed

lemma replay_snapshot: "stats_ok s \<Longrightarrow> fold replay (snapshot s) (\<lambda>_. Map.empty) = stats_map s"
  by (auto simp: snapshot_def stats_ok_mount mount_ok_def replay_nodes replay_sources store_ok_def stats_map_mount
      mount_map_def tree_contents_def node_map_of fun_eq_iff split: option.splits)


section \<open>Events that can be applied\<close>

text \<open>
  \<open>D\<close> are the global names that are known to be there: a count may change one of them, any other
  event needs a value of its own; names of \<open>K\<close> are never removed.
\<close>

definition sound_event :: "string set \<Rightarrow> string set \<Rightarrow> stats_event_t \<Rightarrow> bool" where
  "sound_event K D ev \<longleftrightarrow>
     (ev_action ev \<in> {STATS_EVENT_SET, STATS_EVENT_ADD, STATS_EVENT_SUB} \<longrightarrow> ev_value ev \<noteq> None) \<and>
     (ev_source ev = None \<longrightarrow>
        (case ev_name ev of
           None \<Rightarrow> False
         | Some n \<Rightarrow> if ev_action ev = STATS_EVENT_REMOVE then n \<notin> K else ev_value ev \<noteq> None \<or> n \<in> D))"

definition sets_up :: "stats_event_t \<Rightarrow> string set" where
  "sets_up ev = (if ev_source ev = None \<and> ev_action ev = STATS_EVENT_SET then set_option (ev_name ev) else {})"

fun covered :: "string set \<Rightarrow> string set \<Rightarrow> stats_event_t list \<Rightarrow> bool" where
  "covered K D [] \<longleftrightarrow> K \<subseteq> D"
| "covered K D (ev # evs) \<longleftrightarrow> sound_event K D ev \<and> covered K (D \<union> sets_up ev \<inter> K) evs"

lemma sound_event_mono: "sound_event K D ev \<Longrightarrow> D \<subseteq> D' \<Longrightarrow> sound_event K D' ev"
  by (auto simp: sound_event_def split: option.splits if_splits)

lemma covered_append: "covered K D evs \<Longrightarrow> \<forall>ev\<in>set evs'. sound_event K K ev \<Longrightarrow> covered K D (evs @ evs')"
proof (induction evs arbitrary: D)
  case Nil
  have "K \<subseteq> E \<longrightarrow> covered K E evs'" for E using Nil.prems(2)
  proof (induction evs' arbitrary: E)
    case (Cons ev evs')
    then have "covered K (E \<union> sets_up ev \<inter> K) evs'" if "K \<subseteq> E"
      using Cons.IH [of "E \<union> sets_up ev \<inter> K"] that by (simp add: le_supI1)
    with Cons.prems show ?case by (auto intro: sound_event_mono)
  qed simp
  with Nil show ?case by simp
qed simp

lemma modify_node_defined:
  "sound_event K D ev \<Longrightarrow> \<exists>r. modify_node_event x ev = Some r"
  by (cases "ev_action ev") (auto simp: modify_node_event_def counted_def sound_event_def Let_def split: option.splits)

lemma process_event_defined:
  assumes s: "stats_ok s" and ev: "sound_event K D ev" and D: "\<forall>n\<in>D. stats_map s None n \<noteq> None"
  shows "\<exists>r. process_event ev s = Some r"
proof -
  have m: "modify_node_event x ev \<noteq> None" for x using modify_node_defined [OF ev, of x] by auto
  have node: "source_node_event ev n x \<noteq> None" for n x
    using m by (auto simp: source_node_event_def split: option.splits)
  show ?thesis
  proof (cases "ev_source ev")
    case None
    then obtain n where n: "ev_name ev = Some n" using ev by (auto simp: sound_event_def split: option.splits)
    have "ev_value ev \<noteq> None \<or> tree_contents node_name (global_stats s) n \<noteq> None \<or> ev_action ev = STATS_EVENT_REMOVE"
      using ev D None n by (auto simp: sound_event_def stats_map_mount node_map_def split: if_splits)
    then have "process_global_event ev (global_stats s) \<noteq> None"
      using m n s by (auto simp: process_global_event_def stats_ok_mount find_node_ok split: option.splits)
    with None show ?thesis by (auto simp: process_event_def)
  next
    case (Some m)
    have "process_source_event ev m (source_stats s) \<noteq> None"
      using node by (auto simp: process_source_event_def split: option.splits)
    with Some show ?thesis by (auto simp: process_event_def)
  qed
qed

text \<open>Names that are there stay there.\<close>

lemma process_event_keeps:
  assumes s: "stats_ok s" and ev: "sound_event K D ev" and D: "\<forall>n\<in>D. stats_map s None n \<noteq> None"
    and p: "process_event ev s = Some (ev', s')" and "D \<subseteq> K"
  shows "\<forall>n\<in>D \<union> sets_up ev. stats_map s' None n \<noteq> None"
proof -
  have "counted act v x \<noteq> None" if "act \<in> {STATS_EVENT_ADD, STATS_EVENT_SUB} \<longrightarrow> x \<noteq> None" for act v x
    using that by (cases act) (auto simp: counted_def)
  then have "new_value ev (stats_map s None n) \<noteq> None" if "ev_source ev = None" "ev_name ev = Some n" "n \<in> D \<or> n \<in> sets_up ev" for n
    using that ev D \<open>D \<subseteq> K\<close>
    by (cases "ev_action ev") (auto simp: new_value_def sound_event_def sets_up_def split: option.splits if_splits)
  moreover have "ev_source ev = None \<Longrightarrow> ev_name ev \<noteq> None" using ev by (auto simp: sound_event_def split: option.splits)
  ultimately show ?thesis using D unfolding process_event_ok(2) [OF s p]
    by (auto simp: apply_event_def sets_up_def split: option.splits if_splits)
qed


section \<open>Runs\<close>

definition views_ok :: "stats_world \<Rightarrow> bool" where
  "views_ok w \<longleftrightarrow> (\<forall>l\<in>set (event_listeners w). fold replay (taken l @ sl_queue l) (\<lambda>_. Map.empty) = stats_map (trees w))"

definition world_ok :: "string set \<Rightarrow> stats_world \<Rightarrow> bool" where
  "world_ok K w \<longleftrightarrow> stats_ok (trees w) \<and>
     (\<exists>D. D \<subseteq> K \<and> (\<forall>n\<in>D. stats_map (trees w) None n \<noteq> None) \<and> covered K D (global_events w))"

definition posts :: "stats_act \<Rightarrow> stats_event_t set" where
  "posts act = (case act of Post ev \<Rightarrow> {ev} | _ \<Rightarrow> {})"

lemma stats_args_sound: "ev \<in> set (stats_event_args utf8 None (Some n) v) \<Longrightarrow> sound_event K K ev \<and> plain_event ev"
  by (auto simp: stats_event_args_def stats_event_def build_event_def sound_event_def plain_event_def snprintf_def Let_def split: if_splits)

lemma clear_loop_ok: "mount_ok t \<Longrightarrow> mount_ok (clear_loop reg xs t)"
  by (induction xs arbitrary: t) (auto simp: mount_delete)

lemma clear_ok: "stats_ok s \<Longrightarrow> stats_ok (stats_clear_virtual_mounts reg s) \<and>
    stats_map (stats_clear_virtual_mounts reg s) None = stats_map s None"
  by (auto simp: stats_ok_mount stats_clear_virtual_mounts_def clear_loop_ok stats_map_mount)

lemma world_ok_queue:
  "world_ok K w \<Longrightarrow> \<forall>ev\<in>set evs. sound_event K K ev \<Longrightarrow> world_ok K (queue_global_event evs w)"
  by (auto simp: world_ok_def queue_global_event_def intro: covered_append)

lemma world_ok_cong: "trees w' = trees w \<Longrightarrow> global_events w' = global_events w \<Longrightarrow> world_ok K w' = world_ok K w"
  by (simp add: world_ok_def)

lemma work_ok:
  assumes w: "world_ok K w"
  shows "\<exists>w'. stats_thread_round w = Some w' \<and> world_ok K w'"
proof (cases "global_events w")
  case Nil
  then show ?thesis using w by (simp add: stats_thread_round_def)
next
  case (Cons ev evs)
  from w obtain D where D: "D \<subseteq> K" "\<forall>n\<in>D. stats_map (trees w) None n \<noteq> None" "covered K D (ev # evs)" and s: "stats_ok (trees w)"
    by (auto simp: world_ok_def Cons)
  from D(3) have sound: "sound_event K D ev" by simp
  obtain ev' s' where p: "process_event ev (trees w) = Some (ev', s')" using process_event_defined [OF s sound D(2)] by auto
  note k = process_event_keeps [OF s sound D(2) p D(1)] and s' = process_event_ok(1) [OF s p]
  let ?w = "w\<lparr>trees := s', global_events := evs,
    event_listeners := map (\<lambda>l. l\<lparr>sl_queue := sl_queue l @ [copy_event ev']\<rparr>) (event_listeners w)\<rparr>"
  have "world_ok K ?w" unfolding world_ok_def
  proof (intro conjI exI)
    show "D \<union> sets_up ev \<inter> K \<subseteq> K" using D(1) by blast
    show "\<forall>n\<in>D \<union> sets_up ev \<inter> K. stats_map (trees ?w) None n \<noteq> None" using k by auto
  qed (use s' D(3) in simp_all)
  then show ?thesis by (simp add: stats_thread_round_def Cons p)
qed


lemma stats_step_ok:
  assumes w: "world_ok K w" and a: "\<forall>ev\<in>posts act. sound_event K K ev"
  shows "\<exists>w'. stats_step utf8 act w = Some w' \<and> world_ok K w'"
proof (cases act)
  case (Clear reg)
  have "stats_ok (trees w)" using w by (simp add: world_ok_def)
  from clear_ok [OF this, of reg] w show ?thesis by (simp add: Clear world_ok_def)
next
  case (Send i t)
  have "world_ok K (w\<lparr>event_listeners := ls\<rparr>)" for ls using w by (simp add: world_ok_def)
  then show ?thesis by (simp add: Send)
next
  case (Leave i)
  have "world_ok K (w\<lparr>event_listeners := ls, stats_threads := n\<rparr>)" for ls n using w by (simp add: world_ok_def)
  then show ?thesis by (auto simp: Leave count_threads_def intro!: world_ok_queue dest: stats_args_sound)
next
  case Start
  have "world_ok K (w\<lparr>stats_threads := n\<rparr>)" for n using w by (simp add: world_ok_def)
  then show ?thesis by (auto simp: Start count_threads_def intro!: world_ok_queue dest: stats_args_sound)
next
  case (Register i c)
  then show ?thesis using w by (simp add: register_listener_def world_ok_def)
qed (use assms work_ok in \<open>auto simp: posts_def intro: world_ok_queue\<close>)

lemma stats_run_ok:
  "world_ok K w \<Longrightarrow> \<forall>act\<in>set as. \<forall>ev\<in>posts act. sound_event K K ev \<Longrightarrow> \<exists>w'. stats_run utf8 as w = Some w' \<and> world_ok K w'"
proof (induction as arbitrary: w)
  case (Cons act as)
  from stats_step_ok [OF Cons.prems(1), of act utf8] Cons.prems(2)
  obtain w' where "stats_step utf8 act w = Some w'" "world_ok K w'" by auto
  with Cons.IH [of w'] Cons.prems(2) show ?case by simp
qed simp

section \<open>Views\<close>

definition quiet_act :: "stats_act \<Rightarrow> bool" where
  "quiet_act act = (case act of Clear _ \<Rightarrow> False | _ \<Rightarrow> True)"

definition plain_world :: "stats_world \<Rightarrow> bool" where
  "plain_world w \<longleftrightarrow> stats_ok (trees w) \<and> views_ok w \<and> (\<forall>ev\<in>set (global_events w). plain_event ev)"

lemma set_unregister: "set (unregister_listener i ls) \<subseteq> set ls"
  by (induction ls) auto

lemma connection_round_view: "taken (connection_round t l) @ sl_queue (connection_round t l) = taken l @ sl_queue l"
  by (simp add: connection_round_def split: list.splits)

lemma plain_work:
  assumes w: "plain_world w" and r: "stats_thread_round w = Some w'"
  shows "plain_world w'"
proof (cases "global_events w")
  case Nil
  then show ?thesis using assms by (simp add: stats_thread_round_def)
next
  case (Cons ev evs)
  with r obtain ev' s' where p: "process_event ev (trees w) = Some (ev', s')"
    and w': "w' = w\<lparr>trees := s', global_events := evs,
       event_listeners := map (\<lambda>l. l\<lparr>sl_queue := sl_queue l @ [copy_event ev']\<rparr>) (event_listeners w)\<rparr>"
    by (auto simp: stats_thread_round_def)
  have s: "stats_ok (trees w)" "plain_event ev" using w by (auto simp: plain_world_def Cons)
  show ?thesis using w replay_process [OF s(1) p s(2)] process_event_ok(1) [OF s(1) p]
    by (auto simp: plain_world_def views_ok_def w' Cons)
qed

lemma plain_step:
  assumes w: "plain_world w" and a: "\<forall>ev\<in>posts act. plain_event ev" "quiet_act act" and r: "stats_step utf8 act w = Some w'"
  shows "plain_world w'"
proof (cases act)
  case (Register i c)
  have "stats_ok (trees w)" using w by (simp add: plain_world_def)
  from replay_snapshot [OF this] w r show ?thesis by (auto simp: Register register_listener_def plain_world_def views_ok_def)
next
  case (Send i t)
  have "fold replay (taken (connection_round t l) @ sl_queue (connection_round t l)) (\<lambda>_. Map.empty) = stats_map (trees w)"
    if "l \<in> set (event_listeners w)" for l
    using w that unfolding connection_round_view plain_world_def views_ok_def by blast
  with w r show ?thesis by (auto simp: Send plain_world_def views_ok_def)
next
  case (Leave i)
  then show ?thesis using w r set_unregister [of i "event_listeners w"] stats_args_sound
    by (auto simp: count_threads_def queue_global_event_def plain_world_def views_ok_def)
next
  case Start
  then show ?thesis using w r stats_args_sound
    by (auto simp: count_threads_def queue_global_event_def plain_world_def views_ok_def)
next
  case Work
  with r plain_work [OF w] show ?thesis by simp
next
  case (Post ev)
  with w a r show ?thesis by (auto simp: posts_def queue_global_event_def plain_world_def views_ok_def)
qed (use a in \<open>simp add: quiet_act_def\<close>)

lemma plain_run:
  "plain_world w \<Longrightarrow> \<forall>act\<in>set as. quiet_act act \<and> (\<forall>ev\<in>posts act. plain_event ev) \<Longrightarrow> stats_run utf8 as w = Some w' \<Longrightarrow> plain_world w'"
proof (induction as arbitrary: w)
  case (Cons act as)
  then obtain v where "stats_step utf8 act w = Some v" "stats_run utf8 as v = Some w'" by (auto simp: bind_eq_Some_conv)
  with plain_step [OF Cons.prems(1)] Cons.IH [of v] Cons.prems(2) show ?case by auto
qed simp


section \<open>Counters\<close>

text \<open>Numbers of 32 bits are printed in full and read back.\<close>

definition int_range :: "int \<Rightarrow> bool" where
  "int_range i \<longleftrightarrow> - (2 ^ 31) \<le> i \<and> i < 2 ^ 31"

lemma take_fmt_d: "\<bar>i\<bar> < 10 ^ 14 \<Longrightarrow> take 15 (fmt_d i) = fmt_d i"
  using length_fmt_d [of i 14] by simp

lemma to_int_id: "int_range i \<Longrightarrow> to_int i = i"
  by (simp add: to_int_def int_range_def signed_take_bit_int_eq_self)

lemma clamp64_id: "\<bar>i\<bar> < 2 ^ 63 \<Longrightarrow> clamp64 i = i"
  by (auto simp: clamp64_def)

lemma atoi32_fmt_d: "int_range i \<Longrightarrow> atoi32 (fmt_d i) = i"
  using clamp64_id [of i] to_int_id [of i] by (auto simp: atoi32_def atoi_fmt_d int_range_def)

lemma atoll_fmt_d: "\<bar>i\<bar> < 2 ^ 63 \<Longrightarrow> atoll (fmt_d i) = i"
  by (simp add: atoll_def atoi_fmt_d clamp64_id)

text \<open>The changes the server makes to its counts.\<close>

datatype change = Inc | Dec | Sub u64

fun change_event :: "string option \<Rightarrow> string \<Rightarrow> change \<Rightarrow> stats_event_t" where
  "change_event src n Inc = stats_event_inc src (Some n)"
| "change_event src n Dec = stats_event_dec src (Some n)"
| "change_event src n (Sub k) = stats_event_sub src (Some n) k"

fun amount :: "change \<Rightarrow> int" where
  "amount Inc = 1"
| "amount Dec = -1"
| "amount (Sub k) = - uint k"

fun process_all :: "stats_event_t list \<Rightarrow> stats \<Rightarrow> stats option" where
  "process_all [] s = Some s"
| "process_all (ev # evs) s = (case process_event ev s of None \<Rightarrow> None | Some (ev', s') \<Rightarrow> process_all evs s')"

lemma change_new_value:
  assumes "int_range v" "int_range (v + amount c)"
  shows "new_value (change_event src n c) (Some (fmt_d v)) = Some (fmt_d (v + amount c))"
proof -
  have t: "take 15 (fmt_d (v + amount c)) = fmt_d (v + amount c)"
    using assms(2) by (intro take_fmt_d) (auto simp: int_range_def)
  show ?thesis
  proof (cases c)
    case (Sub k)
    then have k: "uint k < 2 ^ 32" using assms by (auto simp: int_range_def)
    then have s: "sint k = uint k" using signed_take_bit_int_eq_self [of 63 "uint k"] uint_ge_0 [of k] by (simp add: sint_uint)
    have "take 15 (fmt_d (uint k)) = fmt_d (uint k)" using k by (intro take_fmt_d) auto
    moreover have "atoll (fmt_d (uint k)) = uint k" using k by (intro atoll_fmt_d) auto
    moreover have "atoll (fmt_d v) = v" using assms(1) by (intro atoll_fmt_d) (auto simp: int_range_def)
    moreover have "signed_take_bit 63 (v - uint k) = v - uint k"
      using assms(2) Sub by (intro signed_take_bit_int_eq_self) (auto simp: int_range_def)
    ultimately show ?thesis using t
      by (simp add: Sub new_value_def stats_event_sub_def build_event_def counted_def snprintf_def s)
  qed (use assms t in \<open>simp_all add: new_value_def stats_event_inc_def stats_event_dec_def build_event_def counted_def
      atoi32_fmt_d to_int_id\<close>)
qed

lemma change_sound: "sound_event K {n} (change_event src n c)"
  by (cases c) (auto simp: sound_event_def stats_event_inc_def stats_event_dec_def stats_event_sub_def build_event_def)

lemma change_target: "ev_source (change_event src n c) = src \<and> ev_name (change_event src n c) = Some n"
  by (cases c) (simp_all add: stats_event_inc_def stats_event_dec_def stats_event_sub_def build_event_def)

lemma process_change:
  assumes s: "stats_ok s" and v: "stats_map s src n = Some (fmt_d v)" and r: "int_range v" "int_range (v + amount c)"
  shows "\<exists>ev' s'. process_event (change_event src n c) s = Some (ev', s') \<and> stats_ok s' \<and>
     stats_map s' = (stats_map s)(src := (stats_map s src)(n \<mapsto> fmt_d (v + amount c)))"
proof -
  have "sound_event {} (if src = None then {n} else {}) (change_event src n c)"
    using change_sound [of "{}" n src c] change_target [of src n c] by (auto simp: sound_event_def)
  moreover have "\<forall>m\<in>(if src = None then {n} else {}). stats_map s None m \<noteq> None" using v by auto
  ultimately obtain ev' s' where p: "process_event (change_event src n c) s = Some (ev', s')"
    using process_event_defined [OF s] by fastforce
  show ?thesis using process_event_ok [OF s p] p change_new_value [OF r] v change_target [of src n c]
    by (simp add: apply_event_def)
qed

lemma process_changes:
  assumes "stats_ok s" "stats_map s src n = Some (fmt_d v)"
    "\<forall>i\<le>length cs. int_range (v + sum_list (map amount (take i cs)))"
  shows "\<exists>s'. process_all (map (change_event src n) cs) s = Some s' \<and> stats_ok s' \<and>
     stats_map s' = (stats_map s)(src := (stats_map s src)(n \<mapsto> fmt_d (v + sum_list (map amount cs))))"
  using assms
proof (induction cs arbitrary: s v)
  case Nil
  then show ?case by (auto simp: fun_eq_iff)
next
  case (Cons c cs)
  have r: "int_range v" "int_range (v + amount c)" using Cons.prems(3) [rule_format, of 0] Cons.prems(3) [rule_format, of 1] by simp_all
  obtain ev' s' where p: "process_event (change_event src n c) s = Some (ev', s')" "stats_ok s'"
    and m: "stats_map s' = (stats_map s)(src := (stats_map s src)(n \<mapsto> fmt_d (v + amount c)))"
    using process_change [OF Cons.prems(1,2) r] by blast
  have "\<exists>s''. process_all (map (change_event src n) cs) s' = Some s'' \<and> stats_ok s'' \<and>
     stats_map s'' = (stats_map s')(src := (stats_map s' src)(n \<mapsto> fmt_d (v + amount c + sum_list (map amount cs))))"
  proof (rule Cons.IH [OF p(2)])
    show "\<forall>i\<le>length cs. int_range (v + amount c + sum_list (map amount (take i cs)))"
    proof (intro allI impI)
      fix i assume "i \<le> length cs"
      then show "int_range (v + amount c + sum_list (map amount (take i cs)))"
        using Cons.prems(3) [rule_format, of "Suc i"] by (simp add: add.assoc)
    qed
  qed (simp add: m)
  then show ?case using p(1) by (auto simp: m add.assoc fun_eq_iff)
qed


section \<open>Hidden mounts, lists of mounts\<close>

lemma streams_loop_spec:
  assumes "\<forall>x\<in>set xs. source_hidden x = 0 \<longrightarrow> length (source_name x) < 4094"
    and "length cur + remaining = 4096" "remaining \<le> 4096" "\<forall>b\<in>set full. length b \<le> 4096"
  shows "\<exists>bs. streams_loop full cur remaining xs = Some bs \<and> (\<forall>b\<in>set bs. length b \<le> 4096) \<and>
     concat bs = concat full @ cur @ concat (map (\<lambda>x. source_name x @ [CR, LF]) (filter (\<lambda>x. source_hidden x = 0) xs))"
  using assms
proof (induction xs arbitrary: full cur remaining)
  case Nil
  then show ?case by auto
next
  case (Cons x xs)
  show ?case
  proof (cases "source_hidden x = 0")
    case False
    then show ?thesis using Cons.IH [of cur remaining full] Cons.prems by auto
  next
    case True
    with Cons.prems have len: "length (source_name x) < 4094" by simp
    have nl: "nat (2 + int (length (source_name x))) = length (source_name x) + 2" by simp
    show ?thesis
    proof (cases "remaining \<le> length (source_name x) + 3")
      case new: True
      have "\<exists>bs. streams_loop (full @ [cur]) (source_name x @ [CR, LF]) (4094 - length (source_name x)) xs = Some bs \<and>
          (\<forall>b\<in>set bs. length b \<le> 4096) \<and> concat bs = concat (full @ [cur]) @ (source_name x @ [CR, LF]) @
          concat (map (\<lambda>x. source_name x @ [CR, LF]) (filter (\<lambda>x. source_hidden x = 0) xs))"
        by (rule Cons.IH) (use Cons.prems len in auto)
      then show ?thesis using True new len by (simp add: STREAMLIST_BLKSIZE_def snprintf_def nl)
    next
      case old: False
      have "\<exists>bs. streams_loop full (cur @ source_name x @ [CR, LF]) (remaining - (length (source_name x) + 2)) xs = Some bs \<and>
          (\<forall>b\<in>set bs. length b \<le> 4096) \<and> concat bs = concat full @ (cur @ source_name x @ [CR, LF]) @
          concat (map (\<lambda>x. source_name x @ [CR, LF]) (filter (\<lambda>x. source_hidden x = 0) xs))"
        by (rule Cons.IH) (use Cons.prems old in auto)
      then show ?thesis using True old by (simp add: snprintf_def nl)
    qed
  qed
qed

text \<open>Clearing keeps the mounts that have a source.\<close>

lemma clear_loop_map:
  "mount_ok t \<Longrightarrow> mount_map (clear_loop reg xs t) =
     (\<lambda>m. if m \<in> source_name ` set xs \<and> source_find_mount_raw reg (Some m) = None then Map.empty else mount_map t m)"
proof (induction xs arbitrary: t)
  case (Cons x xs)
  then show ?case by (auto simp: mount_delete fun_eq_iff)
qed auto

lemma clear_map:
  assumes "stats_ok s"
  shows "stats_map (stats_clear_virtual_mounts reg s) =
    (\<lambda>src. case src of None \<Rightarrow> stats_map s None
       | Some m \<Rightarrow> if source_find_mount_raw reg (Some m) = None then Map.empty else stats_map s (Some m))"
proof -
  have "mount_map (source_stats s) m = Map.empty" if "m \<notin> source_name ` set (inorder (root (source_stats s)))" for m
    using that by (simp add: mount_map_def tree_contents_None [THEN iffD2])
  with assms show ?thesis
    by (auto simp: stats_map_mount stats_clear_virtual_mounts_def stats_ok_mount clear_loop_map fun_eq_iff split: option.splits)
qed


text \<open>The state the statistics thread starts in.\<close>

lemma start_ok:
  assumes "utf8 ''0''"
  shows "world_ok (set counters) (queue_global_event (start_events utf8 now iso_now) stats_initialize)"
proof -
  have "covered (set counters) {} (start_events utf8 now iso_now)"
    using assms by (auto simp: start_events_def counters_def stats_event_def build_event_def sound_event_def sets_up_def)
  then show ?thesis
    using stats_ok_initialize by (auto simp: world_ok_def queue_global_event_def stats_initialize_def intro!: exI [of _ "{}"])
qed

text \<open>
  An amount that is added is passed on to connections as it is, not as the sum: after a count of 5
  has been raised by 2, a connection reads 2.
\<close>

lemma added_amount_misread:
  assumes "stats_ok s" and "stats_map s None n = Some ''5''"
  shows "\<exists>ev' s'. process_event (stats_event_add None (Some n) 2) s = Some (ev', s') \<and>
     stats_map s' None n = Some ''7'' \<and> replay (copy_event ev') (stats_map s) None n = Some ''2''"
proof -
  let ?ev = "stats_event_add None (Some n) 2"
  have "sound_event {} {} ?ev" by (simp add: sound_event_def stats_event_add_def build_event_def)
  from process_event_defined [OF assms(1) this] obtain ev' s' where p: "process_event ?ev s = Some (ev', s')" by auto
  have five: "atoi32 ''5'' = 5" and two: "atoi32 ''2'' = 2" by code_simp+
  have fmt: "fmt_d 2 = ''2''" "fmt_d 7 = ''7''" by code_simp+
  have "ev' = ?ev" using p assms
    by (auto simp: process_event_def process_global_event_def modify_node_event_def stats_event_add_def build_event_def Let_def
        split: option.splits)
  then show ?thesis using p assms(2) process_event_ok(2) [OF assms(1) p]
    by (simp add: apply_event_def replay_def new_value_def counted_def stats_event_add_def build_event_def snprintf_def fmt five two to_int_def)
qed

text \<open>The end of hiding a mount looks to connections like the removal of its values.\<close>

lemma unhide_looks_removed:
  "copy_event (stats_event_hidden (Some m) None 0) = copy_event (build_event (Some m) None None)"
  by (simp add: copy_event_def stats_event_hidden_def build_event_def)

section \<open>Properties\<close>

text \<open>
  C4: Applying an event to the statistics succeeds when it carries the value its action needs, keeps the
  trees ordered and balanced, and changes the values that can be read exactly as its meaning as an
  update of a map from source and name to value says: the trees refine that map.
\<close>

theorem stats_event_refines:
  assumes "stats_ok s" and "sound_event K D ev" and "\<forall>n\<in>D. stats_get_value s None n \<noteq> None"
  shows "\<exists>ev' s'. process_event ev s = Some (ev', s') \<and> stats_ok s' \<and> stats_get_value s' = apply_event ev (stats_get_value s)"
proof -
  have m: "stats_get_value u = stats_map u" if "stats_ok u" for u using stats_get_value_map [OF that] by (intro ext)
  obtain ev' s' where p: "process_event ev s = Some (ev', s')"
    using process_event_defined [OF assms(1,2)] assms(3) m [OF assms(1)] by auto
  from process_event_ok [OF assms(1) p] p m assms(1) show ?thesis by metis
qed

theorem stats_event_refines_witness:
  "\<exists>ev' s'. process_event (build_event (Some ''/a'') (Some ''title'') (Some ''x'')) (trees stats_initialize) = Some (ev', s') \<and>
     stats_ok s' \<and> stats_get_value s' = apply_event (build_event (Some ''/a'') (Some ''title'') (Some ''x''))
       (stats_get_value (trees stats_initialize))"
  by (rule stats_event_refines [OF stats_ok_initialize, of "{}" "{}"]) (simp_all add: sound_event_def build_event_def)






text \<open>
  C21: A count stays exact: after any sequence of increments, decrements and subtractions, during
  which it remains in the range of a 32-bit integer, the value that can be read is the decimal
  print of the starting value plus the sum of the changes, and no other value has changed.
\<close>

theorem stats_counter_exact:
  assumes "stats_ok s" and "stats_get_value s src n = Some (fmt_d v)"
    and "\<forall>i\<le>length cs. int_range (v + sum_list (map amount (take i cs)))"
  shows "\<exists>s'. process_all (map (change_event src n) cs) s = Some s' \<and> stats_ok s' \<and>
     stats_get_value s' src n = Some (fmt_d (v + sum_list (map amount cs))) \<and>
     (\<forall>src' n'. (src', n') \<noteq> (src, n) \<longrightarrow> stats_get_value s' src' n' = stats_get_value s src' n')"
proof -
  from process_changes [OF assms(1) _ assms(3), of src n] assms(1,2) obtain s' where
    "process_all (map (change_event src n) cs) s = Some s'" "stats_ok s'"
    "stats_map s' = (stats_map s)(src := (stats_map s src)(n \<mapsto> fmt_d (v + sum_list (map amount cs))))"
    by (auto simp: stats_get_value_map)
  with assms(1) show ?thesis by (auto simp: stats_get_value_map)
qed

definition demo_stats :: stats where
  "demo_stats = (case process_event (build_event None (Some ''listeners'') (Some ''0'')) (trees stats_initialize) of Some (_, s) \<Rightarrow> s)"

theorem stats_counter_exact_witness:
  "\<exists>s'. process_all (map (change_event None ''listeners'') [Inc, Inc, Dec, Inc, Sub 2]) demo_stats = Some s' \<and> stats_ok s' \<and>
     stats_get_value s' None ''listeners'' = Some (fmt_d (0 + sum_list (map amount [Inc, Inc, Dec, Inc, Sub 2]))) \<and>
     (\<forall>src' n'. (src', n') \<noteq> (None, ''listeners'') \<longrightarrow> stats_get_value s' src' n' = stats_get_value demo_stats src' n')"
proof (rule stats_counter_exact)
  let ?ev = "build_event None (Some ''listeners'') (Some ''0'')"
  have "sound_event {} {} ?ev" by (simp add: sound_event_def build_event_def)
  from process_event_defined [OF stats_ok_initialize this] obtain ev' where p: "process_event ?ev (trees stats_initialize) = Some (ev', demo_stats)"
    by (auto simp: demo_stats_def)
  note ok = process_event_ok [OF stats_ok_initialize p]
  show "stats_ok demo_stats" by (rule ok)
  have "fmt_d 0 = ''0''" by code_simp
  then show "stats_get_value demo_stats None ''listeners'' = Some (fmt_d 0)"
    by (simp add: stats_get_value_map ok apply_event_def build_event_def new_value_def)
  show "\<forall>i\<le>length [Inc, Inc, Dec, Inc, Sub 2]. int_range (0 + sum_list (map amount (take i [Inc, Inc, Dec, Inc, Sub 2])))"
  proof (intro allI impI)
    fix i assume "i \<le> length [Inc, Inc, Dec, Inc, Sub 2]"
    then have "i \<in> {0, 1, 2, 3, 4, 5}" by auto
    then show "int_range (0 + sum_list (map amount (take i [Inc, Inc, Dec, Inc, Sub 2])))"
      by (auto simp: int_range_def take_Cons')
  qed
qed

text \<open>
  The list of mounts given to slave servers holds every mount that is not hidden, in order and
  on a line of its own, and no buffer of the list holds more than its 4096 bytes, for mounts whose
  names are shorter than a buffer.
\<close>

lemma stats_streams_complete:
  assumes "\<forall>x\<in>set (inorder (root (source_stats s))). source_hidden x = 0 \<longrightarrow> length (source_name x) < 4094"
  shows "\<exists>bs. stats_get_streams s = Some bs \<and> (\<forall>b\<in>set bs. length b \<le> 4096) \<and>
     concat bs = concat (map (\<lambda>x. source_name x @ [CR, LF]) (filter (\<lambda>x. source_hidden x = 0) (inorder (root (source_stats s)))))"
  using streams_loop_spec [OF assms, of "[]" 4096 "[]"] by (simp add: stats_get_streams_def STREAMLIST_BLKSIZE_def)

definition demo_mounts :: stats where
  "demo_mounts = \<lparr>global_stats = avl_tree_new compare_stats,
     source_stats = (avl_tree_new compare_source_stats)\<lparr>root :=
       avl_node_new \<lparr>source_name = ''/live'', source_hidden = 0, stats_tree = avl_tree_new compare_stats\<rparr>\<rparr>\<rparr>"

text \<open>
  Clearing the virtual mounts removes the values of exactly the mounts for which no source is
  registered, and keeps everything else and the order and balance of the trees.
\<close>

lemma stats_clear_virtual_spec:
  assumes "stats_ok s"
  shows "stats_ok (stats_clear_virtual_mounts reg s) \<and>
    stats_get_value (stats_clear_virtual_mounts reg s) src n =
      (case src of Some m \<Rightarrow> if source_find_mount_raw reg (Some m) = None then None else stats_get_value s src n
       | None \<Rightarrow> stats_get_value s src n)"
  using clear_ok [OF assms, of reg] clear_map [OF assms, of reg] assms
  by (auto simp: stats_get_value_map split: option.splits)

end
