(* ===== verification/Fserve.thy ===== *)
theory Fserve
  imports Stats Util
begin

text \<open>
  The file server (\<open>fserve.c\<close>): the table of file types, requests for files with ranges, playlists, and
  the thread that sends buffers and files to clients. The contents of files, the results of
  \<open>stat\<close>, \<open>fopen\<close> and \<open>fseeko\<close>, and what sockets do are arguments. A client's buffers belong to it
  alone and are represented by their contents. \<open>None\<close> stands for a null pointer that is followed or
  an access outside an array.
\<close>

section \<open>File types\<close>

definition BUFSIZE :: nat where "BUFSIZE = 4096"

record mime_type =
  ext :: string
  mtype :: string

definition compare_mappings :: "mime_type \<Rightarrow> mime_type \<Rightarrow> int" where
  "compare_mappings a b = strcmp (ext a) (ext b)"

text \<open>
  \<open>fgets\<close> into the 4096 bytes of \<open>line\<close>: at most 4094 characters, up to and with the end of line, and
  a NUL; the bytes behind it keep what was there. Then the last byte is cleared.
\<close>

definition fgets :: "string \<Rightarrow> string \<Rightarrow> (string \<times> string) option" where
  "fgets line file =
     (if file = [] then None
      else
        let pre = takeWhile (\<lambda>c. c \<noteq> LF) (take 4094 file);
            s = (if length pre < 4094 \<and> length pre < length file then pre @ [LF] else pre)
        in Some ((s @ [NUL] @ drop (length s + 1) line)[4095 := NUL], drop (length s) file))"

text \<open>Adding a type for an extension, which replaces the one there was.\<close>

definition add_mapping :: "mime_type avl_tree \<Rightarrow> mime_type \<Rightarrow> mime_type avl_tree" where
  "add_mapping t m = (if avl_get_by_key t m = None then tree_insert t m else tree_insert (tree_delete t m) m)"

definition blank :: "char \<Rightarrow> bool" where
  "blank c \<longleftrightarrow> c = CHR '' '' \<or> c = CHR 0x09"

text \<open>
  The loop over the extensions of a line: \<open>pre\<close> are the bytes that were passed, \<open>cur\<close> those from the
  pointer on. The byte that ends an extension is overwritten and stepped over, also when it is the
  NUL at the end of the line. The result is the array as it is left, and the table.
\<close>

definition ends_ext :: "char \<Rightarrow> bool" where
  "ends_ext c \<longleftrightarrow> blank c \<or> c = LF \<or> c = NUL"

function ext_loop :: "string \<Rightarrow> string \<Rightarrow> string \<Rightarrow> mime_type avl_tree \<Rightarrow> (string \<times> mime_type avl_tree) option" where
  "ext_loop ty pre cur t =
     (let pre = pre @ takeWhile blank cur; cur = dropWhile blank cur
      in case cur of
           [] \<Rightarrow> None
         | c # cs \<Rightarrow>
             if c = NUL then Some (pre @ cur, t)
             else
               let e = takeWhile (\<lambda>c. \<not> ends_ext c) cur; rest = dropWhile (\<lambda>c. \<not> ends_ext c) cur
               in case rest of
                    [] \<Rightarrow> None
                  | r # rs \<Rightarrow> ext_loop ty (pre @ e @ [NUL]) rs (if e = [] then t else add_mapping t \<lparr>ext = e, mtype = ty\<rparr>))"
  by pat_completeness auto

lemma dropWhile_shorter: "dropWhile P xs = y # ys \<Longrightarrow> length ys < length xs"
  using length_dropWhile_le [of P xs] by simp

termination ext_loop
  by (relation "measure (\<lambda>(ty, pre, cur, t). length cur)")
    (auto dest!: dropWhile_shorter [OF sym] intro: less_le_trans length_dropWhile_le)

declare ext_loop.simps [simp del]

definition mime_line :: "string \<Rightarrow> mime_type avl_tree \<Rightarrow> (string \<times> mime_type avl_tree) option" where
  "mime_line line t =
     (if hd line = NUL \<or> hd line = CHR ''#'' then Some (line, t)
      else
        let ty = takeWhile (\<lambda>c. \<not> blank c \<and> c \<noteq> NUL) line
        in case dropWhile (\<lambda>c. \<not> blank c \<and> c \<noteq> NUL) line of
             [] \<Rightarrow> None
           | c # cs \<Rightarrow> if c = NUL then Some (line, t) else ext_loop ty (ty @ [NUL]) cs t)"

lemma fgets_shorter: "fgets line inp = Some (line', rest) \<Longrightarrow> length rest < length inp"
  by (cases inp) (auto simp: fgets_def Let_def split: if_splits)

function mime_loop :: "string \<Rightarrow> string \<Rightarrow> mime_type avl_tree \<Rightarrow> mime_type avl_tree option" where
  "mime_loop line file t =
     (case fgets line file of
        None \<Rightarrow> Some t
      | Some (line, rest) \<Rightarrow> (case mime_line line t of None \<Rightarrow> None | Some (line, t) \<Rightarrow> mime_loop line rest t))"
  by pat_completeness auto

termination
  by (relation "measure (\<lambda>(line, file, t). length file)") (auto dest: fgets_shorter)

declare mime_loop.simps [simp del]

text \<open>\<open>mimefile\<close> is the content of the configured file, if there is one that can be opened.\<close>

definition fserve_recheck_mime_types ::
  "string option \<Rightarrow> string \<Rightarrow> mime_type avl_tree option \<Rightarrow> mime_type avl_tree option option" where
  "fserve_recheck_mime_types mimefile line mimetypes =
     (case mimefile of
        None \<Rightarrow> Some mimetypes
      | Some file \<Rightarrow> map_option Some (mime_loop line file (avl_tree_new compare_mappings)))"

definition basic_type :: "string \<Rightarrow> string" where
  "basic_type e =
     (if strcmp e ''ogg'' = 0 then ''application/ogg''
      else if strcmp e ''mp3'' = 0 then ''audio/mpeg''
      else if strcmp e ''html'' = 0 then ''text/html''
      else if strcmp e ''css'' = 0 then ''text/css''
      else if strcmp e ''txt'' = 0 then ''text/plain''
      else if strcmp e ''jpg'' = 0 then ''image/jpeg''
      else if strcmp e ''png'' = 0 then ''image/png''
      else if strcmp e ''m3u'' = 0 then ''audio/x-mpegurl''
      else if strcmp e ''aac'' = 0 then ''audio/aac''
      else ''application/octet-stream'')"

definition fserve_content_type :: "mime_type avl_tree option \<Rightarrow> string \<Rightarrow> string" where
  "fserve_content_type mimetypes path =
     (let e = util_get_extension path
      in case Option.bind mimetypes (\<lambda>t. avl_get_by_key t \<lparr>ext = e, mtype = []\<rparr>) of
           Some m \<Rightarrow> mtype m
         | None \<Rightarrow> basic_type e)"

section \<open>Requests for files\<close>

text \<open>What \<open>stat\<close> says about a path: its size and whether it is a regular file.\<close>

record file_stat =
  st_size :: int
  st_isreg :: bool

record file_env =
  fe_stat :: "file_stat option"
  fe_open :: "string option"
  fe_seek :: "int \<Rightarrow> bool"
  fe_host :: string
  fe_port :: int

text \<open>
  The outcome: an error reply, a client handed to the sending thread with what is left to read of the
  file, or a playlist made by a style sheet for a mount.
\<close>

datatype fserve_outcome = Replied fate | Added client "string option" | Transformed string string

text \<open>\<open>sscanf\<close> with \<open>%lld\<close>.\<close>

definition scan_off :: "string \<Rightarrow> int option" where
  "scan_off s =
     (let r = dropWhile is_space s;
          (neg, ds) = (case r of [] \<Rightarrow> (False, []) | c # cs \<Rightarrow> if c = CHR ''-'' then (True, cs) else if c = CHR ''+'' then (False, cs) else (False, r));
          digits = takeWhile is_digit ds
      in if digits = [] then None else Some (clamp64 (if neg then - digits_value digits else digits_value digits)))"

text \<open>The start of a range that can be served, and the number of bytes from there on.\<close>

definition range_start :: "file_env \<Rightarrow> int \<Rightarrow> string \<Rightarrow> (int \<times> int) option" where
  "range_start fe content_length rg =
     (case (if strncasecmp rg ''bytes='' 6 = 0 then scan_off (drop 6 rg) else None) of
        None \<Rightarrow> None
      | Some n \<Rightarrow>
          if n < 0 \<or> \<not> fe_seek fe n \<or> content_length - n < 0 then None else Some (n, content_length - n))"

definition finish_reply ::
  "nat \<Rightarrow> client \<Rightarrow> int \<Rightarrow> int \<times> string \<Rightarrow> string \<Rightarrow> string option \<Rightarrow> fserve_outcome" where
  "finish_reply sent client status built rest file =
     (let (bytes, out) = built
      in if bytes = -1 \<or> bytes \<ge> int BUFSIZE - 512 then Replied (client_send_500 sent (Some ''Header generation failed.''))
         else
           let (written, ret) = snprintf (BUFSIZE - nat bytes) rest
           in Added (client\<lparr>respcode := status, rdata := out @ written, rlen := nat (bytes + ret), pos := 0\<rparr>) file)"

definition CRLF :: string where "CRLF = [CR, LF]"

definition length_lines :: "int \<Rightarrow> string" where
  "length_lines len = ''Accept-Ranges: bytes'' @ CRLF @ ''Content-Length: '' @ fmt_d len @ CRLF"

definition range_line :: "int \<Rightarrow> int \<Rightarrow> int \<Rightarrow> string" where
  "range_line first_byte last_byte whole = ''Content-Range: bytes '' @ fmt_d first_byte @ ''-'' @ fmt_d last_byte @ ''/'' @ fmt_d whole @ CRLF"

text \<open>The part that serves a file, once it is open: \<open>data\<close> is its content.\<close>

definition serve_file ::
  "(string \<Rightarrow> string \<Rightarrow> bool) \<Rightarrow> ice_config \<Rightarrow> string \<Rightarrow> nat \<Rightarrow> mime_type avl_tree option \<Rightarrow> file_env \<Rightarrow> client \<Rightarrow> string \<Rightarrow>
   int \<Rightarrow> string option \<Rightarrow> string \<Rightarrow> fserve_outcome" where
  "serve_file fnmatch config date sent mimetypes fe client path content_length rg content =
     (let ty = fserve_content_type mimetypes path;
          build = (\<lambda>status. util_http_build_header fnmatch config date (Some (rdata client)) BUFSIZE 0 False status None (Some ty) None None None)
      in case rg of
           None \<Rightarrow> finish_reply sent client 200 (build 200) (length_lines content_length @ CRLF) (Some content)
         | Some r \<Rightarrow>
             (case range_start fe content_length r of
                None \<Rightarrow> Replied (client_send_error fnmatch config date sent client 416 True (''Request Range Not Satisfiable'' @ CRLF))
              | Some (n, len) \<Rightarrow>
                  finish_reply sent client 206 (build 206)
                    (length_lines len @ range_line n (max (n + len - 1) 0) content_length @ CRLF) (Some (drop (nat n) content))))"

text \<open>A playlist that points to the mount: the path without its extension.\<close>

definition m3u_reply ::
  "(string \<Rightarrow> string \<Rightarrow> bool) \<Rightarrow> ice_config \<Rightarrow> string \<Rightarrow> nat \<Rightarrow> file_env \<Rightarrow> client \<Rightarrow> http_parser \<Rightarrow> string \<Rightarrow> fserve_outcome option" where
  "m3u_reply fnmatch config date sent fe client p path =
     (case strrchr path (CHR ''.'') of
        None \<Rightarrow> None
      | Some dot \<Rightarrow>
          let sourceuri = take dot path;
              host = (case httpp_getvar p ''host'' of None \<Rightarrow> None | Some h \<Rightarrow> if strchr h (CHR '':'') = None then None else Some h);
              (ret, out) = util_http_build_header fnmatch config date (Some (rdata client)) BUFSIZE 0 False 200 None
                 (Some ''audio/x-mpegurl'') None (Some []) None
          in Some
               (if ret = -1 \<or> ret \<ge> int BUFSIZE - 512 then Replied (client_send_500 sent (Some ''Header generation failed.''))
                else
                  let text = out @ fst (snprintf (BUFSIZE - nat ret)
                        (''http://'' @ (case host of None \<Rightarrow> fe_host fe @ '':'' @ fmt_d (fe_port fe) | Some h \<Rightarrow> h) @ sourceuri @ CRLF))
                  in Added (client\<lparr>respcode := 200, rdata := text, rlen := length text\<rparr>) None))"

definition fserve_client_create ::
  "(string \<Rightarrow> string \<Rightarrow> bool) \<Rightarrow> ice_config \<Rightarrow> string \<Rightarrow> nat \<Rightarrow> mime_type avl_tree option \<Rightarrow> (string \<Rightarrow> file_env) \<Rightarrow> client \<Rightarrow> http_parser \<Rightarrow>
   string \<Rightarrow> fserve_outcome option" where
  "fserve_client_create fnmatch config date sent mimetypes files client p path =
     (let fullpath = util_get_path_from_normalised_uri (webroot_dir config) path;
          fe = files fullpath;
          m3u_requested = strcmp (util_get_extension fullpath) ''m3u'' = 0;
          xslt = (if strcmp (util_get_extension fullpath) ''vclt'' = 0 then Some ''vclt.xsl''
                  else if strcmp (util_get_extension fullpath) ''xspf'' = 0 then Some ''xspf.xsl'' else None);
          error = (\<lambda>m. Some (Replied (client_send_404 fnmatch config date sent client m)))
      in case fe_stat fe of
           None \<Rightarrow>
             if m3u_requested then m3u_reply fnmatch config date sent fe client p path
             else
               (case xslt of
                  Some sheet \<Rightarrow> Some (Transformed (case strrchr path (CHR ''.'') of None \<Rightarrow> path | Some dot \<Rightarrow> take dot path) sheet)
                | None \<Rightarrow> error ''The file you requested could not be found'')
         | Some st \<Rightarrow>
             if \<not> fileserve config then error ''The file you requested could not be found''
             else if \<not> st_isreg st then error ''The file you requested could not be found''
             else
               (case fe_open fe of
                  None \<Rightarrow> error ''File not readable''
                | Some content \<Rightarrow>
                    Some (serve_file fnmatch config date sent mimetypes fe client path (st_size st) (httpp_getvar p ''range'') content)))"

end
