(* ===== verification/Fserve_Thread.thy ===== *)
theory Fserve_Thread
  imports Fserve
begin

text \<open>
  The thread of the file server (\<open>fserve.c\<close>): clients that were added wait in a list, the thread moves
  them to its own list, waits for their sockets and sends to those that are ready. The thread ends
  when it has no clients and is started again by the next one that is added.
\<close>

section \<open>State\<close>

text \<open>
  \<open>fc_buf\<close> is the client's buffer and \<open>fc_next\<close> the buffers chained to it; \<open>fc_file\<close> is what is left to read.
  \<open>lpos\<close> and \<open>received\<close> of the client are the position in the buffer and the bytes its socket took.
\<close>

record fclient =
  fc_client :: "unit lclient"
  fc_buf :: string
  fc_next :: "string list"
  fc_file :: "string option"
  fc_ready :: bool
  fc_callback :: bool

datatype fserv_pc = Top | Polling

text \<open>\<open>ufds\<close> is the array of sockets that are polled, \<open>gone\<close> the clients that were destroyed.\<close>

record fserv =
  pending_list :: "fclient list"
  active_list :: "fclient list"
  ufds :: "int list option"
  fserve_clients :: nat
  client_tree_changed :: bool
  run_fserv :: bool
  fserv_thread :: "fserv_pc option"
  gone :: "fclient list"

definition fserve_initialize :: fserv where
  "fserve_initialize =
     \<lparr>pending_list = [], active_list = [], ufds = None, fserve_clients = 0, client_tree_changed = False, run_fserv = False,
      fserv_thread = None, gone = []\<rparr>"

section \<open>Steps\<close>

definition fserve_add_pending :: "fclient \<Rightarrow> fserv \<Rightarrow> fserv" where
  "fserve_add_pending fc s =
     (let s = s\<lparr>pending_list := fc # pending_list s\<rparr>
      in if \<not> run_fserv s then s\<lparr>run_fserv := True, fserv_thread := Some Top\<rparr> else s)"

definition fserve_add_client :: "unit lclient \<Rightarrow> string \<Rightarrow> string list \<Rightarrow> string option \<Rightarrow> fserv \<Rightarrow> fserv" where
  "fserve_add_client client buf chained inp =
     fserve_add_pending \<lparr>fc_client = client, fc_buf = buf, fc_next = chained, fc_file = inp, fc_ready = False, fc_callback = False\<rparr>"

definition fserve_add_client_callback :: "unit lclient \<Rightarrow> string \<Rightarrow> string list \<Rightarrow> fserv \<Rightarrow> fserv" where
  "fserve_add_client_callback client buf chained =
     fserve_add_pending \<lparr>fc_client = client, fc_buf = buf, fc_next = chained, fc_file = None, fc_ready = False, fc_callback = True\<rparr>"

text \<open>The start of a round of \<open>wait_for_fds\<close>: clients that wait become active.\<close>

definition take_pending :: "fserv \<Rightarrow> fserv" where
  "take_pending s =
     (if pending_list s = [] then s
      else s\<lparr>active_list := rev (pending_list s) @ active_list s, client_tree_changed := True,
             fserve_clients := fserve_clients s + length (pending_list s), pending_list := []\<rparr>)"

text \<open>
  The array of sockets is allocated for \<open>fserve_clients\<close> entries, which is no array at all for none, and
  filled along the list.
\<close>

definition rebuild_ufds :: "fserv \<Rightarrow> fserv option" where
  "rebuild_ufds s =
     (if \<not> client_tree_changed s then Some s
      else if length (active_list s) > fserve_clients s then None
      else Some (s\<lparr>client_tree_changed := False,
             ufds := (if fserve_clients s = 0 then None else Some (map (\<lambda>fc. sock (lcon (fc_client fc))) (active_list s)))\<rparr>))"

text \<open>Marking the clients whose entry says so, entry by entry along the list.\<close>

fun mark_ready :: "nat \<Rightarrow> int list \<Rightarrow> (int \<Rightarrow> bool) \<Rightarrow> fclient list \<Rightarrow> fclient list option" where
  "mark_ready 0 pfds revents fcs = Some fcs"
| "mark_ready (Suc n) (fd # pfds) revents (fc # fcs) =
     map_option (\<lambda>fcs. (if revents fd then fc\<lparr>fc_ready := True\<rparr> else fc) # fcs) (mark_ready n pfds revents fcs)"
| "mark_ready (Suc n) pfds revents fcs = None"

text \<open>The next chunk of the file, or the next buffer; \<open>None\<close> when there is nothing left.\<close>

definition next_chunk :: "fclient \<Rightarrow> fclient option" where
  "next_chunk fc =
     (if lpos (fc_client fc) \<noteq> length (fc_buf fc) then Some fc
      else
        let bytes = (case fc_file fc of None \<Rightarrow> [] | Some f \<Rightarrow> take BUFSIZE f);
            fc = fc\<lparr>fc_file := map_option (drop BUFSIZE) (fc_file fc), fc_client := (fc_client fc)\<lparr>lpos := 0\<rparr>\<rparr>
        in if bytes \<noteq> [] then Some (fc\<lparr>fc_buf := bytes\<rparr>)
           else (case fc_next fc of [] \<Rightarrow> None | b # bs \<Rightarrow> Some (fc\<lparr>fc_buf := b, fc_next := bs\<rparr>)))"

definition send_chunk :: "tx \<Rightarrow> fclient \<Rightarrow> fclient" where
  "send_chunk t fc =
     (let (ret, client) = client_send_bytes (fc_client fc) (drop (lpos (fc_client fc)) (fc_buf fc)) t
      in fc\<lparr>fc_client := (if ret > 0 then client\<lparr>lpos := lpos client + nat ret\<rparr> else client)\<rparr>)"

text \<open>A client that is ready: it stays on the list (\<open>Inl\<close>) or is destroyed (\<open>Inr\<close>).\<close>

definition serve_client :: "tx \<Rightarrow> fclient \<Rightarrow> fclient + fclient" where
  "serve_client t fc =
     (if \<not> fc_ready fc then Inl fc
      else
        case next_chunk (fc\<lparr>fc_ready := False\<rparr>) of
          None \<Rightarrow> Inr fc
        | Some fc \<Rightarrow>
            let fc = send_chunk t fc
            in if con_error (lcon (fc_client fc)) then Inr fc else Inl fc)"

fun serve_all :: "(nat \<Rightarrow> tx) \<Rightarrow> fclient list \<Rightarrow> fclient list \<times> fclient list" where
  "serve_all out [] = ([], [])"
| "serve_all out (fc # fcs) =
     (let (stay, leave) = serve_all (\<lambda>k. out (Suc k)) fcs
      in case serve_client (out 0) fc of Inl fc \<Rightarrow> (fc # stay, leave) | Inr fc \<Rightarrow> (stay, fc # leave))"

text \<open>\<open>revents\<close> says which sockets are reported, \<open>None\<close> that the poll found none; \<open>out k\<close> is what the k-th socket takes.\<close>

datatype fserv_act = Add fclient | Enter | Poll "(int \<Rightarrow> bool) option" "nat \<Rightarrow> tx"

fun fserv_step :: "fserv_act \<Rightarrow> fserv \<Rightarrow> fserv option" where
  "fserv_step (Add fc) s = Some (fserve_add_pending fc s)"
| "fserv_step Enter s =
     (if fserv_thread s \<noteq> Some Top then Some s
      else if \<not> run_fserv s then Some (s\<lparr>fserv_thread := None\<rparr>)
      else Some ((take_pending s)\<lparr>fserv_thread := Some Polling\<rparr>))"
| "fserv_step (Poll revents out) s =
     (if fserv_thread s \<noteq> Some Polling then Some s
      else
        (case rebuild_ufds s of
           None \<Rightarrow> None
         | Some s \<Rightarrow>
             (case ufds s of
                None \<Rightarrow> Some (s\<lparr>run_fserv := False, fserv_thread := None\<rparr>)
              | Some pfds \<Rightarrow>
                  (case revents of
                     None \<Rightarrow> Some (s\<lparr>fserv_thread := Some Top\<rparr>)
                   | Some r \<Rightarrow>
                       (case mark_ready (fserve_clients s) pfds r (active_list s) of
                          None \<Rightarrow> None
                        | Some fcs \<Rightarrow>
                            let (stay, leave) = serve_all out fcs
                            in Some (s\<lparr>active_list := stay, gone := gone s @ leave, fserve_clients := fserve_clients s - length leave,
                                      client_tree_changed := (client_tree_changed s \<or> leave \<noteq> []), fserv_thread := Some Top\<rparr>))))))"

fun fserv_run :: "fserv_act list \<Rightarrow> fserv \<Rightarrow> fserv option" where
  "fserv_run [] s = Some s"
| "fserv_run (a # as) s = Option.bind (fserv_step a s) (fserv_run as)"

section \<open>The lists and the array\<close>

definition fserv_ok :: "fserv \<Rightarrow> bool" where
  "fserv_ok s \<longleftrightarrow>
     fserve_clients s = length (active_list s) \<and>
     (client_tree_changed s \<or> ufds s = (if active_list s = [] then None else Some (map (\<lambda>fc. sock (lcon (fc_client fc))) (active_list s)))) \<and>
     (run_fserv s \<longleftrightarrow> fserv_thread s \<noteq> None) \<and>
     (fserv_thread s = None \<longrightarrow> active_list s = [])"

lemma mark_ready_ok: "length pfds = length fcs \<Longrightarrow> \<exists>fcs'. mark_ready (length fcs) pfds r fcs = Some fcs' \<and> length fcs' = length fcs \<and>
    map fc_client fcs' = map fc_client fcs"
proof (induction pfds fcs rule: list_induct2)
  case (Cons fd pfds fc fcs)
  then show ?case by auto
qed simp

lemma send_sock: "client_send_bytes c d t = (ret, c') \<Longrightarrow> sock (lcon c') = sock (lcon c)"
  by (auto simp: client_send_bytes_def connection_send_def Let_def split: sum.splits if_splits prod.splits)

lemma serve_client_sock: "serve_client t fc = Inl fc' \<Longrightarrow> sock (lcon (fc_client fc')) = sock (lcon (fc_client fc))"
  using send_sock by (fastforce simp: serve_client_def next_chunk_def send_chunk_def Let_def split: if_splits option.splits list.splits prod.splits)

lemma serve_all_ok:
  "serve_all out fcs = (stay, leave) \<Longrightarrow>
   length stay + length leave = length fcs \<and>
   (leave = [] \<longrightarrow> map (\<lambda>fc. sock (lcon (fc_client fc))) stay = map (\<lambda>fc. sock (lcon (fc_client fc))) fcs)"
  by (induction out fcs arbitrary: stay leave rule: serve_all.induct)
    (fastforce dest: serve_client_sock split: prod.splits sum.splits)+

lemma fserv_step_ok:
  assumes s: "fserv_ok s"
  shows "\<exists>s'. fserv_step a s = Some s' \<and> fserv_ok s'"
proof (cases a)
  case (Add fc)
  then show ?thesis using s by (auto simp: fserve_add_pending_def fserv_ok_def)
next
  case Enter
  then show ?thesis using s by (auto simp: take_pending_def fserv_ok_def)
next
  case (Poll revents out)
  show ?thesis
  proof (cases "fserv_thread s = Some Polling")
    case False
    then show ?thesis using s Poll by simp
  next
    case polling: True
    let ?socks = "\<lambda>fcs. map (\<lambda>fc. sock (lcon (fc_client fc))) fcs"
    let ?u = "if active_list s = [] then None else Some (?socks (active_list s))"
    have r: "rebuild_ufds s = Some (s\<lparr>client_tree_changed := False, ufds := ?u\<rparr>)"
      using s by (cases s) (auto simp: rebuild_ufds_def fserv_ok_def)
    show ?thesis
    proof (cases "active_list s = []")
      case True
      then show ?thesis using s polling r by (simp add: Poll fserv_ok_def)
    next
      case False
      show ?thesis
      proof (cases revents)
        case None
        then show ?thesis using s polling r False by (simp add: Poll fserv_ok_def)
      next
        case (Some x)
        obtain fcs where m: "mark_ready (length (active_list s)) (?socks (active_list s)) x (active_list s) = Some fcs"
          "length fcs = length (active_list s)" "map fc_client fcs = map fc_client (active_list s)"
          using mark_ready_ok [of "?socks (active_list s)" "active_list s" x] by auto
        obtain stay leave where sv: "serve_all out fcs = (stay, leave)" by fastforce
        have "map (\<lambda>c. sock (lcon c)) (map fc_client fcs) = map (\<lambda>c. sock (lcon c)) (map fc_client (active_list s))"
          by (simp only: m(3))
        then have socks: "?socks fcs = ?socks (active_list s)" by (simp add: comp_def)
        note ok = serve_all_ok [OF sv]
        have n: "fserve_clients s = length (active_list s)" using s by (simp add: fserv_ok_def)
        define s' where "s' = s\<lparr>client_tree_changed := leave \<noteq> [], ufds := Some (?socks (active_list s)), active_list := stay,
          gone := gone s @ leave, fserve_clients := length (active_list s) - length leave, fserv_thread := Some Top\<rparr>"
        have step: "fserv_step a s = Some s'"
          using polling r False m(1) sv n by (simp add: Poll Some s'_def)
        have "stay \<noteq> [] \<or> leave \<noteq> []" using ok m(2) False by fastforce
        then have "fserv_ok s'" using s ok m(2) socks polling by (simp add: fserv_ok_def s'_def) auto
        with step show ?thesis by blast
      qed
    qed
  qed
qed


section \<open>What clients receive\<close>

text \<open>What is still to be sent: the rest of the buffer, of the file, and the chained buffers.\<close>

definition to_send :: "fclient \<Rightarrow> string" where
  "to_send fc =
     drop (lpos (fc_client fc)) (fc_buf fc) @ (case fc_file fc of None \<Rightarrow> [] | Some f \<Rightarrow> f) @ concat (fc_next fc)"

definition whole :: "fclient \<Rightarrow> string" where
  "whole fc = received (fc_client fc) @ to_send fc"

definition pos_ok :: "fclient \<Rightarrow> bool" where
  "pos_ok fc \<longleftrightarrow> lpos (fc_client fc) \<le> length (fc_buf fc)"

lemma next_chunk_None: "next_chunk fc = None \<Longrightarrow> to_send fc = []"
  by (auto simp: next_chunk_def to_send_def BUFSIZE_def Let_def split: if_splits option.splits list.splits)

lemma next_chunk_Some:
  "next_chunk fc = Some fc' \<Longrightarrow> pos_ok fc \<Longrightarrow> to_send fc' = to_send fc \<and> received (fc_client fc') = received (fc_client fc) \<and> pos_ok fc' \<and>
     lcon (fc_client fc') = lcon (fc_client fc)"
  by (auto simp: next_chunk_def to_send_def pos_ok_def BUFSIZE_def Let_def split: if_splits option.splits list.splits)

lemma take_drop_rest:
  "take m (drop p xs) @ drop (p + m) xs = drop p xs" "take m (drop p xs) @ drop (p + m) xs @ r = drop p xs @ r"
  by (metis append_take_drop_id add.commute drop_drop) (metis append_assoc append_take_drop_id add.commute drop_drop)

lemma send_chunk_whole:
  assumes "pos_ok fc"
  shows "pos_ok (send_chunk t fc) \<and> whole (send_chunk t fc) = whole fc"
proof (cases t)
  case (Inl r)
  then show ?thesis using assms
    by (simp add: send_chunk_def client_send_bytes_def connection_send_def whole_def to_send_def pos_ok_def Let_def)
next
  case (Inr n)
  then show ?thesis using assms
    by (auto simp: send_chunk_def client_send_bytes_def connection_send_def whole_def to_send_def pos_ok_def Let_def take_drop_rest)
qed


definition served :: "fclient \<Rightarrow> bool" where
  "served fc \<longleftrightarrow> con_error (lcon (fc_client fc)) \<or> to_send fc = []"

lemma serve_client_whole:
  assumes "pos_ok fc"
  shows "case serve_client t fc of Inl fc' \<Rightarrow> pos_ok fc' \<and> whole fc' = whole fc | Inr fc' \<Rightarrow> whole fc' = whole fc \<and> served fc'"
proof (cases "fc_ready fc")
  case False
  then show ?thesis using assms by (simp add: serve_client_def)
next
  case True
  let ?fc = "fc\<lparr>fc_ready := False\<rparr>"
  have fc: "pos_ok ?fc" "whole ?fc = whole fc" "to_send ?fc = to_send fc" using assms by (simp_all add: pos_ok_def whole_def to_send_def)
  show ?thesis
  proof (cases "next_chunk ?fc")
    case None
    then show ?thesis using next_chunk_None [OF None] fc True by (simp add: serve_client_def served_def)
  next
    case (Some x)
    from next_chunk_Some [OF Some fc(1)] send_chunk_whole [of x t] fc(2)
    have "pos_ok (send_chunk t x)" "whole (send_chunk t x) = whole fc" by (simp_all add: whole_def)
    then show ?thesis using Some True by (simp add: serve_client_def served_def Let_def)
  qed
qed

lemma serve_all_whole:
  "serve_all out fcs = (stay, leave) \<Longrightarrow> \<forall>fc\<in>set fcs. pos_ok fc \<Longrightarrow>
   mset (map whole stay) + mset (map whole leave) = mset (map whole fcs) \<and> (\<forall>fc\<in>set stay. pos_ok fc) \<and> (\<forall>fc\<in>set leave. served fc)"
proof (induction out fcs arbitrary: stay leave rule: serve_all.induct)
  case (2 out fc fcs)
  obtain stay' leave' where r: "serve_all (\<lambda>k. out (Suc k)) fcs = (stay', leave')" by fastforce
  have "\<forall>fc\<in>set fcs. pos_ok fc" "pos_ok fc" using 2(3) by auto
  with 2(1) [OF r] serve_client_whole [of fc "out 0"] 2(2) r show ?case by (auto split: sum.splits)
qed simp

definition contents_of :: "fserv \<Rightarrow> string multiset" where
  "contents_of s = mset (map whole (pending_list s @ active_list s @ gone s))"

definition sending_ok :: "fserv \<Rightarrow> bool" where
  "sending_ok s \<longleftrightarrow> (\<forall>fc\<in>set (pending_list s @ active_list s). pos_ok fc) \<and> (\<forall>fc\<in>set (gone s). served fc)"

definition added :: "fserv_act \<Rightarrow> fclient list" where
  "added a = (case a of Add fc \<Rightarrow> [fc] | _ \<Rightarrow> [])"

lemma mark_ready_whole:
  "mark_ready n pfds r fcs = Some fcs' \<Longrightarrow> map whole fcs' = map whole fcs \<and> map pos_ok fcs' = map pos_ok fcs"
  by (induction n pfds r fcs arbitrary: fcs' rule: mark_ready.induct) (auto simp: whole_def to_send_def pos_ok_def)

lemma fserv_step_sends:
  assumes s: "sending_ok s" and a: "\<forall>fc\<in>set (added a). pos_ok fc" and r: "fserv_step a s = Some s'"
  shows "sending_ok s' \<and> contents_of s' = contents_of s + mset (map whole (added a))"
proof (cases a)
  case (Add fc)
  then show ?thesis using s a r by (cases "run_fserv s") (auto simp: fserve_add_pending_def Let_def sending_ok_def contents_of_def added_def)
next
  case Enter
  then show ?thesis using s r by (auto simp: take_pending_def sending_ok_def contents_of_def added_def split: if_splits)
next
  case (Poll revents out)
  show ?thesis
  proof (cases "s' = s\<lparr>client_tree_changed := client_tree_changed s', ufds := ufds s', run_fserv := run_fserv s', fserv_thread := fserv_thread s'\<rparr>")
    case True
    have "pending_list s' = pending_list s" "active_list s' = active_list s" "gone s' = gone s" by (subst True, simp)+
    then show ?thesis using s by (simp add: Poll added_def sending_ok_def contents_of_def)
  next
    case False
    then obtain s1 pfds x fcs where s1: "rebuild_ufds s = Some s1" "ufds s1 = Some pfds" "revents = Some x"
      and m: "mark_ready (fserve_clients s1) pfds x (active_list s1) = Some fcs"
      using r by (auto simp: Poll rebuild_ufds_def split: if_splits option.splits)
    obtain stay leave where sv: "serve_all out fcs = (stay, leave)" by fastforce
    have same: "pending_list s1 = pending_list s" "active_list s1 = active_list s" "gone s1 = gone s"
      using s1(1) by (auto simp: rebuild_ufds_def split: if_splits)
    from False r s1 m sv have s': "pending_list s' = pending_list s" "active_list s' = stay" "gone s' = gone s @ leave"
      by (auto simp: Poll same split: if_splits)
    have "map pos_ok fcs = map pos_ok (active_list s)" using mark_ready_whole [OF m] same by simp
    moreover have "\<forall>fc\<in>set (active_list s). pos_ok fc" using s by (simp add: sending_ok_def)
    ultimately have "\<forall>fc\<in>set fcs. pos_ok fc" by (metis (mono_tags, lifting) in_set_conv_nth length_map nth_map)
    from serve_all_whole [OF sv this] mark_ready_whole [OF m] same s show ?thesis
      by (simp add: s' sending_ok_def contents_of_def Poll added_def ac_simps) auto
  qed
qed

lemma fserv_run_ok:
  "fserv_ok s \<Longrightarrow> sending_ok s \<Longrightarrow> \<forall>a\<in>set as. \<forall>fc\<in>set (added a). pos_ok fc \<Longrightarrow>
   \<exists>s'. fserv_run as s = Some s' \<and> fserv_ok s' \<and> sending_ok s' \<and>
     contents_of s' = contents_of s + mset (map whole (concat (map added as)))"
proof (induction as arbitrary: s)
  case (Cons a as)
  obtain s1 where s1: "fserv_step a s = Some s1" "fserv_ok s1" using fserv_step_ok [OF Cons.prems(1)] by blast
  from fserv_step_sends [OF Cons.prems(2) _ s1(1)] Cons.prems(3)
  have "sending_ok s1" "contents_of s1 = contents_of s + mset (map whole (added a))" by auto
  with Cons.IH [OF s1(2)] Cons.prems(3) s1(1) show ?case by (simp add: ac_simps)
qed simp


section \<open>Sockets that take something\<close>

text \<open>Rounds in which the client is ready every time: the client at the end, and whether it has left.\<close>

fun rounds :: "tx list \<Rightarrow> fclient \<Rightarrow> fclient + fclient" where
  "rounds [] fc = Inl fc"
| "rounds (t # ts) fc = (case serve_client t (fc\<lparr>fc_ready := True\<rparr>) of Inl fc \<Rightarrow> rounds ts fc | Inr fc \<Rightarrow> Inr fc)"

text \<open>A socket that takes at least one byte makes the rest, or the number of chained buffers, smaller.\<close>

definition work :: "fclient \<Rightarrow> nat" where
  "work fc = length (to_send fc) + length (fc_next fc)"

lemma serve_client_work:
  assumes "pos_ok fc" "\<not> con_error (lcon (fc_client fc))" "0 < n" "serve_client (Inr n) (fc\<lparr>fc_ready := True\<rparr>) = Inl fc'"
  shows "work fc' < work fc \<and> pos_ok fc' \<and> \<not> con_error (lcon (fc_client fc')) \<and> whole fc' = whole fc"
proof -
  obtain x where x: "next_chunk (fc\<lparr>fc_ready := False\<rparr>) = Some x" and fc': "fc' = send_chunk (Inr n) x"
    using assms(4) by (auto simp: serve_client_def Let_def split: option.splits if_splits)
  have ok: "pos_ok (fc\<lparr>fc_ready := False\<rparr>)" "to_send (fc\<lparr>fc_ready := False\<rparr>) = to_send fc" "whole (fc\<lparr>fc_ready := False\<rparr>) = whole fc"
    using assms(1) by (simp_all add: pos_ok_def to_send_def whole_def)
  note nc = next_chunk_Some [OF x ok(1), unfolded ok]
  have "length (fc_next x) < length (fc_next fc) \<and> lpos (fc_client x) = 0 \<or> length (fc_next x) = length (fc_next fc) \<and> lpos (fc_client x) < length (fc_buf x)"
    using x ok(1) by (auto simp: next_chunk_def pos_ok_def Let_def split: if_splits option.splits list.splits)
  moreover have "length (to_send (send_chunk (Inr n) x)) \<le> length (to_send x)" "fc_next (send_chunk (Inr n) x) = fc_next x"
    "lpos (fc_client x) < length (fc_buf x) \<longrightarrow> length (to_send (send_chunk (Inr n) x)) < length (to_send x)"
    using assms(3) by (auto simp: send_chunk_def client_send_bytes_def connection_send_def to_send_def Let_def)
  ultimately have "work (send_chunk (Inr n) x) < work fc" using nc by (auto simp: work_def)
  moreover have "con_error (lcon (fc_client fc')) = con_error (lcon (fc_client fc))"
    using nc by (simp add: fc' send_chunk_def client_send_bytes_def connection_send_def Let_def)
  moreover have "pos_ok fc' \<and> whole fc' = whole x" unfolding fc' using nc send_chunk_whole by blast
  moreover have "whole x = whole fc" using nc by (simp add: whole_def)
  ultimately show ?thesis using assms(2) fc' by simp
qed

lemma rounds_finish:
  "pos_ok fc \<Longrightarrow> \<not> con_error (lcon (fc_client fc)) \<Longrightarrow> work fc < length ts \<Longrightarrow> \<forall>t\<in>set ts. \<exists>n>0. t = Inr n \<Longrightarrow>
   \<exists>fc'. rounds ts fc = Inr fc' \<and> received (fc_client fc') = whole fc"
proof (induction ts arbitrary: fc)
  case (Cons t ts)
  from Cons.prems(4) obtain n where n: "t = Inr n" "0 < n" by auto
  have fc: "pos_ok (fc\<lparr>fc_ready := True\<rparr>)" "whole (fc\<lparr>fc_ready := True\<rparr>) = whole fc" using Cons.prems(1) by (simp_all add: pos_ok_def whole_def to_send_def)
  show ?case
  proof (cases "serve_client t (fc\<lparr>fc_ready := True\<rparr>)")
    case (Inl x)
    from serve_client_work [OF Cons.prems(1,2) n(2)] Inl n(1) have x: "work x < work fc" "pos_ok x" "\<not> con_error (lcon (fc_client x))" "whole x = whole fc" by auto
    with Cons.IH [of x] Cons.prems(3,4) show ?thesis by (simp add: Inl)
  next
    case (Inr x)
    have "\<not> con_error (lcon (fc_client (send_chunk t y)))" if "next_chunk (fc\<lparr>fc_ready := False\<rparr>) = Some y" for y
      using next_chunk_Some [OF that] Cons.prems(1,2) n
      by (simp add: pos_ok_def send_chunk_def client_send_bytes_def connection_send_def Let_def)
    then have "next_chunk (fc\<lparr>fc_ready := False\<rparr>) = None" "x = fc\<lparr>fc_ready := True\<rparr>"
      using Inr by (auto simp: serve_client_def Let_def split: option.splits if_splits)
    with next_chunk_None have "to_send (fc\<lparr>fc_ready := False\<rparr>) = []" by blast
    then have "received (fc_client x) = whole fc" using \<open>x = _\<close> by (simp add: whole_def to_send_def)
    with Inr show ?thesis by simp
  qed
qed simp

section \<open>Properties\<close>


text \<open>A client with a reply in its buffer and a file to follow.\<close>

definition demo_fclient :: fclient where
  "demo_fclient =
     \<lparr>fc_client = \<lparr>lcon = \<lparr>con_id = 1, con_time = 0, discon_time = 0, sent_bytes = 0, sock = 5, con_serversock = 3, con_error = False, ip = []\<rparr>,
        lparser = httpp_initialize [], lrespcode = 200, lrefbuf = None, lpos = 0, lintro = 0, lcheck = format_check_http_buffer,
        plugin_write = False, lformat = (), received = []\<rparr>,
      fc_buf = ''head'', fc_next = [], fc_file = Some ''data'', fc_ready = False, fc_callback = False\<rparr>"


text \<open>
  C22: A client whose socket takes at least one byte whenever it is reported ready is finished after at
  most as many rounds as it has bytes and chained buffers, and one more, and has then received
  exactly its buffers and the file.
\<close>

theorem fserve_client_finishes:
  assumes "lpos (fc_client fc) \<le> length (fc_buf fc)" and "\<not> con_error (lcon (fc_client fc))"
    and "length (to_send fc) + length (fc_next fc) < length ts" and "\<forall>t\<in>set ts. \<exists>n>0. t = Inr n"
  shows "\<exists>fc'. rounds ts fc = Inr fc' \<and> received (fc_client fc') = received (fc_client fc) @ to_send fc"
  using rounds_finish [of fc ts] assms by (simp add: pos_ok_def work_def whole_def)

theorem fserve_client_finishes_witness:
  "\<exists>fc'. rounds (replicate 9 (Inr 3)) demo_fclient = Inr fc' \<and> received (fc_client fc') = ''headdata''"
  using fserve_client_finishes [of demo_fclient "replicate 9 (Inr 3)"] by (auto simp: demo_fclient_def to_send_def)



end
