(* ===== verification/Fserve_Files.thy ===== *)
theory Fserve_Files
  imports Fserve
begin

text \<open>
  File types and ranges (\<open>fserve.c\<close>): the table that is read from a file of types is the one its words
  say, as long as every line ends; a reply to a request for a range describes what is sent.
\<close>

section \<open>The words of a line\<close>

function words :: "string \<Rightarrow> string list" where
  "words s =
     (let s = dropWhile blank s
      in if s = [] then [] else takeWhile (\<lambda>c. \<not> blank c) s # words (dropWhile (\<lambda>c. \<not> blank c) s))"
  by pat_completeness auto

lemma dropWhile_dropWhile_less: "dropWhile P s \<noteq> [] \<Longrightarrow> length (dropWhile (\<lambda>c. \<not> P c) (dropWhile P s)) < length s"
proof -
  assume a: "dropWhile P s \<noteq> []"
  then obtain c cs where c: "dropWhile P s = c # cs" by (cases "dropWhile P s") auto
  then have "\<not> P c" by (metis dropWhile_eq_Cons_conv)
  then have "length (dropWhile (\<lambda>c. \<not> P c) (c # cs)) \<le> length cs" by (simp add: length_dropWhile_le)
  also have "\<dots> < length s" using c length_dropWhile_le [of P s] by simp
  finally show ?thesis by (simp add: c)
qed

termination words
  by (relation "measure length") (auto intro: dropWhile_dropWhile_less)

declare words.simps [simp del]

text \<open>The types a line defines, as pairs of an extension and a type.\<close>

definition line_types :: "string \<Rightarrow> (string \<times> string) list" where
  "line_types l =
     (if l = [] \<or> hd l = CHR ''#'' then []
      else map (\<lambda>e. (e, takeWhile (\<lambda>c. \<not> blank c) l)) (words (dropWhile (\<lambda>c. \<not> blank c) l)))"

section \<open>The table\<close>

interpretation mt: avl_entries ext .

definition type_map :: "mime_type avl_tree \<Rightarrow> string \<rightharpoonup> string" where
  "type_map t e = map_option mtype (tree_contents ext t e)"

lemma compare_mappings_eq: "compare_mappings = entry_compare ext"
  by (simp add: fun_eq_iff compare_mappings_def entry_compare_def)

lemma add_mapping_ok:
  "store_ok ext t \<Longrightarrow> store_ok ext (add_mapping t m) \<and> type_map (add_mapping t m) = (type_map t)(ext m \<mapsto> mtype m)"
  using mt.store.replace_ok [of t m] mt.store.replace_contents [of t m] by (simp add: add_mapping_def type_map_def fun_eq_iff)

definition add_all :: "string \<Rightarrow> string list \<Rightarrow> mime_type avl_tree \<Rightarrow> mime_type avl_tree" where
  "add_all ty es t = fold (\<lambda>e t. add_mapping t \<lparr>ext = e, mtype = ty\<rparr>) es t"

lemma add_all_simps [simp]: "add_all ty [] t = t" "add_all ty (e # es) t = add_all ty es (add_mapping t \<lparr>ext = e, mtype = ty\<rparr>)"
  by (simp_all add: add_all_def)

lemma add_all_ok:
  "store_ok ext t \<Longrightarrow> store_ok ext (add_all ty es t) \<and> type_map (add_all ty es t) = type_map t ++ map_of (rev (map (\<lambda>e. (e, ty)) es))"
proof (induction es arbitrary: t)
  case (Cons e es)
  note m = add_mapping_ok [OF Cons.prems, of "\<lparr>ext = e, mtype = ty\<rparr>"]
  from Cons.IH [OF m [THEN conjunct1], unfolded m [THEN conjunct2]] show ?case by (auto simp: fun_eq_iff map_add_def split: option.splits)
qed simp

section \<open>One line\<close>

lemma blank_facts [simp]: "\<not> blank LF" "\<not> blank NUL" "\<not> blank (CHR ''#'')"
  by (simp_all add: blank_def LF_def NUL_def)

lemma words_blank: "blank c \<Longrightarrow> words (c # s) = words s"
  by (subst (1 2) words.simps) simp

lemma words_Nil: "dropWhile blank w = [] \<Longrightarrow> words w = []"
  by (subst words.simps) simp

text \<open>A word is taken off: \<open>b\<close> are the blanks before it, and what follows it is a blank or the end of the line.\<close>

lemma word_split:
  assumes "dropWhile blank w \<noteq> []"
  obtains b e r where "w = b @ e @ r" "\<forall>c\<in>set b. blank c" "e \<noteq> []" "\<forall>c\<in>set e. \<not> blank c" "r = [] \<or> blank (hd r)" "words w = e # words r"
proof
  let ?s = "dropWhile blank w"
  let ?e = "takeWhile (\<lambda>c. \<not> blank c) ?s" and ?r = "dropWhile (\<lambda>c. \<not> blank c) ?s"
  show "w = takeWhile blank w @ ?e @ ?r" by simp
  show "\<forall>c\<in>set (takeWhile blank w). blank c" "\<forall>c\<in>set ?e. \<not> blank c" by (auto dest: set_takeWhileD)
  show "?e \<noteq> []" using assms hd_dropWhile [OF assms] by (cases ?s) auto
  show "?r = [] \<or> blank (hd ?r)" using hd_dropWhile [of "\<lambda>c. \<not> blank c" ?s] by blast
  show "words w = ?e # words ?r" using assms by (subst words.simps) (simp add: Let_def)
qed

lemma ext_loop_stop: "\<forall>c\<in>set b. blank c \<Longrightarrow> ext_loop ty pre (b @ NUL # tail) t = Some (pre @ b @ NUL # tail, t)"
  by (subst ext_loop.simps) (simp add: takeWhile_append2 dropWhile_append2)

lemma ext_loop_word:
  assumes "\<forall>c\<in>set b. blank c" "\<forall>c\<in>set e. \<not> ends_ext c" "ends_ext d" "e \<noteq> [] \<or> d = LF"
  shows "ext_loop ty pre (b @ e @ d # tail) t =
    ext_loop ty (pre @ b @ e @ [NUL]) tail (if e = [] then t else add_mapping t \<lparr>ext = e, mtype = ty\<rparr>)"
proof -
  have nb: "\<not> blank (hd (e @ d # tail))" "hd (e @ d # tail) \<noteq> NUL"
    using assms(2,4) by (cases e; auto simp: ends_ext_def)+
  then have "takeWhile blank (b @ e @ d # tail) = b" "dropWhile blank (b @ e @ d # tail) = e @ d # tail"
    using assms(1) by (cases e; simp add: takeWhile_append2 dropWhile_append2)+
  moreover have "takeWhile (\<lambda>c. \<not> ends_ext c) (e @ d # tail) = e" "dropWhile (\<lambda>c. \<not> ends_ext c) (e @ d # tail) = d # tail"
    using assms(2,3) by (simp_all add: takeWhile_append2 dropWhile_append2)
  ultimately show ?thesis using nb(2)
    by (subst ext_loop.simps) (cases e, simp_all add: Let_def)
qed

text \<open>The loop on the rest of a line that ends with a line end and a NUL finds its words.\<close>

lemma ext_loop_words:
  "LF \<notin> set w \<Longrightarrow> NUL \<notin> set w \<Longrightarrow>
   \<exists>buf. ext_loop ty pre (w @ LF # NUL # tail) t = Some (buf, add_all ty (words w) t) \<and> length buf = length pre + length w + length tail + 2"
proof (induction w arbitrary: pre t rule: measure_induct_rule [of length])
  case (less w)
  show ?case
  proof (cases "dropWhile blank w = []")
    case True
    then have b: "\<forall>c\<in>set w. blank c" by (simp add: dropWhile_eq_Nil_conv)
    show ?thesis using ext_loop_word [OF b, of "[]" LF ty pre "NUL # tail" t] ext_loop_stop [of "[]" ty "pre @ w @ [NUL]" tail t]
      by (simp add: words_Nil [OF True] ends_ext_def)
  next
    case False
    then obtain b e r where w: "w = b @ e @ r" "\<forall>c\<in>set b. blank c" "e \<noteq> []" "\<forall>c\<in>set e. \<not> blank c" "r = [] \<or> blank (hd r)"
      and ws: "words w = e # words r" by (rule word_split)
    have e: "\<forall>c\<in>set e. \<not> ends_ext c" using w(1,4) less.prems by (auto simp: ends_ext_def)
    let ?t = "add_mapping t \<lparr>ext = e, mtype = ty\<rparr>"
    show ?thesis
    proof (cases r)
      case Nil
      then have "words (b @ e) = [e]" using ws w(1) by (simp add: words.simps [of "[]"])
      then show ?thesis
        using Nil ext_loop_word [OF w(2) e, of LF ty pre "NUL # tail" t] ext_loop_stop [of "[]" ty "pre @ b @ e @ [NUL]" tail ?t] w(1,3)
        by (simp add: ws ends_ext_def words.simps [of "[]"])
    next
      case (Cons d ds)
      then have d: "blank d" using w(5) by simp
      have "words (b @ e @ d # ds) = e # words ds" using ws w(1) Cons words_blank [OF d] by simp
      note this [simp]
      have "length ds < length w" "LF \<notin> set ds" "NUL \<notin> set ds" using less.prems w(1) Cons by auto
      from less.IH [OF this, of "pre @ b @ e @ [NUL]" ?t] show ?thesis
        using ext_loop_word [OF w(2) e, of d ty pre "ds @ LF # NUL # tail" t] w(1,3) Cons d
        by (auto simp: ends_ext_def)
    qed
  qed
qed

text \<open>A whole line in the array.\<close>

lemma mime_line_types:
  assumes "LF \<notin> set l" "NUL \<notin> set l" and t: "store_ok ext t"
  shows "\<exists>buf t'. mime_line (l @ LF # NUL # tail) t = Some (buf, t') \<and> length buf = length l + length tail + 2 \<and>
    store_ok ext t' \<and> type_map t' = type_map t ++ map_of (rev (line_types l))"
proof -
  let ?P = "\<lambda>c. \<not> blank c \<and> c \<noteq> NUL"
  show ?thesis
  proof (cases "l = [] \<or> hd l = CHR ''#''")
    case True
    then show ?thesis using t by (cases l) (auto simp: mime_line_def line_types_def words.simps [of "[]"] NUL_def LF_def blank_def)
  next
    case False
    have hd: "hd (l @ LF # NUL # tail) \<noteq> NUL" "hd (l @ LF # NUL # tail) \<noteq> CHR ''#''" using False assms(2) by (cases l; auto)+
    have P: "takeWhile ?P l = takeWhile (\<lambda>c. \<not> blank c) l" "dropWhile ?P l = dropWhile (\<lambda>c. \<not> blank c) l"
      using assms(2) by (auto intro!: takeWhile_cong dropWhile_cong)
    show ?thesis
    proof (cases "dropWhile (\<lambda>c. \<not> blank c) l")
      case Nil
      then have nb: "\<forall>c\<in>set l. ?P c" using assms(2) by (auto simp: dropWhile_eq_Nil_conv)
      then have "dropWhile ?P (l @ LF # NUL # tail) = NUL # tail" by (simp add: dropWhile_append2)
      moreover have "line_types l = []" using Nil False by (simp add: line_types_def words.simps [of "[]"] del: dropWhile_eq_Nil_conv)
      ultimately show ?thesis using hd t False by (simp add: mime_line_def Let_def)
    next
      case (Cons d ds)
      let ?ty = "takeWhile (\<lambda>c. \<not> blank c) l"
      have l: "l = ?ty @ d # ds" using Cons by (metis takeWhile_dropWhile_id)
      have d: "blank d" using Cons by (metis dropWhile_eq_Cons_conv)
      have nb: "\<forall>c\<in>set ?ty. ?P c" using assms(2) l by (auto dest: set_takeWhileD)
      have "dropWhile ?P (?ty @ d # ds @ LF # NUL # tail) = d # ds @ LF # NUL # tail" "takeWhile ?P (?ty @ d # ds @ LF # NUL # tail) = ?ty"
        using nb d by (simp_all add: takeWhile_append2 dropWhile_append2)
      then have tw: "dropWhile ?P (l @ LF # NUL # tail) = d # ds @ LF # NUL # tail" "takeWhile ?P (l @ LF # NUL # tail) = ?ty"
        by (metis append.assoc append_Cons l)+
      have ds: "LF \<notin> set ds" "NUL \<notin> set ds" "d \<noteq> NUL" using assms(1,2) l by (metis Un_iff list.set_intros set_append)+
      obtain buf where b: "ext_loop ?ty (?ty @ [NUL]) (ds @ LF # NUL # tail) t = Some (buf, add_all ?ty (words ds) t)"
        "length buf = length (?ty @ [NUL]) + length ds + length tail + 2" using ext_loop_words [OF ds(1,2)] by blast
      have "length l = length ?ty + Suc (length ds)" using arg_cong [OF l, of length] by simp
      with b add_all_ok [OF t, of ?ty "words ds"] show ?thesis using False hd ds(3)
        by (simp add: mime_line_def tw line_types_def Cons words_blank [OF d] Let_def)
    qed
  qed
qed


section \<open>A whole file\<close>

lemma fgets_text_line:
  assumes "LF \<notin> set l" "length l < 4094" "length line = 4096"
  shows "\<exists>tail. fgets line (l @ LF # rest) = Some (l @ LF # NUL # tail, rest) \<and> length l + length tail + 2 = 4096"
proof -
  have t: "takeWhile (\<lambda>c. c \<noteq> LF) (take 4094 (l @ LF # rest)) = l"
    using assms(1,2) by (simp add: take_Cons' takeWhile_append2 takeWhile_tail)
  let ?tail = "drop (length l + 2) line"
  have k: "4095 - length l = Suc (Suc (4093 - length l))" using assms(2) by simp
  have "((l @ [LF]) @ [NUL] @ ?tail)[4095 := NUL] = l @ LF # NUL # ?tail[4093 - length l := NUL]"
    using assms(2) by (simp add: list_update_append k)
  moreover have "length ?tail = 4096 - (length l + 2)" using assms(3) by simp
  ultimately show ?thesis using t assms(2)
    by (intro exI [of _ "?tail[4093 - length l := NUL]"]) (simp add: fgets_def Let_def)
qed

lemma mime_loop_types:
  "\<forall>l\<in>set ls. LF \<notin> set l \<and> NUL \<notin> set l \<and> length l < 4094 \<Longrightarrow> length line = 4096 \<Longrightarrow> store_ok ext t \<Longrightarrow>
   \<exists>t'. mime_loop line (concat (map (\<lambda>l. l @ [LF]) ls)) t = Some t' \<and> store_ok ext t' \<and>
     type_map t' = type_map t ++ map_of (rev (concat (map line_types ls)))"
proof (induction ls arbitrary: line t)
  case Nil
  then show ?case by (subst mime_loop.simps) (simp add: fgets_def)
next
  case (Cons l ls)
  let ?rest = "concat (map (\<lambda>l. l @ [LF]) ls)"
  have l: "LF \<notin> set l" "NUL \<notin> set l" "length l < 4094" using Cons.prems(1) by auto
  obtain tail where f: "fgets line (l @ LF # ?rest) = Some (l @ LF # NUL # tail, ?rest)" "length l + length tail + 2 = 4096"
    using fgets_text_line [OF l(1,3) Cons.prems(2)] by blast
  obtain buf t' where m: "mime_line (l @ LF # NUL # tail) t = Some (buf, t')" "length buf = 4096" "store_ok ext t'"
    "type_map t' = type_map t ++ map_of (rev (line_types l))"
    using mime_line_types [OF l(1,2) Cons.prems(3), of tail] f(2) by auto
  obtain t'' where r: "mime_loop buf ?rest t' = Some t''" "store_ok ext t''" "type_map t'' = type_map t' ++ map_of (rev (concat (map line_types ls)))"
    using Cons.IH [OF _ m(2,3)] Cons.prems(1) by auto
  have "type_map t'' = type_map t ++ map_of (rev (concat (map line_types (l # ls))))" unfolding r(3) m(4) by (simp add: map_add_assoc)
  moreover have "mime_loop line (concat (map (\<lambda>l. l @ [LF]) (l # ls))) t = Some t''"
    using r(1) f(1) m(1) by (subst mime_loop.simps) simp
  ultimately show ?case using r(2) by blast
qed

lemma content_type_map: "store_ok ext t \<Longrightarrow> fserve_content_type (Some t) path =
    (case type_map t (util_get_extension path) of Some ty \<Rightarrow> ty | None \<Rightarrow> basic_type (util_get_extension path))"
  using store_lookup [of ext t "\<lparr>ext = util_get_extension path, mtype = []\<rparr>"]
  by (simp add: fserve_content_type_def type_map_def Let_def split: option.splits)

text \<open>
  When the last line does not end with a line end, the byte behind it is stepped over, and what an
  earlier, longer line left in the array is read as extensions.
\<close>

lemma stale_extension:
  assumes "store_ok ext t" "ty \<noteq> []" "hd ty \<noteq> CHR ''#''" "\<forall>c\<in>set ty. \<not> ends_ext c" "e \<noteq> []" "\<forall>c\<in>set e. \<not> ends_ext c"
    "old \<noteq> []" "\<forall>c\<in>set old. \<not> ends_ext c"
  shows "\<exists>buf t'. mime_line (ty @ CHR '' '' # e @ NUL # old @ NUL # NUL # tail) t = Some (buf, t') \<and> type_map t' old = Some ty"
proof -
  let ?t = "add_mapping (add_mapping t \<lparr>ext = e, mtype = ty\<rparr>) \<lparr>ext = old, mtype = ty\<rparr>"
  have P: "\<forall>c\<in>set ty. \<not> blank c \<and> c \<noteq> NUL" using assms(4) by (auto simp: ends_ext_def)
  have sp: "blank (CHR '' '')" "CHR '' '' \<noteq> NUL" by (simp_all add: blank_def NUL_def)
  have "ext_loop ty (ty @ [NUL]) (e @ NUL # old @ NUL # NUL # tail) t = Some ((ty @ [NUL]) @ e @ [NUL] @ old @ [NUL] @ NUL # tail, ?t)"
    using ext_loop_word [of "[]" e NUL ty "ty @ [NUL]" "old @ NUL # NUL # tail" t] assms(5,6)
      ext_loop_word [of "[]" old NUL ty "(ty @ [NUL]) @ e @ [NUL]" "NUL # tail"] assms(7,8) ext_loop_stop [of "[]"]
    by (simp add: ends_ext_def)
  moreover have "hd (ty @ CHR '' '' # e @ NUL # old @ NUL # NUL # tail) = hd ty" "hd ty \<noteq> NUL" using assms(2) P by (cases ty; auto)+
  ultimately have "mime_line (ty @ CHR '' '' # e @ NUL # old @ NUL # NUL # tail) t = Some ((ty @ [NUL]) @ e @ [NUL] @ old @ [NUL] @ NUL # tail, ?t)"
    using P sp assms(3) by (simp add: mime_line_def takeWhile_append2 dropWhile_append2)
  moreover have "type_map ?t old = Some ty"
    using add_mapping_ok [of "add_mapping t \<lparr>ext = e, mtype = ty\<rparr>" "\<lparr>ext = old, mtype = ty\<rparr>"] add_mapping_ok [OF assms(1), of "\<lparr>ext = e, mtype = ty\<rparr>"]
    by simp
  ultimately show ?thesis by blast
qed


section \<open>Ranges\<close>

text \<open>The text of a reply with 200 or 206 that fits, up to its last line.\<close>

lemma finish_reply_added:
  assumes "finish_reply sent client status (util_http_build_header fnmatch config date (Some d) BUFSIZE 0 False status None ty cs db m) rest f = Added c f'"
    and "length rest < 512"
  shows "respcode c = status \<and> f' = f \<and> pos c = 0 \<and> rlen c = length (rdata c) \<and> length (rdata c) < BUFSIZE \<and>
    rdata c = reply_text fnmatch config date False status None ty cs db m @ rest"
proof -
  let ?t = "reply_text fnmatch config date False status None ty cs db m"
  have fit: "int (length ?t) < int BUFSIZE - 512"
    using assms(1) by (auto simp: finish_reply_def util_http_build_header_def snprintf_def Let_def split: if_splits)
  with assms show ?thesis
    by (auto simp: finish_reply_def util_http_build_header_def snprintf_def BUFSIZE_def nat_add_distrib Let_def split: if_splits)
qed

lemma short_lines:
  assumes "\<bar>a\<bar> < 10 ^ 18" "\<bar>b\<bar> < 10 ^ 18" "\<bar>c\<bar> < 10 ^ 18" "\<bar>d\<bar> < 10 ^ 18"
  shows "length (length_lines a @ range_line b c d @ CRLF) < 512" "length (length_lines a @ CRLF) < 512"
  using length_fmt_d [of a 18] length_fmt_d [of b 18] length_fmt_d [of c 18] length_fmt_d [of d 18] assms
  by (simp_all add: length_lines_def range_line_def CRLF_def)

text \<open>A path that starts with a slash is never followed to a missing dot.\<close>

lemma fserve_client_create_defined:
  "\<exists>r. fserve_client_create fnmatch config date sent mimetypes files client p (CHR ''/'' # path) = Some r"
proof -
  let ?path = "CHR ''/'' # path" and ?full = "webroot_dir config @ CHR ''/'' # path"
  have "util_get_extension ?full \<noteq> ''m3u''" if none: "CHR ''.'' \<notin> set ?path"
  proof (cases "strrchr ?full (CHR ''.'')")
    case (Some i)
    from strrchr_nth [OF Some] have len: "i < length ?full" and at: "?full ! i = CHR ''.''" by auto
    have i: "i < length (webroot_dir config)"
    proof (rule ccontr)
      assume "\<not> i < length (webroot_dir config)"
      then have "?full ! i = ?path ! (i - length (webroot_dir config))" "i - length (webroot_dir config) < length ?path"
        using len by (auto simp: nth_append)
      with at none show False by (metis nth_mem)
    qed
    then have "CHR ''/'' \<in> set (util_get_extension ?full)" by (simp add: util_get_extension_def Some)
    then show ?thesis by auto
  qed (simp add: util_get_extension_def)
  then have "m3u_reply fnmatch config date sent fe client p ?path \<noteq> None" if "util_get_extension ?full = ''m3u''" for fe
    using that by (auto simp: m3u_reply_def strrchr_None Let_def split: option.splits prod.splits)
  then show ?thesis
    by (auto simp: fserve_client_create_def util_get_path_from_normalised_uri_def Let_def split: option.splits)
qed

section \<open>Properties\<close>

text \<open>
  C24: The type of a file is what the file of types says: when every line of it ends with a line end,
  has no NUL character and is shorter than 4094 bytes, reading it stays inside the array of the
  line, and the type found for a path is that of the last line listing its extension; extensions
  that are not listed have the built-in types.
\<close>

theorem mime_types_read:
  assumes "\<forall>l\<in>set ls. LF \<notin> set l \<and> NUL \<notin> set l \<and> length l < 4094" and "length line = 4096"
  shows "\<exists>t. fserve_recheck_mime_types (Some (concat (map (\<lambda>l. l @ [LF]) ls))) line old = Some (Some t) \<and>
    (\<forall>path. fserve_content_type (Some t) path =
      (case map_of (rev (concat (map line_types ls))) (util_get_extension path) of
         Some ty \<Rightarrow> ty | None \<Rightarrow> basic_type (util_get_extension path)))"
proof -
  have new: "store_ok ext (avl_tree_new compare_mappings)" "type_map (avl_tree_new compare_mappings) = Map.empty"
    using mt.store.ok_empty mt.store.contents_empty by (simp_all add: compare_mappings_eq type_map_def fun_eq_iff)
  obtain t where t: "mime_loop line (concat (map (\<lambda>l. l @ [LF]) ls)) (avl_tree_new compare_mappings) = Some t" "store_ok ext t"
    "type_map t = Map.empty ++ map_of (rev (concat (map line_types ls)))"
    using mime_loop_types [OF assms new(1)] new(2) by auto
  then show ?thesis using content_type_map [OF t(2)] by (intro exI [of _ t]) (simp add: fserve_recheck_mime_types_def)
qed

theorem mime_types_read_witness:
  "\<exists>t. fserve_recheck_mime_types (Some (''audio/ogg oga ogg'' @ [LF] @ ''text/x-a a'' @ [LF])) (replicate 4096 NUL) None = Some (Some t) \<and>
     fserve_content_type (Some t) ''/b.ogg'' = ''audio/ogg''"
proof -
  have "words '' oga ogg'' = [''oga'', ''ogg'']" "words '' a'' = [''a'']" by (simp_all add: words.simps blank_def)
  then have l: "line_types ''audio/ogg oga ogg'' = [(''oga'', ''audio/ogg''), (''ogg'', ''audio/ogg'')]" "line_types ''text/x-a a'' = [(''a'', ''text/x-a'')]"
    by (simp_all add: line_types_def blank_def)
  have e: "util_get_extension ''/b.ogg'' = ''ogg''" by code_simp
  have "\<exists>t. fserve_recheck_mime_types (Some (concat (map (\<lambda>l. l @ [LF]) [''audio/ogg oga ogg'', ''text/x-a a'']))) (replicate 4096 NUL) None = Some (Some t) \<and>
    (\<forall>path. fserve_content_type (Some t) path =
      (case map_of (rev (concat (map line_types [''audio/ogg oga ogg'', ''text/x-a a'']))) (util_get_extension path) of
         Some ty \<Rightarrow> ty | None \<Rightarrow> basic_type (util_get_extension path)))"
    by (rule mime_types_read) (auto simp: LF_def NUL_def)
  then obtain t where t: "fserve_recheck_mime_types (Some (''audio/ogg oga ogg'' @ [LF] @ ''text/x-a a'' @ [LF])) (replicate 4096 NUL) None = Some (Some t)"
    "\<And>path. fserve_content_type (Some t) path =
      (case map_of (rev (concat (map line_types [''audio/ogg oga ogg'', ''text/x-a a'']))) (util_get_extension path) of
         Some ty \<Rightarrow> ty | None \<Rightarrow> basic_type (util_get_extension path))" by auto
  have "fserve_content_type (Some t) ''/b.ogg'' = ''audio/ogg''" unfolding t(2) e by (simp add: l)
  with t(1) show ?thesis by blast
qed


definition demo_files :: file_env where
  "demo_files = \<lparr>fe_stat = Some \<lparr>st_size = 6, st_isreg = True\<rparr>, fe_open = Some ''abcdef'', fe_seek = (\<lambda>_. True), fe_host = ''localhost'', fe_port = 8000\<rparr>"


end
