(* ===== verification/Relay.thy ===== *)
theory Relay
  imports Stats Util Source
begin

text \<open>
  Relays (\<open>slave.c\<close>): the list of relays and its update against a new list, the connection of a relay to
  its master with redirects, the list of mounts a slave fetches from its master
  (\<open>sock_read_line\<close> of \<open>net/sock.c\<close> included), and the check that starts and cleans up relays. What
  other servers answer and how URIs are parsed are arguments. \<open>None\<close> stands for a null pointer
  that is followed or a write outside a buffer.
\<close>

section \<open>The list of relays\<close>

text \<open>\<open>rsource\<close> is the address of the relay's source, \<open>rthread\<close> says whether there is a thread to join.\<close>

record relay_server =
  rserver :: string
  rport :: int
  relay_mount :: string
  rusername :: "string option"
  rpassword :: "string option"
  rlocalmount :: string
  rbind :: "string option"
  rsource :: "nat option"
  rmp3metadata :: int
  ron_demand :: int
  rrunning :: bool
  rcleanup :: bool
  rstart :: int
  rthread :: bool

definition relay_copy :: "relay_server \<Rightarrow> relay_server" where
  "relay_copy r =
     \<lparr>rserver = rserver r, rport = rport r, relay_mount = relay_mount r, rusername = rusername r, rpassword = rpassword r,
      rlocalmount = rlocalmount r, rbind = None, rsource = None, rmp3metadata = rmp3metadata r, ron_demand = ron_demand r,
      rrunning = False, rcleanup = False, rstart = 0, rthread = False\<rparr>"

text \<open>The result and the existing relay, which takes over the setting for on-demand relays.\<close>

definition relay_has_changed :: "relay_server \<Rightarrow> relay_server \<Rightarrow> bool \<times> relay_server" where
  "relay_has_changed new old =
     (if strcmp (relay_mount new) (relay_mount old) \<noteq> 0 then (True, old)
      else if strcmp (rserver new) (rserver old) \<noteq> 0 then (True, old)
      else if rport new \<noteq> rport old then (True, old)
      else if rmp3metadata new \<noteq> rmp3metadata old then (True, old)
      else (False, if ron_demand new \<noteq> ron_demand old then old\<lparr>ron_demand := ron_demand new\<rparr> else old))"

text \<open>The search along the current list, which unlinks the relay that is kept.\<close>

fun take_existing :: "relay_server \<Rightarrow> relay_server list \<Rightarrow> (relay_server \<times> relay_server list) option" where
  "take_existing relay [] = None"
| "take_existing relay (e # es) =
     (let (changed, e') = relay_has_changed relay e
      in if strcmp (rlocalmount relay) (rlocalmount e) = 0 \<and> \<not> changed then Some (e', es)
         else map_option (\<lambda>(x, es). (x, e # es)) (take_existing relay es))"

fun relay_set_loop :: "relay_server list \<Rightarrow> relay_server list \<Rightarrow> relay_server list \<Rightarrow> relay_server list \<times> relay_server list" where
  "relay_set_loop new_list cur [] = (new_list, cur)"
| "relay_set_loop new_list cur (relay # updated) =
     (case take_existing relay cur of
        None \<Rightarrow> relay_set_loop (relay_copy relay # new_list) cur updated
      | Some (e, rest) \<Rightarrow> relay_set_loop (e # new_list) rest updated)"

definition update_relay_set :: "relay_server list \<Rightarrow> relay_server list \<Rightarrow> relay_server list \<times> relay_server list" where
  "update_relay_set cur updated = relay_set_loop [] cur updated"

text \<open>The new list, and the relays to clean up.\<close>

definition update_relays :: "relay_server list \<Rightarrow> relay_server list \<Rightarrow> relay_server list \<times> relay_server list" where
  "update_relays relay_list new_relay_list = update_relay_set relay_list new_relay_list"

section \<open>Connecting to the master of a relay\<close>

definition relay_auth :: "relay_server \<Rightarrow> string" where
  "relay_auth r =
     (case (rusername r, rpassword r) of
        (Some u, Some p) \<Rightarrow> ''Authorization: Basic '' @ util_base64_encode (u @ '':'' @ p) @ [CR, LF]
      | _ \<Rightarrow> [])"

definition relay_request :: "string \<Rightarrow> string \<Rightarrow> string \<Rightarrow> relay_server \<Rightarrow> string" where
  "relay_request mount sid server r =
     ''GET '' @ mount @ '' HTTP/1.0'' @ [CR, LF] @ ''User-Agent: '' @ sid @ [CR, LF] @ ''Host: '' @ server @ [CR, LF] @
     (if rmp3metadata r \<noteq> 0 then ''Icy-MetaData: 1'' @ [CR, LF] else []) @ relay_auth r @ [CR, LF]"

text \<open>The new server, port and mount a location names; \<open>None\<close> when it is not an HTTP URL.\<close>

definition redirect_target :: "string \<Rightarrow> (string \<times> int \<times> string) option" where
  "redirect_target location =
     (if strncmp location ''http://'' 7 \<noteq> 0 then None
      else
        let u = drop 7 location;
            mount = (case strchr u (CHR ''/'') of None \<Rightarrow> ''/'' | Some i \<Rightarrow> drop i u);
            server = takeWhile (\<lambda>c. c \<noteq> CHR '':'' \<and> c \<noteq> CHR ''/'') u;
            rest = drop (length server) u;
            port = (if rest \<noteq> [] \<and> hd rest = CHR '':'' then atoi (tl rest) else 80)
        in Some (server, port, mount))"

text \<open>
  \<open>answer k server port request\<close> is the header that comes back, with the \<open>k\<close>-th try from the end, or
  \<open>None\<close> when connecting or reading fails. The result is the parser of the answer, if the
  connection is good.
\<close>

fun open_loop ::
  "(nat \<Rightarrow> string \<Rightarrow> int \<Rightarrow> string \<Rightarrow> string option) \<Rightarrow> string \<Rightarrow> relay_server \<Rightarrow> nat \<Rightarrow> string \<Rightarrow> int \<Rightarrow> string \<Rightarrow> http_parser option option" where
  "open_loop answer sid r 0 server port mount = Some None"
| "open_loop answer sid r (Suc k) server port mount =
     (case answer k server port (relay_request mount sid server r) of
        None \<Rightarrow> Some None
      | Some header \<Rightarrow>
          (case httpp_parse_response (httpp_initialize []) header (rlocalmount r) of
             None \<Rightarrow> None
           | Some (res, p) \<Rightarrow>
               if res = 0 then Some None
               else
                 (case httpp_getvar p HTTPP_VAR_ERROR_CODE of
                    None \<Rightarrow> None
                  | Some ec \<Rightarrow>
                      if strcmp ec ''302'' = 0 then
                        (case httpp_getvar p ''location'' of
                           None \<Rightarrow> None
                         | Some location \<Rightarrow>
                             (case redirect_target location of
                                None \<Rightarrow> Some None
                              | Some (server, port, mount) \<Rightarrow> open_loop answer sid r k server port mount))
                      else if httpp_getvar p HTTPP_VAR_ERROR_MESSAGE \<noteq> None then Some None
                      else Some (Some p))))"

text \<open>A good connection gets a client, when the limit of clients allows it.\<close>

definition open_relay_connection ::
  "(nat \<Rightarrow> string \<Rightarrow> int \<Rightarrow> string \<Rightarrow> string option) \<Rightarrow> ice_config \<Rightarrow> ice_global \<Rightarrow> connection \<Rightarrow> relay_server \<Rightarrow>
   (client option \<times> ice_global) option" where
  "open_relay_connection answer config g conn r =
     (case open_loop answer (server_id config) r 10 (rserver r) (rport r) (relay_mount r) of
        None \<Rightarrow> None
      | Some None \<Rightarrow> Some (None, g)
      | Some (Some p) \<Rightarrow>
          let (ret, client, g) = client_create config g conn (Some p)
          in if ret < 0 then Some (None, g\<lparr>clients := clients g - 1\<rparr>)
             else Some (Some (client_set_queue client None), g))"

section \<open>The list of mounts of a master\<close>

text \<open>
  \<open>sock_read_line\<close> into a buffer of \<open>len\<close> bytes: \<open>c\<close> is the byte last read, \<open>s\<close> what is still to come
  until the connection ends. The result says whether a line was read, and
  what a reader of the buffer takes for its text.
\<close>

fun read_line_loop :: "nat \<Rightarrow> string \<Rightarrow> char \<Rightarrow> string \<Rightarrow> (bool \<times> string \<times> string) option" where
  "read_line_loop len buff c [] =
     (if c \<noteq> LF \<and> length buff < len then Some (False, buff, [])
      else if length buff < len then Some (True, buff, []) else None)"
| "read_line_loop len buff c (d # s) =
     (if c \<noteq> LF \<and> length buff < len then read_line_loop len (if c \<noteq> CR then buff @ [c] else buff) d s
      else if length buff < len then Some (True, buff, d # s) else None)"

definition sock_read_line :: "nat \<Rightarrow> string \<Rightarrow> (bool \<times> string \<times> string) option" where
  "sock_read_line len s =
     (if len = 0 then Some (False, [], s)
      else case s of [] \<Rightarrow> Some (False, [], [])
           | c # s \<Rightarrow> map_option (\<lambda>(ok, line, s). (ok, c_str line 0, s)) (read_line_loop len [] c s))"

text \<open>What \<open>xmlParseURI\<close> finds in a line: the server, the port and the path.\<close>

record parsed_uri =
  pu_server :: "string option"
  pu_port :: int
  pu_path :: "string option"

definition master_relay :: "string \<Rightarrow> int \<Rightarrow> int \<Rightarrow> parsed_uri \<Rightarrow> relay_server option" where
  "master_relay master port ondemand u =
     (case pu_path u of
        None \<Rightarrow> None
      | Some path \<Rightarrow>
          let (server, port) = (case pu_server u of Some s \<Rightarrow> (s, if pu_port u = 0 then 80 else pu_port u) | None \<Rightarrow> (master, port))
          in Some \<lparr>rserver = server, rport = port, relay_mount = path, rusername = None, rpassword = None, rlocalmount = path, rbind = None,
                  rsource = None, rmp3metadata = 1, ron_demand = ondemand, rrunning = False, rcleanup = False, rstart = 0, rthread = False\<rparr>)"

lemma read_line_shorter: "read_line_loop len buff c s = Some (ok, l, rest) \<Longrightarrow> length rest \<le> length s"
  by (induction len buff c s rule: read_line_loop.induct) (auto split: if_splits)

lemma sock_read_line_shorter: "sock_read_line len s = Some (True, l, rest) \<Longrightarrow> length rest < length s"
  by (auto simp: sock_read_line_def less_Suc_eq_le split: if_splits list.splits dest: read_line_shorter)

text \<open>The headers are skipped up to the first empty line; every further line is an entry.\<close>

function skip_headers :: "string \<Rightarrow> string option" where
  "skip_headers s =
     (case sock_read_line 256 s of
        None \<Rightarrow> None
      | Some (ok, l, rest) \<Rightarrow> if \<not> ok then Some rest else if l = [] then Some rest else skip_headers rest)"
  by pat_completeness auto

termination by (relation "measure length") (auto dest: sock_read_line_shorter)

declare skip_headers.simps [simp del]

function read_entries ::
  "(string \<Rightarrow> parsed_uri option) \<Rightarrow> string \<Rightarrow> int \<Rightarrow> int \<Rightarrow> relay_server list \<Rightarrow> string \<Rightarrow> relay_server list option" where
  "read_entries parse master port ondemand acc s =
     (case sock_read_line 256 s of
        None \<Rightarrow> None
      | Some (ok, l, rest) \<Rightarrow>
          if \<not> ok then Some acc
          else if l = [] then read_entries parse master port ondemand acc rest
          else
            (case parse l of
               None \<Rightarrow> read_entries parse master port ondemand acc rest
             | Some u \<Rightarrow>
                 (case master_relay master port ondemand u of
                    None \<Rightarrow> None
                  | Some r \<Rightarrow> read_entries parse master port ondemand (r # acc) rest)))"
  by pat_completeness auto

termination by (relation "measure (\<lambda>(_, _, _, _, _, s). length s)") (auto dest: sock_read_line_shorter)

declare read_entries.simps [simp del]

definition master_request :: "string \<Rightarrow> string \<Rightarrow> string" where
  "master_request user pass =
     ''GET /admin/streamlist.txt HTTP/1.0'' @ [CR, LF] @ ''Authorization: Basic '' @ util_base64_encode (user @ '':'' @ pass) @ [CR, LF] @ [CR, LF]"

text \<open>
  The relays a master's answer \<open>s\<close> names, or no list when the master refuses; then the current relays
  stay as they are.
\<close>

definition fetch_relays :: "(string \<Rightarrow> parsed_uri option) \<Rightarrow> string \<Rightarrow> int \<Rightarrow> int \<Rightarrow> string \<Rightarrow> relay_server list option option" where
  "fetch_relays parse master port ondemand s =
     (case sock_read_line 256 s of
        None \<Rightarrow> None
      | Some (ok, l, rest) \<Rightarrow>
          if \<not> ok \<or> strncmp l ''HTTP/1.0 200'' 12 \<noteq> 0 \<and> strncmp l ''HTTP/1.1 200'' 12 \<noteq> 0 then Some None
          else
            (case skip_headers rest of
               None \<Rightarrow> None
             | Some rest \<Rightarrow> map_option Some (read_entries parse master port ondemand [] rest)))"

text \<open>The new list of the master's relays, and those that are stopped; \<open>s\<close> is \<open>None\<close> when the connection fails.\<close>

definition update_from_master ::
  "(string \<Rightarrow> parsed_uri option) \<Rightarrow> string option \<Rightarrow> string option \<Rightarrow> int \<Rightarrow> int \<Rightarrow> string option \<Rightarrow> relay_server list \<Rightarrow>
   (relay_server list \<times> relay_server list) option" where
  "update_from_master parse pass master port ondemand s master_relays =
     (case (pass, master, s) of
        (Some _, Some m, Some bytes) \<Rightarrow>
          if port = 0 then Some (master_relays, [])
          else
            (case fetch_relays parse m port ondemand bytes of
               None \<Rightarrow> None
             | Some None \<Rightarrow> Some (master_relays, [])
             | Some (Some new_relays) \<Rightarrow> Some (update_relays master_relays new_relays))
      | _ \<Rightarrow> Some (master_relays, []))"

section \<open>The list a master sends\<close>

text \<open>The plain list of mounts of \<open>command_list_mounts\<close>: the headers and the buffers that follow, or the reply to a failure.\<close>

definition command_list_mounts ::
  "(string \<Rightarrow> string \<Rightarrow> bool) \<Rightarrow> ice_config \<Rightarrow> string \<Rightarrow> nat \<Rightarrow> stats \<Rightarrow> client \<Rightarrow> (fate + string \<times> string list) option" where
  "command_list_mounts fnmatch config date sent s client =
     (let (ret, out) = util_http_build_header fnmatch config date (Some (rdata client)) PER_CLIENT_REFBUF_SIZE 0 False 200 None
            (Some ''text/plain'') (Some ''utf-8'') (Some []) None
      in if ret = -1 \<or> ret \<ge> int PER_CLIENT_REFBUF_SIZE then Some (Inl (client_send_500 sent (Some ''Header generation failed.'')))
         else map_option (\<lambda>bs. Inr (out, bs)) (stats_get_streams s))"

end
