(* ===== verification/Relay_Props.thy ===== *)
theory Relay_Props
  imports Relay Conn_Handle Stats_Run
begin

text \<open>
  The facts of relays: how the list of relays is updated, that a slave's requests are understood
  and its password accepted, what \<open>sock_read_line\<close> makes of a line, and that a slave ends up with a
  relay for every mount its master shows.
\<close>

section \<open>Updating the list\<close>

text \<open>What a relay is configured with, and when an existing relay is kept.\<close>

definition relay_key :: "relay_server \<Rightarrow> string \<times> string \<times> string \<times> int \<times> int" where
  "relay_key r = (rlocalmount r, relay_mount r, rserver r, rport r, rmp3metadata r)"

lemma relay_has_changed_key:
  "rlocalmount new = rlocalmount old \<Longrightarrow> fst (relay_has_changed new old) \<longleftrightarrow> relay_key new \<noteq> relay_key old"
  "\<not> fst (relay_has_changed new old) \<Longrightarrow> snd (relay_has_changed new old) = old\<lparr>ron_demand := ron_demand new\<rparr>"
  by (auto simp: relay_has_changed_def relay_key_def)

definition keeps :: "relay_server \<Rightarrow> relay_server \<Rightarrow> bool" where
  "keeps u e \<longleftrightarrow> relay_key u = relay_key e"

text \<open>The relay the new list has for an entry of the update.\<close>

definition updated_relay :: "relay_server list \<Rightarrow> relay_server \<Rightarrow> relay_server" where
  "updated_relay cur u =
     (case List.find (keeps u) cur of Some e \<Rightarrow> e\<lparr>ron_demand := ron_demand u\<rparr> | None \<Rightarrow> relay_copy u)"

lemma take_existing_spec:
  "distinct (map rlocalmount es) \<Longrightarrow> take_existing u es =
     (case List.find (keeps u) es of
        None \<Rightarrow> None
      | Some e \<Rightarrow> Some (e\<lparr>ron_demand := ron_demand u\<rparr>, filter (\<lambda>x. \<not> keeps u x) es))"
proof (induction es)
  case (Cons e es)
  have step: "strcmp (rlocalmount u) (rlocalmount e) = 0 \<and> \<not> fst (relay_has_changed u e) \<longleftrightarrow> keeps u e"
    using relay_has_changed_key(1) [of u e] by (auto simp: keeps_def relay_key_def)
  show ?case
  proof (cases "keeps u e")
    case True
    then have "\<not> keeps u x" if "x \<in> set es" for x using that Cons.prems by (auto simp: keeps_def relay_key_def)
    then have "filter (\<lambda>x. \<not> keeps u x) es = es" by (simp add: filter_id_conv)
    moreover have "snd (relay_has_changed u e) = e\<lparr>ron_demand := ron_demand u\<rparr>"
      using step True relay_has_changed_key(2) by blast
    ultimately show ?thesis using True step by (simp add: split_beta)
  next
    case False
    then show ?thesis using Cons step by (auto simp: split_beta split: option.splits)
  qed
qed simp

lemma keeps_localmount: "keeps u e \<Longrightarrow> rlocalmount u = rlocalmount e"
  by (simp add: keeps_def relay_key_def)

lemma distinct_filter_map: "distinct (map f xs) \<Longrightarrow> distinct (map f (filter P xs))"
  by (induction xs) auto

lemma find_filter_other:
  "rlocalmount v \<noteq> rlocalmount u \<Longrightarrow> List.find (keeps v) (filter (\<lambda>x. \<not> keeps u x) es) = List.find (keeps v) es"
proof (induction es)
  case (Cons e es)
  then show ?case using keeps_localmount [of u e] keeps_localmount [of v e] by auto
qed simp

lemma relay_set_loop_spec:
  "distinct (map rlocalmount cur) \<Longrightarrow> distinct (map rlocalmount upd) \<Longrightarrow>
   relay_set_loop acc cur upd =
     (rev (map (updated_relay cur) upd) @ acc, filter (\<lambda>e. \<forall>u\<in>set upd. \<not> keeps u e) cur)"
proof (induction upd arbitrary: acc cur)
  case (Cons u upd)
  show ?case
  proof (cases "List.find (keeps u) cur")
    case None
    then have "\<forall>e\<in>set cur. \<not> keeps u e" by (simp add: find_None_iff)
    then show ?thesis using Cons None
      by (simp add: take_existing_spec updated_relay_def) (auto intro: filter_cong)
  next
    case (Some e)
    let ?rest = "filter (\<lambda>x. \<not> keeps u x) cur"
    have "updated_relay ?rest v = updated_relay cur v" if "v \<in> set upd" for v
    proof -
      have "rlocalmount u \<noteq> rlocalmount v" using Cons.prems(2) imageI [OF that, of rlocalmount] by auto
      from find_filter_other [OF this [symmetric], of cur] show ?thesis by (simp only: updated_relay_def)
    qed
    moreover have "updated_relay cur u = e\<lparr>ron_demand := ron_demand u\<rparr>" using Some by (simp add: updated_relay_def)
    ultimately show ?thesis
      using Cons.IH [of ?rest "e\<lparr>ron_demand := ron_demand u\<rparr> # acc"] Cons.prems Some
      by (simp add: take_existing_spec distinct_filter_map conj_commute cong: map_cong)
  qed
qed simp

text \<open>Whatever the lists, the new list has a relay for each entry of the update, in reverse order.\<close>

lemma take_existing_key:
  "take_existing u es = Some (e, rest) \<Longrightarrow> relay_key e = relay_key u \<and> ron_demand e = ron_demand u \<and> set rest \<subseteq> set es"
proof (induction es arbitrary: rest)
  case (Cons x es)
  show ?case
  proof (cases "strcmp (rlocalmount u) (rlocalmount x) = 0 \<and> \<not> fst (relay_has_changed u x)")
    case True
    then have "e = x\<lparr>ron_demand := ron_demand u\<rparr>" "relay_key u = relay_key x" "rest = es"
      using Cons.prems relay_has_changed_key [of u x] by (auto simp: split_beta)
    then show ?thesis by (auto simp: relay_key_def)
  next
    case False
    then obtain rest' where "take_existing u es = Some (e, rest')" "rest = x # rest'" using Cons.prems by (auto simp: split_beta split: if_splits)
    then show ?thesis using Cons.IH by auto
  qed
qed simp

lemma relay_copy_key [simp]: "relay_key (relay_copy r) = relay_key r" "ron_demand (relay_copy r) = ron_demand r"
  by (simp_all add: relay_copy_def relay_key_def)

lemma relay_set_loop_keys:
  "relay_set_loop acc cur upd = (act, cln) \<Longrightarrow>
   map relay_key act = rev (map relay_key upd) @ map relay_key acc \<and> set cln \<subseteq> set cur"
proof (induction upd arbitrary: acc cur)
  case (Cons u upd)
  show ?case
  proof (cases "take_existing u cur")
    case None
    then show ?thesis using Cons.IH [of "relay_copy u # acc" cur] Cons.prems by simp
  next
    case (Some p)
    obtain e rest where p: "p = (e, rest)" by (cases p)
    then show ?thesis using Cons.IH [of "e # acc" rest] Cons.prems Some take_existing_key [of u cur e rest] by auto
  qed
qed simp

section \<open>Lines from the master\<close>

lemma read_line_loop_line:
  "LF \<notin> set (c # l) \<Longrightarrow> length buff \<le> len \<Longrightarrow>
   read_line_loop len buff c (l @ LF # rest) =
     (if length buff + length (filter (\<lambda>x. x \<noteq> CR) (c # l)) < len then Some (True, buff @ filter (\<lambda>x. x \<noteq> CR) (c # l), rest) else None)"
proof (induction l arbitrary: buff c)
  case Nil
  then show ?case by (cases rest) auto
next
  case (Cons d l)
  then show ?case using Cons.IH [of d buff] Cons.IH [of d "buff @ [c]"] by auto
qed

lemma sock_read_line_eq:
  "LF \<notin> set l \<Longrightarrow> 0 < len \<Longrightarrow>
   sock_read_line len (l @ LF # rest) =
     (if length (filter (\<lambda>x. x \<noteq> CR) l) < len then Some (True, c_str (filter (\<lambda>x. x \<noteq> CR) l) 0, rest) else None)"
proof (cases l)
  case Nil
  then show "0 < len \<Longrightarrow> ?thesis" by (cases rest) (auto simp: sock_read_line_def c_str_def)
next
  case (Cons c l')
  assume "LF \<notin> set l" "0 < len"
  then show ?thesis using read_line_loop_line [of c l' "[]" len rest] Cons by (auto simp: sock_read_line_def)
qed

lemma sock_read_line_clean:
  assumes "l = [] \<or> clean_line l" and "length l < len"
  shows "sock_read_line len (l @ CR # LF # rest) = Some (True, l, rest)"
proof -
  have s: "LF \<notin> set (l @ [CR])" "filter (\<lambda>x. x \<noteq> CR) (l @ [CR]) = l" "c_str l 0 = l"
    using assms by (auto simp: clean_line_def c_str_def filter_id_conv takeWhile_eq_all_conv)
  show ?thesis using sock_read_line_eq [OF s(1), of len rest] assms(2) unfolding s by simp
qed

lemma sock_read_line_end [simp]: "0 < len \<Longrightarrow> sock_read_line len [] = Some (False, [], [])"
  by (simp add: sock_read_line_def)

lemma skip_headers_lines:
  "\<forall>h\<in>set hs. clean_line h \<and> length h < 256 \<Longrightarrow> skip_headers (render_lines hs @ CR # LF # rest) = Some rest"
proof (induction hs)
  case Nil
  show ?case using sock_read_line_clean [of "[]" 256 rest] by (subst skip_headers.simps) simp
next
  case (Cons h hs)
  then have "sock_read_line 256 (h @ CR # LF # render_lines hs @ CR # LF # rest) = Some (True, h, render_lines hs @ CR # LF # rest)" "h \<noteq> []"
    by (auto intro!: sock_read_line_clean simp: clean_line_def)
  then show ?case using Cons by (subst skip_headers.simps) simp
qed

text \<open>The relay a slave makes of a line that holds a path.\<close>

definition mirror :: "string \<Rightarrow> int \<Rightarrow> int \<Rightarrow> string \<Rightarrow> relay_server" where
  "mirror master port ondemand path =
     \<lparr>rserver = master, rport = port, relay_mount = path, rusername = None, rpassword = None, rlocalmount = path, rbind = None,
      rsource = None, rmp3metadata = 1, ron_demand = ondemand, rrunning = False, rcleanup = False, rstart = 0, rthread = False\<rparr>"

text \<open>What the parser of URIs does with a path.\<close>

definition reads_path :: "(string \<Rightarrow> parsed_uri option) \<Rightarrow> string \<Rightarrow> bool" where
  "reads_path parse path \<longleftrightarrow> parse path = Some \<lparr>pu_server = None, pu_port = 0, pu_path = Some path\<rparr>"

lemma read_entries_lines:
  "\<forall>m\<in>set ms. clean_line m \<and> length m < 256 \<and> reads_path parse m \<Longrightarrow>
   read_entries parse master port ondemand acc (render_lines ms) = Some (rev (map (mirror master port ondemand) ms) @ acc)"
proof (induction ms arbitrary: acc)
  case Nil
  show ?case by (subst read_entries.simps) simp
next
  case (Cons m ms)
  then have "sock_read_line 256 (m @ CR # LF # render_lines ms) = Some (True, m, render_lines ms)" "m \<noteq> []" "reads_path parse m"
    by (auto intro!: sock_read_line_clean simp: clean_line_def)
  then show ?case using Cons by (subst read_entries.simps) (simp add: reads_path_def master_relay_def mirror_def)
qed

lemma fetch_relays_reply:
  assumes "\<forall>h\<in>set hs. clean_line h \<and> length h < 256" and "\<forall>m\<in>set ms. clean_line m \<and> length m < 256 \<and> reads_path parse m"
  shows "fetch_relays parse master port ondemand (render_lines (''HTTP/1.0 200 OK'' # hs) @ CR # LF # render_lines ms) =
    Some (Some (rev (map (mirror master port ondemand) ms)))"
proof -
  have "clean_line ''HTTP/1.0 200 OK''" by (simp add: clean_line_def NUL_def CR_def LF_def)
  then have "sock_read_line 256 (''HTTP/1.0 200 OK'' @ CR # LF # render_lines hs @ CR # LF # render_lines ms) =
      Some (True, ''HTTP/1.0 200 OK'', render_lines hs @ CR # LF # render_lines ms)"
    by (intro sock_read_line_clean) simp_all
  then show ?thesis using assms
    by (simp add: fetch_relays_def strncmp_def skip_headers_lines read_entries_lines)
qed

text \<open>The header lines of the master's reply.\<close>

definition list_headers :: "ice_config \<Rightarrow> string \<Rightarrow> string list" where
  "list_headers config date =
     map header_line (reply_headers literal_match config date False 200 (full_type ''text/plain'' (Some ''utf-8'')) None)"

section \<open>Requests of slaves\<close>

lemma b64_clean: "0 \<le> i \<Longrightarrow> i < 64 \<Longrightarrow> b64 i \<in> set base64table"
  unfolding b64_def by (rule nth_mem) (simp add: base64table_def)

lemma groups: "0 \<le> p \<Longrightarrow> p < 64 \<Longrightarrow> 0 \<le> q \<Longrightarrow> q < 64 \<Longrightarrow> {b64 p, b64 q} \<subseteq> set base64table"
  by (simp add: b64_clean)

lemma base64_chars: "set (base64_encode_loop s) \<subseteq> insert (CHR ''='') (set base64table)"
proof (induction s rule: base64_encode_loop.induct)
  case (2 a)
  have r: "0 \<le> byte a" "byte a < 256" "0 \<le> byte NUL" "byte NUL < 256" by (simp_all add: byte_range)
  show ?case
    unfolding base64_encode_loop.simps mask_high [OF r(1,2)] base64_indices(1) [OF r r(3,4)]
    using groups [OF base64_index_range(1-4) [OF r]] by simp
next
  case (3 a b)
  define z where "z = (0::int)"
  have r: "0 \<le> byte a" "byte a < 256" "0 \<le> byte b" "byte b < 256" "0 \<le> z" "z < 256" by (simp_all add: byte_range z_def)
  have last: "push_bit 2 (byte b AND 0x0F) = byte b mod 16 * 4 + z div 64" by (simp add: low_nibble push_bit_eq_mult z_def)
  show ?case
    unfolding base64_encode_loop.simps mask_high [OF r(1,2)] base64_indices(1) [OF r] last
    using groups [OF base64_index_range(1-4) [OF r(1-4)]] b64_clean [OF base64_index_range(5,6) [OF r(3-6)]] by simp
next
  case (4 a b c data)
  have r: "0 \<le> byte a" "byte a < 256" "0 \<le> byte b" "byte b < 256" "0 \<le> byte c" "byte c < 256" by (simp_all add: byte_range)
  have "b64 (byte c mod 64) \<in> set base64table" by (rule b64_clean) auto
  then show ?case using 4
    unfolding base64_encode_loop.simps mask_high [OF r(1,2)] base64_indices [OF r] mask_low(2)
    using groups [OF base64_index_range(1-4) [OF r(1-4)]] b64_clean [OF base64_index_range(5,6) [OF r(3-6)]] by simp
qed simp

lemma basic_header_good: "good_header (''Authorization'', ''Basic '' @ util_base64_encode s)"
proof -
  have "NUL \<notin> set base64table" "CR \<notin> set base64table" "LF \<notin> set base64table" by (simp_all add: base64table_def NUL_def CR_def LF_def)
  with base64_chars [of s] show ?thesis
    by (auto simp: good_header_def clean_line_def util_base64_encode_def NUL_def CR_def LF_def)
qed

text \<open>The requests as request lines and headers.\<close>

lemma master_request_text:
  "master_request user pass = request_text ''GET'' ''/admin/streamlist.txt'' ''HTTP'' ''1.0''
     [(''Authorization'', ''Basic '' @ util_base64_encode (user @ '':'' @ pass))]"
  by (simp add: master_request_def request_text_def header_line_def)

definition request_headers :: "string \<Rightarrow> string \<Rightarrow> relay_server \<Rightarrow> (string \<times> string) list" where
  "request_headers sid server r =
     [(''User-Agent'', sid), (''Host'', server)] @ (if rmp3metadata r \<noteq> 0 then [(''Icy-MetaData'', ''1'')] else []) @
     (case (rusername r, rpassword r) of
        (Some u, Some w) \<Rightarrow> [(''Authorization'', ''Basic '' @ util_base64_encode (u @ '':'' @ w))] | _ \<Rightarrow> [])"

lemma relay_request_text:
  "relay_request mount sid server r = request_text ''GET'' mount ''HTTP'' ''1.0'' (request_headers sid server r)"
  by (simp add: relay_request_def relay_auth_def request_headers_def request_text_def header_line_def split: option.split)

lemma relay_words: "good_word ''GET''" "good_word ''HTTP''" "good_word ''1.0''" "CHR ''/'' \<notin> set ''HTTP''"
  "request_type_name (request_type_of ''GET'') = Some ''GET''" "request_type_of ''GET'' = httpp_req_get"
  by (simp_all add: good_word_def clean_line_def NUL_def CR_def LF_def request_type_of_def strcasecmp_def tolower_def)

lemma lower_names:
  "lowercase ''User-Agent'' = ''user-agent''" "lowercase ''Host'' = ''host''" "lowercase ''Icy-MetaData'' = ''icy-metadata''"
  "lowercase ''Authorization'' = ''authorization''"
  by code_simp+

lemma fresh_getvar: "httpp_getvar (httpp_initialize []) n = None"
  by (simp add: httpp_getvar_def httpp_initialize_def avl_get_by_key_def avl_tree_new_def)

text \<open>A line too long for the buffer, among the lines of the list.\<close>

lemma read_entries_long:
  assumes "\<forall>m\<in>set ms. clean_line m \<and> length m < 256 \<and> reads_path parse m" and "clean_line m" "256 \<le> length m"
  shows "read_entries parse master port ondemand acc (render_lines ms @ m @ CR # LF # rest) = None"
  using assms(1)
proof (induction ms arbitrary: acc)
  case Nil
  have s: "LF \<notin> set (m @ [CR])" "filter (\<lambda>x. x \<noteq> CR) (m @ [CR]) = m"
    using assms(2) by (auto simp: clean_line_def filter_id_conv)
  have "sock_read_line 256 (m @ CR # LF # rest) = None"
    using sock_read_line_eq [OF s(1), of 256 rest] assms(3) unfolding s by simp
  then show ?case by (subst read_entries.simps) simp
next
  case (Cons x ms)
  then have "sock_read_line 256 (x @ CR # LF # render_lines ms @ m @ CR # LF # rest) = Some (True, x, render_lines ms @ m @ CR # LF # rest)"
    "x \<noteq> []" "reads_path parse x"
    by (auto intro!: sock_read_line_clean simp: clean_line_def)
  then show ?case using Cons by (subst read_entries.simps) (simp add: reads_path_def master_relay_def)
qed

text \<open>A redirect that names no location.\<close>

lemma redirect_without_location:
  "open_loop (\<lambda>k server port req. Some (render_lines [''HTTP/1.0 302 Found''] @ CR # LF # [])) sid r (Suc k) server port mount = None"
proof -
  have w: "good_word ''HTTP/1.0''" "good_word ''302''" "clean_line ''Found''" "hd ''Found'' \<noteq> CHR '' ''"
    by (simp_all add: good_word_def clean_line_def NUL_def CR_def LF_def)
  have hs: "\<forall>h\<in>set []. good_header h" "Suc (length ([] :: (string \<times> string) list)) < MAX_HEADERS" by (simp_all add: MAX_HEADERS_def)
  obtain p' where p': "httpp_parse_response (httpp_initialize []) (render_lines [''HTTP/1.0 302 Found''] @ CR # LF # []) (rlocalmount r) = Some (1, p')"
    "httpp_getvar p' HTTPP_VAR_ERROR_CODE = Some ''302''" "httpp_getvar p' ''location'' = None"
    using httpp_parse_response_vars [OF initialize_ok(1) [of "[]"] w hs, of "[]" "rlocalmount r"]
    by (auto simp: HTTPP_VAR_ERROR_CODE_def HTTPP_VAR_ERROR_MESSAGE_def HTTPP_VAR_URI_def HTTPP_VAR_REQ_TYPE_def fresh_getvar)
  then show ?thesis by simp
qed

section \<open>Properties\<close>

text \<open>
  C26: Updating the relays against a new list whose local mounts differ. The new list has one relay
  for each entry, in reverse order: the running relay, with its source and thread, when one with
  the same mounts, server, port and metadata setting exists, and a stopped copy of the entry
  otherwise. Exactly the relays that match no entry are handed over to be shut down, and reading
  the same list again stops none.
\<close>

theorem update_relays_spec:
  assumes "distinct (map rlocalmount cur)" and "distinct (map rlocalmount upd)"
  shows "update_relays cur upd = (rev (map (updated_relay cur) upd), filter (\<lambda>e. \<forall>u\<in>set upd. \<not> keeps u e) cur)
    \<and> distinct (map rlocalmount (fst (update_relays cur upd)))
    \<and> snd (update_relays (fst (update_relays cur upd)) upd) = []"
proof -
  have eq: "update_relays c upd = (rev (map (updated_relay c) upd), filter (\<lambda>e. \<forall>u\<in>set upd. \<not> keeps u e) c)"
    if "distinct (map rlocalmount c)" for c
    using relay_set_loop_spec [OF that assms(2)] by (simp add: update_relays_def update_relay_set_def)
  have key: "relay_key (updated_relay cur u) = relay_key u" for u
    by (auto simp: updated_relay_def keeps_def relay_key_def relay_copy_def find_Some_iff split: option.splits)
  then have lm: "rlocalmount (updated_relay cur u) = rlocalmount u" for u by (metis fst_conv relay_key_def)
  have d: "distinct (map rlocalmount (rev (map (updated_relay cur) upd)))"
    using assms(2) by (simp add: rev_map [symmetric] o_def lm)
  have "\<exists>u\<in>set upd. keeps u e" if "e \<in> set (rev (map (updated_relay cur) upd))" for e
    using that key by (auto simp: keeps_def)
  then show ?thesis using d by (simp add: eq [OF assms(1)] eq [OF d] filter_empty_conv)
qed

definition demo_relay :: "string \<Rightarrow> string \<Rightarrow> relay_server" where
  "demo_relay local m = (mirror ''master'' 8000 0 m)\<lparr>rlocalmount := local, rsource := Some 7, rrunning := True, rthread := True\<rparr>"

theorem update_relays_spec_witness:
  "update_relays [demo_relay ''/a'' ''/a'', demo_relay ''/b'' ''/b''] [demo_relay ''/b'' ''/b'', demo_relay ''/a'' ''/x''] =
    ([relay_copy (demo_relay ''/a'' ''/x''), demo_relay ''/b'' ''/b''], [demo_relay ''/a'' ''/a''])"
  using update_relays_spec [of "[demo_relay ''/a'' ''/a'', demo_relay ''/b'' ''/b'']" "[demo_relay ''/b'' ''/b'', demo_relay ''/a'' ''/x'']"]
  by (simp add: demo_relay_def mirror_def updated_relay_def keeps_def relay_key_def)

text \<open>A slave's request for the list of mounts, as its master reads and checks it.\<close>

lemma slave_admitted:
  assumes "is_cstr user" "is_cstr pass" "CHR '':'' \<notin> set user"
  shows "\<exists>p'. httpp_parse (httpp_initialize []) (master_request user pass) = Some (1, p') \<and> req_type p' = httpp_req_get \<and>
    uri p' = Some ''/admin/streamlist.txt'' \<and> httpp_get_query_param p' ''mount'' = None \<and>
    (\<forall>config. connection_check_relay_pass config p' =
       (if relay_username config = Some user \<and> relay_password config = Some pass then 1 else 0))"
proof -
  have u: "good_word ''/admin/streamlist.txt''" by (simp add: good_word_def clean_line_def NUL_def CR_def LF_def)
  let ?hs = "[(''Authorization'', ''Basic '' @ util_base64_encode (user @ '':'' @ pass))]"
  have hs: "\<forall>h\<in>set ?hs. good_header h" "Suc (length ?hs) < MAX_HEADERS"
    using basic_header_good by (simp_all add: MAX_HEADERS_def)
  obtain p' where p': "httpp_parse (httpp_initialize []) (master_request user pass) = Some (1, p')" "req_type p' = httpp_req_get"
      "uri p' = Some ''/admin/streamlist.txt''" "queryvars p' = queryvars (httpp_initialize [])" "httpp_getvar p' ''authorization'' = Some (''Basic '' @ util_base64_encode (user @ '':'' @ pass))"
    using httpp_parse_request_vars [OF initialize_ok(1) relay_words(1) u relay_words(2,3,4) hs relay_words(5), of "[]" "[]"]
    by (auto simp: master_request_text relay_words(6) lower_names)
  have "connection_check_relay_pass config p' =
       (if relay_username config = Some user \<and> relay_password config = Some pass then 1 else 0)" for config
    using basic_credentials [OF p'(5) assms] by (auto simp: connection_check_relay_pass_def split: option.splits)
  moreover have "httpp_get_query_param p' ''mount'' = None"
    by (simp add: httpp_get_query_param_def p'(4) httpp_initialize_def avl_get_by_key_def avl_tree_new_def)
  ultimately show ?thesis using p' by blast
qed

text \<open>
  The request of a relay for a stream is understood by the server it relays from: it parses as
  a GET of the mount, names the server and asks for metadata when it is configured to, and with a
  user and a password exactly those are accepted.
\<close>

lemma relay_request_understood:
  assumes "good_word mount" and "good_header (''User-Agent'', sid)" "good_header (''Host'', server)"
    and "\<forall>u w. rusername r = Some u \<and> rpassword r = Some w \<longrightarrow> is_cstr u \<and> is_cstr w \<and> CHR '':'' \<notin> set u"
  shows "\<exists>p'. httpp_parse (httpp_initialize []) (relay_request mount sid server r) = Some (1, p') \<and> req_type p' = httpp_req_get \<and>
    uri p' = Some (takeWhile (\<lambda>c. c \<noteq> CHR ''?'') mount) \<and> httpp_getvar p' ''host'' = Some server \<and>
    (httpp_getvar p' ''icy-metadata'' = Some ''1'' \<longleftrightarrow> rmp3metadata r \<noteq> 0) \<and>
    (\<forall>user pass. check_pass_http p' user pass = (if rusername r = Some user \<and> rpassword r = Some pass then 1 else 0))"
proof -
  let ?hs = "request_headers sid server r"
  have meta: "good_header (''Icy-MetaData'', ''1'')" by (simp add: good_header_def clean_line_def NUL_def CR_def LF_def)
  have hs: "\<forall>h\<in>set ?hs. good_header h" "Suc (length ?hs) < MAX_HEADERS"
    using assms(2,3) meta basic_header_good by (auto simp: request_headers_def MAX_HEADERS_def split: option.splits)
  let ?vars = "map_of (rev (map (\<lambda>(a, b). (lowercase a, b)) ?hs))"
  obtain p' where p': "httpp_parse (httpp_initialize []) (relay_request mount sid server r) = Some (1, p')" "req_type p' = httpp_req_get"
      "uri p' = Some (takeWhile (\<lambda>c. c \<noteq> CHR ''?'') mount)"
    and get: "\<forall>n. httpp_getvar p' n = (case ?vars n of Some v \<Rightarrow> Some v | None \<Rightarrow>
          if n = HTTPP_VAR_URI then Some (takeWhile (\<lambda>c. c \<noteq> CHR ''?'') mount)
          else if n = HTTPP_VAR_REQ_TYPE then Some ''GET'' else if n = HTTPP_VAR_VERSION then Some ''1.0''
          else if n = HTTPP_VAR_PROTOCOL then Some ''HTTP''
          else if CHR ''?'' \<in> set mount \<and> n = HTTPP_VAR_QUERYARGS then Some (dropWhile (\<lambda>c. c \<noteq> CHR ''?'') mount)
          else if CHR ''?'' \<in> set mount \<and> n = HTTPP_VAR_RAWURI then Some mount
          else httpp_getvar (httpp_initialize []) n)"
    using httpp_parse_request_vars [OF initialize_ok(1) relay_words(1) assms(1) relay_words(2,3,4) hs relay_words(5), of "[]" "[]"]
    unfolding relay_request_text relay_words(6) append_Nil2 by blast
  have v: "httpp_getvar p' n = ?vars n" if "n \<in> {''host'', ''icy-metadata'', ''authorization''}" for n
  proof -
    have "n \<notin> {HTTPP_VAR_URI, HTTPP_VAR_REQ_TYPE, HTTPP_VAR_VERSION, HTTPP_VAR_PROTOCOL, HTTPP_VAR_QUERYARGS, HTTPP_VAR_RAWURI}"
      using that by (auto simp: HTTPP_VAR_URI_def HTTPP_VAR_REQ_TYPE_def HTTPP_VAR_VERSION_def HTTPP_VAR_PROTOCOL_def
          HTTPP_VAR_QUERYARGS_def HTTPP_VAR_RAWURI_def)
    then show ?thesis unfolding get [rule_format] by (auto simp: fresh_getvar split: option.split)
  qed
  have host: "httpp_getvar p' ''host'' = Some server"
    and icy: "httpp_getvar p' ''icy-metadata'' = (if rmp3metadata r \<noteq> 0 then Some ''1'' else None)"
    and auth: "httpp_getvar p' ''authorization'' = (case (rusername r, rpassword r) of
        (Some u, Some w) \<Rightarrow> Some (''Basic '' @ util_base64_encode (u @ '':'' @ w)) | _ \<Rightarrow> None)"
    using v by (auto simp: request_headers_def lower_names split: option.splits)
  have "check_pass_http p' user pass = (if rusername r = Some user \<and> rpassword r = Some pass then 1 else 0)" for user pass
  proof (cases "rusername r = None \<or> rpassword r = None")
    case True
    then have "httpp_getvar p' ''authorization'' = None" using auth by (auto split: option.splits)
    with True show ?thesis by (auto simp: check_pass_http_def)
  next
    case False
    then obtain u w where uw: "rusername r = Some u" "rpassword r = Some w" by auto
    then have "httpp_getvar p' ''authorization'' = Some (''Basic '' @ util_base64_encode (u @ '':'' @ w))" using auth by simp
    from basic_credentials [OF this] show ?thesis using uw assms(4) by simp
  qed
  with p' host icy show ?thesis by simp
qed

text \<open>
  C5: A slave mirrors its master. The answer of the master to the request for its mounts, in any
  number of buffers, makes a slave with any relays end up with exactly one relay for each mount
  that is not hidden, in the master's order, on the same local mount and from the master's
  address; for mounts of fewer than 256 characters that the parser of URIs takes for a path, and
  when the headers of the reply are lines of fewer than 256 characters.
\<close>

theorem slave_mirrors_master:
  assumes list: "command_list_mounts literal_match config (render_lines [header_line (''Date'', date)]) sent s client = Some (Inr (out, bs))"
    and heads: "\<forall>h\<in>set (list_headers config date). clean_line h \<and> length h < 256"
    and mounts: "\<forall>x\<in>set (inorder (root (source_stats s))). source_hidden x = 0 \<longrightarrow>
        clean_line (source_name x) \<and> length (source_name x) < 256 \<and> reads_path parse (source_name x)"
    and port: "port \<noteq> 0"
  shows "\<exists>act cln. update_from_master parse (Some pass) (Some master) port ondemand (Some (out @ concat bs)) cur = Some (act, cln) \<and>
    map relay_key act = map (\<lambda>x. (source_name x, source_name x, master, port, 1))
      (filter (\<lambda>x. source_hidden x = 0) (inorder (root (source_stats s)))) \<and>
    set cln \<subseteq> set cur"
proof -
  let ?vis = "map source_name (filter (\<lambda>x. source_hidden x = 0) (inorder (root (source_stats s))))"
  let ?date = "render_lines [header_line (''Date'', date)]"
  let ?text = "reply_text literal_match config ?date False 200 None (Some ''text/plain'') (Some ''utf-8'') (Some []) None"
  have bs: "stats_get_streams s = Some bs" and out: "out = ?text"
    using list by (auto simp: command_list_mounts_def util_http_build_header_def snprintf_def PER_CLIENT_REFBUF_SIZE_def split: if_splits)
  have "\<forall>x\<in>set (inorder (root (source_stats s))). source_hidden x = 0 \<longrightarrow> length (source_name x) < 4094"
    using mounts by force
  from streams_loop_spec [OF this, of "[]" 4096 "[]"]
  have cat: "concat bs = render_lines ?vis"
    using bs by (simp add: stats_get_streams_def STREAMLIST_BLKSIZE_def render_lines_def o_def)
  have ft: "length (full_type ''text/plain'' (Some ''utf-8'')) \<le> 63" by (simp add: full_type_def)
  have ok: "''HTTP/1.0'' @ '' '' @ fmt_d 200 @ '' '' @ status_text 200 = ''HTTP/1.0 200 OK''"
    by code_simp
  have "?text = render_lines (''HTTP/1.0 200 OK'' # list_headers config date) @ CR # LF # []"
    using reply_text_lines [of 200 "''text/plain''" "Some ''utf-8''" literal_match config date False "[]" None] ft
    unfolding ok list_headers_def by simp
  then have answer: "out @ concat bs = render_lines (''HTTP/1.0 200 OK'' # list_headers config date) @ CR # LF # render_lines ?vis"
    unfolding out cat by (simp only: append_assoc append_Cons append_Nil)
  have "\<forall>m\<in>set ?vis. clean_line m \<and> length m < 256 \<and> reads_path parse m" using mounts by auto
  from fetch_relays_reply [OF heads this]
  have f: "fetch_relays parse master port ondemand (out @ concat bs) = Some (Some (rev (map (mirror master port ondemand) ?vis)))"
    unfolding answer .
  obtain act cln where u: "update_relays cur (rev (map (mirror master port ondemand) ?vis)) = (act, cln)" by (cases "update_relays cur (rev (map (mirror master port ondemand) ?vis))")
  have "map relay_key act = map relay_key (map (mirror master port ondemand) ?vis)" "set cln \<subseteq> set cur"
    using relay_set_loop_keys [of "[]" cur "rev (map (mirror master port ondemand) ?vis)" act cln] u
    by (simp_all add: update_relays_def update_relay_set_def rev_map)
  moreover have "map relay_key (map (mirror master port ondemand) ?vis) = map (\<lambda>x. (source_name x, source_name x, master, port, 1))
      (filter (\<lambda>x. source_hidden x = 0) (inorder (root (source_stats s))))"
    by (simp add: relay_key_def mirror_def)
  ultimately show ?thesis using port f u by (simp add: update_from_master_def)
qed

theorem slave_mirrors_master_witness:
  "\<exists>out bs act cln. command_list_mounts literal_match demo_config (render_lines [header_line (''Date'', ''now'')]) 0 demo_mounts demo_client = Some (Inr (out, bs)) \<and>
    update_from_master (\<lambda>l. Some \<lparr>pu_server = None, pu_port = 0, pu_path = Some l\<rparr>) (Some ''hackme'') (Some ''master'') 8000 0 (Some (out @ concat bs)) [] = Some (act, cln) \<and>
    map relay_key act = [(''/live'', ''/live'', ''master'', 8000, 1)]"
proof -
  let ?date = "render_lines [header_line (''Date'', ''now'')]"
  let ?text = "reply_text literal_match demo_config ?date False 200 None (Some ''text/plain'') (Some ''utf-8'') (Some []) None"
  have vis: "inorder (root (source_stats demo_mounts)) = [\<lparr>source_name = ''/live'', source_hidden = 0, stats_tree = avl_tree_new compare_stats\<rparr>]"
    by (simp add: demo_mounts_def avl_node_new_def)
  have len: "length ?text < 4096"
    by (simp add: reply_text_def status_buffer_def contenttype_buffer_def snprintf_def auth_header_def cache_header_def build_headers_eq
        extra_headers_def header_pairs_def applies_def demo_config_def header_line_def fmt_d_def dec.simps status_text_def)
  obtain bs where "stats_get_streams demo_mounts = Some bs"
    using streams_loop_spec [of "inorder (root (source_stats demo_mounts))" "[]" 4096 "[]"]
    by (auto simp: vis stats_get_streams_def STREAMLIST_BLKSIZE_def)
  then have c: "command_list_mounts literal_match demo_config ?date 0 demo_mounts demo_client = Some (Inr (?text, bs))"
    using len by (simp add: command_list_mounts_def util_http_build_header_def snprintf_def PER_CLIENT_REFBUF_SIZE_def)
  have hdrs: "reply_headers literal_match demo_config ''now'' False 200 (full_type ''text/plain'' (Some ''utf-8'')) None =
     [(''Server'', ''icecast''), (''Connection'', ''Close''), (''Date'', ''now''), (''Content-Type'', ''text/plain; charset=utf-8''),
      (''Cache-Control'', ''no-cache, no-store''), (''Expires'', ''Mon, 26 Jul 1997 05:00:00 GMT''), (''Pragma'', ''no-cache'')]"
    by (simp add: reply_headers_def full_type_def extra_headers_def header_pairs_def applies_def demo_config_def)
  have heads: "\<forall>h\<in>set (list_headers demo_config ''now''). clean_line h \<and> length h < 256"
    unfolding list_headers_def hdrs by (simp add: header_line_def clean_line_def NUL_def CR_def LF_def)
  have mounts: "\<forall>x\<in>set (inorder (root (source_stats demo_mounts))). source_hidden x = 0 \<longrightarrow>
      clean_line (source_name x) \<and> length (source_name x) < 256 \<and> reads_path (\<lambda>l. Some \<lparr>pu_server = None, pu_port = 0, pu_path = Some l\<rparr>) (source_name x)"
    by (simp add: vis clean_line_def NUL_def CR_def LF_def reads_path_def)
  from slave_mirrors_master [OF c heads mounts, of 8000 "''hackme''" "''master''" 0 "[]"] c show ?thesis
    by (auto simp: vis)
qed

text \<open>
  C28: A mount name of 256 characters or more on the list of a master, after any number of shorter
  ones, makes the slave that reads it write the terminator of the line behind the end of its
  buffer.
\<close>

theorem slave_buffer_overrun:
  assumes "\<forall>h\<in>set hs. clean_line h \<and> length h < 256" and "\<forall>m\<in>set ms. clean_line m \<and> length m < 256 \<and> reads_path parse m"
    and "clean_line m" "256 \<le> length m"
  shows "fetch_relays parse master port ondemand (render_lines (''HTTP/1.0 200 OK'' # hs) @ CR # LF # render_lines ms @ m @ CR # LF # rest) = None"
proof -
  have "clean_line ''HTTP/1.0 200 OK''" by (simp add: clean_line_def NUL_def CR_def LF_def)
  then have "sock_read_line 256 (''HTTP/1.0 200 OK'' @ CR # LF # render_lines hs @ CR # LF # render_lines ms @ m @ CR # LF # rest) =
      Some (True, ''HTTP/1.0 200 OK'', render_lines hs @ CR # LF # render_lines ms @ m @ CR # LF # rest)"
    by (intro sock_read_line_clean) simp_all
  then show ?thesis using assms(1) read_entries_long [OF assms(2-4), of master port ondemand "[]" rest]
    by (simp add: fetch_relays_def strncmp_def skip_headers_lines)
qed

theorem slave_buffer_overrun_witness:
  "fetch_relays (\<lambda>_. None) ''m'' 8000 0 (render_lines (''HTTP/1.0 200 OK'' # []) @ CR # LF # render_lines [] @ replicate 256 (CHR ''a'') @ CR # LF # []) = None"
proof -
  have "\<forall>h\<in>set []. clean_line h \<and> length h < 256" "\<forall>m\<in>set []. clean_line m \<and> length m < 256 \<and> reads_path (\<lambda>_. None) m"
    "clean_line (replicate 256 (CHR ''a''))" "256 \<le> length (replicate 256 (CHR ''a''))"
    by (simp_all add: clean_line_def NUL_def CR_def LF_def)
  then show ?thesis by (rule slave_buffer_overrun)
qed

end
