(* ===== verification/Admin.thy ===== *)
theory Admin
  imports Relay_Props
begin

text \<open>
  The admin interface (\<open>admin.c\<close>): recognising a command, the check of who may give it, and the
  commands with everything they change and reply. Documents are trees of elements; what libxml2 prints
  for one, what the callbacks of an authenticator answer, and the fields of a source that the
  registry does not have are arguments. \<open>None\<close> stands for a null pointer that is followed.
\<close>

section \<open>Commands\<close>

datatype command =
    COMMAND_ERROR
  | COMMAND_RAW_FALLBACK | COMMAND_RAW_METADATA_UPDATE | COMMAND_RAW_SHOW_LISTENERS | COMMAND_RAW_MOVE_CLIENTS
  | COMMAND_RAW_MANAGEAUTH | COMMAND_SHOUTCAST_METADATA_UPDATE | COMMAND_RAW_UPDATEMETADATA
  | COMMAND_TRANSFORMED_FALLBACK | COMMAND_TRANSFORMED_SHOW_LISTENERS | COMMAND_TRANSFORMED_MOVE_CLIENTS
  | COMMAND_TRANSFORMED_MANAGEAUTH | COMMAND_TRANSFORMED_UPDATEMETADATA | COMMAND_TRANSFORMED_METADATA_UPDATE
  | COMMAND_RAW_LIST_MOUNTS | COMMAND_RAW_STATS | COMMAND_RAW_LISTSTREAM | COMMAND_PLAINTEXT_LISTSTREAM
  | COMMAND_TRANSFORMED_LIST_MOUNTS | COMMAND_TRANSFORMED_STATS | COMMAND_TRANSFORMED_LISTSTREAM
  | COMMAND_RAW_KILL_CLIENT | COMMAND_RAW_KILL_SOURCE | COMMAND_TRANSFORMED_KILL_CLIENT | COMMAND_TRANSFORMED_KILL_SOURCE
  | COMMAND_BUILDM3U

definition admin_get_command :: "string \<Rightarrow> command" where
  "admin_get_command s =
     (if strcmp s ''fallbacks'' = 0 then COMMAND_RAW_FALLBACK
      else if strcmp s ''fallbacks.xsl'' = 0 then COMMAND_TRANSFORMED_FALLBACK
      else if strcmp s ''metadata'' = 0 then COMMAND_RAW_METADATA_UPDATE
      else if strcmp s ''metadata.xsl'' = 0 then COMMAND_TRANSFORMED_METADATA_UPDATE
      else if strcmp s ''admin.cgi'' = 0 then COMMAND_SHOUTCAST_METADATA_UPDATE
      else if strcmp s ''listclients'' = 0 then COMMAND_RAW_SHOW_LISTENERS
      else if strcmp s ''listclients.xsl'' = 0 then COMMAND_TRANSFORMED_SHOW_LISTENERS
      else if strcmp s ''stats'' = 0 then COMMAND_RAW_STATS
      else if strcmp s ''stats.xsl'' = 0 then COMMAND_TRANSFORMED_STATS
      else if strcmp s ''stats.xml'' = 0 then COMMAND_RAW_STATS
      else if strcmp s ''listmounts'' = 0 then COMMAND_RAW_LIST_MOUNTS
      else if strcmp s ''listmounts.xsl'' = 0 then COMMAND_TRANSFORMED_LIST_MOUNTS
      else if strcmp s ''streamlist'' = 0 then COMMAND_RAW_LISTSTREAM
      else if strcmp s ''streamlist.txt'' = 0 then COMMAND_PLAINTEXT_LISTSTREAM
      else if strcmp s ''moveclients'' = 0 then COMMAND_RAW_MOVE_CLIENTS
      else if strcmp s ''moveclients.xsl'' = 0 then COMMAND_TRANSFORMED_MOVE_CLIENTS
      else if strcmp s ''killclient'' = 0 then COMMAND_RAW_KILL_CLIENT
      else if strcmp s ''killclient.xsl'' = 0 then COMMAND_TRANSFORMED_KILL_CLIENT
      else if strcmp s ''killsource'' = 0 then COMMAND_RAW_KILL_SOURCE
      else if strcmp s ''killsource.xsl'' = 0 then COMMAND_TRANSFORMED_KILL_SOURCE
      else if strcmp s ''manageauth'' = 0 then COMMAND_RAW_MANAGEAUTH
      else if strcmp s ''manageauth.xsl'' = 0 then COMMAND_TRANSFORMED_MANAGEAUTH
      else if strcmp s ''updatemetadata'' = 0 then COMMAND_RAW_UPDATEMETADATA
      else if strcmp s ''updatemetadata.xsl'' = 0 then COMMAND_TRANSFORMED_UPDATEMETADATA
      else if strcmp s ''buildm3u'' = 0 then COMMAND_BUILDM3U
      else if strcmp s [] = 0 then COMMAND_TRANSFORMED_STATS
      else COMMAND_ERROR)"

section \<open>Documents and replies\<close>

text \<open>An element with its name, properties, text and children.\<close>

datatype xml = Xml string "(string \<times> string) list" "string option" "xml list"

definition xmlNewTextChild :: "string \<Rightarrow> string option \<Rightarrow> xml" where
  "xmlNewTextChild n content = Xml n [] content []"

definition xmlNewNode :: "string \<Rightarrow> xml list \<Rightarrow> xml" where
  "xmlNewNode n children = Xml n [] None children"

definition source_node :: "string \<Rightarrow> xml list \<Rightarrow> xml" where
  "source_node mount children = Xml ''source'' [(''mount'', mount)] None children"

text \<open>
  What the admin code reads of a source besides the registry: the address of its client and the time
  it connected, the type of its content, and whether it is compatible with Shoutcast and has a
  format that takes tags.
\<close>

record source_info =
  si_client :: "(string \<times> int) option"
  si_contenttype :: "string option"
  si_shoutcast_compat :: bool
  si_set_tag :: bool

datatype admin_call =
    Set_tag nat "(string \<times> string) option" "string option"
  | Add_user nat string string
  | Delete_user nat string

record admin_ctx =
  ac_env :: env
  ac_info :: "nat \<Rightarrow> source_info"
  ac_stats :: stats
  ac_dump :: "xml \<Rightarrow> string"
  ac_hostname :: string
  ac_port :: int
  ac_user_result :: "admin_call \<Rightarrow> auth_result"
  ac_user_list :: "nat \<Rightarrow> xml list"

datatype admin_response = RAW | TRANSFORMED | PLAINTEXT

text \<open>
  A reply: what becomes of the client, a document that goes through a style sheet, or the client handed
  to the file server with further buffers. \<open>Waiting\<close> is a client handed to the authenticator.
\<close>

datatype admin_reply = Sent fate | Styled client string xml | Listing client "string list" | Waiting | Nothing

type_synonym admin_result = "world \<times> admin_call list \<times> admin_reply"

definition send_400 :: "admin_ctx \<Rightarrow> client \<Rightarrow> string \<Rightarrow> world \<Rightarrow> admin_reply" where
  "send_400 c client msg w =
     Sent (client_send_400 (fnmatch (ac_env c)) (wconfig w) (date_line (ac_env c)) (env.taken (ac_env c)) client msg)"

definition fmt_lu :: "int \<Rightarrow> string" where
  "fmt_lu i = dec (nat (take_bit 64 i))"

text \<open>\<open>admin_send_response\<close>: the document printed behind headers into a buffer that is made large enough.\<close>

definition admin_send_response :: "admin_ctx \<Rightarrow> client \<Rightarrow> admin_response \<Rightarrow> string \<Rightarrow> xml \<Rightarrow> world \<Rightarrow> admin_reply" where
  "admin_send_response c client response sheet doc w =
     (case response of
        RAW \<Rightarrow>
          let buff = ac_dump c doc;
              len = int (length buff);
              build = (\<lambda>size. util_http_build_header (fnmatch (ac_env c)) (wconfig w) (date_line (ac_env c)) (Some []) (nat size) 0 False 200 None
                         (Some ''text/xml'') (Some ''utf-8'') None None);
              buf_len = (if len + 1024 < 4096 then 4096 else len + 1024);
              (ret, out) = build buf_len
          in if ret = -1 then Sent (client_send_500 (env.taken (ac_env c)) (Some ''Header generation failed.''))
             else
               let (buf_len, ret, out) = (if buf_len < len + ret + 64 then (ret + len + 64, build (ret + len + 64)) else (buf_len, ret, out))
               in if ret = -1 then Sent (client_send_500 (env.taken (ac_env c)) (Some ''Header generation failed.''))
                  else
                    let (written, n) = snprintf (nat (buf_len - ret)) (''Content-Length: '' @ fmt_d len @ [CR, LF, CR, LF] @ buff)
                    in Sent (Queued ((client_set_queue client None)\<lparr>rdata := out @ written, rlen := nat (ret + n), respcode := 200\<rparr>))
      | TRANSFORMED \<Rightarrow> Styled client sheet doc
      | PLAINTEXT \<Rightarrow> Nothing)"

definition html_success :: "admin_ctx \<Rightarrow> client \<Rightarrow> string \<Rightarrow> world \<Rightarrow> admin_reply" where
  "html_success c client message w =
     (let (ret, out) = util_http_build_header (fnmatch (ac_env c)) (wconfig w) (date_line (ac_env c)) (Some (rdata client)) PER_CLIENT_REFBUF_SIZE
            0 False 200 None (Some ''text/html'') (Some ''utf-8'') (Some []) None
      in if ret = -1 \<or> ret \<ge> int PER_CLIENT_REFBUF_SIZE then Sent (client_send_500 (env.taken (ac_env c)) (Some ''Header generation failed.''))
         else
           let data = out @ fst (snprintf (PER_CLIENT_REFBUF_SIZE - nat ret)
                 (''<html><head><title>Admin request successful</title></head><body><p>'' @ message @ ''</p></body></html>''))
           in Sent (Queued (client\<lparr>respcode := 200, rdata := data, rlen := length data\<rparr>)))"

definition response_doc :: "string \<Rightarrow> string \<Rightarrow> xml" where
  "response_doc message ret =
     xmlNewNode ''iceresponse'' [xmlNewTextChild ''message'' (Some message), xmlNewTextChild ''return'' (Some ret)]"

text \<open>The list of sources, without the given one. Every entry of the registry has a source.\<close>

definition sourcelist_node :: "admin_ctx \<Rightarrow> world \<Rightarrow> nat \<Rightarrow> source \<Rightarrow> xml" where
  "sourcelist_node c w a s =
     source_node (smount s)
       ([xmlNewTextChild ''fallback'' (sfallback_mount s), xmlNewTextChild ''listeners'' (Some (dec (unat (slisteners s))))] @
        (case config_find_mount (fnmatch (ac_env c)) (wconfig w) (Some (smount s)) MOUNT_TYPE_NORMAL of
           None \<Rightarrow> []
         | Some m \<Rightarrow> if auth m \<noteq> None then [xmlNewTextChild ''authenticator'' (auth_type m)] else []) @
        (if srunning s then
           (case si_client (ac_info c a) of
              None \<Rightarrow> [] | Some (_, t) \<Rightarrow> [xmlNewTextChild ''Connected'' (Some (fmt_lu (now (ac_env c) - t)))]) @
           [xmlNewTextChild ''content-type'' (si_contenttype (ac_info c a))]
         else []))"

definition admin_build_sourcelist :: "admin_ctx \<Rightarrow> world \<Rightarrow> string option \<Rightarrow> xml" where
  "admin_build_sourcelist c w mount =
     xmlNewNode ''icestats''
       ((case mount of None \<Rightarrow> [] | Some m \<Rightarrow> [xmlNewTextChild ''current_source'' (Some m)]) @
        concat (map (\<lambda>e.
            case sheap (wregistry w) (eaddr e) of
              None \<Rightarrow> []
            | Some s \<Rightarrow>
                if (case mount of None \<Rightarrow> False | Some m \<Rightarrow> strcmp m (smount s) = 0) then []
                else if srunning s \<or> on_demand s then [sourcelist_node c w (eaddr e) s] else [])
          (inorder (root (source_tree (wregistry w))))))"

section \<open>Commands for a mount\<close>

definition put_source :: "nat \<Rightarrow> source \<Rightarrow> world \<Rightarrow> world" where
  "put_source a s w = w\<lparr>wregistry := (wregistry w)\<lparr>sheap := (sheap (wregistry w))(a \<mapsto> s)\<rparr>\<rparr>"

text \<open>\<open>COMMAND_REQUIRE\<close>.\<close>

definition command_require ::
  "admin_ctx \<Rightarrow> client \<Rightarrow> http_parser \<Rightarrow> world \<Rightarrow> string \<Rightarrow> (string \<Rightarrow> admin_result option) \<Rightarrow> admin_result option" where
  "command_require c client p w n k =
     (case httpp_get_query_param p n of
        None \<Rightarrow> Some (w, [], send_400 c client ''Missing parameter'' w)
      | Some v \<Rightarrow> k v)"

definition command_fallback :: "admin_ctx \<Rightarrow> client \<Rightarrow> http_parser \<Rightarrow> nat \<Rightarrow> source \<Rightarrow> world \<Rightarrow> admin_result option" where
  "command_fallback c client p a s w =
     command_require c client p w ''fallback'' (\<lambda>fallback.
       let w = put_source a (s\<lparr>sfallback_mount := Some fallback\<rparr>) w
       in Some (w, [], html_success c client ''Fallback configured'' w))"

definition listener_count :: "source \<Rightarrow> nat" where
  "listener_count s = length (inorder (root (pending_tree s))) + length (inorder (root (client_tree s)))"

definition command_move_clients ::
  "admin_ctx \<Rightarrow> client \<Rightarrow> http_parser \<Rightarrow> nat \<Rightarrow> source \<Rightarrow> admin_response \<Rightarrow> world \<Rightarrow> admin_result option" where
  "command_move_clients c client p a s response w =
     (case httpp_get_query_param p ''destination'' of
        None \<Rightarrow>
          Some (w, [], admin_send_response c client response ''moveclients.xsl'' (admin_build_sourcelist c w (Some (smount s))) w)
      | Some dest_source \<Rightarrow>
          (case source_find_mount (fnmatch (ac_env c)) (wconfig w) (wregistry w) (Some dest_source) of
             None \<Rightarrow> Some (w, [], send_400 c client ''No such destination'' w)
           | Some b \<Rightarrow>
               (case sheap (wregistry w) b of
                  None \<Rightarrow> None
                | Some dest \<Rightarrow>
                    if strcmp (smount dest) (smount s) = 0 then Some (w, [], send_400 c client ''supplied mountpoints are identical'' w)
                    else if \<not> srunning dest \<and> \<not> on_demand dest then Some (w, [], send_400 c client ''Destination not running'' w)
                    else
                      (case source_move_clients (listener_count s) s dest of
                         None \<Rightarrow> None
                       | Some (s', dest') \<Rightarrow>
                           let w = put_source b dest' (put_source a s' w);
                               message = fst (snprintf 255 (''Clients moved from '' @ smount s @ '' to '' @ dest_source))
                           in Some (w, [], admin_send_response c client response ''response.xsl'' (response_doc message ''1'') w)))))"

definition listener_node :: "admin_ctx \<Rightarrow> http_parser \<Rightarrow> client \<Rightarrow> xml" where
  "listener_node c p cl =
     xmlNewNode ''listener''
       ([xmlNewTextChild ''IP'' (Some (ip (con cl))),
         xmlNewTextChild ''UserAgent'' (case httpp_getvar p ''user-agent'' of None \<Rightarrow> Some ''Unknown'' | Some ua \<Rightarrow> Some ua),
         xmlNewTextChild ''Connected'' (Some (fmt_lu (now (ac_env c) - con_time (con cl)))),
         xmlNewTextChild ''ID'' (Some (dec (unat (con_id (con cl)))))] @
        (case cusername cl of None \<Rightarrow> [] | Some u \<Rightarrow> [xmlNewTextChild ''username'' (Some u)]))"

definition command_show_listeners ::
  "admin_ctx \<Rightarrow> client \<Rightarrow> source \<Rightarrow> admin_response \<Rightarrow> world \<Rightarrow> admin_result option" where
  "command_show_listeners c client s response w =
     (if \<exists>cl\<in>set (inorder (root (client_tree s))). parser cl = None then None
      else
        let doc = xmlNewNode ''icestats'' [source_node (smount s)
              (xmlNewTextChild ''Listeners'' (Some (dec (unat (slisteners s)))) #
               map (\<lambda>cl. listener_node c (the (parser cl)) cl) (inorder (root (client_tree s))))]
        in Some (w, [], admin_send_response c client response ''listclients.xsl'' doc w))"

text \<open>The error flag of the connection is set in place, in the entry of the tree.\<close>

definition mark_client :: "u64 \<Rightarrow> source \<Rightarrow> source" where
  "mark_client i s =
     s\<lparr>client_tree := poke (\<lambda>cl. con_id (con cl) = i) (\<lambda>cl. cl\<lparr>con := (con cl)\<lparr>con_error := True\<rparr>\<rparr>) (client_tree s)\<rparr>"

definition command_kill_client ::
  "admin_ctx \<Rightarrow> client \<Rightarrow> http_parser \<Rightarrow> nat \<Rightarrow> source \<Rightarrow> admin_response \<Rightarrow> world \<Rightarrow> admin_result option" where
  "command_kill_client c client p a s response w =
     command_require c client p w ''id'' (\<lambda>idtext.
       let i = atoi32 idtext;
           fake = client\<lparr>con := (con client)\<lparr>con_id := word_of_int i\<rparr>\<rparr>;
           reply = (\<lambda>w text ret. Some (w, [], admin_send_response c client response ''response.xsl'' (response_doc (fst (snprintf 49 text)) ret) w))
       in case source_find_client s fake of
            Some listener \<Rightarrow> reply (put_source a (mark_client (word_of_int i) s) w) (''Client '' @ fmt_d i @ '' removed'') ''1''
          | None \<Rightarrow> reply w (''Client '' @ fmt_d i @ '' not found'') ''0'')"

definition command_kill_source :: "admin_ctx \<Rightarrow> client \<Rightarrow> nat \<Rightarrow> source \<Rightarrow> admin_response \<Rightarrow> world \<Rightarrow> admin_result option" where
  "command_kill_source c client a s response w =
     (let w = put_source a (s\<lparr>srunning := False\<rparr>) w
      in Some (w, [], admin_send_response c client response ''response.xsl'' (response_doc ''Source Removed'' ''1'') w))"

text \<open>No password is asked for: the playlist holds the one the request names.\<close>

definition command_buildm3u :: "admin_ctx \<Rightarrow> client \<Rightarrow> http_parser \<Rightarrow> string \<Rightarrow> world \<Rightarrow> admin_result option" where
  "command_buildm3u c client p mount w =
     command_require c client p w ''username'' (\<lambda>user.
     command_require c client p w ''password'' (\<lambda>pass.
       let (ret, out) = util_http_build_header (fnmatch (ac_env c)) (wconfig w) (date_line (ac_env c)) (Some (rdata client)) PER_CLIENT_REFBUF_SIZE
              0 False 200 None (Some ''audio/x-mpegurl'') None None None
       in Some (w, [],
            if ret = -1 \<or> ret \<ge> int PER_CLIENT_REFBUF_SIZE - 512 then Sent (client_send_500 (env.taken (ac_env c)) (Some ''Header generation failed.''))
            else
              let data = out @ fst (snprintf (PER_CLIENT_REFBUF_SIZE - nat ret)
                    (''Content-Disposition = attachment; filename=listen.m3u'' @ [CR, LF, CR, LF] @ ''http://'' @ user @ '':'' @ pass @ ''@'' @
                     ac_hostname c @ '':'' @ fmt_d (ac_port c) @ mount @ [CR, LF]))
              in Sent (Queued (client\<lparr>respcode := 200, rdata := data, rlen := length data\<rparr>)))))"

definition user_message :: "string \<Rightarrow> auth_result \<Rightarrow> string option" where
  "user_message action ret =
     (if strcmp action ''add'' = 0 then
        (if ret = AUTH_FAILED then Some ''User add failed - check the icecast error log''
         else if ret = AUTH_USERADDED then Some ''User added''
         else if ret = AUTH_USEREXISTS then Some ''User already exists - not added'' else None)
      else if strcmp action ''delete'' = 0 then
        (if ret = AUTH_FAILED then Some ''User delete failed - check the icecast error log''
         else if ret = AUTH_USERDELETED then Some ''User deleted'' else None)
      else None)"

definition command_manageauth ::
  "admin_ctx \<Rightarrow> client \<Rightarrow> http_parser \<Rightarrow> source \<Rightarrow> admin_response \<Rightarrow> world \<Rightarrow> admin_result option" where
  "command_manageauth c client p s response w =
     (case Option.bind (config_find_mount (fnmatch (ac_env c)) (wconfig w) (Some (smount s)) MOUNT_TYPE_NORMAL) auth of
        None \<Rightarrow> Some (w, [], send_400 c client ''missing parameter'' w)
      | Some i \<Rightarrow>
          let action = (case httpp_get_query_param p ''action'' of None \<Rightarrow> ''list'' | Some x \<Rightarrow> x);
              user = httpp_get_query_param p ''username'';
              call = (if strcmp action ''add'' = 0 then
                        (case (user, httpp_get_query_param p ''password'') of
                           (Some u, Some pw) \<Rightarrow> Some [Add_user i u pw] | _ \<Rightarrow> None)
                      else if strcmp action ''delete'' = 0 then
                        (case user of Some u \<Rightarrow> Some [Delete_user i u] | None \<Rightarrow> None)
                      else Some [])
          in (case call of
                None \<Rightarrow> Some (w, [], send_400 c client ''missing parameter'' w)
              | Some calls \<Rightarrow>
                  let message = (case calls of [] \<Rightarrow> None | x # _ \<Rightarrow> user_message action (ac_user_result c x));
                      doc = xmlNewNode ''icestats'' (source_node (smount s) (ac_user_list c i) #
                        (case message of None \<Rightarrow> [] | Some m \<Rightarrow> [xmlNewNode ''iceresponse'' [xmlNewTextChild ''message'' (Some m)]]))
                  in Some (w, calls, admin_send_response c client response ''manageauth.xsl'' doc w)))"

text \<open>Whether an update of the metadata comes from the address of the source.\<close>

definition other_ip :: "admin_ctx \<Rightarrow> nat \<Rightarrow> client \<Rightarrow> bool" where
  "other_ip c a client \<longleftrightarrow>
     (case si_client (ac_info c a) of None \<Rightarrow> False | Some (i, _) \<Rightarrow> strcmp (ip (con client)) i \<noteq> 0)"

definition command_metadata ::
  "admin_ctx \<Rightarrow> client \<Rightarrow> http_parser \<Rightarrow> nat \<Rightarrow> admin_response \<Rightarrow> world \<Rightarrow> admin_result option" where
  "command_metadata c client p a response w =
     command_require c client p w ''mode'' (\<lambda>action.
       let reply = (\<lambda>text ret. admin_send_response c client response ''response.xsl'' (response_doc text ret) w);
           cset = httpp_get_query_param p ''charset'';
           same_ip = \<not> (other_ip c a client \<and> response = RAW \<and> connection_check_admin_pass (wconfig w) p = 0)
       in if strcmp action ''updinfo'' \<noteq> 0 then Some (w, [], reply ''No such action'' ''0'')
          else if same_ip \<and> si_set_tag (ac_info c a) then
            let tags = (case httpp_get_query_param p ''song'' of
                  Some song \<Rightarrow> [Set_tag a (Some (''song'', song)) cset]
                | None \<Rightarrow>
                    (case (httpp_get_query_param p ''artist'', httpp_get_query_param p ''title'') of
                       (Some artist, Some title) \<Rightarrow> [Set_tag a (Some (''title'', title)) cset, Set_tag a (Some (''artist'', artist)) cset]
                     | _ \<Rightarrow> []))
            in Some (w, tags @ [Set_tag a None None], reply ''Metadata update successful'' ''1'')
          else Some (w, [], reply ''Mountpoint will not accept URL updates'' ''1''))"

definition command_shoutcast_metadata ::
  "admin_ctx \<Rightarrow> client \<Rightarrow> http_parser \<Rightarrow> nat \<Rightarrow> world \<Rightarrow> admin_result option" where
  "command_shoutcast_metadata c client p a w =
     command_require c client p w ''mode'' (\<lambda>action.
     command_require c client p w ''song'' (\<lambda>v.
       let same_ip = \<not> (other_ip c a client \<and> connection_check_admin_pass (wconfig w) p = 0)
       in if strcmp action ''updinfo'' \<noteq> 0 then Some (w, [], send_400 c client ''No such action'' w)
          else if same_ip \<and> si_set_tag (ac_info c a) then
            Some (w, [Set_tag a (Some (''title'', v)) None, Set_tag a None None], html_success c client ''Metadata update successful'' w)
          else Some (w, [], send_400 c client ''mountpoint will not accept URL updates'' w)))"

definition command_updatemetadata :: "admin_ctx \<Rightarrow> client \<Rightarrow> source \<Rightarrow> admin_response \<Rightarrow> world \<Rightarrow> admin_result option" where
  "command_updatemetadata c client s response w =
     Some (w, [], admin_send_response c client response ''updatemetadata.xsl'' (xmlNewNode ''icestats'' [source_node (smount s) []]) w)"

section \<open>General commands\<close>

text \<open>\<open>stats_get_xml\<close> with the hidden values shown.\<close>

definition stats_child_node :: "stats_child \<Rightarrow> xml" where
  "stats_child_node x =
     (case x of
        TextChild n v \<Rightarrow> xmlNewTextChild n (Some v)
      | SourceChild m kids \<Rightarrow> source_node m (map (\<lambda>(n, v). xmlNewTextChild n (Some v)) kids))"

definition stats_get_xml :: "stats \<Rightarrow> int \<Rightarrow> string option \<Rightarrow> xml" where
  "stats_get_xml s show_hidden show_mount = xmlNewNode ''icestats'' (map stats_child_node (dump_stats_to_doc s show_mount show_hidden))"

definition command_stats :: "admin_ctx \<Rightarrow> client \<Rightarrow> string option \<Rightarrow> admin_response \<Rightarrow> world \<Rightarrow> admin_result option" where
  "command_stats c client mount response w =
     Some (w, [], admin_send_response c client response ''stats.xsl'' (stats_get_xml (ac_stats c) 1 mount) w)"

definition list_mounts :: "admin_ctx \<Rightarrow> client \<Rightarrow> admin_response \<Rightarrow> world \<Rightarrow> admin_result option" where
  "list_mounts c client response w =
     (if response = PLAINTEXT then
        (case command_list_mounts (fnmatch (ac_env c)) (wconfig w) (date_line (ac_env c)) (env.taken (ac_env c)) (ac_stats c) client of
           None \<Rightarrow> None
         | Some (Inl f) \<Rightarrow> Some (w, [], Sent f)
         | Some (Inr (out, bs)) \<Rightarrow>
             Some (w, [], Listing (client\<lparr>respcode := 200, rdata := out, rlen := length out\<rparr>) bs))
      else Some (w, [], admin_send_response c client response ''listmounts.xsl'' (admin_build_sourcelist c w None) w))"

section \<open>Dispatch\<close>

definition admin_handle_general_request :: "admin_ctx \<Rightarrow> client \<Rightarrow> command \<Rightarrow> world \<Rightarrow> admin_result option" where
  "admin_handle_general_request c client command w =
     (case command of
        COMMAND_RAW_STATS \<Rightarrow> command_stats c client None RAW w
      | COMMAND_RAW_LIST_MOUNTS \<Rightarrow> list_mounts c client RAW w
      | COMMAND_RAW_LISTSTREAM \<Rightarrow> list_mounts c client RAW w
      | COMMAND_PLAINTEXT_LISTSTREAM \<Rightarrow> list_mounts c client PLAINTEXT w
      | COMMAND_TRANSFORMED_STATS \<Rightarrow> command_stats c client None TRANSFORMED w
      | COMMAND_TRANSFORMED_LIST_MOUNTS \<Rightarrow> list_mounts c client TRANSFORMED w
      | COMMAND_TRANSFORMED_LISTSTREAM \<Rightarrow> list_mounts c client TRANSFORMED w
      | COMMAND_TRANSFORMED_MOVE_CLIENTS \<Rightarrow> list_mounts c client TRANSFORMED w
      | _ \<Rightarrow> Some (w, [], send_400 c client ''Unknown admin request'' w))"

definition admin_handle_mount_request ::
  "admin_ctx \<Rightarrow> client \<Rightarrow> http_parser \<Rightarrow> nat \<Rightarrow> source \<Rightarrow> command \<Rightarrow> world \<Rightarrow> admin_result option" where
  "admin_handle_mount_request c client p a s command w =
     (case command of
        COMMAND_RAW_STATS \<Rightarrow> command_stats c client (Some (smount s)) RAW w
      | COMMAND_RAW_FALLBACK \<Rightarrow> command_fallback c client p a s w
      | COMMAND_RAW_METADATA_UPDATE \<Rightarrow> command_metadata c client p a RAW w
      | COMMAND_TRANSFORMED_METADATA_UPDATE \<Rightarrow> command_metadata c client p a TRANSFORMED w
      | COMMAND_SHOUTCAST_METADATA_UPDATE \<Rightarrow> command_shoutcast_metadata c client p a w
      | COMMAND_RAW_SHOW_LISTENERS \<Rightarrow> command_show_listeners c client s RAW w
      | COMMAND_RAW_MOVE_CLIENTS \<Rightarrow> command_move_clients c client p a s RAW w
      | COMMAND_RAW_KILL_CLIENT \<Rightarrow> command_kill_client c client p a s RAW w
      | COMMAND_RAW_KILL_SOURCE \<Rightarrow> command_kill_source c client a s RAW w
      | COMMAND_TRANSFORMED_STATS \<Rightarrow> command_stats c client (Some (smount s)) TRANSFORMED w
      | COMMAND_TRANSFORMED_FALLBACK \<Rightarrow> command_fallback c client p a s w
      | COMMAND_TRANSFORMED_SHOW_LISTENERS \<Rightarrow> command_show_listeners c client s TRANSFORMED w
      | COMMAND_TRANSFORMED_MOVE_CLIENTS \<Rightarrow> command_move_clients c client p a s TRANSFORMED w
      | COMMAND_TRANSFORMED_KILL_CLIENT \<Rightarrow> command_kill_client c client p a s TRANSFORMED w
      | COMMAND_TRANSFORMED_KILL_SOURCE \<Rightarrow> command_kill_source c client a s TRANSFORMED w
      | COMMAND_TRANSFORMED_MANAGEAUTH \<Rightarrow> command_manageauth c client p s TRANSFORMED w
      | COMMAND_RAW_MANAGEAUTH \<Rightarrow> command_manageauth c client p s RAW w
      | COMMAND_TRANSFORMED_UPDATEMETADATA \<Rightarrow> command_updatemetadata c client s TRANSFORMED w
      | COMMAND_RAW_UPDATEMETADATA \<Rightarrow> command_updatemetadata c client s RAW w
      | _ \<Rightarrow> Some (w, [], send_400 c client ''Mount request unknown'' w))"

text \<open>A Shoutcast client names its password in the request; its mount comes from the configuration.\<close>

definition shoutcast_login :: "admin_ctx \<Rightarrow> client \<Rightarrow> http_parser \<Rightarrow> string \<Rightarrow> world \<Rightarrow> http_parser option" where
  "shoutcast_login c client p pass w =
     (let sc_mount =
            (case config_get_listen_sock (listen_sock (wconfig w)) (serversock (wglobal w)) (con_serversock (con client)) of
               None \<Rightarrow> shoutcast_mount (wconfig w)
             | Some l \<Rightarrow> (case lshoutcast_mount l of None \<Rightarrow> shoutcast_mount (wconfig w) | Some m \<Rightarrow> Some m))
      in case sc_mount of
           None \<Rightarrow> None
         | Some m \<Rightarrow>
             Some (httpp_setvar (httpp_setvar (httpp_set_query_param p ''mount'' m) HTTPP_VAR_PROTOCOL ''ICY'') ''__icy_password'' pass))"

text \<open>A request for a mount: the password first, then the source, then the command.\<close>

definition run_mount_command ::
  "admin_ctx \<Rightarrow> client \<Rightarrow> http_parser \<Rightarrow> string \<Rightarrow> command \<Rightarrow> world \<Rightarrow> admin_result option" where
  "run_mount_command c client p mount command w =
     (case source_find_mount_raw (wregistry w) (Some mount) of
        None \<Rightarrow> Some (w, [], send_400 c client ''Source does not exist'' w)
      | Some a \<Rightarrow>
          (case sheap (wregistry w) a of
             None \<Rightarrow> None
           | Some s \<Rightarrow>
               if \<not> srunning s \<and> \<not> on_demand s then Some (w, [], send_400 c client ''Source is not available'' w)
               else if command = COMMAND_SHOUTCAST_METADATA_UPDATE \<and> \<not> si_shoutcast_compat (ac_info c a) then
                 Some (w, [], send_400 c client ''illegal metadata call'' w)
               else admin_handle_mount_request c client p a s command w))"

definition send_401_reply :: "admin_ctx \<Rightarrow> client \<Rightarrow> world \<Rightarrow> admin_reply" where
  "send_401_reply c client w =
     Sent (client_send_401 (fnmatch (ac_env c)) (wconfig w) (date_line (ac_env c)) (env.taken (ac_env c)) client)"

definition admin_run :: "admin_ctx \<Rightarrow> client \<Rightarrow> http_parser \<Rightarrow> command \<Rightarrow> world \<Rightarrow> admin_result option" where
  "admin_run c client p command w =
     (case httpp_get_query_param p ''mount'' of
        Some mount \<Rightarrow>
          if command = COMMAND_BUILDM3U then command_buildm3u c client p mount w
          else if \<not> authenticated client \<and> connection_check_admin_pass (wconfig w) p = 0 then
            (case client_check_source_auth (ac_env c) client mount w of
               None \<Rightarrow> None
             | Some (res, w) \<Rightarrow>
                 if res = 0 then run_mount_command c client p mount command w
                 else if res = 1 then Some (w, [], Waiting)
                 else Some (w, [], send_401_reply c client w))
          else run_mount_command c client p mount command w
      | None \<Rightarrow>
          if command = COMMAND_PLAINTEXT_LISTSTREAM then
            (if connection_check_relay_pass (wconfig w) p = 0 then Some (w, [], send_401_reply c client w)
             else admin_handle_general_request c client command w)
          else if connection_check_admin_pass (wconfig w) p = 0 then Some (w, [], send_401_reply c client w)
          else admin_handle_general_request c client command w)"

definition admin_handle_request :: "admin_ctx \<Rightarrow> client \<Rightarrow> string \<Rightarrow> world \<Rightarrow> admin_result option" where
  "admin_handle_request c client u w =
     (if \<not> (strcmp u ''/admin.cgi'' = 0 \<or> strncmp ''/admin/'' u 7 = 0) then Some (w, [], send_401_reply c client w)
      else
        let command = admin_get_command (if strcmp u ''/admin.cgi'' = 0 then drop 1 u else drop 7 u)
        in if command = COMMAND_ERROR then Some (w, [], send_400 c client ''Unrecognised command'' w)
           else
             (case parser client of
                None \<Rightarrow> None
              | Some p \<Rightarrow>
                  if command = COMMAND_SHOUTCAST_METADATA_UPDATE then
                    (case httpp_get_query_param p ''pass'' of
                       None \<Rightarrow> Some (w, [], send_400 c client ''missing pass parameter'' w)
                     | Some pass \<Rightarrow>
                         (case shoutcast_login c client p pass w of
                            None \<Rightarrow> None
                          | Some p \<Rightarrow> admin_run c (client\<lparr>parser := Some p\<rparr>) p command w))
                  else admin_run c client p command w))"

end
