(* ===== verification/Admin_Props.thy ===== *)
theory Admin_Props
  imports Admin
begin

text \<open>
  The facts of the admin interface: nothing happens without a password, a command changes no other
  source than the one it is for, replies are complete, and every request is answered.
\<close>

section \<open>Who may give a command\<close>

text \<open>The command of a path, and the parser of the client after a Shoutcast client has logged in.\<close>

definition admin_command :: "string \<Rightarrow> command" where
  "admin_command u = admin_get_command (if u = ''/admin.cgi'' then drop 1 u else drop 7 u)"

definition admin_parser :: "admin_ctx \<Rightarrow> client \<Rightarrow> http_parser \<Rightarrow> command \<Rightarrow> world \<Rightarrow> http_parser option" where
  "admin_parser c client p command w =
     (if command = COMMAND_SHOUTCAST_METADATA_UPDATE
      then Option.bind (httpp_get_query_param p ''pass'') (\<lambda>pass. shoutcast_login c client p pass w) else Some p)"

text \<open>
  The admin password, a client whose authenticator has accepted it, the password of the source for
  a command on a mount, and the relay password for the list of mounts.
\<close>

definition permitted :: "admin_ctx \<Rightarrow> client \<Rightarrow> http_parser \<Rightarrow> command \<Rightarrow> world \<Rightarrow> bool" where
  "permitted c client p command w \<longleftrightarrow>
     (case httpp_get_query_param p ''mount'' of
        Some m \<Rightarrow> authenticated client \<or> connection_check_admin_pass (wconfig w) p \<noteq> 0 \<or>
          (\<exists>w1. client_check_source_auth (ac_env c) (client\<lparr>parser := Some p\<rparr>) m w = Some (0, w1))
      | None \<Rightarrow> if command = COMMAND_PLAINTEXT_LISTSTREAM then connection_check_relay_pass (wconfig w) p \<noteq> 0
                else connection_check_admin_pass (wconfig w) p \<noteq> 0)"

definition refused :: "admin_ctx \<Rightarrow> admin_reply \<Rightarrow> bool" where
  "refused c reply \<longleftrightarrow> reply = Waiting \<or> (\<exists>cl w. reply = send_401_reply c cl w) \<or> (\<exists>cl m w. reply = send_400 c cl m w)"

lemma refused_intros [simp]: "refused c Waiting" "refused c (send_401_reply c cl w)" "refused c (send_400 c cl m w)"
  unfolding refused_def by blast+

lemma client_check_source_auth_frame:
  "client_check_source_auth env cl m w = Some (res, w') \<Longrightarrow> wregistry w' = wregistry w \<and> wconfig w' = wconfig w \<and> wglobal w' = wglobal w"
  by (auto simp: client_check_source_auth_def auth_stream_authenticate_def Let_def split: option.splits if_splits)

lemma same_parser: "parser client = Some p \<Longrightarrow> client\<lparr>parser := Some p\<rparr> = client"
  by (cases client) simp

lemma buildm3u_frame: "command_buildm3u c client p m w = Some (w', calls, reply) \<Longrightarrow> w' = w \<and> calls = []"
  by (auto simp: command_buildm3u_def command_require_def split: option.splits prod.splits)

lemma admin_run_refused:
  assumes "admin_run c (client\<lparr>parser := Some p\<rparr>) p command w = Some (w', calls, reply)" and "\<not> permitted c client p command w"
  shows "wregistry w' = wregistry w \<and> wconfig w' = wconfig w \<and> calls = [] \<and> (command = COMMAND_BUILDM3U \<or> refused c reply)"
proof (cases "httpp_get_query_param p ''mount''")
  case None
  then show ?thesis using assms by (auto simp: admin_run_def permitted_def split: if_splits)
next
  case (Some m)
  show ?thesis
  proof (cases "command = COMMAND_BUILDM3U")
    case True
    then show ?thesis using assms(1) Some buildm3u_frame [of c "client\<lparr>parser := Some p\<rparr>" p m w] by (auto simp: admin_run_def)
  next
    case False
    then show ?thesis using assms Some client_check_source_auth_frame [of "ac_env c" "client\<lparr>parser := Some p\<rparr>" m w]
      by (auto simp: admin_run_def permitted_def split: option.splits prod.splits if_splits)
  qed
qed

lemma admin_handle_eq:
  assumes "parser client = Some p"
  shows "admin_handle_request c client u w =
    (if \<not> (u = ''/admin.cgi'' \<or> strncmp ''/admin/'' u 7 = 0) then Some (w, [], send_401_reply c client w)
     else if admin_command u = COMMAND_ERROR then Some (w, [], send_400 c client ''Unrecognised command'' w)
     else (case admin_parser c client p (admin_command u) w of
             Some p' \<Rightarrow> admin_run c (client\<lparr>parser := Some p'\<rparr>) p' (admin_command u) w
           | None \<Rightarrow> if httpp_get_query_param p ''pass'' = None then Some (w, [], send_400 c client ''missing pass parameter'' w) else None))"
  by (simp add: admin_handle_request_def admin_command_def admin_parser_def Let_def assms same_parser [OF assms] split: option.split)

lemma admin_handle_run:
  assumes "parser client = Some p" and "admin_handle_request c client u w = Some r"
  shows "fst r = w \<and> fst (snd r) = [] \<and> refused c (snd (snd r)) \<or>
    admin_command u \<noteq> COMMAND_ERROR \<and>
    (\<exists>p'. admin_parser c client p (admin_command u) w = Some p' \<and> admin_run c (client\<lparr>parser := Some p'\<rparr>) p' (admin_command u) w = Some r)"
  using assms(2) unfolding admin_handle_eq [OF assms(1)] by (auto split: option.splits if_splits)

section \<open>What a command changes\<close>

text \<open>The sources at the addresses of \<open>S\<close> may change, but keep their mounts.\<close>

definition confined :: "nat set \<Rightarrow> source_registry \<Rightarrow> source_registry \<Rightarrow> bool" where
  "confined S reg reg' \<longleftrightarrow> source_tree reg' = source_tree reg \<and> (\<forall>b. b \<notin> S \<longrightarrow> sheap reg' b = sheap reg b) \<and>
     (\<forall>b s. sheap reg b = Some s \<longrightarrow> (\<exists>s'. sheap reg' b = Some s' \<and> smount s' = smount s))"

lemma confined_refl [simp]: "confined S reg reg"
  by (auto simp: confined_def)

lemma confined_put: "a \<in> S \<Longrightarrow> sheap (wregistry w) a = Some s \<Longrightarrow> smount s' = smount s \<Longrightarrow>
    confined S (wregistry w) (wregistry (put_source a s' w))"
  by (auto simp: confined_def put_source_def)

lemma confined_ok: "confined S reg reg' \<Longrightarrow> registry_ok reg \<Longrightarrow> registry_ok reg' \<and> mount_of reg' = mount_of reg"
  unfolding confined_def registry_ok_def mount_of_def by (auto, metis)

lemma put_source_simps [simp]: "wconfig (put_source a s w) = wconfig w" "wauths (put_source a s w) = wauths w"
  "wglobal (put_source a s w) = wglobal w"
  by (simp_all add: put_source_def)

lemma move_mounts: "source_move_clients fuel s d = Some (s', d') \<Longrightarrow> smount s' = smount s \<and> smount d' = smount d"
  by (auto simp: source_move_clients_def split: if_splits option.splits)

lemma find_mount_heap: "find_mount_loop fnm config reg n m = Some b \<Longrightarrow> sheap reg b \<noteq> None"
  by (induction n arbitrary: m) (auto simp: source_active_def split: option.splits if_splits elim: find_mount_loop.elims)

definition move_target :: "admin_ctx \<Rightarrow> http_parser \<Rightarrow> world \<Rightarrow> nat set" where
  "move_target c p w =
     (case httpp_get_query_param p ''destination'' of
        None \<Rightarrow> {} | Some d \<Rightarrow> set_option (source_find_mount (fnmatch (ac_env c)) (wconfig w) (wregistry w) (Some d)))"

lemma move_confined:
  assumes "command_move_clients c client p a s response w = Some (w', calls, reply)" and "sheap (wregistry w) a = Some s"
  shows "confined (insert a (move_target c p w)) (wregistry w) (wregistry w')"
proof -
  have "confined (insert a (move_target c p w)) (wregistry w) (wregistry (put_source b d' (put_source a s' w)))"
    if "source_move_clients (listener_count s) s d = Some (s', d')" "sheap (wregistry w) b = Some d" "smount d \<noteq> smount s"
       "httpp_get_query_param p ''destination'' = Some x"
       "source_find_mount (fnmatch (ac_env c)) (wconfig w) (wregistry w) (Some x) = Some b" for b d s' d' x
    using that assms(2) move_mounts [OF that(1)] by (auto simp: confined_def put_source_def move_target_def)
  then show ?thesis using assms
    by (auto simp: command_move_clients_def Let_def split: option.splits if_splits)
qed

lemma mount_request_confined:
  assumes "admin_handle_mount_request c client p a s command w = Some (w', calls, reply)" and "sheap (wregistry w) a = Some s"
  shows "confined (insert a (move_target c p w)) (wregistry w) (wregistry w') \<and> wconfig w' = wconfig w"
proof -
  have put: "confined (insert a (move_target c p w)) (wregistry w) (wregistry (put_source a s' w))" if "smount s' = smount s" for s'
    using confined_put [OF _ assms(2) that] by simp
  show ?thesis
  proof (cases "command \<in> {COMMAND_RAW_MOVE_CLIENTS, COMMAND_TRANSFORMED_MOVE_CLIENTS}")
    case True
    then obtain r where m: "command_move_clients c client p a s r w = Some (w', calls, reply)"
      using assms(1) by (auto simp: admin_handle_mount_request_def)
    have "wconfig w' = wconfig w" using m by (auto simp: command_move_clients_def Let_def split: option.splits if_splits)
    with move_confined [OF m assms(2)] show ?thesis by simp
  next
    case False
    then show ?thesis using assms(1) put
      by (cases command) (auto simp: admin_handle_mount_request_def command_stats_def command_fallback_def command_metadata_def
          command_shoutcast_metadata_def command_show_listeners_def command_kill_client_def command_kill_source_def command_manageauth_def
          command_updatemetadata_def command_require_def mark_client_def Let_def split: option.splits if_splits)
  qed
qed

lemma run_mount_confined:
  assumes "run_mount_command c client p m command w = Some (w', calls, reply)"
  shows "wconfig w' = wconfig w \<and> (wregistry w' = wregistry w \<or>
    (\<exists>a. source_find_mount_raw (wregistry w) (Some m) = Some a \<and> confined (insert a (move_target c p w)) (wregistry w) (wregistry w')))"
  using assms mount_request_confined [of c client p _ _ command w w' calls reply]
  by (auto simp: run_mount_command_def split: option.splits if_splits)

lemma general_frame: "admin_handle_general_request c client command w = Some (w', calls, reply) \<Longrightarrow> w' = w \<and> calls = []"
  by (cases command) (auto simp: admin_handle_general_request_def command_stats_def list_mounts_def split: option.splits sum.splits)

lemma admin_run_confined:
  assumes "admin_run c client p command w = Some (w', calls, reply)"
  shows "wconfig w' = wconfig w \<and> (wregistry w' = wregistry w \<or>
    (\<exists>m a. httpp_get_query_param p ''mount'' = Some m \<and> source_find_mount_raw (wregistry w) (Some m) = Some a \<and>
       confined (insert a (move_target c p w)) (wregistry w) (wregistry w')))"
proof (cases "httpp_get_query_param p ''mount''")
  case None
  then show ?thesis using assms general_frame [of c client command w w' calls reply] by (auto simp: admin_run_def split: if_splits)
next
  case (Some m)
  have same: "move_target c p w1 = move_target c p w" if "wregistry w1 = wregistry w" "wconfig w1 = wconfig w" for w1
    using that by (cases "httpp_get_query_param p ''destination''") (simp_all add: move_target_def)
  show ?thesis
  proof (cases "command = COMMAND_BUILDM3U")
    case True
    then show ?thesis using assms Some buildm3u_frame [of c client p m w w' calls reply] by (auto simp: admin_run_def)
  next
    case False
    then consider "run_mount_command c client p m command w = Some (w', calls, reply)"
      | w1 where "client_check_source_auth (ac_env c) client m w = Some (0, w1)" "run_mount_command c client p m command w1 = Some (w', calls, reply)"
      | res where "client_check_source_auth (ac_env c) client m w = Some (res, w')"
      using assms Some by (auto simp: admin_run_def split: option.splits prod.splits if_splits)
    then show ?thesis
    proof cases
      case 1
      from run_mount_confined [OF this] Some show ?thesis by auto
    next
      case 2
      note f = client_check_source_auth_frame [OF 2(1)]
      from run_mount_confined [OF 2(2)] f same [of w1] Some show ?thesis by auto
    next
      case 3
      from client_check_source_auth_frame [OF this] show ?thesis by simp
    qed
  qed
qed

section \<open>Listeners\<close>

lemma find_client_spec:
  assumes "clients_ok (client_tree s)"
  shows "(source_find_client s fake \<noteq> None) \<longleftrightarrow> (\<exists>cl\<in>set (inorder (root (client_tree s))). con_id (con cl) = con_id (con fake))"
proof -
  have "key_compare (compare_fun (client_tree s))" "avl_invar (client_tree s)" "compare_fun (client_tree s) = compare_clients"
    using assms compare_clients_ok by (auto simp: clients_ok_def)
  from avl_get_by_key_cases [OF this(1,2), of fake] this(3) show ?thesis
    by (auto simp: source_find_client_def compare_clients_eq split: option.splits)
qed

lemma sorted_map_same:
  "(\<And>x y. cmp (f x) (f y) = cmp x y) \<Longrightarrow> sorted_wrt (\<lambda>x y. cmp x y \<le> (0::int)) (map f xs) = sorted_wrt (\<lambda>x y. cmp x y \<le> 0) xs"
  by (simp add: sorted_wrt_map)

lemma mark_client_ok:
  assumes "clients_ok (client_tree s)"
  shows "clients_ok (client_tree (mark_client i s))"
    and "inorder (root (client_tree (mark_client i s))) =
      map (\<lambda>cl. if con_id (con cl) = i then cl\<lparr>con := (con cl)\<lparr>con_error := True\<rparr>\<rparr> else cl) (inorder (root (client_tree s)))"
proof -
  let ?f = "\<lambda>cl. if con_id (con cl) = i then cl\<lparr>con := (con cl)\<lparr>con_error := True\<rparr>\<rparr> else cl"
  have i: "inorder (root (client_tree (mark_client i s))) = map ?f (inorder (root (client_tree s)))"
    by (simp add: mark_client_def poke_def)
  have cmp: "compare_clients (?f x) (?f y) = compare_clients x y" for x y
    by (cases "con_id (con x) = i"; cases "con_id (con y) = i") (simp_all add: compare_clients_def)
  have ids: "map (\<lambda>c. con_id (con c)) (map ?f xs) = map (\<lambda>c. con_id (con c)) xs" for xs by (induction xs) auto
  let ?t = "client_tree s" and ?u = "client_tree (mark_client i s)"
  have t: "avl_invar ?t" "compare_fun ?t = compare_clients" "distinct (map (\<lambda>c. con_id (con c)) (inorder (root ?t)))"
    using assms by (simp_all add: clients_ok_def)
  have u: "balanced (root ?u) = balanced (root ?t)" "tree_length ?u = tree_length ?t" "node_count (root ?u) = node_count (root ?t)"
    "compare_fun ?u = compare_fun ?t"
    by (simp_all add: mark_client_def poke_def)
  have "avl_invar ?u" using t(1) unfolding avl_invar_def u i t(2) sorted_map_same [of compare_clients ?f, OF cmp] .
  then show "clients_ok ?u" using t(2,3) unfolding clients_ok_def i u(4) ids by blast
  show "inorder (root (client_tree (mark_client i s))) = map ?f (inorder (root (client_tree s)))" by (rule i)
qed

section \<open>Every request is answered\<close>

definition sources_ok :: "source_registry \<Rightarrow> bool" where
  "sources_ok reg \<longleftrightarrow> registry_ok reg \<and>
     (\<forall>a s. sheap reg a = Some s \<longrightarrow> clients_ok (client_tree s) \<and> clients_ok (pending_tree s) \<and>
        (\<forall>cl\<in>set (inorder (root (client_tree s))). parser cl \<noteq> None))"

lemma move_total:
  assumes "clients_ok (pending_tree s)" "clients_ok (client_tree s)" "clients_ok (pending_tree d)"
  shows "source_move_clients (listener_count s) s d \<noteq> None"
proof -
  have d: "avl_invar (pending_tree d)" "compare_fun (pending_tree d) = compare_clients" using assms(3) by (simp_all add: clients_ok_def)
  have f: "length (inorder (root (pending_tree s))) \<le> listener_count s" "length (inorder (root (client_tree s))) \<le> listener_count s"
    by (simp_all add: listener_count_def)
  obtain p' d1 n where 1: "move_loop (listener_count s) (\<not> has_con s) (pending_tree s) (pending_tree d) 0 = Some (p', d1, n)"
    "avl_invar d1" "compare_fun d1 = compare_clients"
    using move_loop_all [OF assms(1) d f(1)] by blast
  obtain c' d2 m where 2: "move_loop (listener_count s) (\<not> has_con s) (client_tree s) d1 n = Some (c', d2, m)"
    using move_loop_all [OF assms(2) 1(2,3) f(2)] by blast
  show ?thesis unfolding source_move_clients_def 1(1) option.case prod.case 2 by simp
qed

lemma source_lookup: "registry_ok reg \<Longrightarrow> source_find_mount_raw reg (Some m) = Some a \<Longrightarrow> \<exists>s. sheap reg a = Some s \<and> smount s = m"
  using tree_contents_Some [of emount "source_tree reg" m] find_raw_contents [of reg m]
  by (auto simp: mount_of_def registry_ok_def store_ok_def)

lemma mount_request_total:
  assumes "sources_ok (wregistry w)" "sheap (wregistry w) a = Some s"
  shows "admin_handle_mount_request c client p a s command w \<noteq> None"
proof -
  have s: "clients_ok (client_tree s)" "clients_ok (pending_tree s)" "\<forall>cl\<in>set (inorder (root (client_tree s))). parser cl \<noteq> None"
    using assms by (auto simp: sources_ok_def)
  have move: "command_move_clients c client p a s r w \<noteq> None" for r
  proof (cases "httpp_get_query_param p ''destination''")
    case None
    then show ?thesis by (simp add: command_move_clients_def)
  next
    case (Some x)
    show ?thesis
    proof (cases "source_find_mount (fnmatch (ac_env c)) (wconfig w) (wregistry w) (Some x)")
      case None
      then show ?thesis using Some by (simp add: command_move_clients_def)
    next
      case (Some b)
      then obtain d where d: "sheap (wregistry w) b = Some d" using find_mount_heap unfolding source_find_mount_def by fastforce
      then have "source_move_clients (listener_count s) s d \<noteq> None" using move_total s assms(1) by (auto simp: sources_ok_def)
      then show ?thesis using Some d \<open>httpp_get_query_param p ''destination'' = _\<close>
        by (auto simp: command_move_clients_def Let_def)
    qed
  qed
  show ?thesis using move s(3)
    by (cases command) (auto simp: admin_handle_mount_request_def command_stats_def command_fallback_def command_metadata_def
        command_shoutcast_metadata_def command_show_listeners_def command_kill_client_def command_kill_source_def command_manageauth_def
        command_updatemetadata_def command_require_def Let_def split: option.split)
qed

lemma run_mount_total: "sources_ok (wregistry w) \<Longrightarrow> run_mount_command c client p m command w \<noteq> None"
  using mount_request_total [of w _ _ c client p command] source_lookup [of "wregistry w" m]
  by (auto simp: run_mount_command_def sources_ok_def split: option.splits)

definition short_mounts :: "stats \<Rightarrow> bool" where
  "short_mounts s \<longleftrightarrow> (\<forall>x\<in>set (inorder (root (source_stats s))). source_hidden x = 0 \<longrightarrow> length (source_name x) < 4094)"

lemma streams_total: "short_mounts s \<Longrightarrow> stats_get_streams s \<noteq> None"
  using streams_loop_spec [of "inorder (root (source_stats s))" "[]" 4096 "[]"]
  by (auto simp: short_mounts_def stats_get_streams_def STREAMLIST_BLKSIZE_def)

lemma general_total: "short_mounts (ac_stats c) \<Longrightarrow> admin_handle_general_request c client command w \<noteq> None"
  using streams_total [of "ac_stats c"]
  by (cases command) (auto simp: admin_handle_general_request_def command_stats_def list_mounts_def command_list_mounts_def
      split: option.splits sum.splits prod.splits if_splits)

lemma admin_run_total:
  assumes "parser client = Some p" "auths_live w" "sources_ok (wregistry w)" "short_mounts (ac_stats c)"
  shows "admin_run c client p command w \<noteq> None"
proof -
  have m3u: "command_buildm3u c client p m w \<noteq> None" for m
    by (simp add: command_buildm3u_def command_require_def split: option.split prod.split)
  have src: "client_check_source_auth (ac_env c) client m w \<noteq> None" for m by (rule client_check_source_auth_total [OF assms(2,1)])
  have gen: "admin_handle_general_request c client cmd w \<noteq> None" for cmd by (rule general_total [OF assms(4)])
  have mount: "run_mount_command c client p m command w1 \<noteq> None"
    if "client_check_source_auth (ac_env c) client m w = Some (r, w1)" for m r w1
    using run_mount_total [of w1] client_check_source_auth_frame [OF that] assms(3) by simp
  note here = run_mount_total [OF assms(3)]
  show ?thesis
  proof (cases "httpp_get_query_param p ''mount''")
    case None
    then show ?thesis using gen [of command] gen [of COMMAND_PLAINTEXT_LISTSTREAM] by (simp add: admin_run_def)
  next
    case (Some m)
    obtain r w1 where s: "client_check_source_auth (ac_env c) client m w = Some (r, w1)" using src [of m] by auto
    show ?thesis using m3u [of m] mount [OF s] here [of c client p m command] by (simp add: admin_run_def Some s)
  qed
qed

section \<open>Complete replies\<close>

text \<open>The headers in front of a document.\<close>

definition xml_headers :: "admin_ctx \<Rightarrow> world \<Rightarrow> string" where
  "xml_headers c w = reply_text (fnmatch (ac_env c)) (wconfig w) (date_line (ac_env c)) False 200 None (Some ''text/xml'') (Some ''utf-8'') None None"

lemma build_xml_headers:
  "util_http_build_header (fnmatch (ac_env c)) (wconfig w) (date_line (ac_env c)) (Some []) n 0 False 200 None (Some ''text/xml'') (Some ''utf-8'') None None =
     (int (length (xml_headers c w)), take (n - 1) (xml_headers c w))"
  by (simp add: util_http_build_header_def snprintf_def xml_headers_def)

lemma length_line_fits:
  "len < 2 ^ 31 \<Longrightarrow> length (''Content-Length: '' @ fmt_d (int len) @ [CR, LF, CR, LF] @ buff) \<le> length buff + 40"
  using length_fmt_d [of "int len" 10] by simp

text \<open>A server with one running source, for examples.\<close>

definition demo_ctx :: admin_ctx where
  "demo_ctx =
     \<lparr>ac_env = demo_env True, ac_info = (\<lambda>_. \<lparr>si_client = None, si_contenttype = None, si_shoutcast_compat = False, si_set_tag = False\<rparr>),
      ac_stats = demo_mounts, ac_dump = (\<lambda>_. ''<icestats/>''), ac_hostname = ''host'', ac_port = 8000, ac_user_result = (\<lambda>_. AUTH_OK),
      ac_user_list = (\<lambda>_. [])\<rparr>"

definition demo_source :: source where
  "demo_source = (source_new ''/live'')\<lparr>srunning := True, client_tree := tree_insert (avl_tree_new compare_clients) (demo_client\<lparr>parser := Some (httpp_initialize [])\<rparr>)\<rparr>"

definition demo_server :: world where
  "demo_server = demo_world\<lparr>wregistry := \<lparr>source_tree = tree_insert (avl_tree_new source_compare_sources) \<lparr>emount = ''/live'', eaddr = 1\<rparr>,
     sheap = [1 \<mapsto> demo_source]\<rparr>\<rparr>"

definition mount_request :: http_parser where
  "mount_request = httpp_set_query_param (httpp_initialize []) ''mount'' ''/live''"

lemma mount_request_mount: "httpp_get_query_param mount_request ''mount'' = Some ''/live''"
  by code_simp

lemma demo_client_tree:
  "inorder (root (client_tree demo_source)) = [demo_client\<lparr>parser := Some (httpp_initialize [])\<rparr>]" "clients_ok (client_tree demo_source)"
  "clients_ok (pending_tree demo_source)" "smount demo_source = ''/live''"
proof -
  have new: "clients_ok (avl_tree_new compare_clients)" by (simp add: clients_ok_def avl_tree_new_def avl_invar_def)
  then have t: "avl_invar (avl_tree_new compare_clients)" "key_compare (compare_fun (avl_tree_new compare_clients :: client avl_tree))"
    using compare_clients_ok by (simp_all add: clients_ok_def)
  show i: "inorder (root (client_tree demo_source)) = [demo_client\<lparr>parser := Some (httpp_initialize [])\<rparr>]"
    by (simp add: demo_source_def tree_insert_def avl_insert_def avl_tree_new_def avl_node_new_def)
  show "clients_ok (client_tree demo_source)"
    using tree_insert_ok(1,2) [OF t(2,1), of "demo_client\<lparr>parser := Some (httpp_initialize [])\<rparr>"] new i
    by (simp add: clients_ok_def demo_source_def)
  show "clients_ok (pending_tree demo_source)" "smount demo_source = ''/live''" using new by (simp_all add: demo_source_def source_new_def)
qed

lemma demo_registry: "sources_ok (wregistry demo_server)"
proof -
  have s: "avl_invar (avl_tree_new source_compare_sources)" "key_compare (compare_fun (avl_tree_new source_compare_sources :: source_entry avl_tree))"
    using strcmp_field_compare [of emount] by (simp_all add: avl_invar_def avl_tree_new_def source_compare_sources_def [abs_def])
  have i: "inorder (root (tree_insert (avl_tree_new source_compare_sources) \<lparr>emount = ''/live'', eaddr = 1\<rparr>)) = [\<lparr>emount = ''/live'', eaddr = 1\<rparr>]"
    by (simp add: tree_insert_def avl_insert_def avl_tree_new_def avl_node_new_def)
  have e: "store_ok emount (avl_tree_new source_compare_sources)" "tree_contents emount (avl_tree_new source_compare_sources) ''/live'' = None"
    by (simp_all add: store_ok_def avl_tree_new_def avl_invar_def compare_entry tree_contents_None)
  have "store_ok emount (tree_insert (avl_tree_new source_compare_sources) \<lparr>emount = ''/live'', eaddr = 1\<rparr>)"
    by (rule store_insert(1)) (use e in simp_all)
  then show ?thesis using demo_client_tree i by (auto simp: sources_ok_def registry_ok_def demo_server_def split: if_splits)
qed

lemma demo_find: "source_find_mount_raw (wregistry demo_server) (Some ''/live'') = Some 1"
  by (simp add: source_find_mount_raw_def demo_server_def tree_insert_def avl_insert_def avl_tree_new_def avl_node_new_def)

section \<open>Properties\<close>

text \<open>
  C3: No command is carried out for a client that may not give it. Without the admin password, the
  password of the source for a command on a mount, or the relay password for the list of mounts, no
  source, user or tag changes, and the client is refused or handed to an authenticator; the playlist
  command, which shows nothing but what the request names, is the only one that is open to all.
\<close>

theorem admin_authorised:
  assumes "parser client = Some p" and "admin_handle_request c client u w = Some (w', calls, reply)"
    and "\<forall>p'. admin_parser c client p (admin_command u) w = Some p' \<longrightarrow> \<not> permitted c client p' (admin_command u) w"
  shows "wregistry w' = wregistry w \<and> wconfig w' = wconfig w \<and> calls = [] \<and> (admin_command u = COMMAND_BUILDM3U \<or> refused c reply)"
proof -
  consider "w' = w" "calls = []" "refused c reply"
    | p' where "admin_parser c client p (admin_command u) w = Some p'"
      "admin_run c (client\<lparr>parser := Some p'\<rparr>) p' (admin_command u) w = Some (w', calls, reply)"
    using admin_handle_run [OF assms(1,2)] by auto
  then show ?thesis
  proof cases
    case 1
    then show ?thesis by simp
  next
    case 2
    with assms(3) have "\<not> permitted c client p' (admin_command u) w" by blast
    from admin_run_refused [OF 2(2) this] show ?thesis .
  qed
qed

theorem admin_authorised_witness:
  "\<exists>w' calls reply. admin_handle_request demo_ctx (demo_client\<lparr>parser := Some mount_request\<rparr>) ''/admin/killsource'' demo_server = Some (w', calls, reply) \<and>
     wregistry w' = wregistry demo_server \<and> calls = []"
proof -
  let ?c = "demo_client\<lparr>parser := Some mount_request\<rparr>"
  have cmd: "admin_command ''/admin/killsource'' = COMMAND_RAW_KILL_SOURCE" by (simp add: admin_command_def admin_get_command_def)
  have none: "httpp_getvar mount_request ''authorization'' = None" "httpp_getvar mount_request HTTPP_VAR_PROTOCOL = None" by code_simp+
  have pass: "check_pass_http mount_request x y = 0" for x y using none(1) by (simp add: check_pass_http_def)
  have adm: "connection_check_admin_pass (wconfig demo_server) mount_request = 0" using pass none(2)
    by (simp add: connection_check_admin_pass_def split: option.split)
  have chk: "\<not> 0 < connection_check_pass (wconfig demo_server) mount_request x y" for x y
    using pass none(2) by (simp add: connection_check_pass_def demo_server_def demo_world_def demo_config_def split: option.split)
  have src: "client_check_source_auth (ac_env demo_ctx) ?c ''/live'' demo_server \<noteq> Some (0, w1)" for w1
    using chk by (auto simp: client_check_source_auth_def Let_def split: option.splits)
  have denied: "\<forall>p'. admin_parser demo_ctx ?c mount_request (admin_command ''/admin/killsource'') demo_server = Some p' \<longrightarrow>
      \<not> permitted demo_ctx ?c p' (admin_command ''/admin/killsource'') demo_server"
    unfolding cmd using adm src mount_request_mount
    by (simp add: admin_parser_def permitted_def) (simp add: demo_client_def)
  have p: "parser ?c = Some mount_request" by simp
  have live: "auths_live demo_server" by (simp add: auths_live_def demo_server_def demo_world_def demo_config_def demo_mount_def)
  have "short_mounts (ac_stats demo_ctx)" by (simp add: short_mounts_def demo_ctx_def demo_mounts_def avl_node_new_def)
  from admin_run_total [OF p live demo_registry this, of COMMAND_RAW_KILL_SOURCE]
  obtain w' calls reply where r: "admin_handle_request demo_ctx ?c ''/admin/killsource'' demo_server = Some (w', calls, reply)"
    unfolding admin_handle_eq [OF p] cmd by (auto simp: admin_parser_def strncmp_def)
  from admin_authorised [OF p r denied] r show ?thesis by blast
qed

text \<open>
  C17: A command changes at most the source of the mount it is for, and the destination when listeners
  are moved: every other source and the tree of mounts stay as they are, the registry stays sound
  with the same mounts, and the configuration is untouched.
\<close>

theorem admin_confined:
  assumes "parser client = Some p" and "registry_ok (wregistry w)" and "admin_handle_request c client u w = Some (w', calls, reply)"
  shows "registry_ok (wregistry w') \<and> mount_of (wregistry w') = mount_of (wregistry w) \<and> wconfig w' = wconfig w \<and>
    (\<forall>b. sheap (wregistry w') b \<noteq> sheap (wregistry w) b \<longrightarrow>
       (\<exists>p' m. admin_parser c client p (admin_command u) w = Some p' \<and> httpp_get_query_param p' ''mount'' = Some m \<and>
          (mount_of (wregistry w) m = Some b \<or> b \<in> move_target c p' w)))"
proof -
  consider "w' = w" | p' where "admin_parser c client p (admin_command u) w = Some p'"
      "admin_run c (client\<lparr>parser := Some p'\<rparr>) p' (admin_command u) w = Some (w', calls, reply)"
    using admin_handle_run [OF assms(1,3)] by auto
  then show ?thesis
  proof cases
    case 1
    with assms(2) show ?thesis by simp
  next
    case 2
    note r = admin_run_confined [OF 2(2)]
    show ?thesis
    proof (cases "wregistry w' = wregistry w")
      case True
      with r assms(2) show ?thesis by simp
    next
      case False
      with r obtain m a where m: "httpp_get_query_param p' ''mount'' = Some m" "source_find_mount_raw (wregistry w) (Some m) = Some a"
        "confined (insert a (move_target c p' w)) (wregistry w) (wregistry w')" by blast
      have "mount_of (wregistry w) m = Some a" using m(2) find_raw_contents [OF assms(2)] by simp
      have "mount_of (wregistry w) m = Some b \<or> b \<in> move_target c p' w" if "sheap (wregistry w') b \<noteq> sheap (wregistry w) b" for b
        using that m(3) \<open>mount_of (wregistry w) m = Some a\<close> by (auto simp: confined_def)
      with confined_ok [OF m(3) assms(2)] r 2(1) m(1) show ?thesis by blast
    qed
  qed
qed

theorem admin_confined_witness:
  "\<exists>w' calls reply. admin_handle_request demo_ctx (demo_client\<lparr>parser := Some mount_request, authenticated := True\<rparr>) ''/admin/killsource'' demo_server
      = Some (w', calls, reply) \<and> registry_ok (wregistry w') \<and> map_option srunning (sheap (wregistry w') 1) = Some False"
proof -
  let ?c = "demo_client\<lparr>parser := Some mount_request, authenticated := True\<rparr>"
  have p: "parser ?c = Some mount_request" by simp
  have cmd: "admin_command ''/admin/killsource'' = COMMAND_RAW_KILL_SOURCE" by (simp add: admin_command_def admin_get_command_def)
  have run: "srunning demo_source" by (simp add: demo_source_def)
  have heap: "sheap (wregistry demo_server) 1 = Some demo_source" by (simp add: demo_server_def)
  have auth: "authenticated ?c" by simp
  define cl where "cl = ?c"
  have "run_mount_command demo_ctx cl mount_request ''/live'' COMMAND_RAW_KILL_SOURCE demo_server =
      command_kill_source demo_ctx cl 1 demo_source RAW demo_server"
    unfolding run_mount_command_def demo_find option.case heap by (simp add: run admin_handle_mount_request_def)
  then have run_cmd: "admin_run demo_ctx cl mount_request COMMAND_RAW_KILL_SOURCE demo_server = command_kill_source demo_ctx cl 1 demo_source RAW demo_server"
    using auth by (simp add: admin_run_def mount_request_mount cl_def)
  have pc: "parser cl = Some mount_request" by (simp add: cl_def)
  have "admin_parser demo_ctx cl mount_request COMMAND_RAW_KILL_SOURCE demo_server = Some mount_request" by (simp add: admin_parser_def)
  then have "admin_handle_request demo_ctx cl ''/admin/killsource'' demo_server = command_kill_source demo_ctx cl 1 demo_source RAW demo_server"
    unfolding admin_handle_eq [OF pc] cmd same_parser [OF pc] by (simp add: strncmp_def run_cmd same_parser [OF pc])
  then obtain reply where r: "admin_handle_request demo_ctx ?c ''/admin/killsource'' demo_server =
      Some (put_source 1 (demo_source\<lparr>srunning := False\<rparr>) demo_server, [], reply)"
    unfolding cl_def command_kill_source_def Let_def by blast
  have "registry_ok (wregistry demo_server)" using demo_registry by (simp add: sources_ok_def)
  from admin_confined [OF p this r] have "registry_ok (wregistry (put_source 1 (demo_source\<lparr>srunning := False\<rparr>) demo_server))" by blast
  moreover have "map_option srunning (sheap (wregistry (put_source 1 (demo_source\<lparr>srunning := False\<rparr>) demo_server)) 1) = Some False"
    by (simp add: put_source_def)
  ultimately show ?thesis using r by blast
qed

text \<open>
  A document is sent completely, whatever its size and that of the headers: the buffer is made
  large enough, and the reply is the headers, the length of the document and the document.
\<close>

lemma admin_response_complete:
  assumes "length (ac_dump c doc) < 2 ^ 31"
  shows "\<exists>cl. admin_send_response c client RAW sheet doc w = Sent (Queued cl) \<and>
    rdata cl = xml_headers c w @ ''Content-Length: '' @ fmt_d (int (length (ac_dump c doc))) @ [CR, LF, CR, LF] @ ac_dump c doc \<and>
    rlen cl = length (rdata cl) \<and> respcode cl = 200"
proof -
  let ?b = "ac_dump c doc"
  let ?h = "xml_headers c w"
  let ?t = "''Content-Length: '' @ fmt_d (int (length ?b)) @ [CR, LF, CR, LF] @ ?b"
  have t: "length ?t \<le> length ?b + 40" by (rule length_line_fits [OF assms])
  define size where "size = (if int (length ?b) + 1024 < 4096 then 4096 else int (length ?b) + 1024)"
  define final where "final = (if size < int (length ?b) + int (length ?h) + 64 then int (length ?h) + int (length ?b) + 64 else size)"
  have f: "int (length ?b) + int (length ?h) + 64 \<le> final" by (simp add: final_def)
  then have fit: "take (nat final - 1) ?h = ?h" "take (nat (final - int (length ?h)) - 1) ?t = ?t"
    using t by (simp_all only: take_all_iff)
  have "admin_send_response c client RAW sheet doc w = Sent (Queued ((client_set_queue client None)\<lparr>rdata := ?h @ ?t,
      rlen := nat (int (length ?h) + int (length ?t)), respcode := 200\<rparr>))"
    unfolding admin_send_response_def admin_response.case Let_def build_xml_headers size_def [symmetric]
    using fit by (simp add: final_def snprintf_def split: if_splits)
  then show ?thesis by (simp add: nat_add_distrib)
qed



text \<open>
  C40: Killing a client flags exactly the listener whose connection has the number the request names,
  for the source thread to drop it; the other listeners, their order and the tree stay as they
  are. A number no listener has changes nothing.
\<close>

theorem kill_client_spec:
  assumes "clients_ok (client_tree s)" and "httpp_get_query_param p ''id'' = Some idtext"
  shows "\<exists>w' reply. command_kill_client c client p a s response w = Some (w', [], reply) \<and>
    (if \<exists>cl\<in>set (inorder (root (client_tree s))). con_id (con cl) = word_of_int (atoi32 idtext)
     then \<exists>s'. sheap (wregistry w') a = Some s' \<and> clients_ok (client_tree s') \<and> pending_tree s' = pending_tree s \<and>
       inorder (root (client_tree s')) = map (\<lambda>cl. if con_id (con cl) = word_of_int (atoi32 idtext)
           then cl\<lparr>con := (con cl)\<lparr>con_error := True\<rparr>\<rparr> else cl) (inorder (root (client_tree s)))
     else w' = w)"
proof -
  let ?i = "word_of_int (atoi32 idtext) :: u64"
  let ?fake = "client\<lparr>con := (con client)\<lparr>con_id := ?i\<rparr>\<rparr>"
  note f = find_client_spec [OF assms(1), of ?fake]
  show ?thesis
  proof (cases "source_find_client s ?fake")
    case None
    with f have "\<not> (\<exists>cl\<in>set (inorder (root (client_tree s))). con_id (con cl) = ?i)" by simp
    then show ?thesis using None assms(2) by (simp add: command_kill_client_def command_require_def Let_def)
  next
    case (Some cl)
    with f have "\<exists>cl\<in>set (inorder (root (client_tree s))). con_id (con cl) = ?i" by simp
    moreover have "pending_tree (mark_client ?i s) = pending_tree s" by (simp add: mark_client_def)
    ultimately show ?thesis using Some assms(2) mark_client_ok [OF assms(1), of ?i]
      by (simp add: command_kill_client_def command_require_def Let_def put_source_def)
  qed
qed

theorem kill_client_spec_witness:
  "\<exists>w' reply s'. command_kill_client demo_ctx demo_client (httpp_set_query_param (httpp_initialize []) ''id'' ''0'') 1 demo_source RAW demo_server
      = Some (w', [], reply) \<and> sheap (wregistry w') 1 = Some s' \<and> map (\<lambda>cl. con_error (con cl)) (inorder (root (client_tree s'))) = [True]"
proof -
  have i: "httpp_get_query_param (httpp_set_query_param (httpp_initialize []) ''id'' ''0'') ''id'' = Some ''0''" by code_simp
  have z: "word_of_int (atoi32 ''0'') = (0 :: u64)" by code_simp
  have "con_id (con (demo_client\<lparr>parser := Some (httpp_initialize [])\<rparr>)) = 0" by (simp add: demo_client_def)
  with kill_client_spec [OF demo_client_tree(2) i, of demo_ctx demo_client 1 RAW demo_server] show ?thesis
    unfolding z demo_client_tree(1) by auto
qed

text \<open>
  C27: A slave's request for the list of mounts, from the bytes it sends to the answer: the request
  parses, and the admin interface answers it with the plain list exactly when the user and
  password are those the master has for relays, and refuses it otherwise.
\<close>

theorem slave_served:
  assumes "is_cstr user" "is_cstr pass" "CHR '':'' \<notin> set user"
  shows "\<exists>p'. httpp_parse (httpp_initialize []) (master_request user pass) = Some (1, p') \<and>
    uri p' = Some ''/admin/streamlist.txt'' \<and>
    (\<forall>c client w. admin_handle_request c (client\<lparr>parser := Some p'\<rparr>) ''/admin/streamlist.txt'' w =
       (if relay_username (wconfig w) = Some user \<and> relay_password (wconfig w) = Some pass
        then list_mounts c (client\<lparr>parser := Some p'\<rparr>) PLAINTEXT w
        else Some (w, [], send_401_reply c (client\<lparr>parser := Some p'\<rparr>) w)))"
proof -
  obtain p' where p': "httpp_parse (httpp_initialize []) (master_request user pass) = Some (1, p')" "uri p' = Some ''/admin/streamlist.txt''"
      "httpp_get_query_param p' ''mount'' = None"
    and chk: "\<forall>config. connection_check_relay_pass config p' =
       (if relay_username config = Some user \<and> relay_password config = Some pass then 1 else 0)"
    using slave_admitted [OF assms] by blast
  have cmd: "admin_command ''/admin/streamlist.txt'' = COMMAND_PLAINTEXT_LISTSTREAM" by (simp add: admin_command_def admin_get_command_def)
  have "admin_handle_request c (client\<lparr>parser := Some p'\<rparr>) ''/admin/streamlist.txt'' w =
       (if relay_username (wconfig w) = Some user \<and> relay_password (wconfig w) = Some pass
        then list_mounts c (client\<lparr>parser := Some p'\<rparr>) PLAINTEXT w
        else Some (w, [], send_401_reply c (client\<lparr>parser := Some p'\<rparr>) w))" for c and client :: client and w
  proof -
    have set: "parser (client\<lparr>parser := Some p'\<rparr>) = Some p'" by simp
    show ?thesis unfolding admin_handle_eq [of "client\<lparr>parser := Some p'\<rparr>" p', OF set] cmd
      using p'(3) chk by (simp add: admin_parser_def strncmp_def admin_run_def admin_handle_general_request_def)
  qed
  with p' show ?thesis by blast
qed

theorem slave_served_witness:
  "\<exists>p'. httpp_parse (httpp_initialize []) (master_request ''relay'' ''hackme'') = Some (1, p') \<and>
    admin_handle_request demo_ctx (demo_client\<lparr>parser := Some p'\<rparr>) ''/admin/streamlist.txt'' demo_server =
      Some (demo_server, [], send_401_reply demo_ctx (demo_client\<lparr>parser := Some p'\<rparr>) demo_server)"
proof -
  have "is_cstr ''relay''" "is_cstr ''hackme''" "CHR '':'' \<notin> set ''relay''" by (simp_all add: is_cstr_def NUL_def)
  from slave_served [OF this] obtain p' where p': "httpp_parse (httpp_initialize []) (master_request ''relay'' ''hackme'') = Some (1, p')"
    and s: "\<forall>c client w. admin_handle_request c (client\<lparr>parser := Some p'\<rparr>) ''/admin/streamlist.txt'' w =
       (if relay_username (wconfig w) = Some ''relay'' \<and> relay_password (wconfig w) = Some ''hackme''
        then list_mounts c (client\<lparr>parser := Some p'\<rparr>) PLAINTEXT w
        else Some (w, [], send_401_reply c (client\<lparr>parser := Some p'\<rparr>) w))" by blast
  have "relay_username (wconfig demo_server) = None" by (simp add: demo_server_def demo_world_def demo_config_def)
  with p' s show ?thesis by auto
qed

end
