(* ===== verification/Spec2Isabelle.thy ===== *)
theory Spec2Isabelle
  imports Avl_Props Conn_Handle Mp3_Icy Stats_Run Fserve_Thread Fserve_Files Relay_Props Admin_Props
begin

text \<open>
  A verification of the icecast streaming server (\<open>src/src\<close>, the Checked C port of icecast 2.4).

  \<^bold>\<open>The program.\<close> Icecast accepts connections on its listening sockets (\<open>connection.c\<close>), collects
  the request of every connection in a queue until its blank line has arrived, parses it
  (\<open>httpp/httpp.c\<close>) and dispatches it: a source client with the right password reserves a mount and
  starts to stream (\<open>source.c\<close>); a listener passes the authenticator of its mount (\<open>auth.c\<close>,
  \<open>auth_htpasswd.c\<close>) and is then put on the source of the mount or on one of its fallbacks. The thread of
  a source reads blocks of the stream through a format plugin (\<open>format.c\<close>, \<open>format_mp3.c\<close>), appends
  them to a queue of reference counted buffers (\<open>refbuf.c\<close>) that all listeners of the source share,
  moves every listener along that queue, drops those that fall behind its head and releases what
  nobody needs any more; the MP3 plugin takes metadata out of an incoming stream and interleaves
  it again for the listeners that asked for it. Errors are answered by replies that \<open>client.c\<close> and
  \<open>util.c\<close> print. Files, playlists and prepared answers are sent by the thread of the file server
  (\<open>fserve.c\<close>); requests below \<open>/admin\<close> are commands of the admin interface (\<open>admin.c\<close>). Every part queues
  events for the statistics thread (\<open>stats.c\<close>), which keeps named values, global ones and those of each
  mount, and passes the events on to connections that watch them. A server can be a relay of others
  (\<open>slave.c\<close>): it fetches the list of mounts of a master and connects to each as a listener whose
  connection then is a source. Mounts, listeners, headers, users, address lists, statistics and file
  types are kept in AVL trees (\<open>avl/avl.c\<close>).

  \<^bold>\<open>Theories and sources.\<close>
  \<^item> \<open>Prelude\<close>: collections of facts, machine types, and the contract of a comparison callback
    (locale \<open>key_compare\<close>), which every tree of the server is interpreted for.
  \<^item> \<open>Avl_Node\<close>, \<open>Avl_Insert\<close>, \<open>Avl_Delete\<close>, \<open>Avl_Query\<close> (\<open>avl/avl.c\<close>): nodes with the packed word of
    rank and balance factor; parent pointers are a path from the node to the root. \<open>Avl_Store\<close> states
    the contract of a tree with distinct keys as the locale \<open>keyed_store\<close>, which \<open>avl_entries\<close>
    provides; the request variables (\<open>hv\<close>) and the registry of mounts (\<open>sv\<close>) are interpretations of it.
    \<open>Avl_Props\<close> holds the properties: insertion and deletion keep order, balance and ranks and act on
    the sorted sequence of keys as expected, lookups and cursors read that sequence, and the one
    case in which a rank is left wrong.
  \<^item> \<open>C_String\<close>: the string functions of the C library that the sources call, on lists of characters.
  \<^item> \<open>Httpp\<close>, \<open>Httpp_Request\<close> (\<open>httpp/httpp.c\<close>): header splitting, requests, responses, query strings. A
    null pointer the code would follow is \<open>None\<close>. Shown: no input leads there, printed requests
    parse back, the variables refine a finite map, and the two defects of query parameters.
  \<^item> \<open>Util\<close> (\<open>util.c\<close>): reading a header from a socket, path checks, URL escapes, base64, dictionaries.
    Shown: no path that leaves the root is accepted, round trips, buffer bounds.
  \<^item> \<open>Md5\<close> (\<open>md5.c\<close>): the digest on 32-bit words, equal to a reference written from RFC 1321.
  \<^item> \<open>Htpasswd\<close> (\<open>auth_htpasswd.c\<close>): the password file as a string and the tree of users loaded from it.
    Shown: what adding and deleting a user means for every later login.
  \<^item> \<open>Config\<close> (\<open>cfgfile.c\<close>, \<open>cfgfile.h\<close>): the records of the configuration, lookup of mounts and
    listeners, merging of default mounts. Shell patterns (\<open>fnmatch\<close>) are a parameter.
  \<^item> \<open>Conn_Queue\<close> (\<open>connection.c\<close>): the two linked queues with their tail pointers in an explicit store of
    nodes; locale \<open>fifo\<close> is the contract of the queue of finished requests. \<open>Conn_Access\<close>: listening
    sockets, ban and allow lists, passwords. \<open>Conn_Handle\<close>: framing, Shoutcast logins, dispatch,
    start of a source.
  \<^item> \<open>Reply\<close> (\<open>util.c\<close>) and \<open>Client\<close> (\<open>client.c\<close>): replies printed into buffers of fixed size, and the
    life of a client. Shown: replies parse back, buffers are not exceeded.
  \<^item> \<open>Source\<close> (\<open>source.c\<close>): the registry of mounts as an AVL tree of addresses into a store of sources,
    fallbacks, moving listeners.
  \<^item> \<open>Refbuf\<close> (\<open>refbuf.c\<close>): a heap of reference counted buffers; an access to a freed buffer, or a count
    that is not one at a release that frees, is \<open>None\<close>. \<open>Streaming\<close> (\<open>source.c\<close>, \<open>format.c\<close>): the queue of
    a source, \<open>get_next_buffer\<close>, the senders of a listener, \<open>process_listeners\<close>, the rounds of
    \<open>source_main\<close> and \<open>source_clear_source\<close>, over a record of plugin operations.
  \<^item> \<open>Stream_Safe\<close> states what the streaming code needs of a plugin as the locale \<open>format_contract\<close>,
    extended to \<open>full_contract\<close> in \<open>Stream_Life\<close> by what freeing a plugin has to give back. Inside
    them: the invariant \<open>stream_ok\<close> (the count of a buffer is the number of references the queue,
    the listeners and the plugin hold) survives every operation (\<open>Stream_Frame\<close>, \<open>Stream_Safe\<close>), a round
    of the source thread (\<open>Stream_Round\<close>), a run of any number of rounds and the final clearing
    (\<open>Stream_Life\<close>), and none of them touches a freed buffer.
  \<^item> \<open>Mp3\<close>, \<open>Mp3_Read\<close> (\<open>format_mp3.c\<close>): the plugin, with metadata set by the admin interface or by the
    stream. \<open>Mp3_Stream\<close> interprets \<open>full_contract\<close> for it and states what follows for an MP3 source:
    no access to freed memory, nothing leaked at the end, slow listeners are dropped. \<open>Mp3_Icy\<close>
    defines a decoder of interleaved streams as a specification: the incoming filter is that
    decoder, what a listener receives decodes to the audio of the queue, and both together relay
    a stream unchanged.
  \<^item> \<open>Auth\<close> (\<open>auth.c\<close>): authenticators with reference counts and job queues. The entry points, the
    thread's rounds and reloads are steps of the relation \<open>auth_step\<close>; invariants hold in every state
    \<open>auth_steps\<close> reaches.
  \<^item> \<open>Stats\<close> (\<open>stats.c\<close>): the trees of values, the making and applying of events, connections, lists and
    documents. \<open>Stats_Spec\<close> reads the trees as a map from a source and a name to a value, and shows
    that each event refines an update of that map. \<open>Stats_Run\<close>: any interleaving of threads that queue
    events, of the statistics thread and of connections; counters, and what a connection learns.
  \<^item> \<open>Fserve\<close> (\<open>fserve.c\<close>): the table of file types, requests with ranges, playlists, and the record of
    the thread. \<open>Fserve_Thread\<close>: its runs as steps, with what a client has been sent. \<open>Fserve_Files\<close>:
    the table is the one the words of the file describe; what a request for a file is answered.
  \<^item> \<open>Relay\<close> (\<open>slave.c\<close>, \<open>sock_read_line\<close> of \<open>net/sock.c\<close>, \<open>command_list_mounts\<close> of \<open>admin.c\<close>): the list of
    relays, connecting to a relay, the list of mounts that a master sends and a slave reads.
    \<open>Relay_Props\<close>: a list that is sent is the list that is read, up to the size of the buffer.
  \<^item> \<open>Admin\<close> (\<open>admin.c\<close>): commands, checks of passwords, and every handler with its change of the state of
    \<open>Auth\<close> and \<open>Source\<close> and its document, a tree of \<open>xml\<close>. \<open>Admin_Props\<close>: no command without a password,
    none changes another source, every request is answered.

  \<^bold>\<open>Conventions.\<close> Sockets, files, clocks and what an authenticator answers are arguments of the
  operations, so the theorems hold for every behaviour of the environment. An operation takes effect
  as one step, as the code holds the lock of the state it works on. Memory is always available. What the
  server does to the outside (replies, files handed to the file server, joined threads) is a list of
  events in the state. In the streaming theories a tree of clients is the sequence in which the code
  walks it. The bit rate that \<open>format_mp3.c\<close> reads before anything is assigned to it is the
  parameter \<open>junk\<close>. The safety theorems of a run are for listeners that get the plain data; those with
  interleaved metadata are covered, buffer by buffer, by the theorems on \<open>format_mp3_write_buf_to_client\<close>.

  \<^bold>\<open>Loops.\<close> Loops over trees, strings and lists are structural. The walk along the request queue follows
  pointers and takes fuel: one step per queued request and one more is shown to suffice. Moving
  listeners takes a step per listener. The search for fallbacks and for a source with room counts
  down from ten, as the code does, and so do the ten sends per listener and round. A round of the
  source trims and releases at most its whole queue, for which the length of the queue and two more
  steps are enough; a run has one more unit per round. Following the redirects of a relay counts
  down from ten, as in the code. The loops that read lines, of a file of types or of another server,
  terminate by what is left to read. Releasing a buffer releases the chain
  associated with it; chains have length one here, and the bound of 100 is never reached. The filter
  of incoming metadata has a termination proof.

  \<^bold>\<open>Not modelled.\<close> TLS and the variants with \<open>select\<close>; the dump file, the scripts and the settings of a
  source; the Ogg and Matroska plugins; directory listings; reading of the XML configuration; the URL
  authenticator; style sheets; the thread that starts relays with its locks; logging, threads, timing
  and socket wrappers, name resolution, the order of starting and stopping the server. What libxml2
  prints for a document and libxslt makes of it are arguments of the operations that use them. The Ogg
  plugins, the style sheets and the directory listings rest on libraries that are not part of the
  sources.
\<close>

end
